(* ===== verification/Prelude.thy ===== *)
theory Prelude
  imports Complex_Main "HOL-Library.Word" "HOL-Library.Monad_Syntax" "HOL-Library.Multiset"
begin

text \<open>
  Shared vocabulary of the development: machine-integer abbreviations, the
  \<open>option\<close> convention for undefined behaviour, C++ array access, counted loops,
  and the list lemmas the component theories rest on.

  Convention. An operation of the C++ code that may have undefined behaviour (an
  access outside an array, an iterator past the end, a read of an indeterminate
  value) or that may leave through an escaping exception returns an \<open>option\<close>:
  \<open>None\<close> says that the program has no defined result there. Operations whose
  result is always defined return it directly.
\<close>

type_synonym u8 = "8 word"
type_synonym u16 = "16 word"
type_synonym u32 = "32 word"
type_synonym u64 = "64 word"

named_theorems cxx_defs \<open>definitions of the container models, unfolded by the component proofs\<close>
named_theorems total_rules \<open>an operation has a defined result\<close>

section \<open>Array access\<close>

text \<open>\<open>a[i]\<close> as an rvalue and as an assignment target.\<close>

definition arr_get :: "'a list \<Rightarrow> nat \<Rightarrow> 'a option" where
  "arr_get a i = (if i < length a then Some (a ! i) else None)"

definition arr_set :: "'a list \<Rightarrow> nat \<Rightarrow> 'a \<Rightarrow> 'a list option" where
  "arr_set a i v = (if i < length a then Some (a[i := v]) else None)"

lemma arr_get_Some [simp]: "i < length a \<Longrightarrow> arr_get a i = Some (a ! i)"
  by (simp add: arr_get_def)

lemma arr_set_Some [simp]: "i < length a \<Longrightarrow> arr_set a i v = Some (a[i := v])"
  by (simp add: arr_set_def)

lemma arr_get_None [simp]: "length a \<le> i \<Longrightarrow> arr_get a i = None"
  by (simp add: arr_get_def)

lemma arr_set_None [simp]: "length a \<le> i \<Longrightarrow> arr_set a i v = None"
  by (simp add: arr_set_def)

lemma arr_get_eq_Some_iff: "arr_get a i = Some v \<longleftrightarrow> i < length a \<and> a ! i = v"
  by (simp add: arr_get_def)

lemma arr_set_eq_Some_iff: "arr_set a i v = Some b \<longleftrightarrow> i < length a \<and> b = a[i := v]"
  by (auto simp: arr_set_def)

section \<open>Integers\<close>

text \<open>
  The result of an operation on \<open>int\<close>: signed overflow is undefined.  \<open>minv\<close> and
  \<open>maxv\<close> are the templates of \<open>data_structures.cpp\<close>; at \<open>unsigned\<close> they compare as
  unsigned words.
\<close>

definition i32 :: "int \<Rightarrow> int option" where
  "i32 n = (if - (2 ^ 31) \<le> n \<and> n < 2 ^ 31 then Some n else None)"

lemma i32_Some [simp]: "- 2147483648 \<le> n \<Longrightarrow> n < 2147483648 \<Longrightarrow> i32 n = Some n"
  by (simp add: i32_def)

definition minv :: "'a::ord \<Rightarrow> 'a \<Rightarrow> 'a" where
  "minv a b = (if a < b then a else b)"

definition maxv :: "'a::ord \<Rightarrow> 'a \<Rightarrow> 'a" where
  "maxv a b = (if b < a then a else b)"

lemma minv_min: "minv a b = min a (b :: 'a::linorder)"
  by (auto simp: minv_def min_def)

lemma maxv_max: "maxv a b = max a (b :: 'a::linorder)"
  by (auto simp: maxv_def max_def)

lemma uint_minv: "uint (minv a b) = min (uint a) (uint (b :: 'a::len word))"
  by (simp add: minv_def word_less_def min_def)

lemma uint_maxv: "uint (maxv a b) = max (uint a) (uint (b :: 'a::len word))"
  by (simp add: maxv_def word_less_def max_def)

lemma sint_small: "uint w < 2 ^ 31 \<Longrightarrow> sint (w :: u32) = uint w"
proof -
  assume w: "uint w < 2 ^ 31"
  have "- (2 ^ 31) \<le> uint w" by (rule order.trans[OF _ uint_nonnegative]) simp
  then show ?thesis using w by (simp add: sint_uint signed_take_bit_int_eq_self)
qed

lemma sint_diff_small:
  assumes "uint a < 2 ^ 31" and "uint (b :: u32) < 2 ^ 31"
  shows "sint (a - b) = uint a - uint b"
proof -
  have "0 \<le> uint a" "0 \<le> uint b" by simp_all
  then have "- (2 ^ 31) \<le> uint a - uint b" "uint a - uint b < 2 ^ 31" using assms by linarith+
  then show ?thesis
    by (simp add: sint_word_ariths sint_small[OF assms(1)] sint_small[OF assms(2)] signed_take_bit_int_eq_self)
qed

text \<open>\<open>a + b\<close> and \<open>a - b\<close> on \<open>size_t\<close>, which wrap.\<close>

definition zadd :: "nat \<Rightarrow> nat \<Rightarrow> nat" where
  "zadd a b = (a + b) mod 2 ^ 64"

definition zsub :: "nat \<Rightarrow> nat \<Rightarrow> nat" where
  "zsub a b = nat ((int a - int b) mod 2 ^ 64)"

lemma zadd_small [simp]: "a + b < 2 ^ 64 \<Longrightarrow> zadd a b = a + b"
  by (simp add: zadd_def)

lemma zsub_le [simp]: "b \<le> a \<Longrightarrow> a < 2 ^ 64 \<Longrightarrow> zsub a b = a - b"
proof -
  assume "b \<le> a" "a < 2 ^ 64"
  then have "int a - int b < 2 ^ 64" "0 \<le> int a - int b" by (auto simp: nat_less_numeral_power_cancel_iff)
  then have "(int a - int b) mod 2 ^ 64 = int a - int b" by (rule mod_pos_pos_trivial[rotated])
  then show ?thesis by (simp add: zsub_def)
qed

section \<open>Decimal numerals\<close>

text \<open>The digits \<open>%u\<close> and \<open>std::to_string\<close> print.\<close>

fun decimal :: "nat \<Rightarrow> string" where
  "decimal n = (if n < 10 then [char_of (48 + n)] else decimal (n div 10) @ [char_of (48 + n mod 10)])"

declare decimal.simps [simp del]

lemma decimal_length: "length (decimal n) \<le> Suc k \<longleftrightarrow> n < 10 ^ Suc k"
proof (induction k arbitrary: n)
  case 0
  have "decimal n \<noteq> []" for n by (subst decimal.simps) simp
  then show ?case by (subst decimal.simps) (auto simp: not_le Suc_le_eq)
next
  case (Suc k)
  show ?case
  proof (cases "n < 10")
    case True
    have "(10 :: nat) \<le> 10 ^ Suc (Suc k)" by simp
    then have "n < 10 ^ Suc (Suc k)" using True by linarith
    then show ?thesis using True by (subst decimal.simps) simp
  next
    case False
    then have "length (decimal n) = Suc (length (decimal (n div 10)))" by (subst decimal.simps) simp
    moreover have "n div 10 < 10 ^ Suc k \<longleftrightarrow> n < 10 ^ Suc (Suc k)"
      by (simp add: div_less_iff_less_mult mult.commute)
    ultimately show ?thesis using Suc.IH[of "n div 10"] by simp
  qed
qed

section \<open>Counted loops\<close>

text \<open>
  \<open>for_each is body s\<close> runs \<open>body i\<close> on the state for every \<open>i\<close> of the
  list, in order, and stops at the first iteration without a defined result.
\<close>

fun for_each :: "'i list \<Rightarrow> ('i \<Rightarrow> 's \<Rightarrow> 's option) \<Rightarrow> 's \<Rightarrow> 's option" where
  "for_each [] body s = Some s"
| "for_each (i # is) body s = Option.bind (body i s) (for_each is body)"

lemma for_each_append:
  "for_each (is @ js) body s = Option.bind (for_each is body s) (for_each js body)"
  by (induction "is" arbitrary: s) (auto split: bind_splits)

lemma for_each_cong [fundef_cong]:
  assumes "is = js" and "s = t" and "\<And>i s. i \<in> set js \<Longrightarrow> f i s = g i s"
  shows "for_each is f s = for_each js g t"
  using assms(3) unfolding assms(1,2)
proof (induction js arbitrary: t)
  case (Cons j js)
  then show ?case by (cases "g j t") auto
qed simp

text \<open>The loop rule: an invariant that every iteration keeps, with a defined result.\<close>

lemma for_each_inv:
  assumes "P s" and "\<And>i s. i \<in> set is \<Longrightarrow> P s \<Longrightarrow> \<exists>s'. body i s = Some s' \<and> P s'"
  shows "\<exists>s'. for_each is body s = Some s' \<and> P s'"
  using assms
proof (induction "is" arbitrary: s)
  case (Cons i "is")
  from Cons.prems obtain s' where s': "body i s = Some s'" "P s'"
    by (meson list.set_intros(1))
  moreover have "\<exists>s''. for_each is body s' = Some s'' \<and> P s''"
    by (rule Cons.IH[OF s'(2)]) (use Cons.prems(2) in auto)
  ultimately show ?case by simp
qed simp

lemma for_each_pres:
  assumes "for_each is body s = Some s'" and "P s"
    and "\<And>i s s'. i \<in> set is \<Longrightarrow> P s \<Longrightarrow> body i s = Some s' \<Longrightarrow> P s'"
  shows "P s'"
  using assms
proof (induction "is" arbitrary: s)
  case (Cons i "is")
  then obtain t where t: "body i s = Some t" "for_each is body t = Some s'" by (cases "body i s") auto
  then have "P t" using Cons.prems(3)[of i s t] Cons.prems(2) by auto
  then show ?case using Cons.IH[OF t(2)] Cons.prems(3) by auto
qed simp

lemma for_each_fold:
  assumes "\<And>i s. i \<in> set is \<Longrightarrow> body i s = Some (h i s)"
  shows "for_each is body s = Some (fold h is s)"
  using assms by (induction "is" arbitrary: s) auto

text \<open>A nested pair of loops is one loop over the pairs in row-major order.\<close>

definition row_major :: "int \<Rightarrow> int \<Rightarrow> int \<Rightarrow> int \<Rightarrow> (int \<times> int) list" where
  "row_major y1 y2 x1 x2 = concat (map (\<lambda>i. map (\<lambda>j. (i, j)) [x1..x2 - 1]) [y1..y2 - 1])"

lemma for_each_map: "for_each (map g is) body s = for_each is (\<lambda>i. body (g i)) s"
proof (induction "is" arbitrary: s)
  case (Cons i "is")
  then show ?case by (cases "body (g i) s") auto
qed simp

lemma for_each_nested:
  "for_each is (\<lambda>i. for_each (js i) (\<lambda>j. body i j)) s
   = for_each (concat (map (\<lambda>i. map (\<lambda>j. (i, j)) (js i)) is)) (\<lambda>(i, j). body i j) s"
proof (induction "is" arbitrary: s)
  case (Cons i "is")
  show ?case
    by (simp add: for_each_append for_each_map Cons.IH[abs_def])
qed simp

lemma set_row_major [simp]:
  "set (row_major y1 y2 x1 x2) = {(i, j). y1 \<le> i \<and> i < y2 \<and> x1 \<le> j \<and> j < x2}"
  by (auto simp: row_major_def)

lemma distinct_row_major [simp]: "distinct (row_major y1 y2 x1 x2)"
proof -
  have "distinct (concat (map (\<lambda>i. map (Pair i) [x1..x2 - 1]) is))" if "distinct is" for "is" :: "int list"
    using that by (induction "is") (auto simp: distinct_map inj_on_def)
  then show ?thesis by (simp add: row_major_def)
qed

text \<open>
  A loop that rewrites, for each \<open>i\<close>, only cell \<open>ix i\<close> of an array: when the cells
  are pairwise distinct, each is rewritten once from its original content and every
  other cell keeps its content.
\<close>

lemma for_each_cells:
  assumes "distinct (map ix is)" and "\<And>i. i \<in> set is \<Longrightarrow> ix i < length a"
  shows "for_each is (\<lambda>i a. Option.bind (arr_get a (ix i)) (\<lambda>v. arr_set a (ix i) (f i v))) a
    = Some (map (\<lambda>k. case map_of (map (\<lambda>i. (ix i, i)) is) k of None \<Rightarrow> a ! k | Some i \<Rightarrow> f i (a ! k)) [0..<length a])"
    (is "?lhs is a = Some (?rhs is a)")
  using assms
proof (induction "is" arbitrary: a)
  case Nil
  then show ?case by (simp add: map_nth)
next
  case (Cons i "is")
  let ?a = "a[ix i := f i (a ! ix i)]"
  have "?lhs is ?a = Some (?rhs is ?a)"
    by (rule Cons.IH) (use Cons.prems in auto)
  moreover have "?rhs is ?a = ?rhs (i # is) a"
  proof (rule nth_equalityI)
    fix k assume "k < length (?rhs is ?a)"
    then have k: "k < length a" by simp
    have "ix i \<notin> ix ` set is" using Cons.prems(1) by auto
    then have "map_of (map (\<lambda>i. (ix i, i)) is) (ix i) = None"
      by (simp add: map_of_eq_None_iff image_image)
    then show "?rhs is ?a ! k = ?rhs (i # is) a ! k"
      using k by (cases "k = ix i") (auto split: option.split)
  qed simp
  ultimately show ?case using Cons.prems by simp
qed

end
