(* ===== verification/Float64.thy ===== *)
theory Float64
  imports Prelude
begin

text \<open>
  The language's \<open>double\<close>: IEEE 754 binary64 with round-to-nearest-even, as every
  platform the engine targets implements it. A value is a NaN, a signed infinity,
  negative zero or a finite number, the latter given by its exact rational value.
  Arithmetic computes the exact result and rounds it (\<open>dround\<close>).  The section on
  bit patterns gives the object representation that \<open>bit_cast\<close> and the container
  writers read.  NaN payloads are not distinguished.
\<close>

section \<open>Binary logarithm\<close>

lemma rat_floor_quot [simp]:
  "\<lfloor>numeral a / numeral b :: rat\<rfloor> = numeral a div numeral b"
  "\<lfloor>1 / numeral b :: rat\<rfloor> = 1 div numeral b"
  "\<lfloor>- numeral a / numeral b :: rat\<rfloor> = - numeral a div numeral b"
  using floor_divide_of_int_eq[of "numeral a" "numeral b", where 'a = rat]
    floor_divide_of_int_eq[of 1 "numeral b", where 'a = rat]
    floor_divide_of_int_eq[of "- numeral a" "numeral b", where 'a = rat] by simp_all

fun nlog2 :: "nat \<Rightarrow> nat" where
  "nlog2 n = (if n \<le> 1 then 0 else Suc (nlog2 (n div 2)))"

declare nlog2.simps [simp del]

lemma nlog2_bounds: "1 \<le> n \<Longrightarrow> 2 ^ nlog2 n \<le> n \<and> n < 2 ^ Suc (nlog2 n)"
proof (induction n rule: nlog2.induct)
  case (1 n)
  show ?case
  proof (cases "n \<le> 1")
    case True
    then show ?thesis using "1.prems" by (simp add: nlog2.simps[of n])
  next
    case False
    then have "1 \<le> n div 2" by auto
    then have "2 ^ nlog2 (n div 2) \<le> n div 2 \<and> n div 2 < 2 ^ Suc (nlog2 (n div 2))"
      using "1.IH" False by simp
    then show ?thesis using False by (simp add: nlog2.simps[of n]) linarith
  qed
qed

definition ilog2 :: "rat \<Rightarrow> int" where
  "ilog2 q = (if 1 \<le> q then int (nlog2 (nat \<lfloor>q\<rfloor>)) else - int (nlog2 (nat (\<lceil>1 / q\<rceil> - 1)) + 1))"

lemma ilog2_bounds:
  assumes "0 < q"
  shows "2 powi ilog2 q \<le> q" and "q < 2 powi (ilog2 q + 1)"
proof -
  have "2 powi ilog2 q \<le> q \<and> q < 2 powi (ilog2 q + 1)"
  proof (cases "1 \<le> q")
    case True
    let ?n = "nat \<lfloor>q\<rfloor>"
    have n: "1 \<le> ?n" using True by (simp add: le_nat_iff le_floor_iff)
    have "(of_nat ?n :: rat) \<le> q" "q < of_nat ?n + 1"
      using assms by (simp_all add: of_nat_nat) linarith
    moreover have "(of_nat (2 ^ nlog2 ?n) :: rat) \<le> of_nat ?n"
      using nlog2_bounds[OF n] of_nat_le_iff by blast
    moreover have "(of_nat ?n + 1 :: rat) \<le> of_nat (2 ^ Suc (nlog2 ?n))"
      using nlog2_bounds[OF n] by (metis Suc_eq_plus1 Suc_leI of_nat_1 of_nat_add of_nat_le_iff)
    ultimately have "of_nat (2 ^ nlog2 ?n) \<le> q" "q < of_nat (2 ^ Suc (nlog2 ?n))"
      by linarith+
    then show ?thesis using True
      by (simp add: ilog2_def power_int_add)
  next
    case False
    let ?m = "nat (\<lceil>1 / q\<rceil> - 1)"
    define k where "k = nlog2 ?m"
    have gt: "1 < 1 / q" using False assms by (simp add: field_simps)
    then have m: "1 \<le> ?m" by (simp add: le_nat_iff) linarith
    have "(1::int) \<le> \<lceil>1 / q\<rceil>" using gt by linarith
    then have "(of_nat ?m :: rat) = of_int \<lceil>1 / q\<rceil> - 1" by simp
    then have "(of_nat ?m :: rat) < 1 / q" "1 / q \<le> of_nat ?m + 1" by linarith+
    moreover have "(of_nat (2 ^ k) :: rat) \<le> of_nat ?m"
      using nlog2_bounds[OF m] of_nat_le_iff unfolding k_def by blast
    moreover have "(of_nat ?m + 1 :: rat) \<le> of_nat (2 ^ Suc k)"
      using nlog2_bounds[OF m] unfolding k_def
      by (metis Suc_eq_plus1 Suc_leI of_nat_1 of_nat_add of_nat_le_iff)
    ultimately have "of_nat (2 ^ k) < 1 / q" "1 / q \<le> of_nat (2 ^ Suc k)" by linarith+
    then have lo: "2 ^ k < 1 / q" and hi: "1 / q \<le> 2 ^ Suc k" by simp_all
    have "q < 1 / 2 ^ k" "1 / 2 ^ Suc k \<le> q"
      using lo hi assms by (simp_all add: field_simps)
    moreover have il: "ilog2 q = - int (Suc k)" using False by (simp add: ilog2_def k_def)
    moreover have "(2::rat) powi (- int n) = 1 / 2 ^ n" for n
      by (simp only: power_int_minus power_int_of_nat inverse_eq_divide)
    moreover have "- int (Suc k) + 1 = - int k" by simp
    ultimately show ?thesis by metis
  qed
  then show "2 powi ilog2 q \<le> q" and "q < 2 powi (ilog2 q + 1)" by blast+
qed

lemma ilog2_mono: "0 < q \<Longrightarrow> q \<le> r \<Longrightarrow> ilog2 q \<le> ilog2 r"
proof -
  assume "0 < q" "q \<le> r"
  then have "(2::rat) powi ilog2 q < 2 powi (ilog2 r + 1)"
    using ilog2_bounds(1)[of q] ilog2_bounds(2)[of r] by linarith
  then have "\<not> ilog2 r + 1 \<le> ilog2 q"
    using power_int_increasing[of "ilog2 r + 1" "ilog2 q" "2::rat"] by auto
  then show ?thesis by simp
qed

section \<open>Rounding to nearest, ties to even\<close>

definition rhe :: "rat \<Rightarrow> int" where
  "rhe q = (let f = \<lfloor>q\<rfloor>; d = q - of_int f in
    if d < 1 / 2 then f else if 1 / 2 < d then f + 1 else if even f then f else f + 1)"

lemma rhe_of_int [simp]: "rhe (of_int n) = n"
  by (simp add: rhe_def)

lemma rhe_bounds: "\<lfloor>q\<rfloor> \<le> rhe q" "rhe q \<le> \<lfloor>q\<rfloor> + 1"
  by (auto simp: rhe_def Let_def)

lemma rhe_mono: "q \<le> r \<Longrightarrow> rhe q \<le> rhe r"
proof (cases "\<lfloor>q\<rfloor> = \<lfloor>r\<rfloor>")
  case True
  then show "q \<le> r \<Longrightarrow> ?thesis" by (simp add: rhe_def Let_def)
next
  case False
  assume "q \<le> r"
  then have "\<lfloor>q\<rfloor> + 1 \<le> \<lfloor>r\<rfloor>" using False floor_mono[of q r] by linarith
  then show ?thesis using rhe_bounds[of q] rhe_bounds[of r] by linarith
qed

text \<open>The exponent of the last place of a double near \<open>q\<close>: 53 significant bits, subnormal from \<open>-1074\<close>.\<close>

definition ulp_exp :: "rat \<Rightarrow> int" where
  "ulp_exp q = max (ilog2 q - 52) (-1074)"

definition rnd_pos :: "rat \<Rightarrow> rat" where
  "rnd_pos q = (if q \<le> 0 then 0 else of_int (rhe (q / 2 powi ulp_exp q)) * 2 powi ulp_exp q)"

definition rnd :: "rat \<Rightarrow> rat" where
  "rnd q = (if q < 0 then - rnd_pos (- q) else rnd_pos q)"

lemma pow2_pos [simp]: "0 < (2::rat) powi e"
  by simp

lemma rnd_pos_nonneg: "0 \<le> rnd_pos q"
proof -
  have "rhe 0 = 0" using rhe_of_int[of 0] by simp
  then have "0 \<le> rhe (q / 2 powi ulp_exp q)" if "0 < q"
    using rhe_mono[of 0 "q / 2 powi ulp_exp q"] that by simp
  then show ?thesis by (simp add: rnd_pos_def not_le)
qed

lemma pow2_quot: "e \<le> e' \<Longrightarrow> (2::rat) powi e' / 2 powi e = of_int (2 ^ nat (e' - e))"
proof -
  assume "e \<le> e'"
  have "(2::rat) powi e' / 2 powi e = 2 powi (e' - e)" by (simp add: power_int_diff)
  also have "\<dots> = of_int (2 ^ nat (e' - e))" using \<open>e \<le> e'\<close> by (simp add: power_int_def)
  finally show ?thesis .
qed

text \<open>A multiple of a power of two at or above the last place is a fixed bound of rounding.\<close>

lemma rhe_scaled_int:
  assumes "e \<le> e'"
  shows "of_int (rhe (2 powi e' / 2 powi e)) * 2 powi e = (2 powi e' :: rat)"
proof -
  have "rhe ((2::rat) powi e' / 2 powi e) = 2 ^ nat (e' - e)"
    by (simp only: pow2_quot[OF assms] rhe_of_int)
  then show ?thesis using pow2_quot[OF assms]
    by (metis nonzero_eq_divide_eq pow2_pos less_irrefl)
qed

lemma rnd_pos_le_pow2:
  assumes "0 < q" and "q \<le> 2 powi e" and "ulp_exp q \<le> e"
  shows "rnd_pos q \<le> 2 powi e"
proof -
  let ?u = "(2::rat) powi ulp_exp q"
  have "rhe (q / ?u) \<le> rhe (2 powi e / ?u)"
    by (rule rhe_mono) (simp add: divide_right_mono assms(2))
  then have "of_int (rhe (q / ?u)) * ?u \<le> of_int (rhe (2 powi e / ?u)) * ?u" by simp
  then show ?thesis using assms rhe_scaled_int[OF assms(3)] by (simp add: rnd_pos_def)
qed

lemma rnd_pos_ge_pow2:
  assumes "2 powi e \<le> q" and "ulp_exp q \<le> e"
  shows "2 powi e \<le> rnd_pos q"
proof -
  let ?u = "(2::rat) powi ulp_exp q"
  have q: "0 < q" using assms(1) pow2_pos[of e] by linarith
  have "rhe (2 powi e / ?u) \<le> rhe (q / ?u)"
    by (rule rhe_mono) (simp add: divide_right_mono assms(1))
  then have "of_int (rhe (2 powi e / ?u)) * ?u \<le> of_int (rhe (q / ?u)) * ?u" by simp
  then show ?thesis using q rhe_scaled_int[OF assms(2)] by (simp add: rnd_pos_def)
qed

lemma rnd_pos_mono:
  assumes "q \<le> r"
  shows "rnd_pos q \<le> rnd_pos r"
proof (cases "0 < q")
  case False
  then show ?thesis using rnd_pos_nonneg[of r] by (simp add: rnd_pos_def)
next
  case q: True
  have le: "ulp_exp q \<le> ulp_exp r" using ilog2_mono[OF q assms] by (simp add: ulp_exp_def)
  show ?thesis
  proof (cases "ulp_exp q = ulp_exp r")
    case True
    have "rhe (q / 2 powi ulp_exp r) \<le> rhe (r / 2 powi ulp_exp r)"
      by (rule rhe_mono) (simp add: divide_right_mono assms)
    then show ?thesis using True q assms by (simp add: rnd_pos_def)
  next
    case False
    define e where "e = ilog2 r"
    have er: "ulp_exp r = e - 52" and eq: "ilog2 q + 1 \<le> e"
      using False le by (auto simp: ulp_exp_def e_def max_def split: if_splits)
    have "(2::rat) powi (ilog2 q + 1) \<le> 2 powi e" by (rule power_int_increasing[OF eq]) simp
    then have "rnd_pos q \<le> 2 powi e"
      using ilog2_bounds(2)[OF q] le er by (intro rnd_pos_le_pow2[OF q]) linarith+
    also have "\<dots> \<le> rnd_pos r"
      using ilog2_bounds(1)[of r] q assms er by (intro rnd_pos_ge_pow2) (auto simp: e_def)
    finally show ?thesis .
  qed
qed

lemma rnd_mono: "q \<le> r \<Longrightarrow> rnd q \<le> rnd r"
  using rnd_pos_mono[of q r] rnd_pos_mono[of "- r" "- q"] rnd_pos_nonneg[of "- q"] rnd_pos_nonneg[of r]
  by (auto simp: rnd_def)

lemma rnd_0 [simp]: "rnd 0 = 0"
  by (simp add: rnd_def rnd_pos_def)

text \<open>Numbers with at most 53 significant bits above the subnormal limit are not changed.\<close>

lemma ilog2_less: "0 < q \<Longrightarrow> q < 2 powi k \<Longrightarrow> ilog2 q < k"
  using ilog2_bounds(1)[of q] power_int_increasing[of k "ilog2 q" "2::rat"] by (meson leD linorder_not_le order_less_le_trans one_le_numeral)

lemma rnd_pos_exact:
  assumes "0 < m" and "m < 2 ^ 53" and "-1074 \<le> e"
  shows "rnd_pos (of_int m * 2 powi e) = of_int m * 2 powi e"
proof -
  let ?q = "of_int m * 2 powi e :: rat"
  have pos: "0 < ?q" using assms(1) by simp
  have "(of_int m :: rat) < of_int (2 ^ 53)" using assms(2) of_int_less_iff by blast
  then have "?q < 2 powi 53 * 2 powi e" by (intro mult_strict_right_mono) simp_all
  then have "?q < 2 powi (53 + e)" by (simp add: power_int_add)
  then have "ilog2 ?q < 53 + e" by (rule ilog2_less[OF pos])
  then have le: "ulp_exp ?q \<le> e" using assms(3) by (simp add: ulp_exp_def)
  let ?u = "(2::rat) powi ulp_exp ?q"
  have "2 powi e / ?u = of_int (2 ^ nat (e - ulp_exp ?q))"
    by (rule pow2_quot[OF le])
  then have "?q / ?u = of_int (m * 2 ^ nat (e - ulp_exp ?q))"
    by (simp only: times_divide_eq_right[symmetric] of_int_mult)
  then have "of_int (rhe (?q / ?u)) = ?q / ?u" by (metis rhe_of_int)
  then show ?thesis using pos by (simp add: rnd_pos_def)
qed

lemma rnd_exact:
  assumes "\<bar>m\<bar> < 2 ^ 53" and "-1074 \<le> e"
  shows "rnd (of_int m * 2 powi e) = of_int m * 2 powi e"
proof -
  consider "m = 0" | "0 < m" | "m < 0" by linarith
  then show ?thesis
  proof cases
    case 3
    then show ?thesis using rnd_pos_exact[of "- m" e] assms by (simp add: rnd_def mult_neg_pos)
  next
    case 2
    then have "\<not> of_int m * (2::rat) powi e < 0" by (simp add: not_less)
    then show ?thesis using rnd_pos_exact[of m e] assms 2 by (simp add: rnd_def)
  qed (simp add: rnd_def rnd_pos_def)
qed

lemma rnd_of_int: "\<bar>m\<bar> < 2 ^ 53 \<Longrightarrow> rnd (of_int m) = of_int m"
  using rnd_exact[of m 0] by simp

lemma rnd_half_int:
  assumes "\<bar>m\<bar> < 2 ^ 51"
  shows "rnd (of_int m + 1 / 2) = of_int m + 1 / 2"
proof -
  have "rnd (of_int (2 * m + 1) * 2 powi (-1)) = of_int (2 * m + 1) * 2 powi (-1)"
    by (rule rnd_exact) (use assms in auto)
  then show ?thesis by (simp add: field_simps power_int_minus)
qed

section \<open>Doubles and their arithmetic\<close>

datatype double = DNaN | DInf bool | DNegZero | DFin rat

text \<open>\<open>DInf True\<close> is the negative infinity; \<open>DFin 0\<close> is the positive zero.\<close>

fun dval :: "double \<Rightarrow> rat" where
  "dval (DFin q) = q"
| "dval _ = 0"

fun dfinite :: "double \<Rightarrow> bool" where
  "dfinite (DFin _) = True"
| "dfinite DNegZero = True"
| "dfinite _ = False"

fun dneg_sign :: "double \<Rightarrow> bool" where
  "dneg_sign (DInf s) = s"
| "dneg_sign DNegZero = True"
| "dneg_sign (DFin q) = (q < 0)"
| "dneg_sign DNaN = False"

text \<open>The double nearest to an exact result; \<open>s\<close> is the sign of a result that is zero.\<close>

definition dround_sgn :: "bool \<Rightarrow> rat \<Rightarrow> double" where
  "dround_sgn s q = (let r = rnd q in
    if 2 ^ 1024 \<le> \<bar>r\<bar> then DInf (q < 0)
    else if r = 0 then (if s then DNegZero else DFin 0)
    else DFin r)"

definition dround :: "rat \<Rightarrow> double" where
  "dround q = dround_sgn (q < 0) q"

definition d_of_int :: "int \<Rightarrow> double" where
  "d_of_int n = dround (of_int n)"

definition dadd :: "double \<Rightarrow> double \<Rightarrow> double" where
  "dadd a b = (case (a, b) of
      (DNaN, _) \<Rightarrow> DNaN | (_, DNaN) \<Rightarrow> DNaN
    | (DInf s, DInf t) \<Rightarrow> if s = t then DInf s else DNaN
    | (DInf s, _) \<Rightarrow> DInf s | (_, DInf t) \<Rightarrow> DInf t
    | (DNegZero, DNegZero) \<Rightarrow> DNegZero
    | _ \<Rightarrow> dround (dval a + dval b))"

fun dneg :: "double \<Rightarrow> double" where
  "dneg DNaN = DNaN"
| "dneg (DInf s) = DInf (\<not> s)"
| "dneg DNegZero = DFin 0"
| "dneg (DFin q) = (if q = 0 then DNegZero else DFin (- q))"

definition dsub :: "double \<Rightarrow> double \<Rightarrow> double" where
  "dsub a b = dadd a (dneg b)"

definition dmul :: "double \<Rightarrow> double \<Rightarrow> double" where
  "dmul a b = (let s = (dneg_sign a \<noteq> dneg_sign b) in
    if a = DNaN \<or> b = DNaN then DNaN
    else if \<not> dfinite a then (if dfinite b \<and> dval b = 0 then DNaN else DInf s)
    else if \<not> dfinite b then (if dval a = 0 then DNaN else DInf s)
    else dround_sgn s (dval a * dval b))"

definition ddiv :: "double \<Rightarrow> double \<Rightarrow> double" where
  "ddiv a b = (let s = (dneg_sign a \<noteq> dneg_sign b) in
    if a = DNaN \<or> b = DNaN then DNaN
    else if \<not> dfinite a then (if \<not> dfinite b then DNaN else DInf s)
    else if \<not> dfinite b then dround_sgn s 0
    else if dval b = 0 then (if dval a = 0 then DNaN else DInf s)
    else dround_sgn s (dval a / dval b))"

text \<open>Ordered comparisons: false when an operand is a NaN; both zeros are equal.\<close>

fun dle :: "double \<Rightarrow> double \<Rightarrow> bool" where
  "dle DNaN _ = False"
| "dle _ DNaN = False"
| "dle (DInf s) (DInf t) = (s \<or> \<not> t)"
| "dle (DInf s) _ = s"
| "dle _ (DInf t) = (\<not> t)"
| "dle a b = (dval a \<le> dval b)"

definition dlt :: "double \<Rightarrow> double \<Rightarrow> bool" where
  "dlt a b = (dle a b \<and> \<not> dle b a)"

definition deq :: "double \<Rightarrow> double \<Rightarrow> bool" where
  "deq a b = (dle a b \<and> dle b a)"

text \<open>
  Conversion to a signed integer type of \<open>w\<close> bits truncates toward zero and is
  undefined when the truncated value does not fit.
\<close>

definition rat_trunc :: "rat \<Rightarrow> int" where
  "rat_trunc q = (if q < 0 then - \<lfloor>- q\<rfloor> else \<lfloor>q\<rfloor>)"

definition d_to_sint :: "nat \<Rightarrow> double \<Rightarrow> int option" where
  "d_to_sint w d = (if dfinite d \<and> - (2 ^ (w - 1)) \<le> rat_trunc (dval d) \<and> rat_trunc (dval d) < 2 ^ (w - 1)
    then Some (rat_trunc (dval d)) else None)"

definition d_to_uint :: "nat \<Rightarrow> double \<Rightarrow> int option" where
  "d_to_uint w d = (if dfinite d \<and> 0 \<le> rat_trunc (dval d) \<and> rat_trunc (dval d) < 2 ^ w
    then Some (rat_trunc (dval d)) else None)"

section \<open>Facts about the operations\<close>

text \<open>Simplification rules that evaluate arithmetic on literals.\<close>

lemmas dbl_eval = dround_def dround_sgn_def rnd_def rnd_pos_def ulp_exp_def ilog2_def
  nlog2.simps rhe_def Let_def dadd_def dsub_def dmul_def ddiv_def dlt_def deq_def d_of_int_def
  rat_trunc_def d_to_sint_def d_to_uint_def

text \<open>A finite \<open>double\<close> holds a representable number.\<close>

definition dwf :: "double \<Rightarrow> bool" where
  "dwf d = (rnd (dval d) = dval d \<and> \<bar>dval d\<bar> < 2 ^ 1024)"

lemma dwf_simps [simp]: "dwf DNaN" "dwf (DInf s)" "dwf DNegZero" "dwf (DFin 0)"
  by (simp_all add: dwf_def)

lemma dfinite_cases:
  assumes "dfinite d"
  obtains "d = DNegZero" | q where "d = DFin q"
  using assms by (cases d) auto

lemma dle_finite [simp]: "dfinite a \<Longrightarrow> dfinite b \<Longrightarrow> dle a b = (dval a \<le> dval b)"
  by (cases a; cases b) auto

lemma dle_refl: "a \<noteq> DNaN \<Longrightarrow> dle a a"
  by (cases a) auto

lemma dle_trans: "dle a b \<Longrightarrow> dle b c \<Longrightarrow> dle a c"
  by (cases a; cases b; cases c) auto

lemma dle_total: "a \<noteq> DNaN \<Longrightarrow> b \<noteq> DNaN \<Longrightarrow> dle a b \<or> dle b a"
  by (cases a; cases b) auto

lemma dle_NaN [simp]: "dle a DNaN = False"
  by (cases a) auto

lemma dle_dlt_trans: "dle a b \<Longrightarrow> dlt b c \<Longrightarrow> dlt a c"
  unfolding dlt_def using dle_trans by blast

lemma dlt_dle_trans: "dlt a b \<Longrightarrow> dle b c \<Longrightarrow> dlt a c"
  unfolding dlt_def using dle_trans by blast

lemma dlt_irrefl [simp]: "\<not> dlt a a"
  by (simp add: dlt_def)

lemma dround_sgn_rep:
  assumes "rnd q = q" and "\<bar>q\<bar> < 2 ^ 1024"
  shows "dval (dround_sgn s q) = q" and "dfinite (dround_sgn s q)"
  using assms by (auto simp: dround_sgn_def Let_def)

lemma dneg_simps [simp]: "dfinite (dneg a) = dfinite a" "dval (dneg a) = - dval a"
  by (cases a; simp)+

lemma dadd_finite:
  assumes "dfinite a" and "dfinite b"
  shows "dadd a b = DNegZero \<and> a = DNegZero \<and> b = DNegZero \<or> dadd a b = dround (dval a + dval b)"
  using assms by (cases a; cases b) (auto simp: dadd_def)

text \<open>Adding a positive amount never goes down, and stays below every representable bound.\<close>

lemma dadd_pos_ge:
  assumes "dwf a" and "a \<noteq> DNaN" and "dfinite e" and "0 < dval e"
  shows "dle a (dadd a e)"
proof (cases "dfinite a")
  case False
  then show ?thesis using assms by (cases a; cases e) (auto simp: dadd_def)
next
  case True
  let ?q = "dval a + dval e"
  have ad: "dadd a e = dround ?q" using dadd_finite[OF True assms(3)] assms(4) by auto
  have le: "dval a \<le> rnd ?q"
    using rnd_mono[of "dval a" ?q] assms by (simp add: dwf_def)
  consider (inf) "2 ^ 1024 \<le> \<bar>rnd ?q\<bar>" | (fin) "\<not> 2 ^ 1024 \<le> \<bar>rnd ?q\<bar>" by blast
  then show ?thesis
  proof cases
    case inf
    then have "0 \<le> rnd ?q" using le assms(1) by (auto simp: dwf_def abs_if split: if_splits)
    then have "\<not> ?q < 0" using inf rnd_mono[of ?q 0] by (cases "?q < 0") auto
    then show ?thesis using inf ad True by (cases a) (auto simp: dround_def dround_sgn_def Let_def)
  next
    case fin
    then have "dfinite (dround ?q)" "dval (dround ?q) = rnd ?q"
      by (auto simp: dround_def dround_sgn_def Let_def)
    then show ?thesis using ad le True by simp
  qed
qed

lemma dadd_below:
  assumes "dfinite a" "dfinite e" and "dval a + dval e \<le> c" and "rnd c = c" "\<bar>c\<bar> < 2 ^ 1024"
    and "- (2 ^ 1024) < rnd (dval a + dval e)"
  shows "dfinite (dadd a e) \<and> dval (dadd a e) \<le> c"
proof -
  let ?q = "dval a + dval e"
  have "rnd ?q \<le> c" using rnd_mono[OF assms(3)] assms(4) by simp
  moreover have "\<bar>rnd ?q\<bar> < 2 ^ 1024" using calculation assms(5,6) by linarith
  ultimately have "dfinite (dround ?q) \<and> dval (dround ?q) \<le> c"
    by (auto simp: dround_def dround_sgn_def Let_def)
  moreover have "0 \<le> c" if "a = DNegZero" "e = DNegZero" using assms(3) that by simp
  ultimately show ?thesis using dadd_finite[OF assms(1,2)] by auto
qed

lemma d_of_int_exact:
  assumes "\<bar>n\<bar> < 2 ^ 53"
  shows "d_of_int n = DFin (of_int n)"
proof -
  have "of_int \<bar>n\<bar> < (of_int (2 ^ 53) :: rat)" using assms by (rule of_int_less_iff[THEN iffD2])
  also have "(of_int (2 ^ 53) :: rat) < 2 ^ 1024" by simp
  finally have "\<bar>of_int n :: rat\<bar> < 2 ^ 1024" by simp
  then show ?thesis using rnd_of_int[OF assms]
    by (auto simp: d_of_int_def dround_def dround_sgn_def Let_def)
qed


text \<open>A sum that lies between two representable numbers is rounded to a finite number between them.\<close>

lemma dadd_between:
  assumes "dfinite a" "dfinite b" and "lo \<le> dval a + dval b" "dval a + dval b \<le> hi"
    and "rnd lo = lo" "rnd hi = hi" and "\<bar>lo\<bar> < 2 ^ 1024" "\<bar>hi\<bar> < 2 ^ 1024"
  shows "dfinite (dadd a b)" and "lo \<le> dval (dadd a b)" and "dval (dadd a b) \<le> hi"
proof -
  let ?q = "dval a + dval b"
  have r: "lo \<le> rnd ?q" "rnd ?q \<le> hi" using rnd_mono[OF assms(3)] rnd_mono[OF assms(4)] assms(5,6) by simp_all
  then have "\<bar>rnd ?q\<bar> < 2 ^ 1024" using assms(7,8) by linarith
  then have "dfinite (dround ?q)" "dval (dround ?q) = rnd ?q"
    by (auto simp: dround_def dround_sgn_def Let_def)
  moreover have "lo \<le> 0" "0 \<le> hi" if "a = DNegZero" "b = DNegZero" using assms(3,4) that by simp_all
  ultimately show "dfinite (dadd a b)" "lo \<le> dval (dadd a b)" "dval (dadd a b) \<le> hi"
    using dadd_finite[OF assms(1,2)] r by auto
qed

lemma abs_less_pow1024: "\<bar>n\<bar> \<le> 2 ^ 53 \<Longrightarrow> \<bar>of_int n + c\<bar> < (2 ^ 1024 :: rat)" if "\<bar>c\<bar> \<le> 1"
proof -
  assume "\<bar>n\<bar> \<le> 2 ^ 53"
  then have "\<bar>of_int n :: rat\<bar> \<le> of_int (2 ^ 53)" by (metis of_int_abs of_int_le_iff)
  moreover have "of_int (2 ^ 53) + 1 < (2 ^ 1024 :: rat)" by simp
  ultimately show ?thesis using that by linarith
qed

end
