(* ===== verification/Variant.thy ===== *)
theory Variant
  imports Float64 "HOL-Library.Char_ord" "HOL-Library.List_Lexorder"
begin

text \<open>
  \<open>variant\<close>, the value type of the scripting language
  (\<open>ENIGMAsystem/SHELL/Universal_System/var4.h\<close>): a double and a string under one
  type tag.  Constructors, assignment, arithmetic, the epsilon comparisons and the
  type-aware comparison operators, each as its template instance for a second
  variant (suffix \<open>v\<close>), for a number (\<open>n\<close>) or for a string (\<open>s\<close>).

  \<open>default_type\<close> is defined in a generated file; it is the parameter \<open>dt\<close> of
  the operations that default-construct.  Strings are lists of 8-bit characters and
  \<open><\<close> on them is the lexicographic order on unsigned bytes, as
  \<open>std::string::compare\<close> defines it.  The lemmas say on which operands the
  comparison is an order fit for the sorted containers.
\<close>

section \<open>Data\<close>

datatype vty = ty_undefined | ty_real | ty_string | ty_pointer

record variant =
  rval :: double
  sval :: string
  vtype :: vty

section \<open>Construction and assignment\<close>

definition variant_default :: "vty \<Rightarrow> variant" where
  "variant_default dt = \<lparr>rval = DFin 0, sval = [], vtype = dt\<rparr>"

definition variant_num :: "double \<Rightarrow> variant" where
  "variant_num d = \<lparr>rval = d, sval = [], vtype = ty_real\<rparr>"

definition variant_str :: "string \<Rightarrow> variant" where
  "variant_str s = \<lparr>rval = DFin 0, sval = s, vtype = ty_string\<rparr>"

definition variant_assign :: "variant \<Rightarrow> variant \<Rightarrow> variant" where
  "variant_assign t v = (let t1 = t\<lparr>rval := rval v, vtype := vtype v\<rparr> in
    if vtype t1 = ty_string then t1\<lparr>sval := sval v\<rparr> else t1)"

definition variant_assign_num :: "variant \<Rightarrow> double \<Rightarrow> variant" where
  "variant_assign_num t d = t\<lparr>rval := d, vtype := ty_real\<rparr>"

definition variant_assign_str :: "variant \<Rightarrow> string \<Rightarrow> variant" where
  "variant_assign_str t s = t\<lparr>sval := s, vtype := ty_string\<rparr>"

lemma variant_assign_string: "vtype v = ty_string \<Longrightarrow> variant_assign t v = v"
  by (cases t; cases v) (simp add: variant_assign_def)

section \<open>Arithmetic\<close>

definition variant_add_assign_n :: "variant \<Rightarrow> double \<Rightarrow> variant" where
  "variant_add_assign_n t d = t\<lparr>rval := dadd (rval t) d\<rparr>"

definition variant_add_assign_s :: "variant \<Rightarrow> string \<Rightarrow> variant" where
  "variant_add_assign_s t s = t\<lparr>sval := sval t @ s\<rparr>"

definition variant_add_assign_v :: "variant \<Rightarrow> variant \<Rightarrow> variant" where
  "variant_add_assign_v t v = (if vtype t = ty_string then t\<lparr>sval := sval t @ sval v\<rparr>
    else t\<lparr>rval := dadd (rval t) (rval v)\<rparr>)"

definition variant_add_v :: "variant \<Rightarrow> variant \<Rightarrow> variant" where
  "variant_add_v t v = (if vtype t = ty_string then variant_str (sval t @ sval v)
    else variant_num (dadd (rval t) (rval v)))"

definition variant_sub_v :: "variant \<Rightarrow> variant \<Rightarrow> double" where
  "variant_sub_v t v = dsub (rval t) (rval v)"

definition variant_mul_v :: "variant \<Rightarrow> variant \<Rightarrow> double" where
  "variant_mul_v t v = dmul (rval t) (rval v)"

definition variant_div_v :: "variant \<Rightarrow> variant \<Rightarrow> double" where
  "variant_div_v t v = ddiv (rval t) (rval v)"

definition variant_sub_assign_v :: "variant \<Rightarrow> variant \<Rightarrow> variant" where
  "variant_sub_assign_v t v = variant_assign_num t (variant_sub_v t v)"

definition variant_mul_assign_v :: "variant \<Rightarrow> variant \<Rightarrow> variant" where
  "variant_mul_assign_v t v = variant_assign_num t (variant_mul_v t v)"

definition variant_div_assign_v :: "variant \<Rightarrow> variant \<Rightarrow> variant" where
  "variant_div_assign_v t v = variant_assign_num t (variant_div_v t v)"

definition variant_mul_n :: "variant \<Rightarrow> double \<Rightarrow> double" where
  "variant_mul_n t x = dmul (rval t) x"

definition variant_div_n :: "variant \<Rightarrow> double \<Rightarrow> double" where
  "variant_div_n t x = ddiv (rval t) x"

definition variant_mul_assign_n :: "variant \<Rightarrow> double \<Rightarrow> variant" where
  "variant_mul_assign_n t x = variant_assign_num t (variant_mul_n t x)"

definition variant_incr :: "variant \<Rightarrow> variant" where
  "variant_incr t = t\<lparr>rval := dadd (rval t) (DFin 1)\<rparr>"

definition variant_decr :: "variant \<Rightarrow> variant" where
  "variant_decr t = t\<lparr>rval := dsub (rval t) (DFin 1)\<rparr>"

section \<open>Comparison\<close>

text \<open>The literal \<open>1e-12\<close> is the double nearest to it.\<close>

definition epsilon :: double where
  "epsilon = dround (1 / 10 ^ 12)"

definition epsilon_eq :: "variant \<Rightarrow> double \<Rightarrow> bool" where
  "epsilon_eq t x = (dle (dsub (rval t) epsilon) x \<and> dle x (dadd (rval t) epsilon))"

definition epsilon_neq :: "variant \<Rightarrow> double \<Rightarrow> bool" where
  "epsilon_neq t x = (dlt (dadd (rval t) epsilon) x \<or> dlt x (dsub (rval t) epsilon))"

definition epsilon_leq :: "variant \<Rightarrow> double \<Rightarrow> bool" where
  "epsilon_leq t x = dle (dsub (rval t) epsilon) x"

definition epsilon_geq :: "variant \<Rightarrow> double \<Rightarrow> bool" where
  "epsilon_geq t x = dle x (dadd (rval t) epsilon)"

definition epsilon_lt :: "variant \<Rightarrow> double \<Rightarrow> bool" where
  "epsilon_lt t x = dlt (dadd (rval t) epsilon) x"

definition epsilon_gt :: "variant \<Rightarrow> double \<Rightarrow> bool" where
  "epsilon_gt t x = dlt x (dsub (rval t) epsilon)"

definition variant_eq :: "variant \<Rightarrow> variant \<Rightarrow> bool" where
  "variant_eq t x = (if vtype t \<noteq> vtype x then False
    else if vtype t = ty_string then sval t = sval x
    else epsilon_eq t (rval x))"

definition variant_neq :: "variant \<Rightarrow> variant \<Rightarrow> bool" where
  "variant_neq t x = (if vtype t \<noteq> vtype x then True
    else if vtype t = ty_string then sval t \<noteq> sval x
    else epsilon_neq t (rval x))"

definition variant_le :: "variant \<Rightarrow> variant \<Rightarrow> bool" where
  "variant_le t x = (if vtype t = ty_string
    then if vtype x \<noteq> ty_string then False else sval t \<le> sval x
    else epsilon_leq t (rval x))"

definition variant_ge :: "variant \<Rightarrow> variant \<Rightarrow> bool" where
  "variant_ge t x = (if vtype t = ty_string
    then if vtype x \<noteq> ty_string then True else sval x \<le> sval t
    else epsilon_geq t (rval x))"

definition variant_lt :: "variant \<Rightarrow> variant \<Rightarrow> bool" where
  "variant_lt t x = (if vtype t = ty_string
    then if vtype x \<noteq> ty_string then False else sval t < sval x
    else epsilon_lt t (rval x))"

definition variant_gt :: "variant \<Rightarrow> variant \<Rightarrow> bool" where
  "variant_gt t x = (if vtype t = ty_string
    then if vtype x \<noteq> ty_string then True else sval x < sval t
    else epsilon_gt t (rval x))"

text \<open>Against a number.\<close>

definition variant_eq_n :: "variant \<Rightarrow> double \<Rightarrow> bool" where
  "variant_eq_n t x = (vtype t = ty_real \<and> epsilon_eq t x)"

definition variant_neq_n :: "variant \<Rightarrow> double \<Rightarrow> bool" where
  "variant_neq_n t x = (vtype t \<noteq> ty_real \<or> epsilon_neq t x)"

definition variant_le_n :: "variant \<Rightarrow> double \<Rightarrow> bool" where
  "variant_le_n t x = (vtype t = ty_real \<and> epsilon_leq t x)"

definition variant_ge_n :: "variant \<Rightarrow> double \<Rightarrow> bool" where
  "variant_ge_n t x = (vtype t \<noteq> ty_real \<or> epsilon_geq t x)"

definition variant_lt_n :: "variant \<Rightarrow> double \<Rightarrow> bool" where
  "variant_lt_n t x = (vtype t = ty_real \<and> epsilon_lt t x)"

definition variant_gt_n :: "variant \<Rightarrow> double \<Rightarrow> bool" where
  "variant_gt_n t x = (vtype t \<noteq> ty_real \<or> epsilon_gt t x)"

text \<open>Against a string.\<close>

definition variant_eq_s :: "variant \<Rightarrow> string \<Rightarrow> bool" where
  "variant_eq_s t x = (vtype t = ty_string \<and> sval t = x)"

definition variant_neq_s :: "variant \<Rightarrow> string \<Rightarrow> bool" where
  "variant_neq_s t x = (vtype t \<noteq> ty_string \<or> sval t \<noteq> x)"

definition variant_le_s :: "variant \<Rightarrow> string \<Rightarrow> bool" where
  "variant_le_s t x = (vtype t \<noteq> ty_string \<or> sval t \<le> x)"

definition variant_ge_s :: "variant \<Rightarrow> string \<Rightarrow> bool" where
  "variant_ge_s t x = (vtype t = ty_string \<and> x \<le> sval t)"

definition variant_lt_s :: "variant \<Rightarrow> string \<Rightarrow> bool" where
  "variant_lt_s t x = (vtype t \<noteq> ty_string \<or> sval t < x)"

definition variant_gt_s :: "variant \<Rightarrow> string \<Rightarrow> bool" where
  "variant_gt_s t x = (vtype t = ty_string \<and> x < sval t)"

text \<open>
  \<open>operator bool\<close>: \<open>lrint\<close> rounds to nearest even; its result is unspecified when the
  rounded value does not fit a \<open>long\<close>.
\<close>

definition variant_bool :: "variant \<Rightarrow> bool option" where
  "variant_bool t = (if dfinite (rval t) \<and> \<bar>rhe (dval (rval t))\<bar> < 2 ^ 63
    then Some (0 < rhe (dval (rval t))) else None)"

section \<open>The comparisons as orders\<close>

lemmas variant_cmp_defs = variant_lt_def variant_eq_def variant_le_def variant_ge_def variant_gt_def variant_neq_def
  epsilon_lt_def epsilon_eq_def epsilon_leq_def epsilon_geq_def epsilon_gt_def epsilon_neq_def

definition variant_wf :: "variant \<Rightarrow> bool" where
  "variant_wf v = (dwf (rval v) \<and> rval v \<noteq> DNaN)"

lemma epsilon_bounds: "dfinite epsilon" "0 < dval epsilon" "dval epsilon < 1 / 2"
  by (simp_all add: epsilon_def dbl_eval)

text \<open>\<open><\<close> on well-formed values is irreflexive and, among values of one type, transitive.\<close>

lemma variant_lt_irrefl:
  assumes "variant_wf v"
  shows "\<not> variant_lt v v"
  using assms dadd_pos_ge[of "rval v" epsilon] epsilon_bounds
  by (auto simp: variant_cmp_defs variant_wf_def dlt_def)

lemma variant_lt_trans:
  assumes "variant_wf v" and "variant_lt u v" and "variant_lt v w"
    and "vtype u = ty_string \<longleftrightarrow> vtype v = ty_string"
  shows "variant_lt u w"
proof (cases "vtype u = ty_string")
  case True
  then show ?thesis using assms by (auto simp: variant_lt_def split: if_splits)
next
  case False
  have "dle (rval v) (dadd (rval v) epsilon)"
    using assms(1) epsilon_bounds by (intro dadd_pos_ge) (auto simp: variant_wf_def)
  then show ?thesis using assms False
    by (auto simp: variant_lt_def epsilon_lt_def intro: dle_dlt_trans dlt_dle_trans dest: dle_dlt_trans)
       (meson dle_dlt_trans dlt_def)
qed


text \<open>On whole numbers the tolerance plays no part: the comparisons are those of the numbers.\<close>

definition whole :: "double \<Rightarrow> bool" where
  "whole d = (dfinite d \<and> dval d = of_int \<lfloor>dval d\<rfloor> \<and> \<bar>\<lfloor>dval d\<rfloor>\<bar> < 2 ^ 50)"

definition int_real :: "variant \<Rightarrow> bool" where
  "int_real v = (vtype v = ty_real \<and> whole (rval v))"

lemma whole_of_int: "\<bar>n\<bar> < 2 ^ 50 \<Longrightarrow> whole (DFin (of_int n))"
  by (simp add: whole_def)

lemma whole_plus_epsilon:
  assumes "whole d"
  shows "dfinite (dadd d epsilon)" and "dval d \<le> dval (dadd d epsilon)" and "dval (dadd d epsilon) < dval d + 1"
proof -
  obtain n where n: "dval d = of_int n" "\<bar>n\<bar> < 2 ^ 50" and f: "dfinite d"
    using assms by (auto simp: whole_def)
  have b: "rnd (of_int n) = of_int n" "rnd (of_int n + 1 / 2) = of_int n + 1 / 2"
    using n(2) by (auto intro!: rnd_of_int rnd_half_int)
  have l: "\<bar>of_int n :: rat\<bar> < 2 ^ 1024" "\<bar>of_int n + 1 / 2 :: rat\<bar> < 2 ^ 1024"
    using abs_less_pow1024[of 0 n] abs_less_pow1024[of "1 / 2" n] n(2) by simp_all
  have s: "of_int n \<le> dval d + dval epsilon" "dval d + dval epsilon \<le> of_int n + 1 / 2"
    using epsilon_bounds n(1) by simp_all
  note m = dadd_between[OF f epsilon_bounds(1) s b l]
  show "dfinite (dadd d epsilon)" "dval d \<le> dval (dadd d epsilon)" "dval (dadd d epsilon) < dval d + 1"
    using m n(1) by simp_all
qed

lemma whole_minus_epsilon:
  assumes "whole d"
  shows "dfinite (dsub d epsilon)" and "dval (dsub d epsilon) \<le> dval d" and "dval d - 1 < dval (dsub d epsilon)"
proof -
  obtain n where n: "dval d = of_int n" "\<bar>n\<bar> < 2 ^ 50" and f: "dfinite d"
    using assms by (auto simp: whole_def)
  have e: "dfinite (dneg epsilon)" "dval (dneg epsilon) = - dval epsilon"
    using epsilon_bounds by simp_all
  have b: "rnd (of_int n) = of_int n" "rnd (of_int (n - 1) + 1 / 2) = of_int (n - 1) + 1 / 2"
    using n(2) by (auto intro!: rnd_of_int rnd_half_int simp del: of_int_diff)
  have l: "\<bar>of_int n :: rat\<bar> < 2 ^ 1024" "\<bar>of_int (n - 1) + 1 / 2 :: rat\<bar> < 2 ^ 1024"
    using abs_less_pow1024[of 0 n] abs_less_pow1024[of "1 / 2" "n - 1"] n(2) by simp_all
  have s: "of_int (n - 1) + 1 / 2 \<le> dval d + dval (dneg epsilon)" "dval d + dval (dneg epsilon) \<le> of_int n"
    using epsilon_bounds n(1) e by simp_all
  note m = dadd_between[OF f e(1) s b(2,1) l(2,1)]
  show "dfinite (dsub d epsilon)" "dval (dsub d epsilon) \<le> dval d" "dval d - 1 < dval (dsub d epsilon)"
    using m n(1) by (simp_all add: dsub_def)
qed

lemma whole_gap:
  assumes "whole a" "whole b" and "dval a < dval b"
  shows "dval a + 1 \<le> dval b"
proof -
  obtain m n where "dval a = of_int m" "dval b = of_int n" using assms by (auto simp: whole_def)
  then show ?thesis using assms(3) of_int_le_iff[of "m + 1" n, where 'a = rat] by simp
qed

lemma whole_cmp:
  assumes "whole (rval u)" "whole d"
  shows "epsilon_lt u d \<longleftrightarrow> dval (rval u) < dval d"
    and "epsilon_gt u d \<longleftrightarrow> dval d < dval (rval u)"
    and "epsilon_eq u d \<longleftrightarrow> dval (rval u) = dval d"
    and "epsilon_leq u d \<longleftrightarrow> dval (rval u) \<le> dval d"
    and "epsilon_geq u d \<longleftrightarrow> dval d \<le> dval (rval u)"
proof -
  note p = whole_plus_epsilon[OF assms(1)] and m = whole_minus_epsilon[OF assms(1)]
  have f: "dfinite d" using assms(2) by (simp add: whole_def)
  have g: "dval (rval u) < dval d \<Longrightarrow> dval (rval u) + 1 \<le> dval d" "dval d < dval (rval u) \<Longrightarrow> dval d + 1 \<le> dval (rval u)"
    using whole_gap assms by blast+
  show "epsilon_lt u d \<longleftrightarrow> dval (rval u) < dval d" "epsilon_gt u d \<longleftrightarrow> dval d < dval (rval u)"
    "epsilon_eq u d \<longleftrightarrow> dval (rval u) = dval d" "epsilon_leq u d \<longleftrightarrow> dval (rval u) \<le> dval d"
    "epsilon_geq u d \<longleftrightarrow> dval d \<le> dval (rval u)"
    using p m f g
    by (simp_all add: epsilon_lt_def epsilon_gt_def epsilon_eq_def epsilon_leq_def epsilon_geq_def dlt_def) linarith+
qed

lemma int_real_cmp:
  assumes "int_real u" "int_real v"
  shows "variant_lt u v \<longleftrightarrow> dval (rval u) < dval (rval v)"
    and "variant_gt u v \<longleftrightarrow> dval (rval v) < dval (rval u)"
    and "variant_eq u v \<longleftrightarrow> dval (rval u) = dval (rval v)"
    and "variant_le u v \<longleftrightarrow> dval (rval u) \<le> dval (rval v)"
    and "variant_ge u v \<longleftrightarrow> dval (rval v) \<le> dval (rval u)"
  using whole_cmp[of u "rval v"] assms
  by (simp_all add: int_real_def variant_lt_def variant_gt_def variant_eq_def variant_le_def variant_ge_def)

end
