(* ===== verification/DsHandles.thy ===== *)
theory DsHandles
  imports Variant
begin

text \<open>
  The handle discipline that the six container modules of
  \<open>Extensions/DataStructures/data_structures.cpp\<close> share: a static
  \<open>map<unsigned, C>\<close> and a counter \<open>maxid\<close> from which every new container takes its
  id.  The locale states what a module promises about its ids, and what a script may
  rely on follows once for all six.  \<open>room s n\<close>: the 32-bit counter can hand out \<open>n\<close>
  more ids before it wraps.
\<close>

record 'c table =
  entries :: "u32 \<Rightarrow> 'c option"
  maxid :: u32

definition tab_empty :: "'c table" where
  "tab_empty = \<lparr>entries = (\<lambda>_. None), maxid = 0\<rparr>"

locale handle_table =
  fixes live :: "'s \<Rightarrow> u32 set"
    and next_id :: "'s \<Rightarrow> u32"
    and create :: "'a \<Rightarrow> 's \<Rightarrow> ('s \<times> u32) option"
    and destroy :: "u32 \<Rightarrow> 's \<Rightarrow> 's option"
  assumes create_handle: "create a s = Some (s', h) \<Longrightarrow>
      h = next_id s \<and> live s' = insert h (live s) \<and> next_id s' = next_id s + 1"
    and destroy_handle: "destroy h s = Some s' \<Longrightarrow>
      h \<in> live s \<and> live s' = live s - {h} \<and> next_id s' = next_id s"
begin

definition below :: "'s \<Rightarrow> bool" where
  "below s = (\<forall>h \<in> live s. h < next_id s)"

definition room :: "'s \<Rightarrow> nat \<Rightarrow> bool" where
  "room s n = (unat (next_id s) + n < 2 ^ 32)"

fun create_all :: "'a list \<Rightarrow> 's \<Rightarrow> ('s \<times> u32 list) option" where
  "create_all [] s = Some (s, [])"
| "create_all (a # as) s = Option.bind (create a s) (\<lambda>(s', h).
     Option.bind (create_all as s') (\<lambda>(s'', hs). Some (s'', h # hs)))"

lemma create_fresh: "below s \<Longrightarrow> create a s = Some (s', h) \<Longrightarrow> h \<notin> live s"
  using create_handle unfolding below_def by blast

lemma next_succ: "room s (Suc n) \<Longrightarrow> unat (next_id s + 1) = unat (next_id s) + 1"
  by (subst unat_add_lem[THEN iffD1]) (auto simp: room_def)

lemma create_below:
  assumes "below s" and "room s (Suc n)" and "create a s = Some (s', h)"
  shows "below s' \<and> room s' n"
proof -
  note c = create_handle[OF assms(3)] and n = next_succ[OF assms(2)]
  have "next_id s < next_id s + 1" using n by (simp add: word_less_nat_alt)
  then show ?thesis using assms(1,2) c n
    by (auto simp: below_def room_def intro: order.strict_trans)
qed

lemma destroy_below: "below s \<Longrightarrow> room s n \<Longrightarrow> destroy h s = Some s' \<Longrightarrow> below s' \<and> room s' n"
  using destroy_handle[of h s s'] by (auto simp: below_def room_def)

lemma create_all_handles:
  assumes "below s" and "room s (length as)" and "create_all as s = Some (s', hs)"
  shows "distinct hs \<and> set hs \<inter> live s = {} \<and> live s' = live s \<union> set hs \<and> length hs = length as"
  using assms
proof (induction as arbitrary: s hs)
  case (Cons a as)
  obtain s1 h where c: "create a s = Some (s1, h)"
    using Cons.prems(3) by (cases "create a s") auto
  obtain hs1 where r: "create_all as s1 = Some (s', hs1)" and hs: "hs = h # hs1"
    using Cons.prems(3) c by (cases "create_all as s1") auto
  have s1: "below s1" "room s1 (length as)"
    using create_below[OF Cons.prems(1) _ c, of "length as"] Cons.prems(2) by auto
  show ?case
    using Cons.IH[OF s1 r] create_handle[OF c] create_fresh[OF Cons.prems(1) c] hs by auto
qed simp

text \<open>An id that was destroyed is not handed out again while the counter has room.\<close>

lemma destroyed_not_reused:
  assumes "below s" and "room s n" and "destroy h s = Some s1" and "create a s1 = Some (s2, h')"
  shows "h' \<noteq> h"
  using assms destroy_handle[of h s s1] create_handle[of a s1 s2 h'] by (auto simp: below_def)

end


section \<open>Tables of containers\<close>

text \<open>
  \<open>ds_xs[id]\<close>: \<open>map::operator[]\<close> inserts an empty container for an id that has none,
  in queries as much as in updates.  \<open>tab_at\<close> is that access, \<open>tab_upd\<close> an operation on
  the container, \<open>tab_qry\<close> a query of it.
\<close>

definition tab_at :: "'c \<Rightarrow> u32 \<Rightarrow> 'c table \<Rightarrow> 'c \<times> 'c table" where
  "tab_at d k t = (case entries t k of
      None \<Rightarrow> (d, t\<lparr>entries := (entries t)(k \<mapsto> d)\<rparr>)
    | Some c \<Rightarrow> (c, t))"

definition tab_upd :: "'c \<Rightarrow> u32 \<Rightarrow> ('c \<Rightarrow> 'c option) \<Rightarrow> 'c table \<Rightarrow> 'c table option" where
  "tab_upd d k f t = (let (c, t1) = tab_at d k t in
     map_option (\<lambda>c'. t1\<lparr>entries := (entries t1)(k \<mapsto> c')\<rparr>) (f c))"

definition tab_qry :: "'c \<Rightarrow> u32 \<Rightarrow> ('c \<Rightarrow> 'a option) \<Rightarrow> 'c table \<Rightarrow> ('c table \<times> 'a) option" where
  "tab_qry d k f t = (let (c, t1) = tab_at d k t in map_option (Pair t1) (f c))"

text \<open>An operation that both changes the container and returns a value.\<close>

definition tab_run :: "'c \<Rightarrow> u32 \<Rightarrow> ('c \<Rightarrow> ('c \<times> 'a) option) \<Rightarrow> 'c table \<Rightarrow> ('c table \<times> 'a) option" where
  "tab_run d k f t = (let (c, t1) = tab_at d k t in
     map_option (\<lambda>(c', r). (t1\<lparr>entries := (entries t1)(k \<mapsto> c')\<rparr>, r)) (f c))"

text \<open>\<open>xs.insert(pair(maxid++, C()))\<close>, whose result is ignored when the id is taken.\<close>

definition tab_insert :: "'c \<Rightarrow> u32 \<Rightarrow> 'c table \<Rightarrow> 'c table" where
  "tab_insert d k t = t\<lparr>entries := (case entries t k of None \<Rightarrow> (entries t)(k \<mapsto> d) | Some _ \<Rightarrow> entries t)\<rparr>"

definition tab_create :: "'c \<Rightarrow> 'c table \<Rightarrow> 'c table \<times> u32" where
  "tab_create d t = (let t1 = tab_insert d (maxid t) (t\<lparr>maxid := maxid t + 1\<rparr>) in (t1, maxid t1 - 1))"

text \<open>\<open>xs.erase(xs.find(id))\<close>: erasing the end iterator is undefined.\<close>

definition tab_destroy :: "u32 \<Rightarrow> 'c table \<Rightarrow> 'c table option" where
  "tab_destroy k t = (case entries t k of
      None \<Rightarrow> None | Some _ \<Rightarrow> Some (t\<lparr>entries := (entries t)(k := None)\<rparr>))"

definition tab_copy :: "'c \<Rightarrow> u32 \<Rightarrow> u32 \<Rightarrow> 'c table \<Rightarrow> 'c table" where
  "tab_copy d k source t = (let (c, t1) = tab_at d source t; (_, t2) = tab_at d k t1 in
     t2\<lparr>entries := (entries t2)(k \<mapsto> c)\<rparr>)"

definition tab_exists :: "u32 \<Rightarrow> 'c table \<Rightarrow> bool" where
  "tab_exists k t = (entries t k \<noteq> None)"

text \<open>
  The \<open>duplicate\<close> of maps, lists, priority queues, queues and stacks increments the
  counter before it inserts, then fills the id below the one it inserted.
\<close>

definition tab_duplicate :: "'c \<Rightarrow> u32 \<Rightarrow> 'c table \<Rightarrow> 'c table \<times> u32" where
  "tab_duplicate d source t = (let t1 = tab_insert d (maxid t + 1) (t\<lparr>maxid := maxid t + 1\<rparr>) in
     (tab_copy d (maxid t1 - 1) source t1, maxid t1 - 1))"

lemma tab_simps [simp]:
  assumes "entries t k = Some c"
  shows "tab_at d k t = (c, t)"
    and "tab_upd d k f t = map_option (\<lambda>c'. t\<lparr>entries := (entries t)(k \<mapsto> c')\<rparr>) (f c)"
    and "tab_qry d k g t = map_option (Pair t) (g c)"
    and "tab_run d k h t = map_option (\<lambda>(c', r). (t\<lparr>entries := (entries t)(k \<mapsto> c')\<rparr>, r)) (h c)"
  using assms by (simp_all add: tab_at_def tab_upd_def tab_qry_def tab_run_def)

text \<open>A loop that updates one container, a step per value.\<close>

lemma for_each_tab_upd:
  "entries t k = Some q \<Longrightarrow> (\<And>v q. f v q = Some (g v q)) \<Longrightarrow>
    for_each vs (\<lambda>v. tab_upd d k (f v)) t = Some (t\<lparr>entries := (entries t)(k \<mapsto> fold g vs q)\<rparr>)"
proof (induction vs arbitrary: t q)
  case Nil
  then show ?case by (simp add: fun_upd_idem)
next
  case (Cons v vs)
  let ?t = "t\<lparr>entries := (entries t)(k \<mapsto> g v q)\<rparr>"
  have "for_each vs (\<lambda>v. tab_upd d k (f v)) ?t = Some (?t\<lparr>entries := (entries ?t)(k \<mapsto> fold g vs (g v q))\<rparr>)"
    by (rule Cons.IH) (simp, rule Cons.prems(2))
  then show ?case using Cons.prems(1) Cons.prems(2)[of v q] by (simp del: fun_upd_apply)
qed

lemma tab_create_law:
  "tab_create d t = (t', h) \<Longrightarrow> h = maxid t \<and> dom (entries t') = insert h (dom (entries t)) \<and> maxid t' = maxid t + 1"
  by (auto simp: tab_create_def tab_insert_def Let_def split: option.splits)

lemma tab_destroy_law:
  "tab_destroy h t = Some t' \<Longrightarrow> h \<in> dom (entries t) \<and> dom (entries t') = dom (entries t) - {h} \<and> maxid t' = maxid t"
  by (auto simp: tab_destroy_def split: option.splits if_splits)

text \<open>
  One interpretation serves the five modules whose \<open>create\<close> takes no argument: their
  functions are instances of the operations above.
\<close>

interpretation tab: handle_table "\<lambda>t. dom (entries t)" maxid "\<lambda>(_ :: unit) t. Some (tab_create d t)" tab_destroy for d
  by unfold_locales (rule tab_create_law, simp, erule tab_destroy_law)

text \<open>What a duplicate leaves behind: a copy under a new id, and an empty container above it.\<close>

lemma tab_duplicate_copy:
  assumes "tab.below t" and "tab.room t (Suc 0)" and "entries t source = Some c"
  shows "\<exists>t'. tab_duplicate d source t = (t', maxid t) \<and> entries t (maxid t) = None \<and>
    entries t' (maxid t) = Some c \<and> entries t' (maxid t + 1) = Some d \<and>
    (\<forall>k. k \<noteq> maxid t \<longrightarrow> k \<noteq> maxid t + 1 \<longrightarrow> entries t' k = entries t k)"
proof -
  have lt: "maxid t < maxid t + 1"
    using tab.next_succ[OF assms(2)] by (simp add: word_less_nat_alt)
  have n: "entries t (maxid t) = None" "entries t (maxid t + 1) = None"
    using assms(1) lt by (auto simp: tab.below_def intro: ccontr dest: order.strict_trans)
  have "source < maxid t" using assms(1,3) by (auto simp: tab.below_def)
  then have ne: "source \<noteq> maxid t" "source \<noteq> maxid t + 1" "maxid t \<noteq> maxid t + 1" using lt by auto
  show ?thesis
    using n ne assms(3)
    by (auto simp: tab_duplicate_def tab_insert_def tab_copy_def tab_at_def Let_def)
qed

end
