(* ===== verification/DsGrid.thy ===== *)
theory DsGrid
  imports DsHandles
begin

text \<open>
  \<open>grid<variant>\<close> and the \<open>ds_grid_*\<close> functions of
  \<open>Extensions/DataStructures/data_structures.cpp\<close>.  A grid is its two unsigned
  dimensions and the array they describe; index arithmetic is 32-bit and wraps, the
  coordinates of a region pass through \<open>int\<close>.  An access outside the array, an
  overflow of \<open>int\<close> and an operation on an id that has no grid (it would use a grid with
  indeterminate members) have the result \<open>None\<close>.  Nested loops over a rectangle are
  loops over its cells in row-major order, by lemma \<open>for_each_nested\<close>.
  \<open>std::shuffle\<close> is the parameter \<open>sh\<close>.
\<close>

record grid =
  xgrid :: u32
  ygrid :: u32
  cells :: "variant list"

section \<open>The class\<close>

definition cell_index :: "grid \<Rightarrow> int \<Rightarrow> int \<Rightarrow> nat" where
  "cell_index g i ii = unat (word_of_int i * xgrid g + word_of_int ii)"

definition cell_get :: "grid \<Rightarrow> int \<Rightarrow> int \<Rightarrow> variant option" where
  "cell_get g i ii = arr_get (cells g) (cell_index g i ii)"

definition cell_upd :: "(variant \<Rightarrow> variant) \<Rightarrow> int \<Rightarrow> int \<Rightarrow> grid \<Rightarrow> grid option" where
  "cell_upd f i ii g = Option.bind (arr_get (cells g) (cell_index g i ii)) (\<lambda>v.
     map_option (\<lambda>cs. g\<lparr>cells := cs\<rparr>) (arr_set (cells g) (cell_index g i ii) (f v)))"

definition grid_new :: "vty \<Rightarrow> u32 \<Rightarrow> u32 \<Rightarrow> grid" where
  "grid_new dt w h = \<lparr>xgrid = w, ygrid = h, cells = replicate (unat (w * h)) (variant_default dt)\<rparr>"

definition grid_clear :: "grid \<Rightarrow> variant \<Rightarrow> grid option" where
  "grid_clear g val = for_each (row_major 0 (uint (ygrid g)) 0 (uint (xgrid g)))
     (\<lambda>(i, ii). cell_upd (\<lambda>v. variant_assign v val) i ii) g"

definition grid_resize :: "vty \<Rightarrow> grid \<Rightarrow> u32 \<Rightarrow> u32 \<Rightarrow> grid option" where
  "grid_resize dt g w h = (let wm = minv (xgrid g) w; hm = minv (ygrid g) h in
     for_each (row_major 0 (uint hm) 0 (uint wm))
       (\<lambda>(i, ii) temp. Option.bind (cell_get g i ii) (\<lambda>c. cell_upd (\<lambda>v. variant_assign v c) i ii temp))
       (grid_new dt w h))"

text \<open>\<open>src = None\<close>: the argument is the grid itself, whose array is gone when it is read.\<close>

definition grid_copy :: "vty \<Rightarrow> grid \<Rightarrow> grid option \<Rightarrow> grid option" where
  "grid_copy dt g src = (let c = (case src of None \<Rightarrow> g | Some c \<Rightarrow> c) in
     for_each (row_major 0 (uint (ygrid c)) 0 (uint (xgrid c)))
       (\<lambda>(i, ii) t. Option.bind (cell_get (case src of None \<Rightarrow> t | Some c \<Rightarrow> c) i ii)
          (\<lambda>v. cell_upd (\<lambda>u. variant_assign u v) i ii t))
       \<lparr>xgrid = xgrid c, ygrid = ygrid c, cells = replicate (unat (ygrid c * xgrid c)) (variant_default dt)\<rparr>)"

definition grid_insert :: "grid \<Rightarrow> u32 \<Rightarrow> u32 \<Rightarrow> variant \<Rightarrow> grid option" where
  "grid_insert g x y val = (if x < xgrid g \<and> y < ygrid g
     then cell_upd (\<lambda>v. variant_assign v val) (uint y) (uint x) g else Some g)"

definition grid_add :: "grid \<Rightarrow> u32 \<Rightarrow> u32 \<Rightarrow> variant \<Rightarrow> grid option" where
  "grid_add g x y val = (if x < xgrid g \<and> y < ygrid g
     then cell_upd (\<lambda>v. variant_add_assign_v v val) (uint y) (uint x) g else Some g)"

definition grid_multiply :: "grid \<Rightarrow> u32 \<Rightarrow> u32 \<Rightarrow> double \<Rightarrow> grid option" where
  "grid_multiply g x y val = (if x < xgrid g \<and> y < ygrid g
     then cell_upd (\<lambda>v. variant_mul_assign_n v val) (uint y) (uint x) g else Some g)"

text \<open>
  The prologue of every region operation: \<open>None\<close> is an overflow, \<open>Some None\<close> a region
  that starts outside the grid, and \<open>Some (Some (py1, py2, px1, px2))\<close> the loop bounds.
\<close>

definition region_bounds :: "grid \<Rightarrow> u32 \<Rightarrow> u32 \<Rightarrow> u32 \<Rightarrow> u32 \<Rightarrow> (int \<times> int \<times> int \<times> int) option option" where
  "region_bounds g x1 y1 x2 y2 = (let
      tx1 = sint (minv x1 x2); ty1 = sint (minv y1 y2);
      tx2 = sint (maxv x1 x2); ty2 = sint (maxv y1 y2);
      xd = sint (xgrid g - word_of_int tx1); yd = sint (ygrid g - word_of_int ty1) in
    if 0 < xd \<and> 0 < yd then
      Option.bind (i32 (tx2 + 1)) (\<lambda>ex. Option.bind (i32 (ty2 + 1)) (\<lambda>ey.
        Some (Some (maxv ty1 0, minv ey (sint (ygrid g)), maxv tx1 0, minv ex (sint (xgrid g))))))
    else Some None)"

definition region_update :: "grid \<Rightarrow> u32 \<Rightarrow> u32 \<Rightarrow> u32 \<Rightarrow> u32 \<Rightarrow> (variant \<Rightarrow> variant) \<Rightarrow> grid option" where
  "region_update g x1 y1 x2 y2 f = Option.bind (region_bounds g x1 y1 x2 y2) (\<lambda>b. case b of
      None \<Rightarrow> Some g
    | Some (py1, py2, px1, px2) \<Rightarrow> for_each (row_major py1 py2 px1 px2) (\<lambda>(i, ii). cell_upd f i ii) g)"

definition grid_insert_region :: "grid \<Rightarrow> u32 \<Rightarrow> u32 \<Rightarrow> u32 \<Rightarrow> u32 \<Rightarrow> variant \<Rightarrow> grid option" where
  "grid_insert_region g x1 y1 x2 y2 val = region_update g x1 y1 x2 y2 (\<lambda>v. variant_assign v val)"

definition grid_add_region :: "grid \<Rightarrow> u32 \<Rightarrow> u32 \<Rightarrow> u32 \<Rightarrow> u32 \<Rightarrow> variant \<Rightarrow> grid option" where
  "grid_add_region g x1 y1 x2 y2 val = region_update g x1 y1 x2 y2 (\<lambda>v. variant_add_assign_v v val)"

definition grid_multiply_region :: "grid \<Rightarrow> u32 \<Rightarrow> u32 \<Rightarrow> u32 \<Rightarrow> u32 \<Rightarrow> double \<Rightarrow> grid option" where
  "grid_multiply_region g x1 y1 x2 y2 val = region_update g x1 y1 x2 y2 (\<lambda>v. variant_mul_assign_n v val)"

text \<open>The prologue of every disk operation, and the test of its loop body.\<close>

definition disk_bounds :: "grid \<Rightarrow> double \<Rightarrow> double \<Rightarrow> double \<Rightarrow> (int \<times> int \<times> int \<times> int) option option" where
  "disk_bounds g x y r =
    Option.bind (d_to_sint 32 (dsub x r)) (\<lambda>tx1. Option.bind (d_to_sint 32 (dsub y r)) (\<lambda>ty1.
    Option.bind (d_to_sint 32 (dadd (dadd x r) (DFin 1))) (\<lambda>tx2.
    Option.bind (d_to_sint 32 (dadd (dadd y r) (DFin 1))) (\<lambda>ty2.
      Some (if 0 \<le> tx2 \<and> 0 \<le> ty2 \<and> tx1 < sint (xgrid g) \<and> ty1 < sint (ygrid g)
        then Some (maxv ty1 0, minv ty2 (sint (ygrid g)), maxv tx1 0, minv tx2 (sint (xgrid g)))
        else None)))))"

definition in_disk :: "double \<Rightarrow> double \<Rightarrow> double \<Rightarrow> int \<Rightarrow> int \<Rightarrow> bool" where
  "in_disk x y r i ii = (let dx = dsub x (d_of_int ii); dy = dsub y (d_of_int i) in
     dle (dadd (dmul dx dx) (dmul dy dy)) (dmul r r))"

definition disk_update :: "grid \<Rightarrow> double \<Rightarrow> double \<Rightarrow> double \<Rightarrow> (variant \<Rightarrow> variant) \<Rightarrow> grid option" where
  "disk_update g x y r f = Option.bind (disk_bounds g x y r) (\<lambda>b. case b of
      None \<Rightarrow> Some g
    | Some (py1, py2, px1, px2) \<Rightarrow> for_each (row_major py1 py2 px1 px2)
        (\<lambda>(i, ii) g. if in_disk x y r i ii then cell_upd f i ii g else Some g) g)"

definition grid_insert_disk :: "grid \<Rightarrow> double \<Rightarrow> double \<Rightarrow> double \<Rightarrow> variant \<Rightarrow> grid option" where
  "grid_insert_disk g x y r val = disk_update g x y r (\<lambda>v. variant_assign v val)"

definition grid_add_disk :: "grid \<Rightarrow> double \<Rightarrow> double \<Rightarrow> double \<Rightarrow> variant \<Rightarrow> grid option" where
  "grid_add_disk g x y r val = disk_update g x y r (\<lambda>v. variant_add_assign_v v val)"

definition grid_multiply_disk :: "grid \<Rightarrow> double \<Rightarrow> double \<Rightarrow> double \<Rightarrow> double \<Rightarrow> grid option" where
  "grid_multiply_disk g x y r val = disk_update g x y r (\<lambda>v. variant_mul_assign_n v val)"

text \<open>
  A rectangle of a source grid combined into this grid; \<open>src = None\<close>: the source is
  this grid itself, so the loop reads what it has already written.
\<close>

definition grid_region_into :: "grid \<Rightarrow> grid option \<Rightarrow> u32 \<Rightarrow> u32 \<Rightarrow> u32 \<Rightarrow> u32 \<Rightarrow> u32 \<Rightarrow> u32 \<Rightarrow>
    (variant \<Rightarrow> variant \<Rightarrow> variant) \<Rightarrow> grid option" where
  "grid_region_into g src sx1 sy1 sx2 sy2 x y f = (let s0 = (case src of None \<Rightarrow> g | Some s \<Rightarrow> s) in
    if x < xgrid g \<and> y < ygrid g then
      let tx1 = sint (minv sx1 sx2); ty1 = sint (minv sy1 sy2);
          tx2 = sint (maxv sx1 sx2); ty2 = sint (maxv sy1 sy2);
          xd = sint (xgrid s0 - word_of_int tx1); yd = sint (ygrid s0 - word_of_int ty1) in
      if 0 < xd \<and> 0 < yd then
        Option.bind (Option.bind (i32 (tx2 - tx1)) (\<lambda>d. i32 (d + 1))) (\<lambda>ex.
        Option.bind (Option.bind (i32 (ty2 - ty1)) (\<lambda>d. i32 (d + 1))) (\<lambda>ey.
          let upx = minv ex (minv (sint (xgrid g - x)) xd);
              upy = minv ey (minv (sint (ygrid g - y)) yd) in
          for_each (row_major 0 upy 0 upx) (\<lambda>(i, ii) t.
            Option.bind (i32 (ty1 + i)) (\<lambda>sy. Option.bind (i32 (tx1 + ii)) (\<lambda>sx.
            Option.bind (cell_get (case src of None \<Rightarrow> t | Some s \<Rightarrow> s) sy sx) (\<lambda>v.
              cell_upd (\<lambda>u. f u v) (uint y + i) (uint x + ii) t)))) g))
      else Some g
    else Some g)"

definition grid_insert_grid_region :: "grid \<Rightarrow> grid option \<Rightarrow> u32 \<Rightarrow> u32 \<Rightarrow> u32 \<Rightarrow> u32 \<Rightarrow> u32 \<Rightarrow> u32 \<Rightarrow> grid option" where
  "grid_insert_grid_region g src sx1 sy1 sx2 sy2 x y = grid_region_into g src sx1 sy1 sx2 sy2 x y variant_assign"

definition grid_add_grid_region :: "grid \<Rightarrow> grid option \<Rightarrow> u32 \<Rightarrow> u32 \<Rightarrow> u32 \<Rightarrow> u32 \<Rightarrow> u32 \<Rightarrow> u32 \<Rightarrow> grid option" where
  "grid_add_grid_region g src sx1 sy1 sx2 sy2 x y = grid_region_into g src sx1 sy1 sx2 sy2 x y variant_add_assign_v"

definition grid_multiply_grid_region :: "grid \<Rightarrow> grid option \<Rightarrow> u32 \<Rightarrow> u32 \<Rightarrow> u32 \<Rightarrow> u32 \<Rightarrow> u32 \<Rightarrow> u32 \<Rightarrow> grid option" where
  "grid_multiply_grid_region g src sx1 sy1 sx2 sy2 x y = grid_region_into g src sx1 sy1 sx2 sy2 x y variant_mul_assign_v"

subsection \<open>Queries\<close>

definition grid_find :: "grid \<Rightarrow> u32 \<Rightarrow> u32 \<Rightarrow> variant option" where
  "grid_find g x y = cell_get g (uint y) (uint x)"

text \<open>
  A loop that accumulates over the cells of a region that pass the test of its body;
  \<open>dflt\<close> when the region is rejected.
\<close>

definition region_fold :: "grid \<Rightarrow> (int \<times> int \<times> int \<times> int) option option \<Rightarrow> 'a \<Rightarrow> (int \<Rightarrow> int \<Rightarrow> 'b option) \<Rightarrow>
    (int \<Rightarrow> int \<Rightarrow> bool) \<Rightarrow> (variant \<Rightarrow> 'b \<Rightarrow> 'b) \<Rightarrow> (int \<times> int \<times> int \<times> int \<Rightarrow> 'b \<Rightarrow> 'a option) \<Rightarrow> 'a option" where
  "region_fold g bounds dflt init test step fin = Option.bind bounds (\<lambda>b. case b of
      None \<Rightarrow> Some dflt
    | Some (py1, py2, px1, px2) \<Rightarrow> Option.bind (init py1 px1) (\<lambda>s0.
        Option.bind (for_each (filter (\<lambda>(i, ii). test i ii) (row_major py1 py2 px1 px2))
          (\<lambda>(i, ii) s. Option.bind (cell_get g i ii) (\<lambda>v. Some (step v s))) s0)
        (fin (py1, py2, px1, px2))))"

definition grid_find_region_sum :: "vty \<Rightarrow> grid \<Rightarrow> u32 \<Rightarrow> u32 \<Rightarrow> u32 \<Rightarrow> u32 \<Rightarrow> variant option" where
  "grid_find_region_sum dt g x1 y1 x2 y2 = region_fold g (region_bounds g x1 y1 x2 y2) (variant_default dt)
     (\<lambda>_ _. Some (variant_num (DFin 0))) (\<lambda>_ _. True) (\<lambda>v sum. variant_add_assign_v sum v) (\<lambda>_. Some)"

definition grid_find_region_max :: "vty \<Rightarrow> grid \<Rightarrow> u32 \<Rightarrow> u32 \<Rightarrow> u32 \<Rightarrow> u32 \<Rightarrow> variant option" where
  "grid_find_region_max dt g x1 y1 x2 y2 = region_fold g (region_bounds g x1 y1 x2 y2) (variant_default dt)
     (cell_get g) (\<lambda>_ _. True) (\<lambda>v m. if variant_gt v m then variant_assign m v else m) (\<lambda>_. Some)"

definition grid_find_region_min :: "vty \<Rightarrow> grid \<Rightarrow> u32 \<Rightarrow> u32 \<Rightarrow> u32 \<Rightarrow> u32 \<Rightarrow> variant option" where
  "grid_find_region_min dt g x1 y1 x2 y2 = region_fold g (region_bounds g x1 y1 x2 y2) (variant_default dt)
     (cell_get g) (\<lambda>_ _. True) (\<lambda>v m. if variant_lt v m then variant_assign m v else m) (\<lambda>_. Some)"

definition grid_find_region_mean :: "vty \<Rightarrow> grid \<Rightarrow> u32 \<Rightarrow> u32 \<Rightarrow> u32 \<Rightarrow> u32 \<Rightarrow> variant option" where
  "grid_find_region_mean dt g x1 y1 x2 y2 = region_fold g (region_bounds g x1 y1 x2 y2) (variant_default dt)
     (\<lambda>_ _. Some (variant_num (DFin 0))) (\<lambda>_ _. True) (\<lambda>v sum. variant_add_assign_v sum v)
     (\<lambda>(py1, py2, px1, px2) sum.
        Option.bind (i32 (py2 - py1)) (\<lambda>h. Option.bind (i32 (px2 - px1)) (\<lambda>w. Option.bind (i32 (h * w)) (\<lambda>n.
          Some (variant_num (variant_div_n sum (d_of_int n)))))))"

definition grid_find_disk_sum :: "vty \<Rightarrow> grid \<Rightarrow> double \<Rightarrow> double \<Rightarrow> double \<Rightarrow> variant option" where
  "grid_find_disk_sum dt g x y r = region_fold g (disk_bounds g x y r) (variant_default dt)
     (\<lambda>_ _. Some (variant_default dt))
     (in_disk x y r) (\<lambda>v sum. variant_add_assign_v sum v) (\<lambda>_. Some)"

definition grid_find_disk_max :: "vty \<Rightarrow> grid \<Rightarrow> double \<Rightarrow> double \<Rightarrow> double \<Rightarrow> variant option" where
  "grid_find_disk_max dt g x y r = region_fold g (disk_bounds g x y r) (variant_default dt)
     (cell_get g)
     (in_disk x y r) (\<lambda>v m. if variant_lt_n m (rval v) then variant_assign_num m (rval v) else m) (\<lambda>_. Some)"

definition grid_find_disk_min :: "vty \<Rightarrow> grid \<Rightarrow> double \<Rightarrow> double \<Rightarrow> double \<Rightarrow> variant option" where
  "grid_find_disk_min dt g x y r = region_fold g (disk_bounds g x y r) (variant_default dt)
     (\<lambda>_ _. let k = rhe (dval y) * uint (xgrid g) + rhe (dval x) in
        if 0 \<le> k then arr_get (cells g) (nat k) else None)
     (in_disk x y r) (\<lambda>v m. if variant_gt_n m (rval v) then variant_assign_num m (rval v) else m) (\<lambda>_. Some)"

definition grid_find_disk_mean :: "vty \<Rightarrow> grid \<Rightarrow> double \<Rightarrow> double \<Rightarrow> double \<Rightarrow> variant option" where
  "grid_find_disk_mean dt g x y r = region_fold g (disk_bounds g x y r) (variant_default dt)
     (\<lambda>_ _. Some (variant_default dt, DFin 0))
     (in_disk x y r) (\<lambda>v (sum, n). (variant_add_assign_v sum v, dadd n (DFin 1)))
     (\<lambda>_ (sum, n). Some (variant_num (variant_div_n sum n)))"

text \<open>The search loops return from the middle: the first cell, in row-major order, that passes the test.\<close>

fun first_cell :: "grid \<Rightarrow> (int \<Rightarrow> int \<Rightarrow> variant \<Rightarrow> bool) \<Rightarrow> (int \<times> int) list \<Rightarrow> (int \<times> int) option option" where
  "first_cell g P [] = Some None"
| "first_cell g P ((i, ii) # ps) = Option.bind (cell_get g i ii) (\<lambda>v.
     if P i ii v then Some (Some (i, ii)) else first_cell g P ps)"

definition region_search :: "grid \<Rightarrow> (int \<times> int \<times> int \<times> int) option option \<Rightarrow>
    (int \<Rightarrow> int \<Rightarrow> variant \<Rightarrow> bool) \<Rightarrow> (int \<times> int) option option" where
  "region_search g bounds P = Option.bind bounds (\<lambda>b. case b of
      None \<Rightarrow> Some None
    | Some (py1, py2, px1, px2) \<Rightarrow> first_cell g P (row_major py1 py2 px1 px2))"

definition grid_value_region_exists :: "grid \<Rightarrow> u32 \<Rightarrow> u32 \<Rightarrow> u32 \<Rightarrow> u32 \<Rightarrow> variant \<Rightarrow> bool option" where
  "grid_value_region_exists g x1 y1 x2 y2 val = map_option (\<lambda>r. r \<noteq> None)
     (region_search g (region_bounds g x1 y1 x2 y2) (\<lambda>_ _ v. variant_eq v val))"

definition grid_value_region_x :: "grid \<Rightarrow> u32 \<Rightarrow> u32 \<Rightarrow> u32 \<Rightarrow> u32 \<Rightarrow> variant \<Rightarrow> int option" where
  "grid_value_region_x g x1 y1 x2 y2 val = map_option (case_option 0 snd)
     (region_search g (region_bounds g x1 y1 x2 y2) (\<lambda>_ _ v. variant_eq v val))"

definition grid_value_region_y :: "grid \<Rightarrow> u32 \<Rightarrow> u32 \<Rightarrow> u32 \<Rightarrow> u32 \<Rightarrow> variant \<Rightarrow> int option" where
  "grid_value_region_y g x1 y1 x2 y2 val = map_option (case_option 0 fst)
     (region_search g (region_bounds g x1 y1 x2 y2) (\<lambda>_ _ v. variant_eq v val))"

text \<open>The disk loops read a cell only where the disk test passed.\<close>

definition disk_search :: "grid \<Rightarrow> double \<Rightarrow> double \<Rightarrow> double \<Rightarrow> variant \<Rightarrow> (int \<times> int) option option" where
  "disk_search g x y r val = Option.bind (disk_bounds g x y r) (\<lambda>b. case b of
      None \<Rightarrow> Some None
    | Some (py1, py2, px1, px2) \<Rightarrow> first_cell g (\<lambda>_ _ v. variant_eq v val)
        (filter (\<lambda>(i, ii). in_disk x y r i ii) (row_major py1 py2 px1 px2)))"

definition grid_value_disk_exists :: "grid \<Rightarrow> double \<Rightarrow> double \<Rightarrow> double \<Rightarrow> variant \<Rightarrow> bool option" where
  "grid_value_disk_exists g x y r val = map_option (\<lambda>p. p \<noteq> None) (disk_search g x y r val)"

definition grid_value_disk_x :: "grid \<Rightarrow> double \<Rightarrow> double \<Rightarrow> double \<Rightarrow> variant \<Rightarrow> int option" where
  "grid_value_disk_x g x y r val = map_option (case_option 0 fst) (disk_search g x y r val)"

definition grid_value_disk_y :: "grid \<Rightarrow> double \<Rightarrow> double \<Rightarrow> double \<Rightarrow> variant \<Rightarrow> int option" where
  "grid_value_disk_y g x y r val = map_option (case_option 0 snd) (disk_search g x y r val)"

definition grid_shuffle :: "(variant list \<Rightarrow> variant list) \<Rightarrow> grid \<Rightarrow> grid option" where
  "grid_shuffle sh g = (let n = unat (xgrid g * ygrid g - 1) in
     if n \<le> length (cells g) then Some (g\<lparr>cells := sh (take n (cells g)) @ drop n (cells g)\<rparr>) else None)"

section \<open>The functions of the scripting interface\<close>

text \<open>
  \<open>ds_grids[gid]\<close>: an operation on the grid of an id, or a query of it.
\<close>

type_synonym grids = "grid table"

definition grids_upd :: "u32 \<Rightarrow> (grid \<Rightarrow> grid option) \<Rightarrow> grids \<Rightarrow> grids option" where
  "grids_upd gid f t = Option.bind (entries t gid) (\<lambda>g.
     map_option (\<lambda>g'. t\<lparr>entries := (entries t)(gid \<mapsto> g')\<rparr>) (f g))"

definition grids_qry :: "u32 \<Rightarrow> (grid \<Rightarrow> 'a option) \<Rightarrow> grids \<Rightarrow> 'a option" where
  "grids_qry gid f t = Option.bind (entries t gid) f"

definition ds_grid_create :: "vty \<Rightarrow> u32 \<Rightarrow> u32 \<Rightarrow> grids \<Rightarrow> (grids \<times> u32) option" where
  "ds_grid_create dt w h t = (let k = maxid t;
       t1 = t\<lparr>maxid := k + 1, entries := (case entries t k of
         None \<Rightarrow> (entries t)(k \<mapsto> grid_new dt w h) | Some _ \<Rightarrow> entries t)\<rparr> in
     Option.bind (grids_upd k (\<lambda>g. grid_clear g (variant_num (DFin 0))) t1) (\<lambda>t2. Some (t2, maxid t2 - 1)))"

definition ds_grid_destroy :: "u32 \<Rightarrow> grids \<Rightarrow> grids option" where
  "ds_grid_destroy gid t = Option.bind (entries t gid) (\<lambda>_. Some (t\<lparr>entries := (entries t)(gid := None)\<rparr>))"

definition ds_grid_clear :: "u32 \<Rightarrow> variant \<Rightarrow> grids \<Rightarrow> grids option" where
  "ds_grid_clear gid val = grids_upd gid (\<lambda>g. grid_clear g val)"

text \<open>\<open>grid_ref t gid source\<close>: the reference \<open>ds_grids[source]\<close> as an argument of an operation on \<open>gid\<close>.\<close>

definition grid_ref :: "grids \<Rightarrow> u32 \<Rightarrow> u32 \<Rightarrow> grid option option" where
  "grid_ref t gid source = (if source = gid then Some None else map_option Some (entries t source))"

definition ds_grid_copy :: "vty \<Rightarrow> u32 \<Rightarrow> u32 \<Rightarrow> grids \<Rightarrow> grids option" where
  "ds_grid_copy dt gid source t = Option.bind (grid_ref t gid source) (\<lambda>src.
     grids_upd gid (\<lambda>g. grid_copy dt g src) t)"

definition ds_grid_resize :: "vty \<Rightarrow> u32 \<Rightarrow> u32 \<Rightarrow> u32 \<Rightarrow> grids \<Rightarrow> grids option" where
  "ds_grid_resize dt gid w h = grids_upd gid (\<lambda>g. grid_resize dt g w h)"

definition ds_grid_width :: "u32 \<Rightarrow> grids \<Rightarrow> u32 option" where
  "ds_grid_width gid = grids_qry gid (\<lambda>g. Some (xgrid g))"

definition ds_grid_height :: "u32 \<Rightarrow> grids \<Rightarrow> u32 option" where
  "ds_grid_height gid = grids_qry gid (\<lambda>g. Some (ygrid g))"

definition ds_grid_set :: "u32 \<Rightarrow> u32 \<Rightarrow> u32 \<Rightarrow> variant \<Rightarrow> grids \<Rightarrow> grids option" where
  "ds_grid_set gid x y val = grids_upd gid (\<lambda>g. grid_insert g x y val)"

definition ds_grid_add :: "u32 \<Rightarrow> u32 \<Rightarrow> u32 \<Rightarrow> variant \<Rightarrow> grids \<Rightarrow> grids option" where
  "ds_grid_add gid x y val = grids_upd gid (\<lambda>g. grid_add g x y val)"

definition ds_grid_multiply :: "u32 \<Rightarrow> u32 \<Rightarrow> u32 \<Rightarrow> double \<Rightarrow> grids \<Rightarrow> grids option" where
  "ds_grid_multiply gid x y val = grids_upd gid (\<lambda>g. grid_multiply g x y val)"

definition ds_grid_set_region :: "u32 \<Rightarrow> u32 \<Rightarrow> u32 \<Rightarrow> u32 \<Rightarrow> u32 \<Rightarrow> variant \<Rightarrow> grids \<Rightarrow> grids option" where
  "ds_grid_set_region gid x1 y1 x2 y2 val = grids_upd gid (\<lambda>g. grid_insert_region g x1 y1 x2 y2 val)"

definition ds_grid_add_region :: "u32 \<Rightarrow> u32 \<Rightarrow> u32 \<Rightarrow> u32 \<Rightarrow> u32 \<Rightarrow> variant \<Rightarrow> grids \<Rightarrow> grids option" where
  "ds_grid_add_region gid x1 y1 x2 y2 val = grids_upd gid (\<lambda>g. grid_add_region g x1 y1 x2 y2 val)"

definition ds_grid_multiply_region :: "u32 \<Rightarrow> u32 \<Rightarrow> u32 \<Rightarrow> u32 \<Rightarrow> u32 \<Rightarrow> double \<Rightarrow> grids \<Rightarrow> grids option" where
  "ds_grid_multiply_region gid x1 y1 x2 y2 val = grids_upd gid (\<lambda>g. grid_multiply_region g x1 y1 x2 y2 val)"

definition ds_grid_set_disk :: "u32 \<Rightarrow> double \<Rightarrow> double \<Rightarrow> double \<Rightarrow> variant \<Rightarrow> grids \<Rightarrow> grids option" where
  "ds_grid_set_disk gid x y r val = grids_upd gid (\<lambda>g. grid_insert_disk g x y r val)"

definition ds_grid_add_disk :: "u32 \<Rightarrow> double \<Rightarrow> double \<Rightarrow> double \<Rightarrow> variant \<Rightarrow> grids \<Rightarrow> grids option" where
  "ds_grid_add_disk gid x y r val = grids_upd gid (\<lambda>g. grid_add_disk g x y r val)"

definition ds_grid_multiply_disk :: "u32 \<Rightarrow> double \<Rightarrow> double \<Rightarrow> double \<Rightarrow> double \<Rightarrow> grids \<Rightarrow> grids option" where
  "ds_grid_multiply_disk gid x y r val = grids_upd gid (\<lambda>g. grid_multiply_disk g x y r val)"

definition ds_grid_set_grid_region :: "u32 \<Rightarrow> u32 \<Rightarrow> u32 \<Rightarrow> u32 \<Rightarrow> u32 \<Rightarrow> u32 \<Rightarrow> u32 \<Rightarrow> u32 \<Rightarrow> grids \<Rightarrow> grids option" where
  "ds_grid_set_grid_region gid source x1 y1 x2 y2 xpos ypos t = Option.bind (grid_ref t gid source) (\<lambda>src.
     grids_upd gid (\<lambda>g. grid_insert_grid_region g src x1 y1 x2 y2 xpos ypos) t)"

definition ds_grid_add_grid_region :: "u32 \<Rightarrow> u32 \<Rightarrow> u32 \<Rightarrow> u32 \<Rightarrow> u32 \<Rightarrow> u32 \<Rightarrow> u32 \<Rightarrow> u32 \<Rightarrow> grids \<Rightarrow> grids option" where
  "ds_grid_add_grid_region gid source x1 y1 x2 y2 xpos ypos t = Option.bind (grid_ref t gid source) (\<lambda>src.
     grids_upd gid (\<lambda>g. grid_add_grid_region g src x1 y1 x2 y2 xpos ypos) t)"

definition ds_grid_multiply_grid_region :: "u32 \<Rightarrow> u32 \<Rightarrow> u32 \<Rightarrow> u32 \<Rightarrow> u32 \<Rightarrow> u32 \<Rightarrow> u32 \<Rightarrow> u32 \<Rightarrow> grids \<Rightarrow> grids option" where
  "ds_grid_multiply_grid_region gid source x1 y1 x2 y2 xpos ypos t = Option.bind (grid_ref t gid source) (\<lambda>src.
     grids_upd gid (\<lambda>g. grid_multiply_grid_region g src x1 y1 x2 y2 xpos ypos) t)"

definition ds_grid_get :: "vty \<Rightarrow> u32 \<Rightarrow> u32 \<Rightarrow> u32 \<Rightarrow> grids \<Rightarrow> variant option" where
  "ds_grid_get dt gid x y = grids_qry gid (\<lambda>g.
     if x < xgrid g \<and> y < ygrid g then grid_find g x y else Some (variant_default dt))"

text \<open>The guard the region queries share: on each axis, one end lies in the grid.\<close>

definition region_touches :: "grid \<Rightarrow> u32 \<Rightarrow> u32 \<Rightarrow> u32 \<Rightarrow> u32 \<Rightarrow> bool" where
  "region_touches g x1 y1 x2 y2 = ((x1 < xgrid g \<or> x2 < xgrid g) \<and> (y1 < ygrid g \<or> y2 < ygrid g))"

definition ds_grid_get_sum :: "vty \<Rightarrow> u32 \<Rightarrow> u32 \<Rightarrow> u32 \<Rightarrow> u32 \<Rightarrow> u32 \<Rightarrow> grids \<Rightarrow> variant option" where
  "ds_grid_get_sum dt gid x1 y1 x2 y2 = grids_qry gid (\<lambda>g. if region_touches g x1 y1 x2 y2
     then grid_find_region_sum dt g x1 y1 x2 y2 else Some (variant_default dt))"

definition ds_grid_get_max :: "vty \<Rightarrow> u32 \<Rightarrow> u32 \<Rightarrow> u32 \<Rightarrow> u32 \<Rightarrow> u32 \<Rightarrow> grids \<Rightarrow> variant option" where
  "ds_grid_get_max dt gid x1 y1 x2 y2 = grids_qry gid (\<lambda>g. if region_touches g x1 y1 x2 y2
     then grid_find_region_max dt g x1 y1 x2 y2 else Some (variant_default dt))"

definition ds_grid_get_min :: "vty \<Rightarrow> u32 \<Rightarrow> u32 \<Rightarrow> u32 \<Rightarrow> u32 \<Rightarrow> u32 \<Rightarrow> grids \<Rightarrow> variant option" where
  "ds_grid_get_min dt gid x1 y1 x2 y2 = grids_qry gid (\<lambda>g. if region_touches g x1 y1 x2 y2
     then grid_find_region_min dt g x1 y1 x2 y2 else Some (variant_default dt))"

definition ds_grid_get_mean :: "vty \<Rightarrow> u32 \<Rightarrow> u32 \<Rightarrow> u32 \<Rightarrow> u32 \<Rightarrow> u32 \<Rightarrow> grids \<Rightarrow> variant option" where
  "ds_grid_get_mean dt gid x1 y1 x2 y2 = grids_qry gid (\<lambda>g. if region_touches g x1 y1 x2 y2
     then grid_find_region_mean dt g x1 y1 x2 y2 else Some (variant_default dt))"

definition ds_grid_get_disk_sum :: "vty \<Rightarrow> u32 \<Rightarrow> double \<Rightarrow> double \<Rightarrow> double \<Rightarrow> grids \<Rightarrow> variant option" where
  "ds_grid_get_disk_sum dt gid x y r = grids_qry gid (\<lambda>g. grid_find_disk_sum dt g x y r)"

definition ds_grid_get_disk_max :: "vty \<Rightarrow> u32 \<Rightarrow> double \<Rightarrow> double \<Rightarrow> double \<Rightarrow> grids \<Rightarrow> variant option" where
  "ds_grid_get_disk_max dt gid x y r = grids_qry gid (\<lambda>g. grid_find_disk_max dt g x y r)"

definition ds_grid_get_disk_min :: "vty \<Rightarrow> u32 \<Rightarrow> double \<Rightarrow> double \<Rightarrow> double \<Rightarrow> grids \<Rightarrow> variant option" where
  "ds_grid_get_disk_min dt gid x y r = grids_qry gid (\<lambda>g. grid_find_disk_min dt g x y r)"

definition ds_grid_get_disk_mean :: "vty \<Rightarrow> u32 \<Rightarrow> double \<Rightarrow> double \<Rightarrow> double \<Rightarrow> grids \<Rightarrow> variant option" where
  "ds_grid_get_disk_mean dt gid x y r = grids_qry gid (\<lambda>g. grid_find_disk_mean dt g x y r)"

definition ds_grid_value_exists :: "u32 \<Rightarrow> u32 \<Rightarrow> u32 \<Rightarrow> u32 \<Rightarrow> u32 \<Rightarrow> variant \<Rightarrow> grids \<Rightarrow> bool option" where
  "ds_grid_value_exists gid x1 y1 x2 y2 val = grids_qry gid (\<lambda>g. if region_touches g x1 y1 x2 y2
     then grid_value_region_exists g x1 y1 x2 y2 val else Some False)"

definition ds_grid_value_x :: "u32 \<Rightarrow> u32 \<Rightarrow> u32 \<Rightarrow> u32 \<Rightarrow> u32 \<Rightarrow> variant \<Rightarrow> grids \<Rightarrow> int option" where
  "ds_grid_value_x gid x1 y1 x2 y2 val = grids_qry gid (\<lambda>g. if region_touches g x1 y1 x2 y2
     then grid_value_region_x g x1 y1 x2 y2 val else Some 0)"

definition ds_grid_value_y :: "u32 \<Rightarrow> u32 \<Rightarrow> u32 \<Rightarrow> u32 \<Rightarrow> u32 \<Rightarrow> variant \<Rightarrow> grids \<Rightarrow> int option" where
  "ds_grid_value_y gid x1 y1 x2 y2 val = grids_qry gid (\<lambda>g. if region_touches g x1 y1 x2 y2
     then grid_value_region_y g x1 y1 x2 y2 val else Some 0)"

definition ds_grid_value_disk_exists :: "u32 \<Rightarrow> double \<Rightarrow> double \<Rightarrow> double \<Rightarrow> variant \<Rightarrow> grids \<Rightarrow> bool option" where
  "ds_grid_value_disk_exists gid x y r val = grids_qry gid (\<lambda>g. grid_value_disk_exists g x y r val)"

text \<open>The coordinate is converted to the declared result type \<open>bool\<close>.\<close>

definition ds_grid_value_disk_x :: "u32 \<Rightarrow> double \<Rightarrow> double \<Rightarrow> double \<Rightarrow> variant \<Rightarrow> grids \<Rightarrow> bool option" where
  "ds_grid_value_disk_x gid x y r val = grids_qry gid (\<lambda>g. map_option (\<lambda>k. k \<noteq> 0) (grid_value_disk_x g x y r val))"

definition ds_grid_value_disk_y :: "u32 \<Rightarrow> double \<Rightarrow> double \<Rightarrow> double \<Rightarrow> variant \<Rightarrow> grids \<Rightarrow> bool option" where
  "ds_grid_value_disk_y gid x y r val = grids_qry gid (\<lambda>g. map_option (\<lambda>k. k \<noteq> 0) (grid_value_disk_y g x y r val))"

definition ds_grid_shuffle :: "(variant list \<Rightarrow> variant list) \<Rightarrow> u32 \<Rightarrow> grids \<Rightarrow> grids option" where
  "ds_grid_shuffle sh gid = grids_upd gid (grid_shuffle sh)"

definition ds_grid_exists :: "u32 \<Rightarrow> grids \<Rightarrow> bool" where
  "ds_grid_exists gid t = (entries t gid \<noteq> None)"

definition ds_grid_duplicate :: "vty \<Rightarrow> u32 \<Rightarrow> grids \<Rightarrow> (grids \<times> u32) option" where
  "ds_grid_duplicate dt source t = (let k = maxid t;
       t1 = t\<lparr>maxid := k + 1, entries := (case entries t k of
         None \<Rightarrow> (entries t)(k \<mapsto> grid_new dt 0 0) | Some _ \<Rightarrow> entries t)\<rparr> in
     Option.bind (ds_grid_copy dt (maxid t1 - 1) source t1) (\<lambda>t2. Some (t2, maxid t2 - 1)))"


section \<open>Shape\<close>

text \<open>
  In every reachable table an array has as many elements as the 32-bit product of the
  dimensions says; \<open>grid_wf\<close> adds that the product did not wrap.
\<close>

definition grid_shape :: "grid \<Rightarrow> bool" where
  "grid_shape g = (length (cells g) = unat (xgrid g * ygrid g))"

definition grid_wf :: "grid \<Rightarrow> bool" where
  "grid_wf g = (grid_shape g \<and> uint (xgrid g) < 2 ^ 31 \<and> uint (ygrid g) < 2 ^ 31 \<and>
     uint (xgrid g) * uint (ygrid g) < 2 ^ 31)"

definition in_grid :: "grid \<Rightarrow> int \<Rightarrow> int \<Rightarrow> bool" where
  "in_grid g i ii = (0 \<le> i \<and> i < uint (ygrid g) \<and> 0 \<le> ii \<and> ii < uint (xgrid g))"

definition grid_at :: "grid \<Rightarrow> int \<Rightarrow> int \<Rightarrow> variant" where
  "grid_at g i ii = cells g ! cell_index g i ii"

definition same_dims :: "grid \<Rightarrow> grid \<Rightarrow> bool" where
  "same_dims g h = (xgrid g = xgrid h \<and> ygrid g = ygrid h)"

lemma grid_wf_length: "grid_wf g \<Longrightarrow> int (length (cells g)) = uint (xgrid g) * uint (ygrid g)"
  by (simp add: grid_wf_def grid_shape_def uint_word_ariths)

lemma cell_index_eq:
  assumes "grid_wf g" and "in_grid g i ii"
  shows "int (cell_index g i ii) = i * uint (xgrid g) + ii" and "cell_index g i ii < length (cells g)"
proof -
  let ?w = "uint (xgrid g)" and ?h = "uint (ygrid g)"
  have b: "0 \<le> i * ?w + ii" using assms(2) by (simp add: in_grid_def)
  have "i * ?w + ii < i * ?w + ?w" using assms(2) by (simp add: in_grid_def)
  also have "\<dots> = (i + 1) * ?w" by (simp add: algebra_simps)
  also have "\<dots> \<le> ?h * ?w" using assms(2) by (intro mult_right_mono) (auto simp: in_grid_def)
  finally have lt: "i * ?w + ii < ?w * ?h" by (simp add: mult.commute)
  have "i * ?w + ii < 2 ^ 32" using lt assms(1) by (simp add: grid_wf_def)
  then have "uint (word_of_int (i * ?w + ii) :: u32) = i * ?w + ii"
    unfolding uint_word_of_int using b by (intro mod_pos_pos_trivial) simp_all
  moreover have "word_of_int (i * ?w + ii) = word_of_int i * xgrid g + (word_of_int ii :: u32)" by simp
  ultimately have "uint (word_of_int i * xgrid g + word_of_int ii) = i * ?w + ii" by argo
  then show eq: "int (cell_index g i ii) = i * ?w + ii"
    unfolding cell_index_def of_nat_unat .
  show "cell_index g i ii < length (cells g)"
    using lt eq grid_wf_length[OF assms(1)] by linarith
qed

lemma cell_index_inj:
  assumes "grid_wf g" and "in_grid g i ii" and "in_grid g j jj"
  shows "cell_index g i ii = cell_index g j jj \<longleftrightarrow> i = j \<and> ii = jj"
proof
  let ?w = "uint (xgrid g)"
  assume "cell_index g i ii = cell_index g j jj"
  then have e: "i * ?w + ii = j * ?w + jj"
    using cell_index_eq(1)[OF assms(1,2)] cell_index_eq(1)[OF assms(1,3)] by linarith
  have b: "0 \<le> ii" "ii < ?w" "0 \<le> jj" "jj < ?w" using assms(2,3) by (auto simp: in_grid_def)
  have "(i * ?w + ii) mod ?w = ii" "(j * ?w + jj) mod ?w = jj" using b by simp_all
  then have "ii = jj" using e by simp
  then show "i = j \<and> ii = jj" using e b by auto
qed simp

lemma cell_get_at [simp]: "grid_wf g \<Longrightarrow> in_grid g i ii \<Longrightarrow> cell_get g i ii = Some (grid_at g i ii)"
  by (simp add: cell_get_def grid_at_def cell_index_eq(2))

lemma cell_upd_at:
  assumes "grid_wf g" and "in_grid g i ii"
  obtains g' where "cell_upd f i ii g = Some g'" and "grid_wf g'" and "same_dims g' g"
    and "\<And>y x. in_grid g y x \<Longrightarrow>
      grid_at g' y x = (if y = i \<and> x = ii then f (grid_at g y x) else grid_at g y x)"
proof
  let ?k = "cell_index g i ii" and ?g = "g\<lparr>cells := (cells g)[cell_index g i ii := f (grid_at g i ii)]\<rparr>"
  have k: "?k < length (cells g)" by (rule cell_index_eq(2)[OF assms])
  then show "cell_upd f i ii g = Some ?g" by (simp add: cell_upd_def grid_at_def)
  show "grid_wf ?g" "same_dims ?g g" using assms(1) by (simp_all add: grid_wf_def grid_shape_def same_dims_def)
  fix y x assume yx: "in_grid g y x"
  have "cell_index ?g y x = cell_index g y x" by (simp add: cell_index_def)
  then show "grid_at ?g y x = (if y = i \<and> x = ii then f (grid_at g y x) else grid_at g y x)"
    using cell_index_inj[OF assms(1) yx assms(2)] k by (auto simp: grid_at_def)
qed

lemma same_dims_in_grid: "same_dims g' g \<Longrightarrow> in_grid g' y x = in_grid g y x"
  by (simp add: same_dims_def in_grid_def)

lemma same_dims_refl [simp]: "same_dims g g"
  by (simp add: same_dims_def)

lemma same_dims_trans: "same_dims g h \<Longrightarrow> same_dims h k \<Longrightarrow> same_dims g k"
  by (simp add: same_dims_def)

text \<open>
  A loop that updates, for each item, one cell of its own: every one of these cells is
  updated once, from its old content, and all others keep theirs.
\<close>

lemma cells_loop:
  assumes "grid_wf g" and "distinct (map pos ps)" and "\<And>p. p \<in> set ps \<Longrightarrow> case_prod (in_grid g) (pos p)"
    and "\<And>p t. p \<in> set ps \<Longrightarrow> grid_wf t \<Longrightarrow> same_dims t g \<Longrightarrow> body p t = case_prod (cell_upd (f p)) (pos p) t"
  shows "\<exists>g'. for_each ps body g = Some g' \<and> grid_wf g' \<and> same_dims g' g \<and>
    (\<forall>y x. in_grid g y x \<longrightarrow> (y, x) \<notin> pos ` set ps \<longrightarrow> grid_at g' y x = grid_at g y x) \<and>
    (\<forall>p \<in> set ps. case_prod (grid_at g') (pos p) = f p (case_prod (grid_at g) (pos p)))"
  using assms
proof (induction ps arbitrary: g)
  case (Cons p ps)
  obtain i ii where pos: "pos p = (i, ii)" by fastforce
  have ig: "in_grid g i ii" using Cons.prems(3)[of p] pos by simp
  obtain h where h: "cell_upd (f p) i ii g = Some h" "grid_wf h" "same_dims h g"
    "\<And>y x. in_grid g y x \<Longrightarrow> grid_at h y x = (if y = i \<and> x = ii then f p (grid_at g y x) else grid_at g y x)"
    using cell_upd_at[OF Cons.prems(1) ig, of "f p"] by metis
  have hg: "in_grid h = in_grid g" using same_dims_in_grid[OF h(3)] by blast
  have b: "body p g = Some h" using Cons.prems(4)[of p g] Cons.prems(1) h(1) pos by simp
  have "\<exists>g'. for_each ps body h = Some g' \<and> grid_wf g' \<and> same_dims g' h \<and>
    (\<forall>y x. in_grid h y x \<longrightarrow> (y, x) \<notin> pos ` set ps \<longrightarrow> grid_at g' y x = grid_at h y x) \<and>
    (\<forall>p \<in> set ps. case_prod (grid_at g') (pos p) = f p (case_prod (grid_at h) (pos p)))"
    by (rule Cons.IH[OF h(2)]) (use Cons.prems h(3) hg in \<open>auto intro: same_dims_trans\<close>)
  then obtain g' where g': "for_each ps body h = Some g'" "grid_wf g'" "same_dims g' h"
    "\<And>y x. in_grid g y x \<Longrightarrow> (y, x) \<notin> pos ` set ps \<Longrightarrow> grid_at g' y x = grid_at h y x"
    "\<And>q. q \<in> set ps \<Longrightarrow> case_prod (grid_at g') (pos q) = f q (case_prod (grid_at h) (pos q))"
    unfolding hg by blast
  have np: "pos p \<notin> pos ` set ps" using Cons.prems(2) by simp
  have "case_prod (grid_at g') (pos q) = f q (case_prod (grid_at g) (pos q))" if q: "q \<in> set (p # ps)" for q
  proof (cases "q \<in> set ps")
    case True
    obtain y x where qp: "pos q = (y, x)" by fastforce
    have "(y, x) \<noteq> (i, ii)" using np pos qp True by (metis image_eqI)
    moreover have "in_grid g y x" using Cons.prems(3)[of q] True qp by simp
    ultimately show ?thesis using g'(5)[OF True] h(4) qp by auto
  next
    case False
    then have "q = p" using q by simp
    then show ?thesis using g'(4)[OF ig] h(4)[OF ig] np pos by simp
  qed
  then show ?case using b g'(1,2) same_dims_trans[OF g'(3) h(3)] g'(4) h(4) pos
    by (intro exI[of _ g']) auto
qed simp

lemma cells_loop_same:
  assumes "grid_wf g" and "distinct ps" and "\<And>i ii. (i, ii) \<in> set ps \<Longrightarrow> in_grid g i ii"
  shows "\<exists>g'. for_each ps (\<lambda>(i, ii). cell_upd f i ii) g = Some g' \<and> grid_wf g' \<and> same_dims g' g \<and>
    (\<forall>y x. in_grid g y x \<longrightarrow> grid_at g' y x = (if (y, x) \<in> set ps then f (grid_at g y x) else grid_at g y x))"
proof -
  have "\<exists>g'. for_each ps (\<lambda>(i, ii). cell_upd f i ii) g = Some g' \<and> grid_wf g' \<and> same_dims g' g \<and>
    (\<forall>y x. in_grid g y x \<longrightarrow> (y, x) \<notin> (\<lambda>p. p) ` set ps \<longrightarrow> grid_at g' y x = grid_at g y x) \<and>
    (\<forall>p \<in> set ps. case_prod (grid_at g') p = (\<lambda>_. f) p (case_prod (grid_at g) p))"
    by (rule cells_loop) (use assms in \<open>auto split: prod.splits\<close>)
  then show ?thesis by force
qed


section \<open>Regions\<close>

text \<open>The rectangle a region operation covers, as its comments describe it.\<close>

definition in_region :: "u32 \<Rightarrow> u32 \<Rightarrow> u32 \<Rightarrow> u32 \<Rightarrow> int \<Rightarrow> int \<Rightarrow> bool" where
  "in_region x1 y1 x2 y2 i ii = (min (uint y1) (uint y2) \<le> i \<and> i \<le> max (uint y1) (uint y2) \<and>
     min (uint x1) (uint x2) \<le> ii \<and> ii \<le> max (uint x1) (uint x2))"

definition int_coords :: "u32 \<Rightarrow> u32 \<Rightarrow> u32 \<Rightarrow> u32 \<Rightarrow> bool" where
  "int_coords x1 y1 x2 y2 = (\<forall>c \<in> {x1, y1, x2, y2}. uint c < 2 ^ 31 - 1)"

lemma region_bounds_eq:
  assumes "grid_wf g" and "int_coords x1 y1 x2 y2"
  shows "region_bounds g x1 y1 x2 y2 = Some (
    if min (uint x1) (uint x2) < uint (xgrid g) \<and> min (uint y1) (uint y2) < uint (ygrid g)
    then Some (min (uint y1) (uint y2), min (max (uint y1) (uint y2) + 1) (uint (ygrid g)),
               min (uint x1) (uint x2), min (max (uint x1) (uint x2) + 1) (uint (xgrid g)))
    else None)"
proof -
  have c: "uint x1 < 2 ^ 31 - 1" "uint y1 < 2 ^ 31 - 1" "uint x2 < 2 ^ 31 - 1" "uint y2 < 2 ^ 31 - 1"
    using assms(2) by (auto simp: int_coords_def)
  have g: "uint (xgrid g) < 2 ^ 31" "uint (ygrid g) < 2 ^ 31" using assms(1) by (auto simp: grid_wf_def)
  have m: "sint (minv a b) = min (uint a) (uint b)" "sint (maxv a b) = max (uint a) (uint b)"
    "sint (d - minv a b) = uint d - min (uint a) (uint b)" "(word_of_int (min (uint a) (uint b)) :: u32) = minv a b"
    if "uint a < 2 ^ 31 - 1" "uint b < 2 ^ 31 - 1" "uint d < 2 ^ 31" for a b d :: u32
  proof -
    have "uint (minv a b) < 2 ^ 31" "uint (maxv a b) < 2 ^ 31" using that by (auto simp: uint_minv uint_maxv)
    then show "sint (minv a b) = min (uint a) (uint b)" "sint (maxv a b) = max (uint a) (uint b)"
      "sint (d - minv a b) = uint d - min (uint a) (uint b)"
      using that(3) by (simp_all only: sint_small sint_diff_small uint_minv uint_maxv)
    show "(word_of_int (min (uint a) (uint b)) :: u32) = minv a b" by (simp flip: uint_minv)
  qed
  have i: "i32 (max (uint a) (uint b) + 1) = Some (max (uint a) (uint b) + 1)"
    if "uint a < 2 ^ 31 - 1" "uint b < 2 ^ 31 - 1" for a b :: u32
  proof -
    have "0 \<le> max (uint a) (uint b)" by (simp add: le_max_iff_disj)
    then have "- (2 ^ 31) \<le> max (uint a) (uint b) + 1" "max (uint a) (uint b) + 1 < 2 ^ 31"
      using that by linarith+
    then show ?thesis unfolding i32_def by argo
  qed
  have nn: "0 \<le> min (uint a) (uint b)" for a b :: u32 by simp
  show ?thesis
    unfolding region_bounds_def Let_def
    by (simp only: m(1,2)[OF c(1,3) g(1)] m(1,2)[OF c(2,4) g(2)] m(4)[OF c(1,3) g(1)] m(4)[OF c(2,4) g(2)]
        m(3)[OF c(1,3) g(1)] m(3)[OF c(2,4) g(2)] i[OF c(1,3)] i[OF c(2,4)] sint_small[OF g(1)] sint_small[OF g(2)])
       (auto simp: minv_min maxv_max max.absorb1 nn)
qed

lemma region_cells:
  assumes "grid_wf g"
  shows "(y, x) \<in> set (row_major (min (uint y1) (uint y2)) (min (max (uint y1) (uint y2) + 1) (uint (ygrid g)))
      (min (uint x1) (uint x2)) (min (max (uint x1) (uint x2) + 1) (uint (xgrid g)))) \<longleftrightarrow>
    in_region x1 y1 x2 y2 y x \<and> in_grid g y x"
proof -
  have "0 \<le> y" if "min (uint a) (uint b) \<le> y" for a b :: u32 and y
    using that by (rule order.trans[rotated]) simp
  then show ?thesis by (auto simp: in_region_def in_grid_def)
qed

lemma region_update_cells:
  assumes "grid_wf g" and "int_coords x1 y1 x2 y2"
  shows "\<exists>g'. region_update g x1 y1 x2 y2 f = Some g' \<and> grid_wf g' \<and> same_dims g' g \<and>
    (\<forall>y x. in_grid g y x \<longrightarrow>
      grid_at g' y x = (if in_region x1 y1 x2 y2 y x then f (grid_at g y x) else grid_at g y x))"
proof (cases "min (uint x1) (uint x2) < uint (xgrid g) \<and> min (uint y1) (uint y2) < uint (ygrid g)")
  case False
  then have "\<not> in_region x1 y1 x2 y2 y x" if "in_grid g y x" for y x
    using that by (auto simp: in_region_def in_grid_def)
  moreover have "region_update g x1 y1 x2 y2 f = Some g"
    unfolding region_update_def region_bounds_eq[OF assms] if_not_P[OF False] by simp
  ultimately show ?thesis using assms(1) by auto
next
  case True
  let ?ps = "row_major (min (uint y1) (uint y2)) (min (max (uint y1) (uint y2) + 1) (uint (ygrid g)))
      (min (uint x1) (uint x2)) (min (max (uint x1) (uint x2) + 1) (uint (xgrid g)))"
  have "region_update g x1 y1 x2 y2 f = for_each ?ps (\<lambda>(i, ii). cell_upd f i ii) g"
    using True by (simp add: region_update_def region_bounds_eq[OF assms])
  then show ?thesis
    using cells_loop_same[of g ?ps f] region_cells[OF assms(1), of _ _ y1 y2 x1 x2] assms(1)
    by (simp del: set_row_major)
qed

text \<open>A grid that was just cleared.\<close>

lemma grid_clear_cells:
  assumes "grid_wf g"
  shows "\<exists>g'. grid_clear g val = Some g' \<and> grid_wf g' \<and> same_dims g' g \<and>
    (\<forall>y x. in_grid g y x \<longrightarrow> grid_at g' y x = variant_assign (grid_at g y x) val)"
  unfolding grid_clear_def
  using cells_loop_same[of g "row_major 0 (uint (ygrid g)) 0 (uint (xgrid g))" "\<lambda>v. variant_assign v val"] assms
  by (auto simp: in_grid_def)

lemma grid_new_wf:
  "uint w < 2 ^ 31 \<Longrightarrow> uint h < 2 ^ 31 \<Longrightarrow> uint w * uint h < 2 ^ 31 \<Longrightarrow> grid_wf (grid_new dt w h)"
  by (simp add: grid_wf_def grid_shape_def grid_new_def)

lemma grid_new_at:
  assumes "grid_wf (grid_new dt w h)" and "in_grid (grid_new dt w h) y x"
  shows "grid_at (grid_new dt w h) y x = variant_default dt"
  using cell_index_eq(2)[OF assms] by (simp add: grid_at_def grid_new_def)

text \<open>Two grids with the same cells as far as both reach.\<close>

lemma grid_resize_cells:
  assumes "grid_wf g" and "uint w < 2 ^ 31" and "uint h < 2 ^ 31" and "uint w * uint h < 2 ^ 31"
  shows "\<exists>g'. grid_resize dt g w h = Some g' \<and> grid_wf g' \<and> xgrid g' = w \<and> ygrid g' = h \<and>
    (\<forall>y x. in_grid g' y x \<longrightarrow> grid_at g' y x =
      (if in_grid g y x then variant_assign (variant_default dt) (grid_at g y x) else variant_default dt))"
proof -
  let ?t = "grid_new dt w h" and ?ps = "row_major 0 (uint (minv (ygrid g) h)) 0 (uint (minv (xgrid g) w))"
  have t: "grid_wf ?t" by (rule grid_new_wf[OF assms(2-4)])
  have d: "xgrid ?t = w" "ygrid ?t = h" by (simp_all add: grid_new_def)
  have ps: "p \<in> set ?ps \<longleftrightarrow> case_prod (in_grid ?t) p \<and> case_prod (in_grid g) p" for p
    by (auto simp: uint_minv in_grid_def d)
  have "\<exists>g'. grid_resize dt g w h = Some g' \<and> grid_wf g' \<and> same_dims g' ?t \<and>
    (\<forall>y x. in_grid ?t y x \<longrightarrow> (y, x) \<notin> (\<lambda>p. p) ` set ?ps \<longrightarrow> grid_at g' y x = grid_at ?t y x) \<and>
    (\<forall>p \<in> set ?ps. case_prod (grid_at g') p =
       (\<lambda>p v. variant_assign v (case_prod (grid_at g) p)) p (case_prod (grid_at ?t) p))"
    unfolding grid_resize_def Let_def
    by (rule cells_loop[OF t]) (use ps assms(1) in \<open>auto simp del: set_row_major split: prod.splits\<close>)
  then obtain g' where g': "grid_resize dt g w h = Some g'" "grid_wf g'" "same_dims g' ?t"
    "\<And>y x. in_grid ?t y x \<Longrightarrow> (y, x) \<notin> set ?ps \<Longrightarrow> grid_at g' y x = grid_at ?t y x"
    "\<And>p. p \<in> set ?ps \<Longrightarrow> case_prod (grid_at g') p = variant_assign (case_prod (grid_at ?t) p) (case_prod (grid_at g) p)"
    unfolding image_ident by blast
  have "grid_at g' y x = (if in_grid g y x then variant_assign (variant_default dt) (grid_at g y x)
      else variant_default dt)" if "in_grid ?t y x" for y x
    using g'(4)[OF that] g'(5)[of "(y, x)"] ps[of "(y, x)"] grid_new_at[OF t that] that by auto
  then show ?thesis using g'(1-3) d same_dims_in_grid[OF g'(3)] by (auto simp: same_dims_def)
qed


section \<open>Queries over a region\<close>

definition region_list :: "grid \<Rightarrow> u32 \<Rightarrow> u32 \<Rightarrow> u32 \<Rightarrow> u32 \<Rightarrow> (int \<times> int) list" where
  "region_list g x1 y1 x2 y2 =
     row_major (min (uint y1) (uint y2)) (min (max (uint y1) (uint y2) + 1) (uint (ygrid g)))
       (min (uint x1) (uint x2)) (min (max (uint x1) (uint x2) + 1) (uint (xgrid g)))"

lemma set_region_list:
  "grid_wf g \<Longrightarrow> (y, x) \<in> set (region_list g x1 y1 x2 y2) \<longleftrightarrow> in_region x1 y1 x2 y2 y x \<and> in_grid g y x"
  unfolding region_list_def by (rule region_cells)

lemma region_touches_iff:
  "region_touches g x1 y1 x2 y2 \<longleftrightarrow>
     min (uint x1) (uint x2) < uint (xgrid g) \<and> min (uint y1) (uint y2) < uint (ygrid g)"
  by (auto simp: region_touches_def word_less_def)

lemma region_fold_eq:
  assumes "grid_wf g" and "int_coords x1 y1 x2 y2" and "region_touches g x1 y1 x2 y2"
  shows "region_fold g (region_bounds g x1 y1 x2 y2) dflt init (\<lambda>_ _. True) step (\<lambda>_. Some) =
    map_option (fold (\<lambda>(i, ii). step (grid_at g i ii)) (region_list g x1 y1 x2 y2))
      (init (min (uint y1) (uint y2)) (min (uint x1) (uint x2)))"
proof -
  have "for_each (region_list g x1 y1 x2 y2)
      (\<lambda>(i, ii) s. Option.bind (cell_get g i ii) (\<lambda>v. Some (step v s))) s0 =
    Some (fold (\<lambda>(i, ii). step (grid_at g i ii)) (region_list g x1 y1 x2 y2) s0)" for s0
    using set_region_list[OF assms(1)] assms(1) by (intro for_each_fold) auto
  then show ?thesis
    using assms(3)
    by (cases "init (min (uint y1) (uint y2)) (min (uint x1) (uint x2))")
       (simp_all add: region_fold_def region_bounds_eq[OF assms(1,2)] region_touches_iff
          case_prod_unfold flip: region_list_def)
qed

text \<open>The maximum of a fold that keeps the larger operand.\<close>

lemma fold_select:
  assumes "\<And>v m. P v \<Longrightarrow> P m \<Longrightarrow> P (step v m) \<and> ms (step v m) = max (ms v) (ms m :: 'k::linorder)"
    and "\<forall>v \<in> set vs. P v" and "P m"
  shows "P (fold step vs m) \<and> ms (fold step vs m) = Max (insert (ms m) (ms ` set vs))"
  using assms(2,3)
proof (induction vs arbitrary: m)
  case (Cons v vs)
  have s: "P (step v m)" "ms (step v m) = max (ms v) (ms m)" using assms(1) Cons.prems by auto
  have "P (fold step vs (step v m)) \<and> ms (fold step vs (step v m)) = Max (insert (ms (step v m)) (ms ` set vs))"
    using Cons.IH[OF _ s(1)] Cons.prems(1) by simp
  moreover have "Max (insert (max (ms v) (ms m)) S) = Max (insert (ms m) (insert (ms v) S))" if "finite S" for S
    using that by (cases "S = {}") (simp_all add: max.commute max.left_commute)
  ultimately show ?case using s(2) by simp
qed simp

lemma int_real_assign: "int_real v \<Longrightarrow> int_real (variant_assign m v) \<and> rval (variant_assign m v) = rval v"
  by (simp add: int_real_def variant_assign_def Let_def)

lemma region_max_int:
  assumes "grid_wf g" and "int_coords x1 y1 x2 y2" and "region_touches g x1 y1 x2 y2"
    and "\<And>y x. in_region x1 y1 x2 y2 y x \<Longrightarrow> in_grid g y x \<Longrightarrow> int_real (grid_at g y x)"
  shows "\<exists>m. grid_find_region_max dt g x1 y1 x2 y2 = Some m \<and> int_real m \<and>
    dval (rval m) = Max {dval (rval (grid_at g y x)) |y x. in_region x1 y1 x2 y2 y x \<and> in_grid g y x}"
proof -
  let ?ps = "region_list g x1 y1 x2 y2"
  let ?step = "\<lambda>v m. if variant_gt v m then variant_assign m v else m"
  let ?vs = "map (case_prod (grid_at g)) ?ps"
  let ?y = "min (uint y1) (uint y2)" and ?x = "min (uint x1) (uint x2)"
  have "in_region x1 y1 x2 y2 ?y ?x" by (simp add: in_region_def min_le_iff_disj le_max_iff_disj)
  moreover have "0 \<le> ?y" "0 \<le> ?x" by simp_all
  then have ig: "in_grid g ?y ?x" using assms(3) by (auto simp: region_touches_iff in_grid_def)
  ultimately have y0: "(?y, ?x) \<in> set ?ps" using set_region_list[OF assms(1)] by simp
  have int: "\<forall>v \<in> set ?vs. int_real v" using assms(4) set_region_list[OF assms(1)] by auto
  have "grid_find_region_max dt g x1 y1 x2 y2 = Some (fold ?step ?vs (grid_at g ?y ?x))"
    using ig assms(1)
    by (simp add: grid_find_region_max_def region_fold_eq[OF assms(1-3)] fold_map case_prod_unfold comp_def)
  moreover have "int_real (fold ?step ?vs (grid_at g ?y ?x)) \<and>
      dval (rval (fold ?step ?vs (grid_at g ?y ?x))) =
      Max (insert (dval (rval (grid_at g ?y ?x))) ((\<lambda>v. dval (rval v)) ` set ?vs))"
    by (rule fold_select) (use int y0 in \<open>auto simp: int_real_cmp int_real_assign max_def\<close>)
  moreover have "insert (dval (rval (grid_at g ?y ?x))) ((\<lambda>v. dval (rval v)) ` set ?vs) =
      {dval (rval (grid_at g y x)) |y x. in_region x1 y1 x2 y2 y x \<and> in_grid g y x}"
    using y0 set_region_list[OF assms(1)] by (fastforce simp: image_iff)
  ultimately show ?thesis by auto
qed

text \<open>The search loops: the first hit in row-major order.\<close>

lemma first_cell_spec:
  assumes "grid_wf g" and "\<And>i ii. (i, ii) \<in> set ps \<Longrightarrow> in_grid g i ii"
  shows "first_cell g P ps = Some (find (\<lambda>(i, ii). P i ii (grid_at g i ii)) ps)"
  using assms(2)
proof (induction ps)
  case (Cons p ps)
  then show ?case using assms(1) by (cases p) auto
qed simp

lemma region_search_spec:
  assumes "grid_wf g" and "int_coords x1 y1 x2 y2" and "region_touches g x1 y1 x2 y2"
  shows "region_search g (region_bounds g x1 y1 x2 y2) P =
    Some (find (\<lambda>(i, ii). P i ii (grid_at g i ii)) (region_list g x1 y1 x2 y2))"
proof -
  have "first_cell g P (region_list g x1 y1 x2 y2) =
      Some (find (\<lambda>(i, ii). P i ii (grid_at g i ii)) (region_list g x1 y1 x2 y2))"
    by (rule first_cell_spec[OF assms(1)]) (simp add: set_region_list[OF assms(1)])
  then show ?thesis using assms(3)
    by (simp add: region_search_def region_bounds_eq[OF assms(1,2)] region_touches_iff flip: region_list_def)
qed


section \<open>Reachable tables\<close>

text \<open>The state-changing functions, as the steps a script can make.\<close>

inductive grid_step :: "vty \<Rightarrow> (variant list \<Rightarrow> variant list) \<Rightarrow> grids \<Rightarrow> grids \<Rightarrow> bool" for dt sh where
  create: "ds_grid_create dt w h t = Some (t', i) \<Longrightarrow> grid_step dt sh t t'"
| duplicate: "ds_grid_duplicate dt source t = Some (t', i) \<Longrightarrow> grid_step dt sh t t'"
| destroy: "ds_grid_destroy gid t = Some t' \<Longrightarrow> grid_step dt sh t t'"
| clear: "ds_grid_clear gid val t = Some t' \<Longrightarrow> grid_step dt sh t t'"
| copy: "ds_grid_copy dt gid source t = Some t' \<Longrightarrow> grid_step dt sh t t'"
| resize: "ds_grid_resize dt gid w h t = Some t' \<Longrightarrow> grid_step dt sh t t'"
| set: "ds_grid_set gid x y val t = Some t' \<Longrightarrow> grid_step dt sh t t'"
| add: "ds_grid_add gid x y val t = Some t' \<Longrightarrow> grid_step dt sh t t'"
| multiply: "ds_grid_multiply gid x y d t = Some t' \<Longrightarrow> grid_step dt sh t t'"
| set_region: "ds_grid_set_region gid x1 y1 x2 y2 val t = Some t' \<Longrightarrow> grid_step dt sh t t'"
| add_region: "ds_grid_add_region gid x1 y1 x2 y2 val t = Some t' \<Longrightarrow> grid_step dt sh t t'"
| multiply_region: "ds_grid_multiply_region gid x1 y1 x2 y2 d t = Some t' \<Longrightarrow> grid_step dt sh t t'"
| set_disk: "ds_grid_set_disk gid dx dy r val t = Some t' \<Longrightarrow> grid_step dt sh t t'"
| add_disk: "ds_grid_add_disk gid dx dy r val t = Some t' \<Longrightarrow> grid_step dt sh t t'"
| multiply_disk: "ds_grid_multiply_disk gid dx dy r d t = Some t' \<Longrightarrow> grid_step dt sh t t'"
| set_grid: "ds_grid_set_grid_region gid source x1 y1 x2 y2 x y t = Some t' \<Longrightarrow> grid_step dt sh t t'"
| add_grid: "ds_grid_add_grid_region gid source x1 y1 x2 y2 x y t = Some t' \<Longrightarrow> grid_step dt sh t t'"
| multiply_grid: "ds_grid_multiply_grid_region gid source x1 y1 x2 y2 x y t = Some t' \<Longrightarrow> grid_step dt sh t t'"
| shuffle: "ds_grid_shuffle sh gid t = Some t' \<Longrightarrow> grid_step dt sh t t'"

definition grids_shape :: "grids \<Rightarrow> bool" where
  "grids_shape t = (\<forall>k g. entries t k = Some g \<longrightarrow> grid_shape g)"

lemma cell_upd_shape: "cell_upd f i ii g = Some g' \<Longrightarrow> grid_shape g \<Longrightarrow> grid_shape g'"
  by (auto simp: cell_upd_def grid_shape_def arr_set_eq_Some_iff split: bind_splits)

lemma cells_loop_shape:
  assumes "for_each ps body g = Some g'" and "grid_shape g"
    and "\<And>p t t'. body p t = Some t' \<Longrightarrow> grid_shape t \<Longrightarrow> grid_shape t'"
  shows "grid_shape g'"
  using assms(1,2) by (rule for_each_pres) (rule assms(3))

lemma region_update_shape: "region_update g x1 y1 x2 y2 f = Some g' \<Longrightarrow> grid_shape g \<Longrightarrow> grid_shape g'"
  by (auto simp: region_update_def split: bind_splits option.splits elim!: cells_loop_shape intro: cell_upd_shape)

lemma disk_update_shape: "disk_update g x y r f = Some g' \<Longrightarrow> grid_shape g \<Longrightarrow> grid_shape g'"
  by (auto simp: disk_update_def split: bind_splits option.splits if_splits
      elim!: cells_loop_shape intro: cell_upd_shape)

lemma grid_region_into_shape:
  "grid_region_into g src sx1 sy1 sx2 sy2 x y f = Some g' \<Longrightarrow> grid_shape g \<Longrightarrow> grid_shape g'"
  by (auto simp: grid_region_into_def Let_def split: bind_splits if_splits
      elim!: cells_loop_shape intro: cell_upd_shape)

lemma grid_new_shape [simp]: "grid_shape (grid_new dt w h)"
  by (simp add: grid_shape_def grid_new_def)

lemma grid_copy_shape: "grid_copy dt g src = Some g' \<Longrightarrow> grid_shape g'"
  unfolding grid_copy_def Let_def
  by (erule cells_loop_shape) (auto simp: grid_shape_def[of "grid.make _ _ _"] grid.defs mult.commute
      split: bind_splits intro: cell_upd_shape, simp add: grid_shape_def mult.commute)

lemma grid_ops_shape:
  "grid_clear g val = Some g' \<Longrightarrow> grid_shape g \<Longrightarrow> grid_shape g'"
  "grid_resize dt g w h = Some g' \<Longrightarrow> grid_shape g'"
  "grid_insert g cx cy val = Some g' \<Longrightarrow> grid_shape g \<Longrightarrow> grid_shape g'"
  "grid_add g cx cy val = Some g' \<Longrightarrow> grid_shape g \<Longrightarrow> grid_shape g'"
  "grid_multiply g cx cy d = Some g' \<Longrightarrow> grid_shape g \<Longrightarrow> grid_shape g'"
  by (auto simp: grid_clear_def grid_resize_def grid_insert_def grid_add_def grid_multiply_def Let_def
      split: if_splits bind_splits elim!: cells_loop_shape intro: cell_upd_shape)

lemma grid_shuffle_shape:
  "grid_shuffle sh g = Some g' \<Longrightarrow> (\<And>xs. length (sh xs) = length xs) \<Longrightarrow> grid_shape g \<Longrightarrow> grid_shape g'"
  by (auto simp: grid_shuffle_def grid_shape_def Let_def split: if_splits)

lemma grids_upd_shape:
  assumes "grids_upd gid f t = Some t'" and "grids_shape t"
    and "\<And>g g'. f g = Some g' \<Longrightarrow> grid_shape g \<Longrightarrow> grid_shape g'"
  shows "grids_shape t'"
  using assms by (auto simp: grids_upd_def grids_shape_def split: bind_splits if_splits)

lemmas grid_shape_rules = grid_ops_shape region_update_shape disk_update_shape grid_region_into_shape
  grid_copy_shape grid_shuffle_shape

lemmas ds_grid_op_defs = ds_grid_clear_def ds_grid_resize_def ds_grid_set_def ds_grid_add_def
  ds_grid_multiply_def ds_grid_set_region_def ds_grid_add_region_def ds_grid_multiply_region_def
  ds_grid_set_disk_def ds_grid_add_disk_def ds_grid_multiply_disk_def ds_grid_shuffle_def
  grid_insert_region_def grid_add_region_def grid_multiply_region_def
  grid_insert_disk_def grid_add_disk_def grid_multiply_disk_def
  grid_insert_grid_region_def grid_add_grid_region_def grid_multiply_grid_region_def

lemma grids_shape_new:
  "grids_shape t \<Longrightarrow> grids_shape (t\<lparr>maxid := m, entries := (case entries t k of
     None \<Rightarrow> (entries t)(k \<mapsto> grid_new dt w h) | Some _ \<Rightarrow> entries t)\<rparr>)"
  by (auto simp: grids_shape_def split: option.splits if_splits)

lemma ds_grid_copy_shape: "ds_grid_copy dt gid source t = Some t' \<Longrightarrow> grids_shape t \<Longrightarrow> grids_shape t'"
  by (auto simp: ds_grid_copy_def split: bind_splits elim!: grids_upd_shape intro: grid_copy_shape)

lemma ds_grid_create_shape: "ds_grid_create dt w h t = Some (t', i) \<Longrightarrow> grids_shape t \<Longrightarrow> grids_shape t'"
  unfolding ds_grid_create_def Let_def
  by (auto split: bind_splits elim!: grids_upd_shape intro!: grids_shape_new intro: grid_ops_shape(1))

lemma ds_grid_duplicate_shape: "ds_grid_duplicate dt source t = Some (t', i) \<Longrightarrow> grids_shape t \<Longrightarrow> grids_shape t'"
  unfolding ds_grid_duplicate_def Let_def
  by (auto split: bind_splits elim!: ds_grid_copy_shape intro!: grids_shape_new)

lemma grid_step_shape:
  assumes "grid_step dt sh t t'" and "\<And>xs. length (sh xs) = length xs" and "grids_shape t"
  shows "grids_shape t'"
  using assms
proof (induction rule: grid_step.induct)
  case (destroy gid t t')
  then show ?case by (auto simp: ds_grid_destroy_def grids_shape_def split: bind_splits if_splits)
next
  case (create w h t t' i)
  then show ?case using ds_grid_create_shape by blast
next
  case (duplicate source t t' i)
  then show ?case using ds_grid_duplicate_shape by blast
next
  case (copy gid source t t')
  then show ?case using ds_grid_copy_shape by blast
qed (auto simp: ds_grid_op_defs ds_grid_set_grid_region_def ds_grid_add_grid_region_def
    ds_grid_multiply_grid_region_def split: bind_splits elim!: grids_upd_shape intro: grid_shape_rules)

interpretation grid_handles: handle_table "\<lambda>t. dom (entries t)" maxid
    "\<lambda>(w, h). ds_grid_create dt w h" ds_grid_destroy for dt
proof
  fix a :: "u32 \<times> u32" and s s' :: grids and h :: u32
  assume "(case a of (w, h) \<Rightarrow> ds_grid_create dt w h) s = Some (s', h)"
  then show "h = maxid s \<and> dom (entries s') = insert h (dom (entries s)) \<and> maxid s' = maxid s + 1"
    by (auto simp: ds_grid_create_def grids_upd_def Let_def split: bind_splits option.splits prod.splits if_splits)
next
  fix h :: u32 and s s' :: grids
  assume "ds_grid_destroy h s = Some s'"
  then show "h \<in> dom (entries s) \<and> dom (entries s') = dom (entries s) - {h} \<and> maxid s' = maxid s"
    by (auto simp: ds_grid_destroy_def split: bind_splits if_splits)
qed


section \<open>Properties\<close>

lemma ds_grid_get_at:
  assumes "entries t gid = Some g" and "grid_wf g" and "x < xgrid g" and "y < ygrid g"
  shows "ds_grid_get dt gid x y t = Some (grid_at g (uint y) (uint x))"
proof -
  have "in_grid g (uint y) (uint x)" using assms(3,4) by (simp add: in_grid_def word_less_def)
  then show ?thesis using assms by (simp add: ds_grid_get_def grids_qry_def grid_find_def)
qed

text \<open>C8. \<open>ds_grid_set_region\<close> on a live grid, with coordinates that an \<open>int\<close> loop bound can
  hold, always succeeds, whichever corners are given: read back with \<open>ds_grid_get\<close>,
  exactly the cells of the grid inside the rectangle carry the value and all others are
  unchanged; other grids are untouched.\<close>

theorem ds_grid_set_region_get:
  assumes "entries t gid = Some g" and "grid_wf g" and "int_coords x1 y1 x2 y2"
  shows "\<exists>t'. ds_grid_set_region gid x1 y1 x2 y2 val t = Some t' \<and>
    (\<forall>k. k \<noteq> gid \<longrightarrow> entries t' k = entries t k) \<and>
    (\<forall>x y. x < xgrid g \<longrightarrow> y < ygrid g \<longrightarrow> ds_grid_get dt gid x y t' =
      map_option (\<lambda>old. if in_region x1 y1 x2 y2 (uint y) (uint x) then variant_assign old val else old)
        (ds_grid_get dt gid x y t))"
proof -
  obtain g' where g': "grid_insert_region g x1 y1 x2 y2 val = Some g'" "grid_wf g'" "same_dims g' g"
    "\<And>y x. in_grid g y x \<Longrightarrow> grid_at g' y x =
      (if in_region x1 y1 x2 y2 y x then variant_assign (grid_at g y x) val else grid_at g y x)"
    using region_update_cells[OF assms(2,3), of "\<lambda>v. variant_assign v val"]
    unfolding grid_insert_region_def by blast
  let ?t = "t\<lparr>entries := (entries t)(gid \<mapsto> g')\<rparr>"
  have "ds_grid_set_region gid x1 y1 x2 y2 val t = Some ?t"
    using assms(1) g'(1) by (simp add: ds_grid_set_region_def grids_upd_def)
  moreover have "ds_grid_get dt gid x y ?t =
      map_option (\<lambda>old. if in_region x1 y1 x2 y2 (uint y) (uint x) then variant_assign old val else old)
        (ds_grid_get dt gid x y t)" if "x < xgrid g" "y < ygrid g" for x y
  proof -
    have "in_grid g (uint y) (uint x)" using that by (simp add: in_grid_def word_less_def)
    then show ?thesis
      using ds_grid_get_at[OF assms(1,2) that] ds_grid_get_at[of ?t gid g' x y] g' that
      by (simp add: same_dims_def)
  qed
  ultimately show ?thesis by auto
qed

text \<open>\<open>ds_grid_get_max\<close> over a rectangle that touches the grid and whose cells hold whole
  numbers returns their maximum: the tolerance of the comparison does not lose it.\<close>

theorem ds_grid_get_max_whole:
  assumes "entries t gid = Some g" and "grid_wf g" and "int_coords x1 y1 x2 y2"
    and "region_touches g x1 y1 x2 y2"
    and "\<forall>y x. in_region x1 y1 x2 y2 y x \<and> in_grid g y x \<longrightarrow> int_real (grid_at g y x)"
  shows "\<exists>m. ds_grid_get_max dt gid x1 y1 x2 y2 t = Some m \<and> int_real m \<and>
    dval (rval m) = Max {dval (rval (grid_at g y x)) |y x. in_region x1 y1 x2 y2 y x \<and> in_grid g y x}"
  using region_max_int[OF assms(2-4), of dt] assms
  by (simp add: ds_grid_get_max_def grids_qry_def)

text \<open>C18. In every table a script can reach, through any sequence of the state-changing
  \<open>ds_grid_*\<close> functions, the array of every grid has exactly the number of elements that
  the 32-bit product of its dimensions asks for.\<close>

theorem grid_reachable_shape:
  assumes "\<And>xs. length (sh xs) = length xs" and "(grid_step dt sh)\<^sup>*\<^sup>* tab_empty t"
    and "entries t gid = Some g"
  shows "length (cells g) = unat (xgrid g * ygrid g)"
proof -
  have "grids_shape t" using assms(2)
  proof (induction rule: rtranclp_induct)
    case base
    then show ?case by (simp add: tab_empty_def grids_shape_def)
  next
    case (step t t')
    then show ?case using grid_step_shape assms(1) by blast
  qed
  then show ?thesis using assms(3) by (simp add: grids_shape_def grid_shape_def)
qed

text \<open>C24. Resizing a grid, to sides and a number of cells below \<open>2 ^ 31\<close>, gives it the sides asked for, keeps the value of
  every cell that the old and the new sides share, and makes every other cell a default \<open>variant\<close>.\<close>

theorem ds_grid_resize_get:
  assumes "entries t gid = Some g" and "grid_wf g"
    and "uint w < 2 ^ 31" and "uint h < 2 ^ 31" and "uint w * uint h < 2 ^ 31"
  shows "\<exists>t'. ds_grid_resize dt gid w h t = Some t' \<and>
    ds_grid_width gid t' = Some w \<and> ds_grid_height gid t' = Some h \<and>
    (\<forall>x y. x < w \<longrightarrow> y < h \<longrightarrow> ds_grid_get dt gid x y t' =
      Some (if x < xgrid g \<and> y < ygrid g
        then variant_assign (variant_default dt) (the (ds_grid_get dt gid x y t)) else variant_default dt))"
proof -
  obtain g' where g': "grid_resize dt g w h = Some g'" "grid_wf g'" "xgrid g' = w" "ygrid g' = h"
    "\<And>y x. in_grid g' y x \<Longrightarrow> grid_at g' y x =
      (if in_grid g y x then variant_assign (variant_default dt) (grid_at g y x) else variant_default dt)"
    using grid_resize_cells[OF assms(2-5), of dt] by blast
  let ?t = "t\<lparr>entries := (entries t)(gid \<mapsto> g')\<rparr>"
  have "ds_grid_resize dt gid w h t = Some ?t"
    using assms(1) g'(1) by (simp add: ds_grid_resize_def grids_upd_def)
  moreover have "ds_grid_get dt gid x y ?t = Some (if x < xgrid g \<and> y < ygrid g
        then variant_assign (variant_default dt) (the (ds_grid_get dt gid x y t)) else variant_default dt)"
    if "x < w" "y < h" for x y
  proof -
    have i: "in_grid g' (uint y) (uint x)" "in_grid g (uint y) (uint x) \<longleftrightarrow> x < xgrid g \<and> y < ygrid g"
      using that g'(3,4) by (auto simp: in_grid_def word_less_def)
    show ?thesis
      using ds_grid_get_at[of ?t gid g' x y] ds_grid_get_at[OF assms(1,2), of x y] g' i that by simp
  qed
  ultimately show ?thesis using g'(3,4)
    by (auto simp: ds_grid_width_def ds_grid_height_def grids_qry_def)
qed

text \<open>\<open>ds_grid_create\<close> returns an id that no live grid has, as long as the 32-bit counter has
  not wrapped; the new grid has the dimensions asked for and every cell is the number 0,
  and no other grid changes.\<close>

theorem ds_grid_create_fresh:
  assumes "\<forall>j g. entries t j = Some g \<longrightarrow> j < maxid t"
    and "uint w < 2 ^ 31" and "uint h < 2 ^ 31" and "uint w * uint h < 2 ^ 31"
  shows "\<exists>t' k. ds_grid_create dt w h t = Some (t', k) \<and> \<not> ds_grid_exists k t \<and> ds_grid_exists k t' \<and>
    ds_grid_width k t' = Some w \<and> ds_grid_height k t' = Some h \<and>
    (\<forall>j. j \<noteq> k \<longrightarrow> entries t' j = entries t j) \<and>
    (\<forall>x y. x < w \<longrightarrow> y < h \<longrightarrow> ds_grid_get dt k x y t' = Some (variant_num (DFin 0)))"
proof -
  let ?g = "grid_new dt w h" and ?k = "maxid t"
  have wf: "grid_wf ?g" by (rule grid_new_wf[OF assms(2-4)])
  obtain g' where g': "grid_clear ?g (variant_num (DFin 0)) = Some g'" "grid_wf g'" "same_dims g' ?g"
    "\<And>y x. in_grid ?g y x \<Longrightarrow> grid_at g' y x = variant_assign (grid_at ?g y x) (variant_num (DFin 0))"
    using grid_clear_cells[OF wf] by blast
  have d: "xgrid g' = w" "ygrid g' = h" using g'(3) by (simp_all add: same_dims_def grid_new_def)
  let ?t = "\<lparr>entries = (entries t)(?k \<mapsto> g'), maxid = ?k + 1\<rparr>"
  have b: "grid_handles.below t" using assms(1) by (auto simp: grid_handles.below_def)
  then have "entries t ?k = None" by (auto simp: grid_handles.below_def)
  then have c: "ds_grid_create dt w h t = Some (?t, ?k)"
    using g'(1) by (simp add: ds_grid_create_def grids_upd_def Let_def)
  then have fresh: "entries t ?k = None"
    using grid_handles.create_fresh[OF b, where a = "(w, h)" and dt = dt] by fastforce
  have "ds_grid_get dt ?k x y ?t = Some (variant_num (DFin 0))" if "x < w" "y < h" for x y
  proof -
    have i: "in_grid ?g (uint y) (uint x)"
      using that by (simp add: in_grid_def word_less_def grid_new_def)
    have "variant_assign (variant_default dt) (variant_num (DFin 0)) = variant_num (DFin 0)"
      by (simp add: variant_assign_def variant_default_def variant_num_def)
    then show ?thesis
      using ds_grid_get_at[of ?t ?k g' x y] g'(2,4) grid_new_at[OF wf i] i d that by simp
  qed
  then show ?thesis using c fresh d
    by (auto simp: ds_grid_exists_def ds_grid_width_def ds_grid_height_def grids_qry_def)
qed


section \<open>Instances\<close>

definition grid_example :: grid where
  "grid_example = \<lparr>xgrid = 2, ygrid = 1, cells = [variant_num (DFin 1), variant_num (DFin 2)]\<rparr>"

definition grids_example :: grids where
  "grids_example = \<lparr>entries = [0 \<mapsto> grid_example], maxid = 1\<rparr>"

lemma grid_example_wf: "grid_wf grid_example" "entries grids_example 0 = Some grid_example"
  by (simp_all add: grid_wf_def grid_shape_def grid_example_def grids_example_def)

lemmas grid_example_eval = grid_example_def grids_example_def ds_grid_get_def grids_qry_def grid_find_def
  cell_get_def cell_index_def in_region_def variant_assign_def variant_num_def variant_default_def

theorem ds_grid_set_region_get_witness:
  "\<exists>t'. ds_grid_set_region 0 5 0 1 0 (variant_num (DFin 7)) grids_example = Some t' \<and>
     ds_grid_get ty_real 0 0 0 t' = Some (variant_num (DFin 1)) \<and>
     ds_grid_get ty_real 0 1 0 t' = Some (variant_num (DFin 7))"
proof -
  have "int_coords 5 0 1 0" by (simp add: int_coords_def)
  then obtain t' where t': "ds_grid_set_region 0 5 0 1 0 (variant_num (DFin 7)) grids_example = Some t'"
    "\<forall>x y. x < xgrid grid_example \<longrightarrow> y < ygrid grid_example \<longrightarrow> ds_grid_get ty_real 0 x y t' =
      map_option (\<lambda>old. if in_region 5 0 1 0 (uint y) (uint x) then variant_assign old (variant_num (DFin 7)) else old)
        (ds_grid_get ty_real 0 x y grids_example)"
    using ds_grid_set_region_get[OF grid_example_wf(2,1)] by blast
  have "ds_grid_get ty_real 0 0 0 t' = Some (variant_num (DFin 1))"
    using t'(2)[rule_format, of 0 0] by (simp add: grid_example_eval)
  moreover have "ds_grid_get ty_real 0 1 0 t' = Some (variant_num (DFin 7))"
    using t'(2)[rule_format, of 1 0] by (simp add: grid_example_eval)
  ultimately show ?thesis using t'(1) by blast
qed

theorem ds_grid_get_max_whole_witness:
  "\<exists>m. ds_grid_get_max ty_real 0 0 0 9 0 grids_example = Some m \<and> int_real m"
proof -
  have "int_real (grid_at grid_example y x)" if "in_grid grid_example y x" for y x
  proof -
    have "y = 0" "x = 0 \<or> x = 1" using that by (auto simp: in_grid_def grid_example_def)
    then show ?thesis
      by (auto simp: grid_at_def cell_index_def grid_example_def int_real_def whole_def variant_num_def)
  qed
  moreover have "int_coords 0 0 9 0" "region_touches grid_example 0 0 9 0"
    by (simp_all add: int_coords_def region_touches_def grid_example_def)
  ultimately show ?thesis
    using ds_grid_get_max_whole[OF grid_example_wf(2,1), of 0 0 9 0 ty_real] by blast
qed

theorem grid_reachable_shape_witness:
  "length (cells (the (entries (fst (the (ds_grid_create ty_real 2 1 tab_empty))) 0))) = 2"
proof -
  let ?g = "\<lparr>xgrid = 2, ygrid = 1, cells = [variant_num (DFin 0), variant_num (DFin 0)]\<rparr>"
  have r: "replicate 2 v = [v, v]" for v :: variant by (simp add: numeral_2_eq_2)
  have c: "ds_grid_create ty_real 2 1 tab_empty = Some (\<lparr>entries = [0 \<mapsto> ?g], maxid = 1\<rparr>, 0)"
    by (simp add: ds_grid_create_def grids_upd_def tab_empty_def grid_new_def grid_clear_def row_major_def
        cell_upd_def cell_index_def upto.simps variant_assign_def variant_default_def variant_num_def r)
  have "(grid_step ty_real (\<lambda>xs. xs))\<^sup>*\<^sup>* tab_empty \<lparr>entries = [0 \<mapsto> ?g], maxid = 1\<rparr>"
    using grid_step.create[OF c] by blast
  then have "length (cells ?g) = unat (xgrid ?g * ygrid ?g)"
    by (rule grid_reachable_shape[where gid = 0, rotated]) simp_all
  then show ?thesis using c by simp
qed

theorem ds_grid_resize_get_witness:
  "\<exists>t'. ds_grid_resize ty_real 0 1 2 grids_example = Some t' \<and>
     ds_grid_get ty_real 0 0 0 t' = Some (variant_num (DFin 1)) \<and>
     ds_grid_get ty_real 0 0 1 t' = Some (variant_default ty_real)"
proof -
  obtain t' where t': "ds_grid_resize ty_real 0 1 2 grids_example = Some t'"
    "\<forall>x y. x < 1 \<longrightarrow> y < 2 \<longrightarrow> ds_grid_get ty_real 0 x y t' =
      Some (if x < xgrid grid_example \<and> y < ygrid grid_example
        then variant_assign (variant_default ty_real) (the (ds_grid_get ty_real 0 x y grids_example))
        else variant_default ty_real)"
    using ds_grid_resize_get[OF grid_example_wf(2,1), of 1 2 ty_real] by auto
  have "ds_grid_get ty_real 0 0 0 t' = Some (variant_num (DFin 1))"
    using t'(2)[rule_format, of 0 0] by (simp add: grid_example_eval)
  moreover have "ds_grid_get ty_real 0 0 1 t' = Some (variant_default ty_real)"
    using t'(2)[rule_format, of 0 1] by (simp add: grid_example_eval)
  ultimately show ?thesis using t'(1) by blast
qed

theorem ds_grid_create_fresh_witness:
  "\<exists>t' k. ds_grid_create ty_undefined 3 4 grids_example = Some (t', k) \<and> \<not> ds_grid_exists k grids_example \<and>
     ds_grid_get ty_undefined k 2 3 t' = Some (variant_num (DFin 0))"
proof -
  have "\<forall>j g. entries grids_example j = Some g \<longrightarrow> j < maxid grids_example"
    by (auto simp: grids_example_def split: if_splits)
  then obtain t' k where "ds_grid_create ty_undefined 3 4 grids_example = Some (t', k)"
    "\<not> ds_grid_exists k grids_example"
    "\<forall>x y. x < 3 \<longrightarrow> y < 4 \<longrightarrow> ds_grid_get ty_undefined k x y t' = Some (variant_num (DFin 0))"
    using ds_grid_create_fresh[of grids_example 3 4 ty_undefined] by auto
  then show ?thesis by (intro exI[of _ t'] exI[of _ k]) simp
qed

end
