(* ===== verification/DsMultimap.thy ===== *)
theory DsMultimap
  imports DsHandles
begin

text \<open>
  \<open>std::multimap<K, V, less>\<close> as the sequence an iterator walks, in the order of the
  keys.  The standard requires the comparison to be a strict weak order; it is not one
  on every set of \<open>variant\<close> keys, so an operation whose keys violate the requirement has
  no defined result (\<open>swo_on\<close>).  Positions are iterators; \<open>length m\<close> is \<open>end()\<close>.

  The locale is the contract of a comparison on a set of keys, and the lemmas inside
  describe the container by the queue of values of each key: insertion appends to it,
  \<open>find\<close> and \<open>erase\<close> work at its front.  That \<open>find\<close> returns the first of several equivalent elements is
  what libstdc++ does; the standard leaves the choice open.
\<close>

section \<open>The container\<close>

definition swo_on :: "('k \<Rightarrow> 'k \<Rightarrow> bool) \<Rightarrow> 'k list \<Rightarrow> bool" where
  "swo_on lt ks = ((\<forall>a \<in> set ks. \<not> lt a a) \<and> (\<forall>a \<in> set ks. \<forall>b \<in> set ks. \<forall>c \<in> set ks.
     (lt a b \<and> lt b c \<longrightarrow> lt a c) \<and>
     (\<not> lt a b \<and> \<not> lt b a \<and> \<not> lt b c \<and> \<not> lt c b \<longrightarrow> \<not> lt a c \<and> \<not> lt c a)))"

definition mm_insert :: "('k \<Rightarrow> 'k \<Rightarrow> bool) \<Rightarrow> 'k \<Rightarrow> 'v \<Rightarrow> ('k \<times> 'v) list \<Rightarrow> ('k \<times> 'v) list option" where
  "mm_insert lt k v m = (if swo_on lt (k # map fst m)
     then Some (takeWhile (\<lambda>p. \<not> lt k (fst p)) m @ (k, v) # dropWhile (\<lambda>p. \<not> lt k (fst p)) m) else None)"

definition mm_find :: "('k \<Rightarrow> 'k \<Rightarrow> bool) \<Rightarrow> 'k \<Rightarrow> ('k \<times> 'v) list \<Rightarrow> nat option" where
  "mm_find lt k m = (if swo_on lt (k # map fst m)
     then Some (let i = length (takeWhile (\<lambda>p. lt (fst p) k) m) in
       if i < length m \<and> \<not> lt k (fst (m ! i)) then i else length m) else None)"

definition mm_erase :: "nat \<Rightarrow> ('k \<times> 'v) list \<Rightarrow> ('k \<times> 'v) list option" where
  "mm_erase i m = (if i < length m then Some (take i m @ drop (Suc i) m) else None)"

definition mm_erase_range :: "nat \<Rightarrow> nat \<Rightarrow> ('k \<times> 'v) list \<Rightarrow> ('k \<times> 'v) list option" where
  "mm_erase_range i j m = (if i \<le> j \<and> j \<le> length m then Some (take i m @ drop j m) else None)"

section \<open>Under a strict weak order\<close>

locale strict_weak =
  fixes lt :: "'k \<Rightarrow> 'k \<Rightarrow> bool" and K :: "'k set"
  assumes lt_irrefl: "a \<in> K \<Longrightarrow> \<not> lt a a"
    and lt_trans: "\<lbrakk>a \<in> K; b \<in> K; c \<in> K; lt a b; lt b c\<rbrakk> \<Longrightarrow> lt a c"
    and lt_incomp: "\<lbrakk>a \<in> K; b \<in> K; c \<in> K; \<not> lt a b; \<not> lt b a; \<not> lt b c; \<not> lt c b\<rbrakk> \<Longrightarrow> \<not> lt a c"
begin

definition eqv :: "'k \<Rightarrow> 'k \<Rightarrow> bool" where
  "eqv a b = (\<not> lt a b \<and> \<not> lt b a)"

definition mm_ok :: "('k \<times> 'v) list \<Rightarrow> bool" where
  "mm_ok m = (sorted_wrt (\<lambda>p q. \<not> lt (fst q) (fst p)) m \<and> fst ` set m \<subseteq> K)"

definition vals :: "'k \<Rightarrow> ('k \<times> 'v) list \<Rightarrow> 'v list" where
  "vals k m = map snd (filter (\<lambda>p. eqv k (fst p)) m)"

lemma swo_on_K:
  assumes "set ks \<subseteq> K"
  shows "swo_on lt ks"
proof -
  have m: "a \<in> K" if "a \<in> set ks" for a using assms that by blast
  show ?thesis unfolding swo_on_def
  proof (intro conjI ballI impI)
    fix a b c assume ks: "a \<in> set ks" "b \<in> set ks" "c \<in> set ks"
    show "lt a c" if "lt a b \<and> lt b c" using lt_trans[OF ks[THEN m]] that by blast
    assume i: "\<not> lt a b \<and> \<not> lt b a \<and> \<not> lt b c \<and> \<not> lt c b"
    show "\<not> lt a c" using lt_incomp[OF ks[THEN m]] i by blast
    show "\<not> lt c a" using lt_incomp[OF ks(3,2,1)[THEN m]] i by blast
  qed (rule lt_irrefl[OF m])
qed

lemma lt_asym: "\<lbrakk>a \<in> K; b \<in> K; lt a b\<rbrakk> \<Longrightarrow> \<not> lt b a"
  using lt_irrefl lt_trans by blast

lemma lt_between: "\<lbrakk>a \<in> K; b \<in> K; c \<in> K; lt a c\<rbrakk> \<Longrightarrow> lt a b \<or> lt b c"
  using lt_trans[of b a c] lt_trans[of a c b] lt_incomp[of a b c] by argo

lemma eqv_refl [simp]: "a \<in> K \<Longrightarrow> eqv a a"
  by (simp add: eqv_def lt_irrefl)

lemma eqv_sym: "eqv a b \<Longrightarrow> eqv b a"
  by (simp add: eqv_def)

lemma eqv_trans: "\<lbrakk>a \<in> K; b \<in> K; c \<in> K; eqv a b; eqv b c\<rbrakk> \<Longrightarrow> eqv a c"
  unfolding eqv_def using lt_incomp[of a b c] lt_incomp[of c b a] by argo

lemma eqv_cong: "\<lbrakk>a \<in> K; b \<in> K; c \<in> K; eqv a b\<rbrakk> \<Longrightarrow> eqv a c = eqv b c"
  using eqv_trans[of a b c] eqv_trans[of b a c] eqv_sym[of a b] by argo

lemma vals_append: "vals k (m @ n) = vals k m @ vals k n"
  by (simp add: vals_def)

lemma vals_empty: "(\<And>p. p \<in> set m \<Longrightarrow> \<not> eqv k (fst p)) \<Longrightarrow> vals k m = []"
  by (simp add: vals_def)

text \<open>Where a sorted sequence is cut at a key: nothing equivalent to it is on the far side.\<close>

lemma mm_ok_Nil [simp]: "mm_ok []"
  by (simp add: mm_ok_def)

lemma mm_ok_Cons: "mm_ok (p # m) \<longleftrightarrow> fst p \<in> K \<and> mm_ok m \<and> (\<forall>q \<in> set m. \<not> lt (fst q) (fst p))"
  by (auto simp: mm_ok_def)

lemma mm_ok_K: "mm_ok m \<Longrightarrow> p \<in> set m \<Longrightarrow> fst p \<in> K"
  by (auto simp: mm_ok_def)

lemma all_above:
  assumes "mm_ok (p # m)" and "k \<in> K" and "lt k (fst p)" and "q \<in> set m"
  shows "lt k (fst q)"
  using assms lt_between[of k "fst q" "fst p"] mm_ok_K[of m q] by (auto simp: mm_ok_Cons)

lemma all_not_below:
  assumes "mm_ok (p # m)" and "k \<in> K" and "\<not> lt (fst p) k" and "q \<in> set m"
  shows "\<not> lt (fst q) k"
  using assms lt_between[of "fst q" "fst p" k] mm_ok_K[of m q] by (auto simp: mm_ok_Cons)

lemma upper_part:
  "mm_ok m \<Longrightarrow> k \<in> K \<Longrightarrow> \<forall>p \<in> set (dropWhile (\<lambda>p. \<not> lt k (fst p)) m). lt k (fst p)"
proof (induction m)
  case (Cons p m)
  show ?case
  proof (cases "lt k (fst p)")
    case True
    have "\<forall>q \<in> set m. lt k (fst q)" by (rule ballI) (rule all_above[OF Cons.prems True])
    then show ?thesis using True by simp
  next
    case False
    have "mm_ok m" using Cons.prems(1) unfolding mm_ok_Cons by blast
    have d: "dropWhile (\<lambda>p. \<not> lt k (fst p)) (p # m) = dropWhile (\<lambda>p. \<not> lt k (fst p)) m" using False by simp
    show ?thesis unfolding d by (rule Cons.IH[OF \<open>mm_ok m\<close> Cons.prems(2)])
  qed
qed simp

lemma lower_part:
  "mm_ok m \<Longrightarrow> k \<in> K \<Longrightarrow> \<forall>p \<in> set (dropWhile (\<lambda>p. lt (fst p) k) m). \<not> lt (fst p) k"
proof (induction m)
  case (Cons p m)
  show ?case
  proof (cases "lt (fst p) k")
    case False
    have "\<forall>q \<in> set m. \<not> lt (fst q) k" by (rule ballI) (rule all_not_below[OF Cons.prems False])
    then show ?thesis using False by simp
  next
    case True
    have "mm_ok m" using Cons.prems(1) unfolding mm_ok_Cons by blast
    have d: "dropWhile (\<lambda>p. lt (fst p) k) (p # m) = dropWhile (\<lambda>p. lt (fst p) k) m" using True by simp
    show ?thesis unfolding d by (rule Cons.IH[OF \<open>mm_ok m\<close> Cons.prems(2)])
  qed
qed simp

lemma mm_ok_append: "mm_ok (m @ n) \<longleftrightarrow> mm_ok m \<and> mm_ok n \<and> (\<forall>p \<in> set m. \<forall>q \<in> set n. \<not> lt (fst q) (fst p))"
  by (auto simp: mm_ok_def sorted_wrt_append)

text \<open>No key equivalent to \<open>k\<close> lies strictly above or strictly below it.\<close>

lemma vals_above:
  assumes "\<forall>p \<in> set m. lt k (fst p) \<or> lt (fst p) k" and "fst ` set m \<subseteq> K" and "k \<in> K" and "j \<in> K" and "eqv j k"
  shows "vals j m = []"
proof (rule vals_empty)
  fix p assume p: "p \<in> set m"
  have "\<not> eqv k (fst p)" using assms(1) p by (auto simp: eqv_def)
  then show "\<not> eqv j (fst p)" using eqv_cong[OF assms(4,3) _ assms(5)] assms(2) p by blast
qed

lemma insert_ok:
  assumes "mm_ok m" and "k \<in> K"
  shows "\<exists>m'. mm_insert lt k v m = Some m' \<and> mm_ok m' \<and> mset m' = add_mset (k, v) (mset m) \<and>
    (\<forall>j \<in> K. vals j m' = vals j m @ (if eqv j k then [v] else []))"
proof -
  define a b where "a = takeWhile (\<lambda>p. \<not> lt k (fst p)) m" and "b = dropWhile (\<lambda>p. \<not> lt k (fst p)) m"
  have m: "m = a @ b" by (simp add: a_def b_def)
  have ua: "\<forall>p \<in> set a. \<not> lt k (fst p)" by (auto simp: a_def dest: set_takeWhileD)
  have ub: "\<forall>p \<in> set b. lt k (fst p)" unfolding b_def by (rule upper_part[OF assms])
  have ok: "mm_ok a" "mm_ok b" "\<forall>p \<in> set a. \<forall>q \<in> set b. \<not> lt (fst q) (fst p)"
    using assms(1) unfolding m mm_ok_append by blast+
  have "\<forall>q \<in> set b. \<not> lt (fst q) k" using ub lt_asym[OF assms(2)] mm_ok_K[OF ok(2)] by blast
  then have "mm_ok (a @ (k, v) # b)"
    using ok ua assms(2) by (auto simp: mm_ok_append mm_ok_Cons)
  moreover have "mm_insert lt k v m = Some (a @ (k, v) # b)"
    using assms swo_on_K[of "k # map fst m"] by (auto simp: mm_insert_def mm_ok_def a_def b_def)
  moreover have "mset (a @ (k, v) # b) = add_mset (k, v) (mset m)" by (simp add: m)
  moreover have "vals j (a @ (k, v) # b) = vals j m @ (if eqv j k then [v] else [])" if j: "j \<in> K" for j
  proof (cases "eqv j k")
    case True
    have "vals j b = []" by (rule vals_above[of b k j]) (use ub ok(2) assms(2) j True in \<open>auto simp: mm_ok_def\<close>)
    then show ?thesis using True unfolding m vals_append by (simp add: vals_def)
  next
    case False
    then show ?thesis unfolding m vals_append by (simp add: vals_def)
  qed
  ultimately show ?thesis by blast
qed

text \<open>What \<open>find\<close> returns: a split of the sequence at the first element of the key, or the end.\<close>

lemma find_split:
  assumes "mm_ok m" and "k \<in> K"
  shows "(mm_find lt k m = Some (length m) \<and> vals k m = []) \<or>
    (\<exists>a p b. m = a @ p # b \<and> mm_find lt k m = Some (length a) \<and> eqv k (fst p) \<and> (\<forall>q \<in> set a. lt (fst q) k))"
proof -
  define a c where "a = takeWhile (\<lambda>p. lt (fst p) k) m" and "c = dropWhile (\<lambda>p. lt (fst p) k) m"
  have m: "m = a @ c" by (simp add: a_def c_def)
  have la: "\<forall>p \<in> set a. lt (fst p) k" by (auto simp: a_def dest: set_takeWhileD)
  have lc: "\<forall>p \<in> set c. \<not> lt (fst p) k" unfolding c_def by (rule lower_part[OF assms])
  have f: "mm_find lt k m = Some (if length a < length m \<and> \<not> lt k (fst (m ! length a)) then length a else length m)"
    using assms swo_on_K[of "k # map fst m"] by (auto simp: mm_find_def mm_ok_def a_def Let_def)
  have none: "vals k m = []" if "\<forall>p \<in> set c. lt k (fst p)"
    by (rule vals_above[of m k k]) (use la that m assms in \<open>auto simp: mm_ok_def\<close>)
  show ?thesis
  proof (cases c)
    case Nil
    then show ?thesis using f none m by simp
  next
    case (Cons p b)
    have mp: "m ! length a = p" "length a < length m" by (simp_all add: m Cons)
    have "mm_ok (p # b)" using assms(1) unfolding m Cons mm_ok_append by blast
    then have above: "\<forall>q \<in> set c. lt k (fst q)" if "lt k (fst p)"
      unfolding Cons using that all_above[OF _ assms(2) that] by simp
    show ?thesis
    proof (cases "lt k (fst p)")
      case True
      then show ?thesis using f mp none[OF above[OF True]] by simp
    next
      case False
      then have "eqv k (fst p)" using lc Cons by (simp add: eqv_def)
      moreover have "mm_find lt k m = Some (length a)" using f mp False by simp
      moreover have "m = a @ p # b" by (simp add: m Cons)
      ultimately show ?thesis using la by blast
    qed
  qed
qed

lemma erase_split:
  assumes "mm_ok (a @ p # b)" and "k \<in> K" and "eqv k (fst p)" and "\<forall>q \<in> set a. lt (fst q) k"
  shows "mm_erase (length a) (a @ p # b) = Some (a @ b)" and "mm_ok (a @ b)"
    and "vals k (a @ p # b) = snd p # vals k (a @ b)"
    and "j \<in> K \<Longrightarrow> vals j (a @ b) = (if eqv j k then tl (vals j (a @ p # b)) else vals j (a @ p # b))"
proof -
  have ok: "mm_ok a" "fst p \<in> K" using assms(1) by (auto simp: mm_ok_append mm_ok_Cons)
  have va: "vals j a = []" if "j \<in> K" "eqv j k" for j
    by (rule vals_above[of a k j]) (use assms that ok in \<open>auto simp: mm_ok_def\<close>)
  show "mm_erase (length a) (a @ p # b) = Some (a @ b)" by (simp add: mm_erase_def)
  show "mm_ok (a @ b)" using assms(1) by (auto simp: mm_ok_append mm_ok_Cons)
  show "vals k (a @ p # b) = snd p # vals k (a @ b)"
    unfolding vals_append using va[OF assms(2)] assms(2,3) by (simp add: vals_def)
  show "vals j (a @ b) = (if eqv j k then tl (vals j (a @ p # b)) else vals j (a @ p # b))" if j: "j \<in> K"
  proof (cases "eqv j k")
    case True
    then have "eqv j (fst p)" using eqv_trans[OF j assms(2) ok(2)] assms(3) by blast
    then show ?thesis unfolding vals_append using va[OF j True] True by (simp add: vals_def)
  next
    case False
    then have "\<not> eqv j (fst p)" using eqv_trans[OF j ok(2) assms(2)] assms(3) eqv_sym by blast
    then show ?thesis using False unfolding vals_append by (simp add: vals_def)
  qed
qed

end

section \<open>Keys of type variant\<close>

interpretation whole_keys: strict_weak variant_lt "{v. int_real v}"
  by unfold_locales (auto simp: int_real_cmp)

lemma string_lt: "vtype a = ty_string \<Longrightarrow> vtype b = ty_string \<Longrightarrow> variant_lt a b \<longleftrightarrow> sval a < sval b"
  by (simp add: variant_lt_def)

interpretation string_keys: strict_weak variant_lt "{v. vtype v = ty_string}"
  by unfold_locales (auto simp: string_lt)

lemma whole_keys_eqv: "int_real a \<Longrightarrow> int_real b \<Longrightarrow> whole_keys.eqv a b \<longleftrightarrow> dval (rval a) = dval (rval b)"
  by (auto simp: whole_keys.eqv_def int_real_cmp)

lemma string_keys_eqv:
  "vtype a = ty_string \<Longrightarrow> vtype b = ty_string \<Longrightarrow> string_keys.eqv a b \<longleftrightarrow> sval a = sval b"
  by (auto simp: string_keys.eqv_def string_lt)

text \<open>C19. The comparison of \<open>variant\<close> keys breaks the requirement of \<open>std::multimap\<close> and
  \<open>std::sort\<close> as soon as a string and two whole numbers meet of which none is negative and the first is less than the
  second: the string compares as equivalent to both, and they are not equivalent to each other.\<close>

theorem variant_lt_mixed_not_weak_order:
  assumes "int_real a" and "int_real b" and "0 \<le> dval (rval a)" and "dval (rval a) < dval (rval b)"
  shows "\<not> swo_on variant_lt [a, variant_str s, b]"
proof -
  have w: "whole (rval (variant_str s))" "dval (rval (variant_str s)) = 0" "vtype (variant_str s) = ty_string"
    by (simp_all add: variant_str_def whole_def)
  have t: "vtype a \<noteq> ty_string" "vtype b \<noteq> ty_string" using assms(1,2) by (auto simp: int_real_def)
  have wa: "whole (rval a)" "whole (rval b)" using assms(1,2) by (auto simp: int_real_def)
  have "\<not> variant_lt a (variant_str s)" "\<not> variant_lt b (variant_str s)"
    "\<not> variant_lt (variant_str s) a" "\<not> variant_lt (variant_str s) b"
    using t w assms(3,4) whole_cmp(1)[OF wa(1) w(1)] whole_cmp(1)[OF wa(2) w(1)]
    by (simp_all add: variant_lt_def)
  moreover have "variant_lt a b" using assms by (simp add: int_real_cmp)
  ultimately show ?thesis by (auto simp: swo_on_def)
qed

theorem variant_lt_mixed_not_weak_order_witness:
  "\<not> swo_on variant_lt [variant_num (DFin 1), variant_str ''a'', variant_num (DFin 2)]"
  by (rule variant_lt_mixed_not_weak_order) (simp_all add: int_real_def whole_def variant_num_def)

end
