(* ===== verification/DsMap.thy ===== *)
theory DsMap
  imports DsMultimap
begin

text \<open>
  The \<open>ds_map_*\<close> functions of \<open>Extensions/DataStructures/data_structures.cpp\<close>: a table of
  multimaps from \<open>variant\<close> to \<open>variant\<close>.  Every access goes through
  \<open>map::operator[]\<close> and so may add an empty map to the table, which is why queries
  return a table as well.  The overloads of \<open>ds_map_delete\<close> and \<open>ds_map_exists\<close> have
  names of their own (\<open>ds_map_delete_range\<close>, \<open>ds_map_exists_key\<close>).
\<close>

type_synonym vmap = "(variant \<times> variant) list"
type_synonym maps = "vmap table"

section \<open>Functions\<close>

definition ds_map_create :: "maps \<Rightarrow> maps \<times> u32" where
  "ds_map_create = tab_create []"

definition ds_map_destroy :: "u32 \<Rightarrow> maps \<Rightarrow> maps option" where
  "ds_map_destroy = tab_destroy"

definition ds_map_clear :: "u32 \<Rightarrow> maps \<Rightarrow> maps option" where
  "ds_map_clear k = tab_upd [] k (\<lambda>_. Some [])"

definition ds_map_copy :: "u32 \<Rightarrow> u32 \<Rightarrow> maps \<Rightarrow> maps" where
  "ds_map_copy k source = tab_copy [] k source"

definition ds_map_size :: "u32 \<Rightarrow> maps \<Rightarrow> (maps \<times> u32) option" where
  "ds_map_size k = tab_qry [] k (\<lambda>m. Some (word_of_nat (length m)))"

definition ds_map_empty :: "u32 \<Rightarrow> maps \<Rightarrow> (maps \<times> bool) option" where
  "ds_map_empty k = tab_qry [] k (\<lambda>m. Some (m = []))"

definition ds_map_add :: "u32 \<Rightarrow> variant \<Rightarrow> variant \<Rightarrow> maps \<Rightarrow> maps option" where
  "ds_map_add k key val = tab_upd [] k (mm_insert variant_lt key val)"

definition ds_map_replace :: "u32 \<Rightarrow> variant \<Rightarrow> variant \<Rightarrow> maps \<Rightarrow> maps option" where
  "ds_map_replace k key val = tab_upd [] k (\<lambda>m. Option.bind (mm_find variant_lt key m) (\<lambda>it.
     if it \<noteq> length m then Option.bind (mm_erase it m) (mm_insert variant_lt key val) else Some m))"

definition ds_map_overwrite :: "u32 \<Rightarrow> variant \<Rightarrow> variant \<Rightarrow> maps \<Rightarrow> maps option" where
  "ds_map_overwrite k key val = tab_upd [] k (\<lambda>m. Option.bind (mm_find variant_lt key m) (\<lambda>it.
     Option.bind (if it \<noteq> length m then mm_erase it m else Some m) (mm_insert variant_lt key val)))"

definition ds_map_delete :: "u32 \<Rightarrow> variant \<Rightarrow> maps \<Rightarrow> maps option" where
  "ds_map_delete k key = tab_upd [] k (\<lambda>m. Option.bind (mm_find variant_lt key m) (\<lambda>it.
     if it \<noteq> length m then mm_erase it m else Some m))"

definition ds_map_delete_range :: "u32 \<Rightarrow> variant \<Rightarrow> variant \<Rightarrow> maps \<Rightarrow> maps option" where
  "ds_map_delete_range k frst lst = tab_upd [] k (\<lambda>m.
     Option.bind (mm_find variant_lt frst m) (\<lambda>itf. Option.bind (mm_find variant_lt lst m) (\<lambda>itl.
       if itf \<noteq> length m \<and> itl \<noteq> length m then mm_erase_range itf itl m else Some m)))"

definition ds_map_exists_key :: "u32 \<Rightarrow> variant \<Rightarrow> maps \<Rightarrow> (maps \<times> bool) option" where
  "ds_map_exists_key k key = tab_qry [] k (\<lambda>m. map_option (\<lambda>it. it \<noteq> length m) (mm_find variant_lt key m))"

definition ds_map_find_value :: "vty \<Rightarrow> u32 \<Rightarrow> variant \<Rightarrow> maps \<Rightarrow> (maps \<times> variant) option" where
  "ds_map_find_value dt k key = tab_qry [] k (\<lambda>m. map_option
     (\<lambda>it. if it = length m then variant_default dt else snd (m ! it)) (mm_find variant_lt key m))"

text \<open>The loop over the keys, with the variable \<open>key_check\<close> it assigns.\<close>

fun first_key :: "(variant \<Rightarrow> bool) \<Rightarrow> variant \<Rightarrow> variant list \<Rightarrow> variant option" where
  "first_key P key_check [] = None"
| "first_key P key_check (k # ks) = (let kc = variant_assign key_check k in
     if P kc then Some kc else first_key P kc ks)"

definition ds_map_find_previous :: "vty \<Rightarrow> u32 \<Rightarrow> variant \<Rightarrow> maps \<Rightarrow> (maps \<times> variant) option" where
  "ds_map_find_previous dt k key = tab_qry [] k (\<lambda>m. Some (case
      first_key (\<lambda>kc. variant_lt kc key) (variant_default dt) (map fst (rev m)) of
        Some kc \<Rightarrow> kc | None \<Rightarrow> variant_default dt))"

definition ds_map_find_next :: "vty \<Rightarrow> u32 \<Rightarrow> variant \<Rightarrow> maps \<Rightarrow> (maps \<times> variant) option" where
  "ds_map_find_next dt k key = tab_qry [] k (\<lambda>m. Some (case
      first_key (\<lambda>kc. variant_gt kc key) (variant_default dt) (map fst m) of
        Some kc \<Rightarrow> kc | None \<Rightarrow> variant_default dt))"

definition ds_map_find_first :: "vty \<Rightarrow> u32 \<Rightarrow> maps \<Rightarrow> (maps \<times> variant) option" where
  "ds_map_find_first dt k = tab_qry [] k (\<lambda>m. Some (case m of [] \<Rightarrow> variant_default dt | p # _ \<Rightarrow> fst p))"

definition ds_map_find_last :: "vty \<Rightarrow> u32 \<Rightarrow> maps \<Rightarrow> (maps \<times> variant) option" where
  "ds_map_find_last dt k = tab_qry [] k (\<lambda>m. Some (case rev m of [] \<Rightarrow> variant_default dt | p # _ \<Rightarrow> fst p))"

definition ds_map_exists :: "u32 \<Rightarrow> maps \<Rightarrow> bool" where
  "ds_map_exists = tab_exists"

definition ds_map_duplicate :: "u32 \<Rightarrow> maps \<Rightarrow> maps \<times> u32" where
  "ds_map_duplicate = tab_duplicate []"

lemmas ds_map_defs = ds_map_create_def ds_map_destroy_def ds_map_clear_def ds_map_copy_def ds_map_size_def
  ds_map_empty_def ds_map_add_def ds_map_replace_def ds_map_overwrite_def ds_map_delete_def
  ds_map_delete_range_def ds_map_exists_key_def ds_map_find_value_def ds_map_find_previous_def
  ds_map_find_next_def ds_map_find_first_def ds_map_find_last_def ds_map_exists_def ds_map_duplicate_def

section \<open>String-keyed maps\<close>

text \<open>
  The usual map of a script: all keys strings.  \<open>smap_ok\<close> is its invariant, and
  \<open>svals t k s\<close> the values stored under a key, oldest first.
\<close>

definition smap_ok :: "u32 \<Rightarrow> maps \<Rightarrow> bool" where
  "smap_ok k t = (\<exists>m. entries t k = Some m \<and> string_keys.mm_ok m)"

definition svals :: "maps \<Rightarrow> u32 \<Rightarrow> string \<Rightarrow> variant list" where
  "svals t k s = (case entries t k of None \<Rightarrow> [] | Some m \<Rightarrow> string_keys.vals (variant_str s) m)"

lemma str_key [simp]: "variant_str s \<in> {v. vtype v = ty_string}" "vtype (variant_str s) = ty_string" "sval (variant_str s) = s"
  by (simp_all add: variant_str_def)

lemma str_eqv [simp]: "string_keys.eqv (variant_str s) (variant_str u) \<longleftrightarrow> s = u"
  by (simp add: string_keys_eqv)

lemma map_add_step:
  assumes "smap_ok k t"
  shows "\<exists>t'. ds_map_add k (variant_str s) v t = Some t' \<and> smap_ok k t' \<and>
    (\<forall>u. svals t' k u = svals t k u @ (if u = s then [v] else []))"
proof -
  obtain m where m: "entries t k = Some m" "string_keys.mm_ok m" using assms by (auto simp: smap_ok_def)
  obtain m' where m': "mm_insert variant_lt (variant_str s) v m = Some m'" "string_keys.mm_ok m'"
    "\<forall>j \<in> {v. vtype v = ty_string}. string_keys.vals j m' =
       string_keys.vals j m @ (if string_keys.eqv j (variant_str s) then [v] else [])"
    using string_keys.insert_ok[OF m(2) str_key(1)] by blast
  have "string_keys.vals (variant_str u) m' = string_keys.vals (variant_str u) m @ (if u = s then [v] else [])" for u
    using m'(3)[rule_format, OF str_key(1)] by simp
  then show ?thesis using m(1) m'(1,2) by (simp add: ds_map_add_def smap_ok_def svals_def)
qed

lemma map_find_step:
  assumes "smap_ok k t"
  shows "ds_map_find_value dt k (variant_str s) t = Some (t, case svals t k s of [] \<Rightarrow> variant_default dt | v # _ \<Rightarrow> v)"
    and "ds_map_exists_key k (variant_str s) t = Some (t, svals t k s \<noteq> [])"
proof -
  obtain m where m: "entries t k = Some m" "string_keys.mm_ok m" using assms by (auto simp: smap_ok_def)
  consider "mm_find variant_lt (variant_str s) m = Some (length m)" "string_keys.vals (variant_str s) m = []"
    | a p b where "m = a @ p # b" "mm_find variant_lt (variant_str s) m = Some (length a)"
        "string_keys.eqv (variant_str s) (fst p)" "\<forall>q \<in> set a. variant_lt (fst q) (variant_str s)"
    using string_keys.find_split[OF m(2) str_key(1)] by blast
  then have "ds_map_find_value dt k (variant_str s) t = Some (t, case svals t k s of [] \<Rightarrow> variant_default dt | v # _ \<Rightarrow> v)
    \<and> ds_map_exists_key k (variant_str s) t = Some (t, svals t k s \<noteq> [])"
  proof cases
    case (2 a p b)
    have "string_keys.vals (variant_str s) m = snd p # string_keys.vals (variant_str s) (a @ b)"
      using string_keys.erase_split(3)[OF _ str_key(1) 2(3,4)] m(2) 2(1) by blast
    then show ?thesis using 2 m(1) by (simp add: ds_map_find_value_def ds_map_exists_key_def svals_def)
  qed (use m(1) in \<open>simp add: ds_map_find_value_def ds_map_exists_key_def svals_def\<close>)
  then show "ds_map_find_value dt k (variant_str s) t = Some (t, case svals t k s of [] \<Rightarrow> variant_default dt | v # _ \<Rightarrow> v)"
    "ds_map_exists_key k (variant_str s) t = Some (t, svals t k s \<noteq> [])" by blast+
qed

lemma map_delete_step:
  assumes "smap_ok k t"
  shows "\<exists>t'. ds_map_delete k (variant_str s) t = Some t' \<and> smap_ok k t' \<and>
    (\<forall>u. svals t' k u = (if u = s then tl (svals t k u) else svals t k u))"
proof -
  obtain m where m: "entries t k = Some m" "string_keys.mm_ok m" using assms by (auto simp: smap_ok_def)
  consider "mm_find variant_lt (variant_str s) m = Some (length m)" "string_keys.vals (variant_str s) m = []"
    | a p b where "m = a @ p # b" "mm_find variant_lt (variant_str s) m = Some (length a)"
        "string_keys.eqv (variant_str s) (fst p)" "\<forall>q \<in> set a. variant_lt (fst q) (variant_str s)"
    using string_keys.find_split[OF m(2) str_key(1)] by blast
  then show ?thesis
  proof cases
    case 1
    then show ?thesis using m by (auto simp: ds_map_delete_def smap_ok_def svals_def)
  next
    case (2 a p b)
    have ok: "string_keys.mm_ok (a @ p # b)" using m(2) 2(1) by simp
    note e = string_keys.erase_split[OF ok str_key(1) 2(3,4)]
    have "ds_map_delete k (variant_str s) t = Some (t\<lparr>entries := (entries t)(k \<mapsto> a @ b)\<rparr>)"
      using m(1) 2(1,2) e(1) by (simp add: ds_map_delete_def)
    moreover have "string_keys.vals (variant_str u) (a @ b) =
        (if u = s then tl (string_keys.vals (variant_str u) m) else string_keys.vals (variant_str u) m)" for u
      using e(4)[OF str_key(1), of u] 2(1) by simp
    ultimately show ?thesis using e(2) m(1) by (simp add: smap_ok_def svals_def)
  qed
qed

lemma map_replace_is_delete_add:
  assumes "smap_ok k t"
  shows "ds_map_overwrite k (variant_str s) v t =
      Option.bind (ds_map_delete k (variant_str s) t) (ds_map_add k (variant_str s) v)"
    and "ds_map_replace k (variant_str s) v t =
      (if svals t k s = [] then Some t else ds_map_overwrite k (variant_str s) v t)"
proof -
  obtain m where m: "entries t k = Some m" "string_keys.mm_ok m" using assms by (auto simp: smap_ok_def)
  have t: "t\<lparr>entries := (entries t)(k \<mapsto> m)\<rparr> = t" using m(1) by (simp add: fun_upd_idem)
  consider "mm_find variant_lt (variant_str s) m = Some (length m)" "string_keys.vals (variant_str s) m = []"
    | a p b where "m = a @ p # b" "mm_find variant_lt (variant_str s) m = Some (length a)"
        "string_keys.eqv (variant_str s) (fst p)" "\<forall>q \<in> set a. variant_lt (fst q) (variant_str s)"
    using string_keys.find_split[OF m(2) str_key(1)] by blast
  then have "ds_map_overwrite k (variant_str s) v t =
      Option.bind (ds_map_delete k (variant_str s) t) (ds_map_add k (variant_str s) v) \<and>
    ds_map_replace k (variant_str s) v t =
      (if svals t k s = [] then Some t else ds_map_overwrite k (variant_str s) v t)"
  proof cases
    case 1
    then show ?thesis using m(1) t
      by (simp add: ds_map_overwrite_def ds_map_replace_def ds_map_delete_def ds_map_add_def svals_def)
  next
    case (2 a p b)
    have ok: "string_keys.mm_ok (a @ p # b)" using m(2) 2(1) by simp
    note e = string_keys.erase_split[OF ok str_key(1) 2(3,4)]
    have "svals t k s \<noteq> []" using e(3) 2(1) m(1) by (simp add: svals_def)
    moreover have "tab_upd [] k f (t\<lparr>entries := (entries t)(k \<mapsto> c)\<rparr>) =
        map_option (\<lambda>c'. t\<lparr>entries := (entries t)(k \<mapsto> c')\<rparr>) (f c)" for f and c :: vmap
      by simp
    ultimately show ?thesis using m(1) 2(1,2) e(1)
      by (simp add: ds_map_overwrite_def ds_map_replace_def ds_map_delete_def ds_map_add_def)
  qed
  then show "ds_map_overwrite k (variant_str s) v t =
      Option.bind (ds_map_delete k (variant_str s) t) (ds_map_add k (variant_str s) v)"
    "ds_map_replace k (variant_str s) v t =
      (if svals t k s = [] then Some t else ds_map_overwrite k (variant_str s) v t)" by blast+
qed


text \<open>The key loops on string keys.\<close>

lemma first_key_strings: "\<forall>k \<in> set ks. vtype k = ty_string \<Longrightarrow> first_key P kc ks = find P ks"
  by (induction ks arbitrary: kc) (auto simp: variant_assign_string Let_def)

lemma find_sorted_first:
  assumes "sorted_wrt r xs" and "find P xs = Some x"
  shows "x \<in> set xs \<and> P x \<and> (\<forall>y \<in> set xs. P y \<longrightarrow> y = x \<or> r x y)"
  using assms by (induction xs) (auto split: if_splits)

definition skeys :: "maps \<Rightarrow> u32 \<Rightarrow> string set" where
  "skeys t k = (case entries t k of None \<Rightarrow> {} | Some m \<Rightarrow> sval ` fst ` set m)"

lemma smap_ok_keys:
  assumes "entries t k = Some m" and "string_keys.mm_ok m"
  shows "\<forall>x \<in> set (map fst m). vtype x = ty_string"
    and "sorted_wrt (\<lambda>a b. sval a \<le> sval b) (map fst m)" and "skeys t k = sval ` set (map fst m)"
proof -
  show s: "\<forall>x \<in> set (map fst m). vtype x = ty_string" using assms(2) by (auto simp: string_keys.mm_ok_def)
  have "sorted_wrt (\<lambda>p q. \<not> variant_lt (fst q) (fst p)) m" using assms(2) by (simp add: string_keys.mm_ok_def)
  then have "sorted_wrt (\<lambda>p q. sval (fst p) \<le> sval (fst q)) m"
    by (rule sorted_wrt_mono_rel[rotated]) (use s in \<open>auto simp: string_lt\<close>)
  then show "sorted_wrt (\<lambda>a b. sval a \<le> sval b) (map fst m)" by (simp add: sorted_wrt_map)
  show "skeys t k = sval ` set (map fst m)" using assms(1) by (simp add: skeys_def)
qed

section \<open>Properties\<close>

text \<open>C3. A string-keyed \<open>ds_map\<close> implements a map from keys to queues of values:
  \<open>ds_map_add\<close> appends to the queue of its key, \<open>ds_map_delete\<close> drops the oldest value,
  \<open>ds_map_replace\<close> drops the oldest and appends the new value when the key is present and
  does nothing otherwise, \<open>ds_map_overwrite\<close> does so in either case; no other key is
  affected, and the order invariant of the multimap is kept.\<close>

theorem ds_map_refines_queues:
  assumes "smap_ok k t"
  shows "\<exists>ta td tr to.
    ds_map_add k (variant_str s) v t = Some ta \<and> smap_ok k ta \<and>
      svals ta k = (svals t k)(s := svals t k s @ [v]) \<and>
    ds_map_delete k (variant_str s) t = Some td \<and> smap_ok k td \<and>
      svals td k = (svals t k)(s := tl (svals t k s)) \<and>
    ds_map_replace k (variant_str s) v t = Some tr \<and> smap_ok k tr \<and>
      svals tr k = (if svals t k s = [] then svals t k else (svals t k)(s := tl (svals t k s) @ [v])) \<and>
    ds_map_overwrite k (variant_str s) v t = Some to \<and> smap_ok k to \<and>
      svals to k = (svals t k)(s := tl (svals t k s) @ [v])"
proof -
  obtain ta where a: "ds_map_add k (variant_str s) v t = Some ta" "smap_ok k ta"
    "\<forall>u. svals ta k u = svals t k u @ (if u = s then [v] else [])"
    using map_add_step[OF assms] by blast
  obtain td where d: "ds_map_delete k (variant_str s) t = Some td" "smap_ok k td"
    "\<forall>u. svals td k u = (if u = s then tl (svals t k u) else svals t k u)"
    using map_delete_step[OF assms] by blast
  obtain to where o: "ds_map_add k (variant_str s) v td = Some to" "smap_ok k to"
    "\<forall>u. svals to k u = svals td k u @ (if u = s then [v] else [])"
    using map_add_step[OF d(2)] by blast
  note r = map_replace_is_delete_add[OF assms]
  have ow: "ds_map_overwrite k (variant_str s) v t = Some to" using r(1) d(1) o(1) by simp
  let ?tr = "if svals t k s = [] then t else to"
  have "ds_map_replace k (variant_str s) v t = Some ?tr" using r(2) ow by simp
  then show ?thesis using a d o ow assms
    by (intro exI[of _ ta] exI[of _ td] exI[of _ ?tr] exI[of _ to]) (auto simp: fun_eq_iff)
qed

text \<open>\<open>ds_map_find_value\<close> returns the oldest value of its key, not the one added last, and
  \<open>variant()\<close> exactly when \<open>ds_map_exists\<close> denies the key; neither changes the table.\<close>

theorem ds_map_find_oldest:
  assumes "smap_ok k t"
  shows "ds_map_find_value dt k (variant_str s) t =
      Some (t, if svals t k s = [] then variant_default dt else hd (svals t k s)) \<and>
    ds_map_exists_key k (variant_str s) t = Some (t, svals t k s \<noteq> [])"
  using map_find_step[OF assms] by (auto split: list.splits)

text \<open>C31. In a map whose keys are strings \<open>ds_map_find_next\<close> returns the smallest key larger than the one given, in the byte
  order of strings, and \<open>variant()\<close> when there is none.\<close>

theorem ds_map_find_next_least:
  assumes "smap_ok k t"
  shows "if \<exists>u \<in> skeys t k. s < u
    then \<exists>r. ds_map_find_next dt k (variant_str s) t = Some (t, r) \<and> vtype r = ty_string \<and>
      sval r \<in> skeys t k \<and> s < sval r \<and> (\<forall>u \<in> skeys t k. s < u \<longrightarrow> sval r \<le> u)
    else ds_map_find_next dt k (variant_str s) t = Some (t, variant_default dt)"
proof -
  obtain m where m: "entries t k = Some m" "string_keys.mm_ok m" using assms by (auto simp: smap_ok_def)
  note sk = smap_ok_keys[OF m]
  let ?P = "\<lambda>kc. variant_gt kc (variant_str s)"
  have P: "?P x \<longleftrightarrow> s < sval x" if "x \<in> set (map fst m)" for x
    using bspec[OF sk(1) that] by (simp add: variant_gt_def)
  have f: "ds_map_find_next dt k (variant_str s) t =
      Some (t, case find ?P (map fst m) of Some kc \<Rightarrow> kc | None \<Rightarrow> variant_default dt)"
    using m(1) first_key_strings[OF sk(1)] by (simp add: ds_map_find_next_def)
  show ?thesis
  proof (cases "find ?P (map fst m)")
    case None
    then have "\<not> (\<exists>u \<in> skeys t k. s < u)" using P sk(3) by (auto simp: find_None_iff)
    then show ?thesis using f None by simp
  next
    case (Some x)
    then have x: "x \<in> set (map fst m)" "?P x" "\<forall>y \<in> set (map fst m). ?P y \<longrightarrow> y = x \<or> sval x \<le> sval y"
      using find_sorted_first[OF sk(2)] by blast+
    have "\<exists>u \<in> skeys t k. s < u" using x(1,2) P[OF x(1)] sk(3) by blast
    moreover have "vtype x = ty_string" "sval x \<in> skeys t k" "s < sval x" using x sk(1,3) P[OF x(1)] by blast+
    moreover have "\<forall>u \<in> skeys t k. s < u \<longrightarrow> sval x \<le> u" using x(3) P sk(3) by fastforce
    ultimately show ?thesis using f Some by simp
  qed
qed

text \<open>\<open>ds_map_duplicate\<close> returns an unused id that holds a copy of the source, and leaves a
  second, empty map under the next id: that map exists although no call returned it, and
  it is what the next \<open>ds_map_create\<close> hands out.\<close>

theorem ds_map_duplicate_phantom:
  assumes "\<forall>j m. entries t j = Some m \<longrightarrow> j < maxid t" and "unat (maxid t) + 1 < 2 ^ 32"
    and "entries t source = Some c"
  shows "\<exists>t' t'' k. ds_map_duplicate source t = (t', k) \<and> \<not> ds_map_exists k t \<and> entries t' k = Some c \<and>
    ds_map_exists (k + 1) t' \<and> entries t' (k + 1) = Some [] \<and> ds_map_create t' = (t'', k + 1)"
proof -
  have b: "tab.below t" "tab.room t (Suc 0)" using assms(1,2) by (auto simp: tab.below_def tab.room_def)
  obtain t' where t': "ds_map_duplicate source t = (t', maxid t)" "entries t (maxid t) = None"
    "entries t' (maxid t) = Some c" "entries t' (maxid t + 1) = Some []"
    using tab_duplicate_copy[OF b assms(3), of "[]"] by (auto simp: ds_map_duplicate_def)
  have "maxid t' = maxid t + 1"
    using t'(1) by (auto simp: ds_map_duplicate_def tab_duplicate_def tab_insert_def tab_copy_def tab_at_def
        Let_def split: option.splits)
  then have "\<exists>t''. ds_map_create t' = (t'', maxid t + 1)"
    by (simp add: ds_map_create_def tab_create_def tab_insert_def Let_def)
  then show ?thesis using t' by (auto simp: ds_map_exists_def tab_exists_def)
qed

section \<open>Instances\<close>

definition maps_example :: maps where
  "maps_example = \<lparr>entries = [0 \<mapsto> [(variant_str ''a'', variant_num (DFin 1)), (variant_str ''c'', variant_num (DFin 2))]],
     maxid = 1\<rparr>"

lemma maps_example_ok: "smap_ok 0 maps_example"
  by (simp add: smap_ok_def maps_example_def string_keys.mm_ok_def string_lt)

lemma maps_example_svals:
  "svals maps_example 0 ''a'' = [variant_num (DFin 1)]" "svals maps_example 0 ''b'' = []"
  by (simp_all add: svals_def maps_example_def string_keys.vals_def)

theorem ds_map_refines_queues_witness:
  "\<exists>t. ds_map_replace 0 (variant_str ''a'') (variant_num (DFin 9)) maps_example = Some t \<and>
     svals t 0 ''a'' = [variant_num (DFin 9)]"
  using ds_map_refines_queues[OF maps_example_ok, of "''a''" "variant_num (DFin 9)"] maps_example_svals
  by auto

theorem ds_map_find_oldest_witness:
  "ds_map_find_value ty_real 0 (variant_str ''a'') maps_example = Some (maps_example, variant_num (DFin 1)) \<and>
   ds_map_exists_key 0 (variant_str ''b'') maps_example = Some (maps_example, False)"
  using ds_map_find_oldest[OF maps_example_ok, of ty_real "''a''"]
    ds_map_find_oldest[OF maps_example_ok, of ty_real "''b''"] maps_example_svals by simp

theorem ds_map_find_next_least_witness:
  "\<exists>r. ds_map_find_next ty_real 0 (variant_str ''b'') maps_example = Some (maps_example, r) \<and> sval r = ''c''"
proof -
  have k: "skeys maps_example 0 = {''a'', ''c''}" by (simp add: skeys_def maps_example_def)
  have "\<exists>u \<in> skeys maps_example 0. ''b'' < u" by (simp add: k)
  then obtain r where "ds_map_find_next ty_real 0 (variant_str ''b'') maps_example = Some (maps_example, r)"
    "sval r \<in> skeys maps_example 0" "''b'' < sval r"
    using ds_map_find_next_least[OF maps_example_ok, of "''b''" ty_real] by auto
  then show ?thesis unfolding k by auto
qed

theorem ds_map_duplicate_phantom_witness:
  "\<exists>t k. ds_map_duplicate 0 maps_example = (t, k) \<and> ds_map_exists (k + 1) t"
proof -
  let ?c = "[(variant_str ''a'', variant_num (DFin 1)), (variant_str ''c'', variant_num (DFin 2))]"
  have "\<forall>j m. entries maps_example j = Some m \<longrightarrow> j < maxid maps_example"
    by (auto simp: maps_example_def split: if_splits)
  moreover have "unat (maxid maps_example) + 1 < 2 ^ 32" "entries maps_example 0 = Some ?c"
    by (simp_all add: maps_example_def)
  ultimately show ?thesis using ds_map_duplicate_phantom[of maps_example 0 ?c] by blast
qed

end
