(* ===== verification/DsPriority.thy ===== *)
theory DsPriority
  imports DsMultimap
begin

text \<open>
  The \<open>ds_priority_*\<close> functions of \<open>Extensions/DataStructures/data_structures.cpp\<close>: a table
  of multimaps whose keys are the queued values and whose mapped values are the
  priorities.  The extrema are found by a scan over the priorities.
\<close>

type_synonym pqueue = "(variant \<times> variant) list"
type_synonym pqueues = "pqueue table"

section \<open>Functions\<close>

definition ds_priority_create :: "pqueues \<Rightarrow> pqueues \<times> u32" where
  "ds_priority_create = tab_create []"

definition ds_priority_destroy :: "u32 \<Rightarrow> pqueues \<Rightarrow> pqueues option" where
  "ds_priority_destroy = tab_destroy"

definition ds_priority_clear :: "u32 \<Rightarrow> pqueues \<Rightarrow> pqueues option" where
  "ds_priority_clear k = tab_upd [] k (\<lambda>_. Some [])"

definition ds_priority_copy :: "u32 \<Rightarrow> u32 \<Rightarrow> pqueues \<Rightarrow> pqueues" where
  "ds_priority_copy k source = tab_copy [] k source"

definition ds_priority_size :: "u32 \<Rightarrow> pqueues \<Rightarrow> (pqueues \<times> u32) option" where
  "ds_priority_size k = tab_qry [] k (\<lambda>m. Some (word_of_nat (length m)))"

definition ds_priority_empty :: "u32 \<Rightarrow> pqueues \<Rightarrow> (pqueues \<times> bool) option" where
  "ds_priority_empty k = tab_qry [] k (\<lambda>m. Some (m = []))"

definition ds_priority_add :: "u32 \<Rightarrow> variant \<Rightarrow> variant \<Rightarrow> pqueues \<Rightarrow> pqueues option" where
  "ds_priority_add k val prio = tab_upd [] k (mm_insert variant_lt val prio)"

definition ds_priority_change_priority :: "u32 \<Rightarrow> variant \<Rightarrow> variant \<Rightarrow> pqueues \<Rightarrow> pqueues option" where
  "ds_priority_change_priority k val prio = tab_upd [] k (\<lambda>m. Option.bind (mm_find variant_lt val m) (\<lambda>it.
     if it \<noteq> length m then Option.bind (mm_erase it m) (mm_insert variant_lt val prio) else Some m))"

definition ds_priority_find_priority :: "vty \<Rightarrow> u32 \<Rightarrow> variant \<Rightarrow> pqueues \<Rightarrow> (pqueues \<times> variant) option" where
  "ds_priority_find_priority dt k val = tab_qry [] k (\<lambda>m. map_option
     (\<lambda>it. if it = length m then variant_default dt else snd (m ! it)) (mm_find variant_lt val m))"

definition ds_priority_delete_value :: "u32 \<Rightarrow> variant \<Rightarrow> pqueues \<Rightarrow> pqueues option" where
  "ds_priority_delete_value k val = tab_upd [] k (\<lambda>m. Option.bind (mm_find variant_lt val m) (\<lambda>it.
     if it \<noteq> length m then mm_erase it m else Some m))"

definition ds_priority_value_exists :: "u32 \<Rightarrow> variant \<Rightarrow> pqueues \<Rightarrow> (pqueues \<times> bool) option" where
  "ds_priority_value_exists k val = tab_qry [] k (\<lambda>m. map_option (\<lambda>it. it \<noteq> length m) (mm_find variant_lt val m))"

text \<open>
  The scan: \<open>it\<close> walks from the second element, \<open>it_check\<close> is the position of the best
  element so far and \<open>cmp\<close> the comparison of priorities.
\<close>

fun scan :: "(variant \<Rightarrow> variant \<Rightarrow> bool) \<Rightarrow> pqueue \<Rightarrow> nat \<Rightarrow> nat \<Rightarrow> nat \<Rightarrow> nat" where
  "scan cmp m it_check it 0 = it_check"
| "scan cmp m it_check it (Suc n) =
     scan cmp m (if cmp (snd (m ! it)) (snd (m ! it_check)) then it else it_check) (Suc it) n"

definition scan_all :: "(variant \<Rightarrow> variant \<Rightarrow> bool) \<Rightarrow> pqueue \<Rightarrow> nat" where
  "scan_all cmp m = scan cmp m 0 1 (length m - 1)"

definition ds_priority_delete_min :: "u32 \<Rightarrow> pqueues \<Rightarrow> (pqueues \<times> variant) option" where
  "ds_priority_delete_min k = tab_run [] k (\<lambda>m. if m = [] then Some (m, variant_num (DFin 0))
     else let it = scan_all variant_lt m in
       map_option (\<lambda>m'. (m', fst (m ! it))) (mm_erase it m))"

definition ds_priority_find_min :: "vty \<Rightarrow> u32 \<Rightarrow> pqueues \<Rightarrow> (pqueues \<times> variant) option" where
  "ds_priority_find_min dt k = tab_qry [] k (\<lambda>m. if m = [] then Some (variant_default dt)
     else Some (fst (m ! scan_all variant_lt m)))"

definition ds_priority_delete_max :: "vty \<Rightarrow> u32 \<Rightarrow> pqueues \<Rightarrow> (pqueues \<times> variant) option" where
  "ds_priority_delete_max dt k = tab_run [] k (\<lambda>m. if m = [] then Some (m, variant_default dt)
     else let it = scan_all variant_gt m in
       map_option (\<lambda>m'. (m', fst (m ! it))) (mm_erase it m))"

definition ds_priority_find_max :: "vty \<Rightarrow> u32 \<Rightarrow> pqueues \<Rightarrow> (pqueues \<times> variant) option" where
  "ds_priority_find_max dt k = tab_qry [] k (\<lambda>m. if m = [] then Some (variant_default dt)
     else Some (fst (m ! scan_all variant_gt m)))"

definition ds_priority_exists :: "u32 \<Rightarrow> pqueues \<Rightarrow> bool" where
  "ds_priority_exists = tab_exists"

definition ds_priority_duplicate :: "u32 \<Rightarrow> pqueues \<Rightarrow> pqueues \<times> u32" where
  "ds_priority_duplicate = tab_duplicate []"

section \<open>The scan finds an extremum\<close>

definition prio_ok :: "pqueue \<Rightarrow> bool" where
  "prio_ok m = (\<forall>p \<in> set m. int_real (snd p))"

abbreviation prio :: "variant \<times> variant \<Rightarrow> rat" where
  "prio p \<equiv> dval (rval (snd p))"

lemma scan_best:
  assumes "\<And>a b. int_real a \<Longrightarrow> int_real b \<Longrightarrow> cmp a b \<longleftrightarrow> key (dval (rval a)) < (key (dval (rval b)) :: rat)"
    and "prio_ok m" and "best < it" and "it + n = length m"
    and "\<forall>j < it. key (prio (m ! best)) \<le> key (prio (m ! j))"
  shows "scan cmp m best it n < length m \<and>
    (\<forall>j < length m. key (prio (m ! scan cmp m best it n)) \<le> key (prio (m ! j)))"
  using assms(3-5)
proof (induction n arbitrary: best it)
  case (Suc n)
  let ?b = "if cmp (snd (m ! it)) (snd (m ! best)) then it else best"
  have "int_real (snd (m ! it))" "int_real (snd (m ! best))"
    using assms(2) Suc.prems by (auto simp: prio_ok_def)
  then have c: "cmp (snd (m ! it)) (snd (m ! best)) \<longleftrightarrow> key (prio (m ! it)) < key (prio (m ! best))"
    by (rule assms(1))
  have "key (prio (m ! ?b)) \<le> key (prio (m ! j))" if "j < Suc it" for j
    using that Suc.prems(3) c by (cases "j = it") (auto dest: less_SucE intro: order.strict_implies_order order.strict_trans2)
  moreover have "?b < Suc it" "Suc it + n = length m" using Suc.prems by auto
  ultimately show ?case using Suc.IH[of ?b "Suc it"] by simp
qed simp

lemma scan_all_best:
  assumes "\<And>a b. int_real a \<Longrightarrow> int_real b \<Longrightarrow> cmp a b \<longleftrightarrow> key (dval (rval a)) < (key (dval (rval b)) :: rat)"
    and "prio_ok m" and "m \<noteq> []"
  shows "scan_all cmp m < length m" and "p \<in> set m \<Longrightarrow> key (prio (m ! scan_all cmp m)) \<le> key (prio p)"
  using scan_best[where cmp = cmp and key = key, OF assms(1,2), of 0 1 "length m - 1"] assms(3)
  by (auto simp: scan_all_def in_set_conv_nth Suc_leI)

lemma scan_min:
  assumes "prio_ok m" and "m \<noteq> []"
  shows "scan_all variant_lt m < length m" and "p \<in> set m \<Longrightarrow> prio (m ! scan_all variant_lt m) \<le> prio p"
  using scan_all_best[of variant_lt "\<lambda>x. x"] assms by (auto simp: int_real_cmp)

lemma scan_max:
  assumes "prio_ok m" and "m \<noteq> []"
  shows "scan_all variant_gt m < length m" and "p \<in> set m \<Longrightarrow> prio p \<le> prio (m ! scan_all variant_gt m)"
  using scan_all_best[of variant_gt uminus] assms by (auto simp: int_real_cmp)

lemma mset_erase: "i < length m \<Longrightarrow> mset (take i m @ drop (Suc i) m) = mset m - {#m ! i#}"
proof -
  assume "i < length m"
  then have "mset m = add_mset (m ! i) (mset (take i m @ drop (Suc i) m))"
    by (metis id_take_nth_drop mset.simps(2) mset_append union_mset_add_mset_right)
  then show ?thesis by simp
qed

section \<open>Properties\<close>

text \<open>On a queue whose priorities are whole numbers, \<open>ds_priority_delete_min\<close> removes one
  element, whose priority is the least, and returns its value; the multiset of the other
  elements is kept.\<close>

theorem ds_priority_delete_min_least:
  assumes "entries t k = Some m" and "m \<noteq> []" and "prio_ok m"
  shows "\<exists>m' val p. ds_priority_delete_min k t = Some (t\<lparr>entries := (entries t)(k \<mapsto> m')\<rparr>, val) \<and>
    (val, p) \<in> set m \<and> mset m' = mset m - {#(val, p)#} \<and>
    (\<forall>q \<in> set m. dval (rval p) \<le> dval (rval (snd q)))"
proof -
  let ?i = "scan_all variant_lt m"
  note s = scan_min[OF assms(3,2)]
  have "ds_priority_delete_min k t =
      Some (t\<lparr>entries := (entries t)(k \<mapsto> take ?i m @ drop (Suc ?i) m)\<rparr>, fst (m ! ?i))"
    using assms(1,2) s(1) by (simp add: ds_priority_delete_min_def mm_erase_def Let_def)
  then show ?thesis using s mset_erase[OF s(1)]
    by (intro exI[of _ "take ?i m @ drop (Suc ?i) m"] exI[of _ "fst (m ! ?i)"] exI[of _ "snd (m ! ?i)"]) simp
qed

text \<open>\<open>ds_priority_find_max\<close> and \<open>ds_priority_delete_max\<close> agree on the value they report,
  one of greatest priority, and only the latter changes the queue, by that element.\<close>

theorem ds_priority_max_greatest:
  assumes "entries t k = Some m" and "m \<noteq> []" and "prio_ok m"
  shows "\<exists>m' val p. ds_priority_find_max dt k t = Some (t, val) \<and>
    ds_priority_delete_max dt k t = Some (t\<lparr>entries := (entries t)(k \<mapsto> m')\<rparr>, val) \<and>
    (val, p) \<in> set m \<and> mset m' = mset m - {#(val, p)#} \<and>
    (\<forall>q \<in> set m. dval (rval (snd q)) \<le> dval (rval p))"
proof -
  let ?i = "scan_all variant_gt m"
  note s = scan_max[OF assms(3,2)]
  have "ds_priority_find_max dt k t = Some (t, fst (m ! ?i))"
    "ds_priority_delete_max dt k t =
      Some (t\<lparr>entries := (entries t)(k \<mapsto> take ?i m @ drop (Suc ?i) m)\<rparr>, fst (m ! ?i))"
    using assms(1,2) s(1) by (simp_all add: ds_priority_find_max_def ds_priority_delete_max_def mm_erase_def Let_def)
  then show ?thesis using s mset_erase[OF s(1)]
    by (intro exI[of _ "take ?i m @ drop (Suc ?i) m"] exI[of _ "fst (m ! ?i)"] exI[of _ "snd (m ! ?i)"]) simp
qed

section \<open>Instances\<close>

definition pqueue_example :: pqueue where
  "pqueue_example = [(variant_str ''a'', variant_num (DFin 5)), (variant_str ''b'', variant_num (DFin 2))]"

definition pqueues_example :: pqueues where
  "pqueues_example = \<lparr>entries = [0 \<mapsto> pqueue_example], maxid = 1\<rparr>"

lemma pqueue_example_ok:
  "entries pqueues_example 0 = Some pqueue_example" "pqueue_example \<noteq> []" "prio_ok pqueue_example"
  by (simp_all add: pqueues_example_def pqueue_example_def prio_ok_def int_real_def whole_def variant_num_def)

theorem ds_priority_delete_min_least_witness:
  "\<exists>t' val. ds_priority_delete_min 0 pqueues_example = Some (t', val) \<and> val = variant_str ''b''"
proof -
  obtain t' val p where "ds_priority_delete_min 0 pqueues_example = Some (t', val)"
    "(val, p) \<in> set pqueue_example" "\<forall>q \<in> set pqueue_example. dval (rval p) \<le> dval (rval (snd q))"
    using ds_priority_delete_min_least[OF pqueue_example_ok] by blast
  then show ?thesis by (auto simp: pqueue_example_def variant_num_def)
qed

theorem ds_priority_max_greatest_witness:
  "\<exists>val. ds_priority_find_max ty_real 0 pqueues_example = Some (pqueues_example, val) \<and> val = variant_str ''a''"
proof -
  obtain val p where "ds_priority_find_max ty_real 0 pqueues_example = Some (pqueues_example, val)"
    "(val, p) \<in> set pqueue_example" "\<forall>q \<in> set pqueue_example. dval (rval (snd q)) \<le> dval (rval p)"
    using ds_priority_max_greatest[OF pqueue_example_ok, of ty_real] by blast
  then show ?thesis by (auto simp: pqueue_example_def variant_num_def)
qed

end
