(* ===== verification/DsList.thy ===== *)
theory DsList
  imports DsMultimap
begin

text \<open>
  The \<open>ds_list_*\<close> functions of \<open>Extensions/DataStructures/data_structures.cpp\<close>: a table of
  \<open>vector<variant>\<close>.  The two overloads of \<open>ds_list_delete\<close> are \<open>ds_list_delete\<close> and
  \<open>ds_list_delete_range\<close>.  \<open>std::sort\<close> and \<open>std::shuffle\<close> promise some permutation only,
  so they are parameters: \<open>srt lt\<close> sorts by a comparison, \<open>sh\<close> permutes.  Sorting by a
  comparison that is no strict weak order on the elements is undefined.
\<close>

type_synonym lists = "variant list table"

section \<open>Functions\<close>

definition ds_list_create :: "lists \<Rightarrow> lists \<times> u32" where
  "ds_list_create = tab_create []"

definition ds_list_destroy :: "u32 \<Rightarrow> lists \<Rightarrow> lists option" where
  "ds_list_destroy = tab_destroy"

definition ds_list_clear :: "u32 \<Rightarrow> lists \<Rightarrow> lists option" where
  "ds_list_clear k = tab_upd [] k (\<lambda>_. Some [])"

definition ds_list_copy :: "u32 \<Rightarrow> u32 \<Rightarrow> lists \<Rightarrow> lists" where
  "ds_list_copy k source = tab_copy [] k source"

definition ds_list_size :: "u32 \<Rightarrow> lists \<Rightarrow> (lists \<times> u32) option" where
  "ds_list_size k = tab_qry [] k (\<lambda>l. Some (word_of_nat (length l)))"

definition ds_list_empty :: "u32 \<Rightarrow> lists \<Rightarrow> (lists \<times> bool) option" where
  "ds_list_empty k = tab_qry [] k (\<lambda>l. Some (l = []))"

text \<open>The table is accessed once per value: without values it is not accessed at all.\<close>

definition ds_list_add :: "u32 \<Rightarrow> variant list \<Rightarrow> lists \<Rightarrow> lists option" where
  "ds_list_add k values = for_each values (\<lambda>v. tab_upd [] k (\<lambda>l. Some (l @ [v])))"

definition ds_list_insert :: "u32 \<Rightarrow> u32 \<Rightarrow> variant \<Rightarrow> lists \<Rightarrow> lists option" where
  "ds_list_insert k pos val = tab_upd [] k (\<lambda>l. Some (
     if unat pos \<le> length l then take (unat pos) l @ val # drop (unat pos) l else l))"

definition ds_list_replace :: "u32 \<Rightarrow> u32 \<Rightarrow> variant \<Rightarrow> lists \<Rightarrow> lists option" where
  "ds_list_replace k pos val = tab_upd [] k (\<lambda>l. Some (
     if unat pos < length l then l[unat pos := variant_assign (l ! unat pos) val] else l))"

definition ds_list_delete :: "u32 \<Rightarrow> u32 \<Rightarrow> lists \<Rightarrow> lists option" where
  "ds_list_delete k pos = tab_upd [] k (\<lambda>l. Some (
     if unat pos < length l then take (unat pos) l @ drop (Suc (unat pos)) l else l))"

text \<open>\<open>begin() + last + 1\<close> is iterator arithmetic; an empty or reversed range is undefined but for \<open>first = last + 1\<close>.\<close>

definition ds_list_delete_range :: "u32 \<Rightarrow> u32 \<Rightarrow> u32 \<Rightarrow> lists \<Rightarrow> lists option" where
  "ds_list_delete_range k frst lst = tab_upd [] k (\<lambda>l.
     if unat frst < length l \<and> unat lst < length l
     then if unat frst \<le> unat lst + 1 then Some (take (unat frst) l @ drop (unat lst + 1) l) else None
     else Some l)"

fun find_index_loop :: "variant \<Rightarrow> nat \<Rightarrow> variant list \<Rightarrow> nat option" where
  "find_index_loop val i [] = None"
| "find_index_loop val i (v # vs) = (if variant_eq v val then Some i else find_index_loop val (Suc i) vs)"

text \<open>The index is returned as an \<open>int\<close>.\<close>

definition ds_list_find_index :: "u32 \<Rightarrow> variant \<Rightarrow> lists \<Rightarrow> (lists \<times> int) option" where
  "ds_list_find_index k val = tab_qry [] k (\<lambda>l. Some (case find_index_loop val 0 l of
     Some i \<Rightarrow> sint (word_of_nat i :: u32) | None \<Rightarrow> -1))"

text \<open>\<open>begin() + pos\<close> past the end is undefined; only \<open>pos = size()\<close> yields \<open>variant()\<close>.\<close>

definition ds_list_find_value :: "vty \<Rightarrow> u32 \<Rightarrow> u32 \<Rightarrow> lists \<Rightarrow> (lists \<times> variant) option" where
  "ds_list_find_value dt k pos = tab_qry [] k (\<lambda>l.
     if length l < unat pos then None
     else Some (if unat pos = length l then variant_default dt else l ! unat pos))"

definition ds_list_sort :: "((variant \<Rightarrow> variant \<Rightarrow> bool) \<Rightarrow> variant list \<Rightarrow> variant list) \<Rightarrow>
    u32 \<Rightarrow> bool \<Rightarrow> lists \<Rightarrow> lists option" where
  "ds_list_sort srt k ascend = tab_upd [] k (\<lambda>l. if \<not> swo_on variant_lt l then None
     else Some (if ascend then srt variant_lt l else rev (srt variant_lt (rev l))))"

definition ds_list_shuffle :: "(variant list \<Rightarrow> variant list) \<Rightarrow> u32 \<Rightarrow> lists \<Rightarrow> lists option" where
  "ds_list_shuffle sh k = tab_upd [] k (\<lambda>l. Some (sh l))"

definition ds_list_exists :: "u32 \<Rightarrow> lists \<Rightarrow> bool" where
  "ds_list_exists = tab_exists"

definition ds_list_duplicate :: "u32 \<Rightarrow> lists \<Rightarrow> lists \<times> u32" where
  "ds_list_duplicate = tab_duplicate []"

section \<open>Lemmas\<close>

lemma ds_list_add_append:
  assumes "entries t k = Some l"
  shows "ds_list_add k vs t = Some (t\<lparr>entries := (entries t)(k \<mapsto> l @ vs)\<rparr>)"
proof -
  have "fold (\<lambda>v q. q @ [v]) vs l = l @ vs" by (induction vs arbitrary: l) auto
  then show ?thesis using for_each_tab_upd[OF assms, where g = "\<lambda>v q. q @ [v]"] by (simp add: ds_list_add_def)
qed

lemma find_index_loop_spec:
  "find_index_loop val i l = (case List.find (\<lambda>j. variant_eq (l ! j) val) [0..<length l] of
     None \<Rightarrow> None | Some j \<Rightarrow> Some (i + j))"
proof (induction l arbitrary: i)
  case (Cons v l)
  have u: "[0..<length (v # l)] = 0 # map Suc [0..<length l]"
    by (simp add: map_Suc_upt upt_conv_Cons del: upt_Suc)
  have f: "List.find P (map Suc xs) = map_option Suc (List.find (\<lambda>j. P (Suc j)) xs)" for P xs
    by (induction xs) auto
  show ?case unfolding u using Cons.IH[of "Suc i"] by (simp add: f split: option.splits)
qed simp

section \<open>Properties\<close>

text \<open>With any \<open>std::sort\<close> that keeps the elements and leaves no inversion,
  \<open>ds_list_sort\<close> of a list of whole numbers has a defined result, keeps the multiset of
  elements, and orders it by value, upward or downward as asked.\<close>

theorem ds_list_sort_sorted:
  assumes "entries t k = Some l" and "\<forall>v \<in> set l. int_real v"
    and "\<And>xs. swo_on variant_lt xs \<Longrightarrow>
      mset (srt variant_lt xs) = mset xs \<and> sorted_wrt (\<lambda>a b. \<not> variant_lt b a) (srt variant_lt xs)"
  shows "\<exists>l'. ds_list_sort srt k ascend t = Some (t\<lparr>entries := (entries t)(k \<mapsto> l')\<rparr>) \<and> mset l' = mset l \<and>
    (if ascend then sorted_wrt (\<lambda>a b. dval (rval a) \<le> dval (rval b)) l'
     else sorted_wrt (\<lambda>a b. dval (rval b) \<le> dval (rval a)) l')"
proof -
  have swo: "swo_on variant_lt l" "swo_on variant_lt (rev l)"
    using assms(2) by (auto intro!: whole_keys.swo_on_K)
  let ?s = "\<lambda>xs. srt variant_lt xs"
  have s: "sorted_wrt (\<lambda>a b. dval (rval a) \<le> dval (rval b)) (?s xs)"
    if "swo_on variant_lt xs" "\<forall>v \<in> set xs. int_real v" for xs
  proof (rule sorted_wrt_mono_rel)
    show "sorted_wrt (\<lambda>a b. \<not> variant_lt b a) (?s xs)" using assms(3) that(1) by blast
    fix a b assume "a \<in> set (?s xs)" "b \<in> set (?s xs)" "\<not> variant_lt b a"
    then show "dval (rval a) \<le> dval (rval b)"
      using assms(3)[OF that(1)] that(2) mset_eq_setD[of "?s xs" xs] by (auto simp: int_real_cmp)
  qed
  have "mset (?s l) = mset l" "mset (rev (?s (rev l))) = mset l" using assms(3) swo by auto
  moreover have "sorted_wrt (\<lambda>a b. dval (rval b) \<le> dval (rval a)) (rev (?s (rev l)))"
    using s[OF swo(2)] assms(2) by (simp add: sorted_wrt_rev)
  moreover have "sorted_wrt (\<lambda>a b. dval (rval a) \<le> dval (rval b)) (?s l)" using s[OF swo(1) assms(2)] .
  moreover have "ds_list_sort srt k ascend t =
      Some (t\<lparr>entries := (entries t)(k \<mapsto> if ascend then ?s l else rev (?s (rev l)))\<rparr>)"
    using assms(1) swo(1) by (simp add: ds_list_sort_def)
  ultimately show ?thesis
    by (intro exI[of _ "if ascend then ?s l else rev (?s (rev l))"]) simp
qed

text \<open>\<open>ds_list_insert\<close> puts the value where \<open>ds_list_find_value\<close> finds it, and
  \<open>ds_list_delete\<close> at the same position undoes it, at every position: one past the end of
  the list is accepted by all three, and beyond that the two updates change nothing.\<close>

theorem ds_list_insert_delete:
  assumes "entries t k = Some l"
  shows "\<exists>t'. ds_list_insert k pos val t = Some t' \<and> ds_list_delete k pos t' = Some t \<and>
    (unat pos \<le> length l \<longrightarrow> ds_list_find_value dt k pos t' = Some (t', val)) \<and>
    (length l < unat pos \<longrightarrow> t' = t)"
proof (cases "unat pos \<le> length l")
  case True
  let ?l = "take (unat pos) l @ val # drop (unat pos) l"
  have "take (unat pos) ?l @ drop (Suc (unat pos)) ?l = l" "?l ! unat pos = val" "length ?l = Suc (length l)"
    using True by (simp_all add: nth_append min_def)
  then show ?thesis using assms True
    by (simp add: ds_list_insert_def ds_list_delete_def ds_list_find_value_def fun_upd_idem)
next
  case False
  have "t\<lparr>entries := (entries t)(k \<mapsto> l)\<rparr> = t" using assms by (simp add: fun_upd_idem)
  then show ?thesis using assms False by (simp add: ds_list_insert_def ds_list_delete_def)
qed

text \<open>\<open>ds_list_find_index\<close> returns the position of the first element equal to the value, and
  \<open>-1\<close> when there is none, as long as the length fits an \<open>int\<close>.\<close>

theorem ds_list_find_index_first:
  assumes "entries t k = Some l" and "length l < 2 ^ 31"
  shows "\<exists>i. ds_list_find_index k val t = Some (t, i) \<and>
    (if \<exists>v \<in> set l. variant_eq v val
     then 0 \<le> i \<and> i < int (length l) \<and> variant_eq (l ! nat i) val \<and> (\<forall>j < nat i. \<not> variant_eq (l ! j) val)
     else i = -1)"
proof (cases "List.find (\<lambda>j. variant_eq (l ! j) val) [0..<length l]")
  case None
  then have "\<not> (\<exists>v \<in> set l. variant_eq v val)" by (auto simp: find_None_iff in_set_conv_nth)
  then show ?thesis using assms(1) None by (simp add: ds_list_find_index_def find_index_loop_spec)
next
  case (Some j)
  then have j: "j < length l" "variant_eq (l ! j) val" "\<forall>i < j. \<not> variant_eq (l ! i) val"
    by (auto simp: find_Some_iff)
  have "j < 2 ^ 31" using j(1) assms(2) by linarith
  then have "int j < 2 ^ 31" by simp
  then have "uint (word_of_nat j :: u32) = int j"
    by (simp add: uint_nat unat_of_nat)
  then have "sint (word_of_nat j :: u32) = int j"
    using sint_small[of "word_of_nat j"] \<open>int j < 2 ^ 31\<close> by simp
  moreover have "\<exists>v \<in> set l. variant_eq v val" using j(1,2) by auto
  ultimately show ?thesis using assms(1) Some j by (simp add: ds_list_find_index_def find_index_loop_spec)
qed

section \<open>Instances\<close>

definition lists_example :: lists where
  "lists_example = \<lparr>entries = [0 \<mapsto> [variant_num (DFin 3), variant_num (DFin 1)]], maxid = 1\<rparr>"

lemma lists_example_at: "entries lists_example 0 = Some [variant_num (DFin 3), variant_num (DFin 1)]"
  by (simp add: lists_example_def)

text \<open>A sorting function with the contract of \<open>std::sort\<close>: insertion sort.\<close>

fun insert_by :: "('a \<Rightarrow> 'a \<Rightarrow> bool) \<Rightarrow> 'a \<Rightarrow> 'a list \<Rightarrow> 'a list" where
  "insert_by lt x [] = [x]"
| "insert_by lt x (y # ys) = (if lt y x then y # insert_by lt x ys else x # y # ys)"

definition sort_by :: "('a \<Rightarrow> 'a \<Rightarrow> bool) \<Rightarrow> 'a list \<Rightarrow> 'a list" where
  "sort_by lt xs = foldr (insert_by lt) xs []"

lemma mset_insert_by: "mset (insert_by lt x ys) = add_mset x (mset ys)"
  by (induction ys) auto

lemma mset_sort_by: "mset (sort_by lt xs) = mset xs"
  unfolding sort_by_def by (induction xs) (auto simp: mset_insert_by)

lemma sorted_insert_by:
  assumes "\<And>a b c. a \<in> K \<Longrightarrow> b \<in> K \<Longrightarrow> c \<in> K \<Longrightarrow> lt a c \<Longrightarrow> lt a b \<or> lt b c"
    and "\<And>a b. a \<in> K \<Longrightarrow> b \<in> K \<Longrightarrow> lt a b \<Longrightarrow> \<not> lt b a"
    and "set (x # ys) \<subseteq> K" and "sorted_wrt (\<lambda>a b. \<not> lt b a) ys"
  shows "sorted_wrt (\<lambda>a b. \<not> lt b a) (insert_by lt x ys)"
  using assms(3,4)
proof (induction ys)
  case (Cons y ys)
  show ?case
  proof (cases "lt y x")
    case True
    have "set (insert_by lt x ys) = insert x (set ys)"
      using mset_insert_by[of lt x ys] by (metis set_mset_add_mset_insert set_mset_mset)
    moreover have "\<not> lt x y" using True assms(2)[of y x] Cons.prems(1) by auto
    ultimately show ?thesis using Cons True by simp
  next
    case False
    have "\<not> lt z x" if "z \<in> set ys" for z
      using assms(1)[of z y x] False that Cons.prems by auto
    then show ?thesis using Cons.prems False by simp
  qed
qed simp

lemma sort_by_contract:
  assumes "swo_on lt xs"
  shows "mset (sort_by lt xs) = mset xs \<and> sorted_wrt (\<lambda>a b. \<not> lt b a) (sort_by lt xs)"
proof -
  have i: "\<And>a. a \<in> set xs \<Longrightarrow> \<not> lt a a" and t: "\<And>a b c. \<lbrakk>a \<in> set xs; b \<in> set xs; c \<in> set xs; lt a b; lt b c\<rbrakk> \<Longrightarrow> lt a c"
    and e: "\<And>a b c. \<lbrakk>a \<in> set xs; b \<in> set xs; c \<in> set xs; \<not> lt a b; \<not> lt b a; \<not> lt b c; \<not> lt c b\<rbrakk> \<Longrightarrow> \<not> lt a c"
    using assms unfolding swo_on_def by fast+
  have btw: "lt a b \<or> lt b c" if "a \<in> set xs" "b \<in> set xs" "c \<in> set xs" "lt a c" for a b c
    using t[of b a c] t[of a c b] e[of a b c] that by argo
  have asym: "\<not> lt b a" if "a \<in> set xs" "b \<in> set xs" "lt a b" for a b
    using t[of a b a] i[of a] that by argo
  have "set ys \<subseteq> set xs \<Longrightarrow> sorted_wrt (\<lambda>a b. \<not> lt b a) (sort_by lt ys)" for ys
  proof (induction ys)
    case (Cons y ys)
    have "set (sort_by lt ys) = set ys" by (rule mset_eq_setD[OF mset_sort_by])
    then have "sorted_wrt (\<lambda>a b. \<not> lt b a) (insert_by lt y (sort_by lt ys))"
      using Cons by (intro sorted_insert_by[where K = "set xs"]) (use btw asym in auto)
    then show ?case by (simp add: sort_by_def)
  qed (simp add: sort_by_def)
  then show ?thesis by (simp add: mset_sort_by)
qed

theorem ds_list_sort_sorted_witness:
  "\<exists>t l'. ds_list_sort sort_by 0 False lists_example = Some t \<and> entries t 0 = Some l' \<and>
     sorted_wrt (\<lambda>a b. dval (rval b) \<le> dval (rval a)) l'"
proof -
  have "\<forall>v \<in> set [variant_num (DFin 3), variant_num (DFin 1)]. int_real v"
    by (simp add: int_real_def whole_def variant_num_def)
  from ds_list_sort_sorted[OF lists_example_at this, of sort_by False] sort_by_contract
  show ?thesis by fastforce
qed

theorem ds_list_insert_delete_witness:
  "\<exists>t. ds_list_insert 0 2 (variant_num (DFin 8)) lists_example = Some t \<and>
     ds_list_find_value ty_real 0 2 t = Some (t, variant_num (DFin 8))"
  using ds_list_insert_delete[OF lists_example_at, of 2 "variant_num (DFin 8)" ty_real] by auto

theorem ds_list_find_index_first_witness:
  "\<exists>i. ds_list_find_index 0 (variant_num (DFin 1)) lists_example = Some (lists_example, i) \<and> i \<noteq> -1"
proof -
  have "variant_eq (variant_num (DFin 1)) (variant_num (DFin 1))"
    by (simp add: int_real_cmp int_real_def whole_def variant_num_def)
  then show ?thesis
    using ds_list_find_index_first[OF lists_example_at, of "variant_num (DFin 1)"] by fastforce
qed

end
