(* ===== verification/DsQueue.thy ===== *)
theory DsQueue
  imports DsHandles
begin

text \<open>
  The \<open>ds_queue_*\<close> and \<open>ds_stack_*\<close> functions of
  \<open>Extensions/DataStructures/data_structures.cpp\<close>: two tables of \<open>deque<variant>\<close>, used at
  the back and front, or at the front only.  The locale is what both promise: values
  leave from the front of the sequence they stand for.
\<close>

type_synonym deques = "variant list table"

section \<open>Queues\<close>

definition ds_queue_create :: "deques \<Rightarrow> deques \<times> u32" where
  "ds_queue_create = tab_create []"

definition ds_queue_destroy :: "u32 \<Rightarrow> deques \<Rightarrow> deques option" where
  "ds_queue_destroy = tab_destroy"

definition ds_queue_clear :: "u32 \<Rightarrow> deques \<Rightarrow> deques option" where
  "ds_queue_clear k = tab_upd [] k (\<lambda>_. Some [])"

definition ds_queue_copy :: "u32 \<Rightarrow> u32 \<Rightarrow> deques \<Rightarrow> deques" where
  "ds_queue_copy k source = tab_copy [] k source"

definition ds_queue_size :: "u32 \<Rightarrow> deques \<Rightarrow> (deques \<times> u32) option" where
  "ds_queue_size k = tab_qry [] k (\<lambda>q. Some (word_of_nat (length q)))"

definition ds_queue_empty :: "u32 \<Rightarrow> deques \<Rightarrow> (deques \<times> bool) option" where
  "ds_queue_empty k = tab_qry [] k (\<lambda>q. Some (q = []))"

definition ds_queue_enqueue :: "u32 \<Rightarrow> variant list \<Rightarrow> deques \<Rightarrow> deques option" where
  "ds_queue_enqueue k values = for_each values (\<lambda>v. tab_upd [] k (\<lambda>q. Some (q @ [v])))"

definition ds_queue_dequeue :: "u32 \<Rightarrow> deques \<Rightarrow> (deques \<times> variant) option" where
  "ds_queue_dequeue k = tab_run [] k (\<lambda>q. Some (case q of [] \<Rightarrow> (q, variant_num (DFin 0)) | v # vs \<Rightarrow> (vs, v)))"

definition ds_queue_head :: "vty \<Rightarrow> u32 \<Rightarrow> deques \<Rightarrow> (deques \<times> variant) option" where
  "ds_queue_head dt k = tab_qry [] k (\<lambda>q. Some (case q of [] \<Rightarrow> variant_default dt | v # _ \<Rightarrow> v))"

definition ds_queue_tail :: "vty \<Rightarrow> u32 \<Rightarrow> deques \<Rightarrow> (deques \<times> variant) option" where
  "ds_queue_tail dt k = tab_qry [] k (\<lambda>q. Some (case rev q of [] \<Rightarrow> variant_default dt | v # _ \<Rightarrow> v))"

definition ds_queue_exists :: "u32 \<Rightarrow> deques \<Rightarrow> bool" where
  "ds_queue_exists = tab_exists"

definition ds_queue_duplicate :: "u32 \<Rightarrow> deques \<Rightarrow> deques \<times> u32" where
  "ds_queue_duplicate = tab_duplicate []"

section \<open>Stacks\<close>

definition ds_stack_create :: "deques \<Rightarrow> deques \<times> u32" where
  "ds_stack_create = tab_create []"

definition ds_stack_destroy :: "u32 \<Rightarrow> deques \<Rightarrow> deques option" where
  "ds_stack_destroy = tab_destroy"

definition ds_stack_clear :: "u32 \<Rightarrow> deques \<Rightarrow> deques option" where
  "ds_stack_clear k = tab_upd [] k (\<lambda>_. Some [])"

definition ds_stack_copy :: "u32 \<Rightarrow> u32 \<Rightarrow> deques \<Rightarrow> deques" where
  "ds_stack_copy k source = tab_copy [] k source"

definition ds_stack_size :: "u32 \<Rightarrow> deques \<Rightarrow> (deques \<times> u32) option" where
  "ds_stack_size k = tab_qry [] k (\<lambda>q. Some (word_of_nat (length q)))"

definition ds_stack_empty :: "u32 \<Rightarrow> deques \<Rightarrow> (deques \<times> bool) option" where
  "ds_stack_empty k = tab_qry [] k (\<lambda>q. Some (q = []))"

definition ds_stack_push :: "u32 \<Rightarrow> variant list \<Rightarrow> deques \<Rightarrow> deques option" where
  "ds_stack_push k values = for_each values (\<lambda>v. tab_upd [] k (\<lambda>q. Some (v # q)))"

definition ds_stack_pop :: "u32 \<Rightarrow> deques \<Rightarrow> (deques \<times> variant) option" where
  "ds_stack_pop k = tab_run [] k (\<lambda>q. Some (case q of [] \<Rightarrow> (q, variant_num (DFin 0)) | v # vs \<Rightarrow> (vs, v)))"

definition ds_stack_top :: "vty \<Rightarrow> u32 \<Rightarrow> deques \<Rightarrow> (deques \<times> variant) option" where
  "ds_stack_top dt k = tab_qry [] k (\<lambda>q. Some (case q of [] \<Rightarrow> variant_default dt | v # _ \<Rightarrow> v))"

definition ds_stack_exists :: "u32 \<Rightarrow> deques \<Rightarrow> bool" where
  "ds_stack_exists = tab_exists"

definition ds_stack_duplicate :: "u32 \<Rightarrow> deques \<Rightarrow> deques \<times> u32" where
  "ds_stack_duplicate = tab_duplicate []"

section \<open>The contract\<close>

text \<open>
  \<open>items s\<close> is the sequence a container stands for, front first, when it exists.
  \<open>put\<close> adds a batch of values, \<open>place\<close> says where, \<open>take\<close> removes the front.
\<close>

locale front_removal =
  fixes items :: "'s \<Rightarrow> 'a list option"
    and put :: "'a list \<Rightarrow> 's \<Rightarrow> 's option"
    and take1 :: "'s \<Rightarrow> ('s \<times> 'a) option"
    and place :: "'a list \<Rightarrow> 'a list \<Rightarrow> 'a list"
  assumes put_items: "items s = Some q \<Longrightarrow> \<exists>s'. put vs s = Some s' \<and> items s' = Some (place vs q)"
    and take_items: "items s = Some (v # q) \<Longrightarrow> \<exists>s'. take1 s = Some (s', v) \<and> items s' = Some q"
begin

fun take_n :: "nat \<Rightarrow> 's \<Rightarrow> ('s \<times> 'a list) option" where
  "take_n 0 s = Some (s, [])"
| "take_n (Suc n) s = Option.bind (take1 s) (\<lambda>(s', v).
     Option.bind (take_n n s') (\<lambda>(s'', vs). Some (s'', v # vs)))"

lemma take_n_items:
  "items s = Some (vs @ q) \<Longrightarrow> \<exists>s'. take_n (length vs) s = Some (s', vs) \<and> items s' = Some q"
proof (induction vs arbitrary: s)
  case (Cons v vs)
  obtain s1 where s1: "take1 s = Some (s1, v)" "items s1 = Some (vs @ q)"
    using take_items[of s v "vs @ q"] Cons.prems by auto
  then show ?case using Cons.IH[OF s1(2)] by auto
qed simp

lemma put_take_n:
  assumes "items s = Some q" and "place vs q = out @ rest"
  shows "\<exists>s' s''. put vs s = Some s' \<and> take_n (length out) s' = Some (s'', out) \<and> items s'' = Some rest"
  using put_items[OF assms(1), of vs] take_n_items[of _ out rest] assms(2) by metis

end

lemma fold_snoc: "fold (\<lambda>v q. q @ [v]) vs q = q @ vs"
  by (induction vs arbitrary: q) auto

lemma fold_push: "fold (\<lambda>v q. v # q) vs q = rev vs @ q"
  by (induction vs arbitrary: q) auto

interpretation fifo: front_removal "\<lambda>t. entries t k" "ds_queue_enqueue k" "ds_queue_dequeue k" "\<lambda>vs q. q @ vs" for k
proof
  fix t :: deques and q vs :: "variant list" and v :: variant
  show "entries t k = Some q \<Longrightarrow> \<exists>t'. ds_queue_enqueue k vs t = Some t' \<and> entries t' k = Some (q @ vs)"
    by (simp add: ds_queue_enqueue_def for_each_tab_upd[where g = "\<lambda>v q. q @ [v]"] fold_snoc)
  show "entries t k = Some (v # q) \<Longrightarrow> \<exists>t'. ds_queue_dequeue k t = Some (t', v) \<and> entries t' k = Some q"
    by (simp add: ds_queue_dequeue_def)
qed

interpretation lifo: front_removal "\<lambda>t. entries t k" "ds_stack_push k" "ds_stack_pop k" "\<lambda>vs q. rev vs @ q" for k
proof
  fix t :: deques and q vs :: "variant list" and v :: variant
  show "entries t k = Some q \<Longrightarrow> \<exists>t'. ds_stack_push k vs t = Some t' \<and> entries t' k = Some (rev vs @ q)"
    by (simp add: ds_stack_push_def for_each_tab_upd[where g = "\<lambda>v q. v # q"] fold_push)
  show "entries t k = Some (v # q) \<Longrightarrow> \<exists>t'. ds_stack_pop k t = Some (t', v) \<and> entries t' k = Some q"
    by (simp add: ds_stack_pop_def)
qed

section \<open>Properties\<close>

text \<open>The calls that drain a container: one after the other, collecting the results.\<close>

fun dequeue_all :: "u32 \<Rightarrow> nat \<Rightarrow> deques \<Rightarrow> (deques \<times> variant list) option" where
  "dequeue_all k 0 t = Some (t, [])"
| "dequeue_all k (Suc n) t = Option.bind (ds_queue_dequeue k t) (\<lambda>(t', v).
     Option.bind (dequeue_all k n t') (\<lambda>(t'', vs). Some (t'', v # vs)))"

fun pop_all :: "u32 \<Rightarrow> nat \<Rightarrow> deques \<Rightarrow> (deques \<times> variant list) option" where
  "pop_all k 0 t = Some (t, [])"
| "pop_all k (Suc n) t = Option.bind (ds_stack_pop k t) (\<lambda>(t', v).
     Option.bind (pop_all k n t') (\<lambda>(t'', vs). Some (t'', v # vs)))"

lemma dequeue_all_eq: "dequeue_all k n t = fifo.take_n k n t"
proof (induction n arbitrary: t)
  case (Suc n)
  then show ?case by (cases "ds_queue_dequeue k t") auto
qed simp

lemma pop_all_eq: "pop_all k n t = lifo.take_n k n t"
proof (induction n arbitrary: t)
  case (Suc n)
  then show ?case by (cases "ds_stack_pop k t") auto
qed simp

text \<open>Values leave a queue in the order in which they entered it, over any number of calls:
  what was queued before comes first, then the values of this \<open>ds_queue_enqueue\<close>.\<close>

theorem ds_queue_fifo:
  assumes "entries t k = Some q"
  shows "\<exists>t' t''. ds_queue_enqueue k vs t = Some t' \<and>
    dequeue_all k (length q + length vs) t' = Some (t'', q @ vs) \<and> entries t'' k = Some []"
  using fifo.put_take_n[OF assms, of vs "q @ vs" "[]"] by (simp add: dequeue_all_eq)

text \<open>Values leave a stack in the reverse of the order in which \<open>ds_stack_push\<close> listed them,
  and what was on the stack before is uncovered again.\<close>

theorem ds_stack_lifo:
  assumes "entries t k = Some q"
  shows "\<exists>t' t''. ds_stack_push k vs t = Some t' \<and>
    pop_all k (length vs) t' = Some (t'', rev vs) \<and> entries t'' k = Some q"
  using lifo.put_take_n[OF assms, of vs "rev vs" q] by (simp add: pop_all_eq)

section \<open>Instances\<close>

definition deques_example :: deques where
  "deques_example = \<lparr>entries = [0 \<mapsto> [variant_num (DFin 1)]], maxid = 1\<rparr>"

lemma deques_example_at: "entries deques_example 0 = Some [variant_num (DFin 1)]"
  by (simp add: deques_example_def)

theorem ds_queue_fifo_witness:
  "\<exists>t' t''. ds_queue_enqueue 0 [variant_str ''x''] deques_example = Some t' \<and>
     dequeue_all 0 2 t' = Some (t'', [variant_num (DFin 1), variant_str ''x''])"
  using ds_queue_fifo[OF deques_example_at, of "[variant_str ''x'']"] by (simp add: numeral_2_eq_2) blast

theorem ds_stack_lifo_witness:
  "\<exists>t' t''. ds_stack_push 0 [variant_str ''x'', variant_str ''y''] deques_example = Some t' \<and>
     pop_all 0 2 t' = Some (t'', [variant_str ''y'', variant_str ''x''])"
  using ds_stack_lifo[OF deques_example_at, of "[variant_str ''x'', variant_str ''y'']"]
  by (simp add: numeral_2_eq_2) blast

end
