(* ===== verification/Bytes.thy ===== *)
theory Bytes
  imports Prelude "HOL-Library.Char_ord"
begin

text \<open>
  Bytes and characters.  \<open>char\<close> of the C++ code is eight bits wide, and so is the HOL
  type; \<open>byte_of\<close> and \<open>chr_of\<close> are the conversions to and from \<open>unsigned char\<close> (or
  \<open>std::byte\<close>).  The lemmas turn the masks and shifts of the code into division, and the
  locale \<open>codec\<close> is the contract between an encoder and its decoder.
\<close>

unbundle bit_operations_syntax

definition byte_of :: "char \<Rightarrow> u8" where
  "byte_of c = word_of_nat (of_char c)"

definition chr_of :: "u8 \<Rightarrow> char" where
  "chr_of w = char_of (unat w)"

lemma chr_of_byte_of [simp]: "chr_of (byte_of c) = c"
proof -
  have "of_char c < (256 :: nat)" by (rule nat_of_char_less_256)
  then have "unat (word_of_nat (of_char c) :: u8) = of_char c"
    by (simp add: unat_of_nat take_bit_nat_eq_self)
  then show ?thesis by (simp add: chr_of_def byte_of_def)
qed

lemma byte_of_chr_of [simp]: "byte_of (chr_of w) = w"
proof -
  have "unat w < 256" using unsigned_less[of w, where 'a = nat] by simp
  then show ?thesis by (simp add: chr_of_def byte_of_def)
qed

lemma chr_of_inj [simp]: "chr_of v = chr_of w \<longleftrightarrow> v = w"
  by (metis byte_of_chr_of)

lemma unat_u8_less [simp]: "unat (w :: u8) < 256"
  using unsigned_less[of w, where 'a = nat] by simp

section \<open>Masks and shifts\<close>

lemma nat_and_masks:
  "n AND 1 = n mod (2 :: nat)" "n AND 3 = n mod (4 :: nat)" "n AND 15 = n mod (16 :: nat)" "n AND 31 = n mod (32 :: nat)"
  "n AND 63 = n mod (64 :: nat)" "n AND 255 = n mod (256 :: nat)"
proof -
  have m: "n AND (2 ^ k - 1) = n mod (2 ^ k :: nat)" for k
    by (simp only: take_bit_eq_mod[symmetric] take_bit_eq_mask mask_eq_exp_minus_1)
  show "n AND 1 = n mod (2 :: nat)" "n AND 3 = n mod (4 :: nat)" "n AND 15 = n mod (16 :: nat)" "n AND 31 = n mod (32 :: nat)"
    "n AND 63 = n mod (64 :: nat)" "n AND 255 = n mod (256 :: nat)"
    using m[of 1] m[of 2] m[of 4] m[of 5] m[of 6] m[of 8] by simp_all
qed

lemma nat_field: "drop_bit k (n AND m) = (n div 2 ^ k) AND (m div 2 ^ k)" for n m :: nat
  by (metis drop_bit_and drop_bit_eq_div)

lemma nat_or_shift:
  assumes "b < 2 ^ k"
  shows "push_bit k a OR b = a * 2 ^ k + (b :: nat)"
proof -
  have "b = take_bit k b" using assms by (simp add: take_bit_nat_eq_self)
  then have "\<not> bit (push_bit k a) n \<or> \<not> bit b n" for n
    by (metis bit_push_bit_iff_nat bit_take_bit_iff not_le)
  then have "push_bit k a + b = push_bit k a OR b" by (rule disjunctive_add)
  then show ?thesis by (simp add: push_bit_eq_mult)
qed

text \<open>A number with a digit below \<open>n\<close>.\<close>

lemma digit:
  fixes a b m n :: nat
  assumes "b < n"
  shows "(a * n + b) div n = a" "(a * n + b) mod n = b" "a < m \<Longrightarrow> a * n + b < m * n"
proof -
  show "(a * n + b) div n = a" "(a * n + b) mod n = b" using assms by simp_all
  assume "a < m"
  then have "(a + 1) * n \<le> m * n" by (intro mult_right_mono) simp_all
  then show "a * n + b < m * n" using assms by simp
qed

lemma list3_induct [case_names Nil One Two Three]:
  "\<lbrakk>P []; \<And>a. P [a]; \<And>a b. P [a, b]; \<And>a b c xs. P xs \<Longrightarrow> P (a # b # c # xs)\<rbrakk> \<Longrightarrow> P xs"
  by induction_schema (pat_completeness, lexicographic_order)

section \<open>Codecs\<close>

text \<open>
  \<open>enc\<close> and \<open>dec\<close> may fail; every value that satisfies \<open>good\<close> is encoded, and its code is
  decoded to it.
\<close>

locale codec =
  fixes enc :: "'a \<Rightarrow> 'b option" and dec :: "'b \<Rightarrow> 'a option" and good :: "'a \<Rightarrow> bool"
  assumes dec_enc: "good x \<Longrightarrow> \<exists>y. enc x = Some y \<and> dec y = Some x"
begin

lemma enc_defined: "good x \<Longrightarrow> enc x \<noteq> None"
  using dec_enc by force

lemma enc_inj: "good x \<Longrightarrow> good y \<Longrightarrow> enc x = enc y \<Longrightarrow> x = y"
  using dec_enc[of x] dec_enc[of y] by auto

lemma dec_bind_enc: "good x \<Longrightarrow> Option.bind (enc x) dec = Some x"
  using dec_enc[of x] by auto

end

end
