(* ===== verification/Base64.thy ===== *)
theory Base64
  imports Bytes
begin

text \<open>
  The two Base64 codecs of the engine.  \<open>estring.cpp\<close> has \<open>base64_encode\<close> and
  \<open>base64_decode\<close> on strings, built around arrays of three and four characters that a
  loop fills; \<open>bufferstruct.cpp\<close> has \<open>internal_buffer_base64_encode\<close> and \<open>_decode\<close> on
  bytes.  A fatal error message of the latter has the result \<open>None\<close>.

  The strings codec round-trips on every input.  The buffers encoder keeps five bits
  instead of four of the last byte when the input length is 2 modulo 3; it round-trips
  exactly when that stray bit is clear.
\<close>

section \<open>The alphabet\<close>

definition base64_chars :: string where
  "base64_chars = ''ABCDEFGHIJKLMNOPQRSTUVWXYZabcdefghijklmnopqrstuvwxyz0123456789+/''"

text \<open>\<open>std::string::find(c)\<close> on the alphabet; \<open>npos\<close> converted to \<open>unsigned char\<close> is 255.\<close>

fun find_chr :: "char \<Rightarrow> string \<Rightarrow> nat option" where
  "find_chr c [] = None"
| "find_chr c (d # ds) = (if c = d then Some 0 else map_option Suc (find_chr c ds))"

definition find64 :: "char \<Rightarrow> nat" where
  "find64 c = (case find_chr c base64_chars of None \<Rightarrow> 255 | Some i \<Rightarrow> i)"

definition in_range :: "char \<Rightarrow> char \<Rightarrow> char \<Rightarrow> bool" where
  "in_range lo hi c = (of_char lo \<le> (of_char c :: nat) \<and> of_char c \<le> (of_char hi :: nat))"

definition is_base64 :: "char \<Rightarrow> bool" where
  "is_base64 c = (in_range CHR ''0'' CHR ''9'' c \<or> in_range CHR ''A'' CHR ''Z'' c \<or>
     in_range CHR ''a'' CHR ''z'' c \<or> c = CHR ''+'' \<or> c = CHR ''/'')"

section \<open>The codec of estring.cpp\<close>

text \<open>\<open>char_array_4\<close> from \<open>char_array_3\<close>, as numbers below 256.\<close>

definition sextets :: "nat \<Rightarrow> nat \<Rightarrow> nat \<Rightarrow> nat list" where
  "sextets a b c = [drop_bit 2 (a AND 0xfc),
     (push_bit 4 (a AND 0x03) + drop_bit 4 (b AND 0xf0)) mod 256,
     (push_bit 2 (b AND 0x0f) + drop_bit 6 (c AND 0xc0)) mod 256,
     c AND 0x3f]"

definition octets :: "nat \<Rightarrow> nat \<Rightarrow> nat \<Rightarrow> nat \<Rightarrow> nat list" where
  "octets p q r s = [(push_bit 2 p + drop_bit 4 (q AND 0x30)) mod 256,
     (push_bit 4 (q AND 0xf) + drop_bit 2 (r AND 0x3c)) mod 256,
     (push_bit 6 (r AND 0x3) + s) mod 256]"

text \<open>\<open>base64_chars[k]\<close>: \<open>operator[]\<close> at \<open>size()\<close> is the terminator, beyond it undefined.\<close>

definition char64 :: "nat \<Rightarrow> char option" where
  "char64 k = (if k = length base64_chars then Some (char_of (0 :: nat)) else arr_get base64_chars k)"

fun emit :: "nat list \<Rightarrow> string option" where
  "emit [] = Some []"
| "emit (k # ks) = Option.bind (char64 k) (\<lambda>c. map_option (\<lambda>s. c # s) (emit ks))"

text \<open>
  The loop of the encoder: \<open>buf\<close> is the filled part of \<open>char_array_3\<close>, so \<open>i\<close> is its
  length; the tail after the loop pads it with zeros.  The position \<open>in_\<close> is an \<open>int\<close> that overflows
  behind \<open>2 ^ 31 - 1\<close> characters; strings are taken to be shorter.
\<close>

fun encode_loop :: "nat list \<Rightarrow> string \<Rightarrow> string option" where
  "encode_loop buf [] = (case buf of
      [] \<Rightarrow> Some []
    | [a] \<Rightarrow> map_option (\<lambda>s. s @ ''=='') (emit (take 2 (sextets a 0 0)))
    | a # b # _ \<Rightarrow> map_option (\<lambda>s. s @ ''='') (emit (take 3 (sextets a b 0))))"
| "encode_loop buf (x # xs) = (case buf @ [of_char x] of
      [a, b, c] \<Rightarrow> Option.bind (emit (sextets a b c)) (\<lambda>s. map_option (\<lambda>t. s @ t) (encode_loop [] xs))
    | buf' \<Rightarrow> encode_loop buf' xs)"

definition base64_encode :: "string \<Rightarrow> string option" where
  "base64_encode str = encode_loop [] str"

text \<open>
  The loop of the decoder stops at the end, at \<open>=\<close> and at the first character outside
  the alphabet; \<open>buf\<close> holds the characters of \<open>char_array_4\<close> read so far.
\<close>

definition decode_tail :: "char list \<Rightarrow> string" where
  "decode_tail buf = (let pad = buf @ replicate (4 - length buf) (char_of (0 :: nat)) in
     if buf = [] then [] else map char_of (take (length buf - 1)
       (octets (find64 (pad ! 0)) (find64 (pad ! 1)) (find64 (pad ! 2)) (find64 (pad ! 3)))))"

fun decode_loop :: "char list \<Rightarrow> string \<Rightarrow> string" where
  "decode_loop buf [] = decode_tail buf"
| "decode_loop buf (x # xs) = (if x \<noteq> CHR ''='' \<and> is_base64 x
     then case buf @ [x] of
         [p, q, r, s] \<Rightarrow> map char_of (octets (find64 p) (find64 q) (find64 r) (find64 s)) @ decode_loop [] xs
       | buf' \<Rightarrow> decode_loop buf' xs
     else decode_tail buf)"

definition base64_decode :: "string \<Rightarrow> string" where
  "base64_decode str = decode_loop [] str"

section \<open>The codec of bufferstruct.cpp\<close>

definition to_base64_char :: "nat \<Rightarrow> char option" where
  "to_base64_char index = (if index > 63 then None else Some (base64_chars ! index))"

definition from_base64_char :: "char \<Rightarrow> nat option" where
  "from_base64_char ch = (
     if in_range CHR ''A'' CHR ''Z'' ch then Some (of_char ch - of_char CHR ''A'')
     else if in_range CHR ''a'' CHR ''z'' ch then Some (26 + (of_char ch - of_char CHR ''a''))
     else if in_range CHR ''0'' CHR ''9'' ch then Some (52 + (of_char ch - of_char CHR ''0''))
     else if ch = CHR ''+'' then Some 62
     else if ch = CHR ''/'' then Some 63
     else if ch = CHR ''='' then Some 0
     else None)"

fun emit_b :: "nat list \<Rightarrow> string option" where
  "emit_b [] = Some []"
| "emit_b (k # ks) = Option.bind (to_base64_char k) (\<lambda>c. map_option (\<lambda>s. c # s) (emit_b ks))"

fun internal_buffer_base64_encode :: "u8 list \<Rightarrow> string option" where
  "internal_buffer_base64_encode (a # b # c # rest) = (let
      triplet = push_bit 16 (unat a) OR push_bit 8 (unat b) OR unat c in
    Option.bind (emit_b [drop_bit 18 (triplet AND push_bit 18 63), drop_bit 12 (triplet AND push_bit 12 63),
        drop_bit 6 (triplet AND push_bit 6 63), triplet AND 63])
      (\<lambda>s. map_option (\<lambda>t. s @ t) (internal_buffer_base64_encode rest)))"
| "internal_buffer_base64_encode [a, b] = (let doublet = push_bit 8 (unat a) OR unat b in
    map_option (\<lambda>s. s @ ''='') (emit_b [drop_bit 10 (doublet AND push_bit 10 63),
      drop_bit 4 (doublet AND push_bit 4 63), push_bit 2 (doublet AND 31)]))"
| "internal_buffer_base64_encode [a] = map_option (\<lambda>s. s @ ''=='')
    (emit_b [drop_bit 2 (unat a AND push_bit 2 63), push_bit 4 (unat a AND 3)])"
| "internal_buffer_base64_encode [] = Some []"

text \<open>\<open>static_cast<std::byte>(value >> k)\<close> keeps the low eight bits.\<close>

definition byte_at :: "nat \<Rightarrow> nat \<Rightarrow> u8" where
  "byte_at k value = word_of_nat (drop_bit k value)"

fun internal_buffer_base64_decode :: "string \<Rightarrow> u8 list option" where
  "internal_buffer_base64_decode (p # q # r # s # rest) =
    Option.bind (from_base64_char p) (\<lambda>np. Option.bind (from_base64_char q) (\<lambda>nq.
    Option.bind (from_base64_char r) (\<lambda>nr. Option.bind (from_base64_char s) (\<lambda>ns.
      let value = push_bit 18 np OR push_bit 12 nq OR push_bit 6 nr OR ns in
      map_option (\<lambda>t. [byte_at 16 value] @ (if r \<noteq> CHR ''='' then [byte_at 8 value] else []) @
          (if s \<noteq> CHR ''='' then [byte_at 0 value] else []) @ t)
        (internal_buffer_base64_decode rest)))))"
| "internal_buffer_base64_decode [p, q, r] =
    Option.bind (from_base64_char p) (\<lambda>np. Option.bind (from_base64_char q) (\<lambda>nq.
    Option.bind (from_base64_char r) (\<lambda>nr.
      let value = (push_bit 10 np OR push_bit 4 nq OR drop_bit 2 nr) mod 2 ^ 16 in
      Some [byte_at 8 value, word_of_nat (value AND 255)])))"
| "internal_buffer_base64_decode [p, q] =
    Option.bind (from_base64_char p) (\<lambda>np. Option.bind (from_base64_char q) (\<lambda>nq.
      Some [word_of_nat (push_bit 2 np OR drop_bit 4 nq)]))"
| "internal_buffer_base64_decode [p] = Some []"
| "internal_buffer_base64_decode [] = Some []"

section \<open>The alphabet is a bijection\<close>

lemma all_sextets:
  "\<forall>k < 64. find64 (base64_chars ! k) = k \<and> is_base64 (base64_chars ! k) \<and> base64_chars ! k \<noteq> CHR ''='' \<and>
     from_base64_char (base64_chars ! k) = Some k"
proof -
  have "list_all (\<lambda>k. find64 (base64_chars ! k) = k \<and> is_base64 (base64_chars ! k) \<and> base64_chars ! k \<noteq> CHR ''='' \<and>
     from_base64_char (base64_chars ! k) = Some k) [0..<64]"
    by code_simp
  then show ?thesis by (simp add: list_all_iff)
qed


section \<open>Sextets and octets\<close>

lemmas to_div = nat_field nat_and_masks push_bit_eq_mult drop_bit_eq_div

lemma sextets_div:
  assumes "a < 256" "b < 256" "c < 256"
  shows "sextets a b c = [a div 4, a mod 4 * 16 + b div 16, b mod 16 * 4 + c div 64, c mod 64]"
proof -
  have "drop_bit 2 (a AND 0xfc) = a div 4" "drop_bit 4 (b AND 0xf0) = b div 16" "drop_bit 6 (c AND 0xc0) = c div 64"
    unfolding nat_field using assms by (simp_all add: nat_and_masks)
  then show ?thesis using assms by (simp add: sextets_def nat_and_masks push_bit_eq_mult)
qed

lemma octets_div:
  assumes "p < 64" "q < 64" "r < 64" "s < 64"
  shows "octets p q r s = [p * 4 + q div 16, q mod 16 * 16 + r div 4, r mod 4 * 64 + s]"
proof -
  have "drop_bit 4 (q AND 0x30) = q div 16" "drop_bit 2 (r AND 0x3c) = r div 4"
    unfolding nat_field using assms by (simp_all add: nat_and_masks)
  moreover have "p * 4 + q div 16 < 256" "q mod 16 * 16 + r div 4 < 256" "r mod 4 * 64 + s < 256"
    using digit(3)[of "q div 16" 4 p 64] digit(3)[of "r div 4" 16 "q mod 16" 16] digit(3)[of s 64 "r mod 4" 4] assms
    by (simp_all add: less_mult_imp_div_less)
  ultimately show ?thesis using assms by (simp add: octets_def nat_and_masks push_bit_eq_mult)
qed

lemma emit_map: "\<forall>k \<in> set ks. k < 64 \<Longrightarrow> emit ks = Some (map ((!) base64_chars) ks)"
  by (induction ks) (auto simp: char64_def base64_chars_def)

lemma sextet_facts:
  assumes "k < 64"
  shows "find64 (base64_chars ! k) = k" "is_base64 (base64_chars ! k)" "base64_chars ! k \<noteq> CHR ''=''"
    "from_base64_char (base64_chars ! k) = Some k" "to_base64_char k = Some (base64_chars ! k)"
  using all_sextets assms by (auto simp: to_base64_char_def)

lemma of_char_less [simp]: "of_char c < (256 :: nat)"
  by (rule nat_of_char_less_256)

lemma decode_quad:
  assumes "p < 64" "q < 64" "r < 64" "s < 64"
  shows "decode_loop [] (base64_chars ! p # base64_chars ! q # base64_chars ! r # base64_chars ! s # rest) =
    map char_of [p * 4 + q div 16, q mod 16 * 16 + r div 4, r mod 4 * 64 + s] @ decode_loop [] rest"
  using assms by (simp add: sextet_facts octets_div)

text \<open>\<open>find('\0')\<close> fails, which the padding of the last group turns into 255; it does not reach the output.\<close>

lemma octets_take:
  assumes "p < 64" "q < 64"
  shows "take 1 (octets p q r s) = [p * 4 + q div 16]"
    and "r < 64 \<Longrightarrow> take 2 (octets p q r s) = [p * 4 + q div 16, q mod 16 * 16 + r div 4]"
proof -
  have "octets p q r s ! 0 = octets p q 0 0 ! 0" "r < 64 \<Longrightarrow> octets p q r s ! 1 = octets p q r 0 ! 1"
    by (simp_all add: octets_def)
  moreover have "take 1 (octets p q r s) = [octets p q r s ! 0]"
    "take 2 (octets p q r s) = [octets p q r s ! 0, octets p q r s ! 1]"
    by (simp_all add: octets_def)
  ultimately show "take 1 (octets p q r s) = [p * 4 + q div 16]"
    "r < 64 \<Longrightarrow> take 2 (octets p q r s) = [p * 4 + q div 16, q mod 16 * 16 + r div 4]"
    using octets_div[of p q 0 0] octets_div[of p q r 0] assms by simp_all
qed

lemma decode_tail_simps:
  "decode_tail [x, y] = map char_of (take 1 (octets (find64 x) (find64 y) (find64 (char_of (0 :: nat))) (find64 (char_of (0 :: nat)))))"
  "decode_tail [x, y, z] = map char_of (take 2 (octets (find64 x) (find64 y) (find64 z) (find64 (char_of (0 :: nat)))))"
  by (simp_all add: decode_tail_def eval_nat_numeral)

lemma decode_pair:
  assumes "p < 64" "q < 64"
  shows "decode_loop [] (base64_chars ! p # base64_chars ! q # CHR ''='' # rest) = [char_of (p * 4 + q div 16)]"
  using assms octets_take(1)[OF assms] by (simp add: sextet_facts decode_tail_simps)

lemma decode_triple:
  assumes "p < 64" "q < 64" "r < 64"
  shows "decode_loop [] (base64_chars ! p # base64_chars ! q # base64_chars ! r # CHR ''='' # rest) =
    [char_of (p * 4 + q div 16), char_of (q mod 16 * 16 + r div 4)]"
  using assms by (simp add: sextet_facts decode_tail_simps octets_take)

text \<open>Three bytes as four sextets and back.\<close>

lemma quad_of_triple:
  assumes "a < 256" "b < 256" "c < (256 :: nat)"
  shows "a div 4 < 64" "a mod 4 * 16 + b div 16 < 64" "b mod 16 * 4 + c div 64 < 64" "c mod 64 < 64"
    and "a div 4 * 4 + (a mod 4 * 16 + b div 16) div 16 = a"
    and "(a mod 4 * 16 + b div 16) mod 16 * 16 + (b mod 16 * 4 + c div 64) div 4 = b"
    and "(b mod 16 * 4 + c div 64) mod 4 * 64 + c mod 64 = c"
proof -
  have d: "b div 16 < 16" "c div 64 < 4" using assms by simp_all
  show "a div 4 < 64" "c mod 64 < 64" using assms by simp_all
  show "a mod 4 * 16 + b div 16 < 64" "b mod 16 * 4 + c div 64 < 64"
    using digit(3)[OF d(1), of "a mod 4" 4] digit(3)[OF d(2), of "b mod 16" 16] by simp_all
  show "a div 4 * 4 + (a mod 4 * 16 + b div 16) div 16 = a"
    "(a mod 4 * 16 + b div 16) mod 16 * 16 + (b mod 16 * 4 + c div 64) div 4 = b"
    "(b mod 16 * 4 + c div 64) mod 4 * 64 + c mod 64 = c"
    unfolding digit(1)[OF d(1)] digit(2)[OF d(1)] digit(1)[OF d(2)] digit(2)[OF d(2)] by simp_all
qed

lemma encode_decode_strings: "\<exists>t. base64_encode str = Some t \<and> base64_decode t = str"
  unfolding base64_encode_def base64_decode_def
proof (induction str rule: list3_induct)
  case Nil
  then show ?case by (simp add: decode_tail_def)
next
  case (One x)
  let ?a = "of_char x :: nat"
  note q = quad_of_triple[of ?a 0 0, simplified]
  have "emit (take 2 (sextets ?a 0 0)) = Some [base64_chars ! (?a div 4), base64_chars ! (?a mod 4 * 16)]"
    by (subst emit_map) (use q in \<open>auto simp: sextets_div\<close>)
  then show ?case using decode_pair[of "?a div 4" "?a mod 4 * 16"] q by simp
next
  case (Two x y)
  let ?a = "of_char x :: nat" and ?b = "of_char y :: nat"
  note q = quad_of_triple[of ?a ?b 0, simplified]
  have "emit (take 3 (sextets ?a ?b 0)) =
      Some [base64_chars ! (?a div 4), base64_chars ! (?a mod 4 * 16 + ?b div 16), base64_chars ! (?b mod 16 * 4)]"
    by (subst emit_map) (use q in \<open>auto simp: sextets_div numeral_3_eq_3\<close>)
  then show ?case using decode_triple[of "?a div 4" "?a mod 4 * 16 + ?b div 16" "?b mod 16 * 4"] q by simp
next
  case (Three x y z xs)
  let ?a = "of_char x :: nat" and ?b = "of_char y :: nat" and ?c = "of_char z :: nat"
  note q = quad_of_triple[of ?a ?b ?c, OF of_char_less of_char_less of_char_less]
  have "emit (sextets ?a ?b ?c) = Some [base64_chars ! (?a div 4), base64_chars ! (?a mod 4 * 16 + ?b div 16),
      base64_chars ! (?b mod 16 * 4 + ?c div 64), base64_chars ! (?c mod 64)]"
    by (subst emit_map) (use q(1-4) in \<open>auto simp: sextets_div\<close>)
  then show ?case using Three decode_quad[OF q(1-4)] unfolding q(5-7) by auto
qed


section \<open>The buffers codec\<close>

text \<open>The field of a group of \<open>6 * n\<close> bits that a mask selects.\<close>

lemma sextet_field:
  "drop_bit 18 (t AND push_bit 18 63) = t div 2 ^ 18 mod (64 :: nat)"
  "drop_bit 12 (t AND push_bit 12 63) = t div 2 ^ 12 mod (64 :: nat)"
  "drop_bit 10 (t AND push_bit 10 63) = t div 2 ^ 10 mod (64 :: nat)"
  "drop_bit 6 (t AND push_bit 6 63) = t div 2 ^ 6 mod (64 :: nat)"
  "drop_bit 4 (t AND push_bit 4 63) = t div 2 ^ 4 mod (64 :: nat)"
  "drop_bit 2 (t AND push_bit 2 63) = t div 2 ^ 2 mod (64 :: nat)"
  unfolding nat_field by (simp_all add: push_bit_eq_mult nat_and_masks)

lemma triplet_sum:
  assumes "a < 256" "b < 256" "c < (256 :: nat)"
  shows "push_bit 16 a OR push_bit 8 b OR c = a * 65536 + b * 256 + c"
proof -
  have "push_bit 8 b OR c = b * 256 + c" using nat_or_shift[of c 8 b] assms by simp
  moreover have "b * 256 + c < 2 ^ 16" using digit(3)[of c 256 b 256] assms by simp
  ultimately show ?thesis using nat_or_shift[of "b * 256 + c" 16 a] by simp
qed

lemma four_digits:
  assumes "q < 64" "r < 64" "s < (64 :: nat)"
  shows "(((p * 64 + q) * 64 + r) * 64 + s) div 2 ^ 18 = p"
    and "(((p * 64 + q) * 64 + r) * 64 + s) div 2 ^ 12 mod 64 = q"
    and "(((p * 64 + q) * 64 + r) * 64 + s) div 2 ^ 6 mod 64 = r"
    and "(((p * 64 + q) * 64 + r) * 64 + s) mod 64 = s"
proof -
  let ?t = "((p * 64 + q) * 64 + r) * 64 + s"
  have d: "?t div 2 ^ 18 = ?t div 64 div 64 div 64" "?t div 2 ^ 12 = ?t div 64 div 64" "?t div 2 ^ 6 = ?t div 64"
    by (simp_all flip: div_mult2_eq)
  show "?t div 2 ^ 18 = p" "?t div 2 ^ 12 mod 64 = q" "?t div 2 ^ 6 mod 64 = r" "?t mod 64 = s"
    unfolding d digit(1)[OF assms(3)] digit(1)[OF assms(2)] digit(1)[OF assms(1)] digit(2)[OF assms(3)]
      digit(2)[OF assms(2)] digit(2)[OF assms(1)] by (rule refl)+
qed

lemma triple_as_quad:
  "a * 65536 + b * 256 + (c :: nat) =
    (((a div 4 * 64 + (a mod 4 * 16 + b div 16)) * 64 + (b mod 16 * 4 + c div 64)) * 64 + c mod 64)"
proof -
  have "(x * 4 + y) * 65536 + (z * 16 + w) * 256 + (u * 64 + v) =
      (((x * 64 + (y * 16 + z)) * 64 + (w * 4 + u)) * 64 + v)" for x y z w u v :: nat
    by (simp add: algebra_simps)
  from this[of "a div 4" "a mod 4" "b div 16" "b mod 16" "c div 64" "c mod 64"]
  show ?thesis unfolding div_mult_mod_eq .
qed

lemma triplet_fields:
  assumes "a < 256" "b < 256" "c < (256 :: nat)"
  shows "(a * 65536 + b * 256 + c) div 2 ^ 18 mod 64 = a div 4"
    and "(a * 65536 + b * 256 + c) div 2 ^ 12 mod 64 = a mod 4 * 16 + b div 16"
    and "(a * 65536 + b * 256 + c) div 2 ^ 6 mod 64 = b mod 16 * 4 + c div 64"
    and "(a * 65536 + b * 256 + c) mod 64 = c mod 64"
proof -
  note q = quad_of_triple[OF assms]
  show "(a * 65536 + b * 256 + c) div 2 ^ 18 mod 64 = a div 4"
    "(a * 65536 + b * 256 + c) div 2 ^ 12 mod 64 = a mod 4 * 16 + b div 16"
    "(a * 65536 + b * 256 + c) div 2 ^ 6 mod 64 = b mod 16 * 4 + c div 64"
    "(a * 65536 + b * 256 + c) mod 64 = c mod 64"
    unfolding triple_as_quad[of a b c] four_digits[OF q(2-4)] using q(1) by simp_all
qed

lemma emit_b_map: "\<forall>k \<in> set ks. k < 64 \<Longrightarrow> emit_b ks = Some (map ((!) base64_chars) ks)"
  by (induction ks) (auto simp: to_base64_char_def)

lemma quad_sum:
  assumes "p < 64" "q < 64" "r < 64" "s < (64 :: nat)"
  shows "push_bit 18 p OR push_bit 12 q OR push_bit 6 r OR s = p * 2 ^ 18 + q * 2 ^ 12 + r * 2 ^ 6 + s"
proof -
  have s1: "r * 64 + s < 64 * 64" using digit(3)[OF assms(4) assms(3)] .
  have s2: "q * 4096 + (r * 64 + s) < 64 * 4096" using digit(3)[of "r * 64 + s" 4096 q 64] s1 assms(2) by simp
  have "push_bit 6 r OR s = r * 64 + s" using nat_or_shift[of s 6 r] assms by simp
  moreover have "push_bit 12 q OR (r * 64 + s) = q * 4096 + (r * 64 + s)"
    using nat_or_shift[of "r * 64 + s" 12 q] s1 by simp
  moreover have "push_bit 18 p OR (q * 4096 + (r * 64 + s)) = p * 262144 + (q * 4096 + (r * 64 + s))"
    using nat_or_shift[of "q * 4096 + (r * 64 + s)" 18 p] s2 by simp
  ultimately show ?thesis by simp
qed

lemma byte_at_eq: "drop_bit k v mod 256 = unat b \<Longrightarrow> byte_at k v = b"
proof -
  assume "drop_bit k v mod 256 = unat b"
  then have "unat (byte_at k v) = unat b"
    by (simp add: byte_at_def unat_of_nat take_bit_eq_mod)
  then show "byte_at k v = b" by (rule unsigned_word_eqI)
qed

lemma word_of_nat_eq: "v mod 256 = unat b \<Longrightarrow> word_of_nat v = (b :: u8)"
  using byte_at_eq[of 0 v b] by (simp add: byte_at_def)


text \<open>The stray bit: bit 4 of the last byte when two bytes are left.\<close>

fun no_stray_bit :: "u8 list \<Rightarrow> bool" where
  "no_stray_bit (a # b # c # rest) = no_stray_bit rest"
| "no_stray_bit [a, b] = (unat b div 16 mod 2 = 0)"
| "no_stray_bit _ = True"

lemma doublet_facts:
  assumes "a < 256" "b < (256 :: nat)"
  shows "push_bit 8 a OR b = a * 256 + b"
    and "(a * 256 + b) div 2 ^ 10 mod 64 = a div 4" and "(a * 256 + b) div 2 ^ 4 mod 64 = a mod 4 * 16 + b div 16"
    and "(a * 256 + b) AND 31 = b mod 32"
proof -
  show "push_bit 8 a OR b = a * 256 + b" using nat_or_shift[of b 8 a] assms by simp
  have t: "a * 256 + b = (a * 65536 + b * 256 + 0) div 256" by simp
  have "(a * 256 + b) div 2 ^ 10 = (a * 65536 + b * 256 + 0) div 2 ^ 18"
    "(a * 256 + b) div 2 ^ 4 = (a * 65536 + b * 256 + 0) div 2 ^ 12"
    unfolding t by (simp_all flip: div_mult2_eq)
  then show "(a * 256 + b) div 2 ^ 10 mod 64 = a div 4" "(a * 256 + b) div 2 ^ 4 mod 64 = a mod 4 * 16 + b div 16"
    using triplet_fields(1,2)[of a b 0] assms by (simp_all only: zero_less_numeral)
  have "(a * 8 * 32 + b) mod 32 = b mod 32" by (rule mod_mult_self3)
  then have "(a * 256 + b) mod 32 = b mod 32" by (simp add: mult.assoc)
  then show "(a * 256 + b) AND 31 = b mod 32" by (simp add: nat_and_masks)
qed

declare internal_buffer_base64_encode.simps(1-3) [simp del]

text \<open>The encoder on each shape of input, with its fields as quotients and remainders.\<close>

lemma encode_bytes_3:
  "internal_buffer_base64_encode (a # b # c # rest) = map_option
     ((@) [base64_chars ! (unat a div 4), base64_chars ! (unat a mod 4 * 16 + unat b div 16),
       base64_chars ! (unat b mod 16 * 4 + unat c div 64), base64_chars ! (unat c mod 64)])
     (internal_buffer_base64_encode rest)"
proof -
  note q = quad_of_triple[of "unat a" "unat b" "unat c", OF unat_u8_less unat_u8_less unat_u8_less]
  have "emit_b [unat a div 4, unat a mod 4 * 16 + unat b div 16, unat b mod 16 * 4 + unat c div 64, unat c mod 64] =
      Some [base64_chars ! (unat a div 4), base64_chars ! (unat a mod 4 * 16 + unat b div 16),
        base64_chars ! (unat b mod 16 * 4 + unat c div 64), base64_chars ! (unat c mod 64)]"
    by (subst emit_b_map) (use q(1-4) in auto)
  then show ?thesis
    unfolding internal_buffer_base64_encode.simps(1) Let_def triplet_sum[OF unat_u8_less unat_u8_less unat_u8_less]
      sextet_field nat_and_masks triplet_fields[OF unat_u8_less unat_u8_less unat_u8_less]
    by simp
qed

lemma encode_bytes_2:
  "internal_buffer_base64_encode [a, b] = (if unat b div 16 mod 2 = 0
    then Some [base64_chars ! (unat a div 4), base64_chars ! (unat a mod 4 * 16 + unat b div 16),
      base64_chars ! (unat b mod 16 * 4), CHR ''='']
    else None)"
proof -
  note d = doublet_facts[OF unat_u8_less unat_u8_less, of a b]
  have q: "unat a div 4 < 64" "unat a mod 4 * 16 + unat b div 16 < 64" "unat b mod 16 * 4 < 64"
    using quad_of_triple[of "unat a" "unat b" 0] by simp_all
  have e: "internal_buffer_base64_encode [a, b] = map_option (\<lambda>s. s @ ''='')
      (emit_b [unat a div 4, unat a mod 4 * 16 + unat b div 16, push_bit 2 (unat b mod 32)])"
    unfolding internal_buffer_base64_encode.simps(2) Let_def d(1) sextet_field d(2-4) ..
  have m: "unat b mod 32 = 16 * (unat b div 16 mod 2) + unat b mod 16"
    using mod_mult2_eq[of "unat b" 16 2] by simp
  show ?thesis
  proof (cases "unat b div 16 mod 2 = 0")
    case True
    then show ?thesis unfolding e m using q
      by (simp add: push_bit_eq_mult to_base64_char_def)
  next
    case False
    then have "unat b div 16 mod 2 = 1" by simp
    then show ?thesis unfolding e m using q
      by (simp add: push_bit_eq_mult to_base64_char_def)
  qed
qed

lemma encode_bytes_1:
  "internal_buffer_base64_encode [a] =
    Some [base64_chars ! (unat a div 4), base64_chars ! (unat a mod 4 * 16), CHR ''='', CHR ''='']"
proof -
  have q: "unat a div 4 < 64" "unat a mod 4 * 16 < 64"
    using quad_of_triple[of "unat a" 0 0] by simp_all
  have f: "unat a div 4 mod 64 = unat a div 4" using q(1) by simp
  have "internal_buffer_base64_encode [a] = map_option (\<lambda>s. s @ ''=='') (emit_b [unat a div 4, unat a mod 4 * 16])"
    unfolding internal_buffer_base64_encode.simps(3) sextet_field
    unfolding nat_and_masks push_bit_eq_mult using f by simp
  then show ?thesis using q by (simp add: to_base64_char_def)
qed

text \<open>The decoder on the groups the encoder writes.\<close>

lemma value_bytes:
  fixes a b c :: u8
  shows "byte_at 16 (unat a * 65536 + unat b * 256 + unat c) = a" "byte_at 8 (unat a * 65536 + unat b * 256 + unat c) = b"
    "byte_at 0 (unat a * 65536 + unat b * 256 + unat c) = c"
proof -
  have t: "unat a * 65536 + unat b * 256 + unat c = (unat a * 256 + unat b) * 256 + unat c" by simp
  have d: "n div 65536 = n div 256 div 256" for n :: nat by (simp flip: div_mult2_eq)
  note g = digit(1,2)[of "unat c" 256 "unat a * 256 + unat b"] digit(1,2)[of "unat b" 256 "unat a"]
  show "byte_at 16 (unat a * 65536 + unat b * 256 + unat c) = a"
    by (rule byte_at_eq) (use g in \<open>simp only: drop_bit_eq_div t, simp add: d\<close>)
  show "byte_at 8 (unat a * 65536 + unat b * 256 + unat c) = b"
    by (rule byte_at_eq) (use g in \<open>simp only: drop_bit_eq_div t, simp\<close>)
  show "byte_at 0 (unat a * 65536 + unat b * 256 + unat c) = c"
    by (rule byte_at_eq) (use g in \<open>simp only: drop_bit_eq_div t, simp\<close>)
qed

lemma decode_quad_value:
  assumes "p < 64" "q < 64" "r < 64" "s < 64"
  shows "internal_buffer_base64_decode (base64_chars ! p # base64_chars ! q # base64_chars ! r # base64_chars ! s # rest) =
    (let v = ((p * 64 + q) * 64 + r) * 64 + s in
      map_option (\<lambda>t. [byte_at 16 v, byte_at 8 v, byte_at 0 v] @ t) (internal_buffer_base64_decode rest))"
proof -
  have "p * 2 ^ 18 + q * 2 ^ 12 + r * 2 ^ 6 + s = ((p * 64 + q) * 64 + r) * 64 + s" by (simp add: algebra_simps)
  then show ?thesis unfolding internal_buffer_base64_decode.simps(1)
    using assms by (simp only: sextet_facts quad_sum Let_def bind.bind_lunit if_True not_False_eq_True append.simps)
qed


lemma buffers_roundtrip:
  "no_stray_bit bytes \<Longrightarrow>
    \<exists>t. internal_buffer_base64_encode bytes = Some t \<and> internal_buffer_base64_decode t = Some bytes"
proof (induction bytes rule: list3_induct)
  case Nil
  then show ?case by simp
next
  case (One a)
  note q = quad_of_triple[of "unat a" 0 0, simplified]
  have v: "push_bit 18 (unat a div 4) OR push_bit 12 (unat a mod 4 * 16) = unat a * 65536"
    using quad_sum[of "unat a div 4" "unat a mod 4 * 16" 0 0] q triple_as_quad[of "unat a" 0 0] by simp
  have "byte_at 16 (unat a * 65536) = a" using value_bytes(1)[of a 0 0] by simp
  then show ?case using q v
    by (simp add: encode_bytes_1 sextet_facts from_base64_char_def[of "CHR ''=''"] in_range_def Let_def)
next
  case (Two a b)
  note q = quad_of_triple[of "unat a" "unat b" 0, simplified]
  have v: "push_bit 18 (unat a div 4) OR push_bit 12 (unat a mod 4 * 16 + unat b div 16) OR push_bit 6 (unat b mod 16 * 4) =
      unat a * 65536 + unat b * 256"
    using quad_sum[of "unat a div 4" "unat a mod 4 * 16 + unat b div 16" "unat b mod 16 * 4" 0] q
      triple_as_quad[of "unat a" "unat b" 0] by simp
  have "byte_at 16 (unat a * 65536 + unat b * 256) = a" "byte_at 8 (unat a * 65536 + unat b * 256) = b"
    using value_bytes(1,2)[of a b 0] by simp_all
  then show ?case using q v Two
    by (simp add: encode_bytes_2 sextet_facts from_base64_char_def[of "CHR ''=''"] in_range_def Let_def)
next
  case (Three a b c xs)
  note q = quad_of_triple[of "unat a" "unat b" "unat c", OF unat_u8_less unat_u8_less unat_u8_less]
  have "no_stray_bit xs" using Three.prems by simp
  then obtain t where t: "internal_buffer_base64_encode xs = Some t" "internal_buffer_base64_decode t = Some xs"
    using Three.IH by blast
  show ?case
    using t decode_quad_value[OF q(1-4), of t] value_bytes[of a b c]
    unfolding encode_bytes_3 triple_as_quad[of "unat a" "unat b" "unat c"] Let_def by simp
qed

lemma stray_bit_fails: "\<not> no_stray_bit bytes \<Longrightarrow> internal_buffer_base64_encode bytes = None"
proof (induction bytes rule: list3_induct)
  case (Three a b c xs)
  then show ?case by (simp add: encode_bytes_3)
qed (simp_all add: encode_bytes_2)

section \<open>The codecs as instances of the contract\<close>

interpretation string64: codec base64_encode "\<lambda>t. Some (base64_decode t)" "\<lambda>_. True"
  using encode_decode_strings by unfold_locales auto

interpretation buffer64: codec internal_buffer_base64_encode internal_buffer_base64_decode no_stray_bit
  using buffers_roundtrip by unfold_locales

section \<open>Properties\<close>

text \<open>C13. \<open>base64_decode\<close> inverts \<open>base64_encode\<close> on every string, of any byte values and any
  length that the position of the encoder, an \<open>int\<close>, can count; the encoder never leaves its alphabet and so is injective.\<close>

theorem base64_string_roundtrip:
  "Option.bind (base64_encode str) (\<lambda>t. Some (base64_decode t)) = Some str \<and>
   (base64_encode str = base64_encode str' \<longleftrightarrow> str = str')"
  using string64.dec_bind_enc[of str] string64.enc_inj[of str str'] by auto

text \<open>C20. The buffer codec round-trips exactly the inputs without a stray bit: every input whose
  length is not 2 modulo 3, and those of length 2 modulo 3 whose last byte has bit 4 clear;
  on every other input the encoder runs into its out-of-range error.\<close>

theorem base64_buffer_roundtrip_iff:
  "(Option.bind (internal_buffer_base64_encode bytes) internal_buffer_base64_decode = Some bytes \<longleftrightarrow>
     length bytes mod 3 \<noteq> 2 \<or> \<not> bit (last bytes) 4) \<and>
   (internal_buffer_base64_encode bytes = None \<longleftrightarrow> length bytes mod 3 = 2 \<and> bit (last bytes) 4)"
proof -
  have b: "bit (w :: u8) 4 \<longleftrightarrow> unat w div 16 mod 2 \<noteq> 0" for w
  proof -
    have "bit w 4 \<longleftrightarrow> bit (unat w) 4" by (simp add: bit_unsigned_iff)
    then show ?thesis by (simp add: bit_iff_odd odd_iff_mod_2_eq_one)
  qed
  have s: "no_stray_bit bytes \<longleftrightarrow> length bytes mod 3 \<noteq> 2 \<or> \<not> bit (last bytes) 4"
  proof (induction bytes rule: list3_induct)
    case (Three a b c xs)
    have "length (a # b # c # xs) mod 3 = length xs mod 3" using mod_add_self1[of 3 "length xs"] by simp
    moreover have "xs \<noteq> [] \<Longrightarrow> last (a # b # c # xs) = last xs" by simp
    ultimately show ?case using Three by (cases "xs = []") (simp, simp only: no_stray_bit.simps not_False_eq_True)
  qed (auto simp: b)
  show ?thesis
  proof (cases "no_stray_bit bytes")
    case True
    then show ?thesis using buffer64.dec_bind_enc[OF True] buffer64.enc_defined[OF True] s by auto
  next
    case False
    then show ?thesis using stray_bit_fails[OF False] s by simp
  qed
qed


theorem base64_buffer_roundtrip_iff_witness:
  "Option.bind (internal_buffer_base64_encode [1, 2, 3, 4, 5]) internal_buffer_base64_decode = Some [1, 2, 3, 4, 5] \<and>
   internal_buffer_base64_encode [0, 16] = None"
proof -
  have "\<not> bit (5 :: u8) 4" "bit (16 :: u8) 4" by code_simp+
  then show ?thesis
    using base64_buffer_roundtrip_iff[of "[1, 2, 3, 4, 5]"] base64_buffer_roundtrip_iff[of "[0, 16]"] by simp
qed

end
