(* ===== verification/FloatBits.thy ===== *)
theory FloatBits
  imports Float64
begin

text \<open>
  The object representation of \<open>double\<close> and \<open>float\<close>, which \<open>bit_cast\<close> reads: IEEE 754
  interchange formats of precision \<open>p\<close> with \<open>k\<close> exponent bits (53 and 11, 24 and 8).
  A magnitude is its significand in units of the last place plus the exponent above the
  subnormal one, shifted past the significand.  All NaNs are the default quiet one.
\<close>

definition emin :: "nat \<Rightarrow> nat \<Rightarrow> int" where
  "emin p k = 3 - 2 ^ (k - 1) - int p"

definition ulp :: "nat \<Rightarrow> nat \<Rightarrow> rat \<Rightarrow> int" where
  "ulp p k q = max (ilog2 q - (int p - 1)) (emin p k)"

definition mag_bits :: "nat \<Rightarrow> nat \<Rightarrow> rat \<Rightarrow> int" where
  "mag_bits p k q = (if q = 0 then 0
     else \<lfloor>q / 2 powi ulp p k q\<rfloor> + (ulp p k q - emin p k) * 2 ^ (p - 1))"

definition mag_val :: "nat \<Rightarrow> nat \<Rightarrow> int \<Rightarrow> rat" where
  "mag_val p k n = (let x = n div 2 ^ (p - 1); m = n mod 2 ^ (p - 1) in
     if x = 0 then of_int m * 2 powi emin p k
     else of_int (m + 2 ^ (p - 1)) * 2 powi (emin p k + x - 1))"

definition ieee_bits :: "nat \<Rightarrow> nat \<Rightarrow> double \<Rightarrow> int" where
  "ieee_bits p k d = (let sign = 2 ^ (p - 1 + k); inf = (2 ^ k - 1) * 2 ^ (p - 1) in
     case d of
       DNaN \<Rightarrow> inf + 2 ^ (p - 2)
     | DInf s \<Rightarrow> (if s then sign else 0) + inf
     | DNegZero \<Rightarrow> sign
     | DFin q \<Rightarrow> (if q < 0 then sign else 0) + mag_bits p k \<bar>q\<bar>)"

definition ieee_val :: "nat \<Rightarrow> nat \<Rightarrow> int \<Rightarrow> double" where
  "ieee_val p k n = (let s = (2 ^ (p - 1 + k) \<le> n); m = n mod 2 ^ (p - 1 + k) in
     if m div 2 ^ (p - 1) = 2 ^ k - 1 then (if m mod 2 ^ (p - 1) = 0 then DInf s else DNaN)
     else let q = mag_val p k m in
       if q = 0 then (if s then DNegZero else DFin 0) else DFin (if s then - q else q))"

text \<open>\<open>double\<close> and \<open>float\<close>; \<open>to_float\<close> is the rounding of \<open>static_cast<float>\<close>.\<close>

definition double_bits :: "double \<Rightarrow> u64" where
  "double_bits d = word_of_int (ieee_bits 53 11 d)"

definition double_of_bits :: "u64 \<Rightarrow> double" where
  "double_of_bits w = ieee_val 53 11 (uint w)"

definition to_float :: "double \<Rightarrow> double" where
  "to_float d = (case d of
      DFin q \<Rightarrow> (if q = 0 then DFin 0 else
        let u = ulp 24 8 \<bar>q\<bar>; r = of_int (rhe (\<bar>q\<bar> / 2 powi u)) * 2 powi u in
        if 2 ^ 128 \<le> r then DInf (q < 0)
        else if r = 0 then (if q < 0 then DNegZero else DFin 0)
        else DFin (if q < 0 then - r else r))
    | _ \<Rightarrow> d)"

definition float_bits :: "double \<Rightarrow> u32" where
  "float_bits d = word_of_int (ieee_bits 24 8 d)"

definition float_of_bits :: "u32 \<Rightarrow> double" where
  "float_of_bits w = ieee_val 24 8 (uint w)"

section \<open>Representable numbers survive\<close>

definition representable :: "nat \<Rightarrow> nat \<Rightarrow> rat \<Rightarrow> bool" where
  "representable p k q = (q = of_int \<lfloor>q / 2 powi ulp p k q\<rfloor> * 2 powi ulp p k q \<and> q < 2 powi (2 ^ (k - 1)))"

lemma magnitude_facts:
  assumes "0 < q" and "representable p k q" and "1 \<le> p"
  shows "0 < \<lfloor>q / 2 powi ulp p k q\<rfloor>" and "\<lfloor>q / 2 powi ulp p k q\<rfloor> < 2 ^ p"
    and "emin p k < ulp p k q \<Longrightarrow> 2 ^ (p - 1) \<le> \<lfloor>q / 2 powi ulp p k q\<rfloor>"
    and "emin p k \<le> ulp p k q" and "2 \<le> k \<Longrightarrow> ulp p k q - emin p k \<le> 2 ^ k - 3"
proof -
  let ?u = "ulp p k q" and ?m = "\<lfloor>q / 2 powi ulp p k q\<rfloor>"
  have q: "q = of_int ?m * 2 powi ?u" and hi: "q < 2 powi (2 ^ (k - 1))"
    using assms(2) by (auto simp: representable_def)
  show "0 < ?m"
  proof (rule ccontr)
    assume "\<not> 0 < ?m"
    then have "of_int ?m * (2::rat) powi ?u \<le> 0" by (intro mult_nonpos_nonneg) simp_all
    then show False using q assms(1) by simp
  qed
  have "ilog2 q + 1 \<le> ?u + int p" by (simp add: ulp_def)
  then have "q < 2 powi (?u + int p)"
    using ilog2_bounds(2)[OF assms(1)] power_int_increasing[of "ilog2 q + 1" "?u + int p" "2::rat"] by simp
  then have "of_int ?m * 2 powi ?u < 2 ^ p * (2 powi ?u :: rat)"
    using q by (simp add: power_int_add mult.commute)
  then have "(of_int ?m :: rat) < of_int (2 ^ p)" by simp
  then show "?m < 2 ^ p" by (simp only: of_int_less_iff)
  show "emin p k \<le> ?u" by (simp add: ulp_def)
  show "2 ^ (p - 1) \<le> ?m" if "emin p k < ?u"
  proof -
    have u: "?u + int (p - 1) = ilog2 q" using that assms(3) by (simp add: ulp_def max_def of_nat_diff split: if_splits)
    have "2 powi (?u + int (p - 1)) \<le> q" unfolding u by (rule ilog2_bounds(1)[OF assms(1)])
    then have "2 ^ (p - 1) * (2 powi ?u :: rat) \<le> of_int ?m * 2 powi ?u"
      using q by (simp add: power_int_add mult.commute)
    then have "of_int (2 ^ (p - 1)) \<le> (of_int ?m :: rat)" by simp
    then show ?thesis by (simp only: of_int_le_iff)
  qed
  show "?u - emin p k \<le> 2 ^ k - 3" if k: "2 \<le> k"
  proof -
    have "ilog2 q < 2 ^ (k - 1)" by (rule ilog2_less[OF assms(1) hi])
    moreover have "(2::int) ^ k = 2 * 2 ^ (k - 1)" using k by (cases k) simp_all
    moreover have "(2::int) \<le> 2 ^ (k - 1)" using power_increasing[of 1 "k - 1" "2::int"] k by simp
    moreover have "?u - emin p k \<le> max (ilog2 q - (int p - 1) - emin p k) 0" by (simp add: ulp_def)
    moreover have "ilog2 q - (int p - 1) - emin p k = ilog2 q - 2 + 2 ^ (k - 1)" by (simp add: emin_def)
    ultimately show ?thesis by linarith
  qed
qed

lemma mag_val_bits:
  assumes "0 < q" and "representable p k q" and "1 \<le> p" and "2 \<le> k"
  shows "mag_val p k (mag_bits p k q) = q" and "0 \<le> mag_bits p k q"
    and "mag_bits p k q div 2 ^ (p - 1) < 2 ^ k - 1"
proof -
  let ?u = "ulp p k q" and ?m = "\<lfloor>q / 2 powi ulp p k q\<rfloor>" and ?s = "2 ^ (p - 1) :: int"
  note f = magnitude_facts[OF assms(1-3)]
  have q: "q = of_int ?m * 2 powi ?u" using assms(2) by (simp add: representable_def)
  have b: "mag_bits p k q = ?m + (?u - emin p k) * ?s" using assms(1) by (simp add: mag_bits_def)
  have p: "(2::int) ^ p = 2 * ?s" using assms(3) by (cases p) simp_all
  show nn: "0 \<le> mag_bits p k q" unfolding b using f(1,4) by (intro add_nonneg_nonneg mult_nonneg_nonneg order_less_imp_le[OF f(1)]) simp_all
  have d: "mag_bits p k q div ?s = (?u - emin p k) + ?m div ?s" "mag_bits p k q mod ?s = ?m mod ?s"
    unfolding b by simp_all
  have md: "?m div ?s = (if ?m < ?s then 0 else 1)"
  proof (cases "?m < ?s")
    case False
    then have "?m div ?s = 1" using f(2) p by (intro int_div_pos_eq[of _ _ _ "?m - ?s"]) auto
    then show ?thesis using False by simp
  next
    case True
    then show ?thesis using div_pos_pos_trivial[OF order_less_imp_le[OF f(1)] True] by simp
  qed
  then have mm: "?m mod ?s = (if ?m < ?s then ?m else ?m - ?s)"
    using minus_div_mult_eq_mod[of ?m ?s] by auto
  have k: "(4::int) \<le> 2 ^ k" using power_increasing[of 2 k "2::int"] assms(4) by simp
  show "mag_bits p k q div ?s < 2 ^ k - 1"
    using f(5) assms(4) d(1) md by (simp split: if_splits)
  show "mag_val p k (mag_bits p k q) = q"
  proof (cases "?u = emin p k")
    case True
    show ?thesis
    proof (cases "?m < ?s")
      case True
      then show ?thesis using \<open>?u = emin p k\<close> q d md mm by (simp add: mag_val_def Let_def)
    next
      case False
      then show ?thesis using \<open>?u = emin p k\<close> q d md mm by (simp add: mag_val_def Let_def)
    qed
  next
    case False
    then have "?s \<le> ?m" "emin p k < ?u" using f(3,4) by auto
    then show ?thesis using q by (simp add: mag_val_def Let_def d md mm del: One_nat_def)
  qed
qed

lemma ieee_val_bits:
  assumes "2 \<le> p" and "2 \<le> k" and "\<And>q. d = DFin q \<Longrightarrow> q \<noteq> 0 \<Longrightarrow> representable p k \<bar>q\<bar>"
  shows "ieee_val p k (ieee_bits p k d) = d \<and> 0 \<le> ieee_bits p k d \<and> ieee_bits p k d < 2 ^ (p + k)"
proof -
  define s g K h :: int where "s = 2 ^ (p - 1)" and "g = 2 ^ (p - 1 + k)" and "K = 2 ^ k" and "h = 2 ^ (p - 2)"
  have g: "g = K * s" by (simp add: g_def s_def K_def power_add mult.commute)
  have pk: "(2::int) ^ (p + k) = 2 * g" unfolding g_def using assms(1) by (cases p) (simp_all add: power_add)
  have h: "0 < h" "h < s" using assms(1) by (simp_all add: h_def s_def)
  have K: "4 \<le> K" unfolding K_def using power_increasing[of 2 k "2::int"] assms(2) by simp
  have i: "(K - 1) * s + s = g" unfolding g by (simp add: algebra_simps)
  have i0: "0 \<le> (K - 1) * s" using K h by simp
  have lt: "(K - 1) * s < g" "(K - 1) * s + h < g" "0 < g" using h i i0 by linarith+
  have bits: "ieee_bits p k d = (case d of DNaN \<Rightarrow> (K - 1) * s + h | DInf b \<Rightarrow> (if b then g else 0) + (K - 1) * s
      | DNegZero \<Rightarrow> g | DFin q \<Rightarrow> (if q < 0 then g else 0) + mag_bits p k \<bar>q\<bar>)"
    by (simp only: ieee_bits_def s_def g_def K_def h_def Let_def)
  have val: "ieee_val p k n = (if n mod g div s = K - 1 then (if n mod g mod s = 0 then DInf (g \<le> n) else DNaN)
      else if mag_val p k (n mod g) = 0 then (if g \<le> n then DNegZero else DFin 0)
      else DFin (if g \<le> n then - mag_val p k (n mod g) else mag_val p k (n mod g)))" for n
    by (simp only: ieee_val_def s_def g_def K_def Let_def)
  have z: "mag_val p k 0 = 0" by (simp add: mag_val_def Let_def)
  show ?thesis
  proof (cases d)
    case DNaN
    have "((K - 1) * s + h) mod g = (K - 1) * s + h" using lt i0 h by (intro mod_pos_pos_trivial) linarith+
    moreover have "((K - 1) * s + h) div s = K - 1" "((K - 1) * s + h) mod s = h" using h by simp_all
    ultimately show ?thesis unfolding bits val using DNaN lt i0 h pk by simp
  next
    case (DInf b)
    have "(g + (K - 1) * s) mod g = (K - 1) * s" "((K - 1) * s) mod g = (K - 1) * s"
      using lt i0 by (simp_all add: mod_pos_pos_trivial)
    moreover have "((K - 1) * s) div s = K - 1" "((K - 1) * s) mod s = 0" using h by simp_all
    ultimately show ?thesis unfolding bits val using DInf lt i0 pk by simp
  next
    case DNegZero
    then show ?thesis unfolding bits val using lt K pk by (simp add: z)
  next
    case (DFin q)
    show ?thesis
    proof (cases "q = 0")
      case True
      then show ?thesis unfolding bits val using DFin K lt pk by (simp add: z mag_bits_def)
    next
      case False
      let ?b = "mag_bits p k \<bar>q\<bar>"
      have q: "0 < \<bar>q\<bar>" "representable p k \<bar>q\<bar>" using False assms(3)[OF DFin] by simp_all
      have b: "mag_val p k ?b = \<bar>q\<bar>" "0 \<le> ?b" "?b div s < K - 1"
        using mag_val_bits[OF q _ assms(2)] assms(1) by (simp_all add: s_def K_def)
      have "(?b div s + 1) * s \<le> g" unfolding g using b(3) h by (intro mult_right_mono) simp_all
      moreover have "?b < (?b div s + 1) * s"
      proof -
        have "?b mod s < s" using h by simp
        then have "?b div s * s + ?b mod s < ?b div s * s + s" by linarith
        then show ?thesis by (simp add: distrib_right)
      qed
      ultimately have bg: "?b < g" by linarith
      then have "(g + ?b) mod g = ?b" "?b mod g = ?b" using b(2) by (simp_all add: mod_pos_pos_trivial)
      then show ?thesis unfolding bits val using DFin False b bg pk by (cases "q < 0") (simp_all add: abs_if)
    qed
  qed
qed

section \<open>\<open>double\<close> and its 64 bits\<close>

lemma ulp_exp_ulp: "ulp_exp q = ulp 53 11 q"
  by (simp add: ulp_exp_def ulp_def emin_def)

lemma representable_double:
  assumes "dwf (DFin q)" and "q \<noteq> 0"
  shows "representable 53 11 \<bar>q\<bar>"
proof -
  let ?a = "\<bar>q\<bar>" and ?u = "ulp 53 11 \<bar>q\<bar>"
  have "rnd_pos ?a = ?a" using assms by (auto simp: dwf_def rnd_def abs_if)
  then have a: "?a = of_int (rhe (?a / 2 powi ?u)) * 2 powi ?u"
    using assms(2) by (simp add: rnd_pos_def ulp_exp_ulp)
  then have "?a / 2 powi ?u = of_int (rhe (?a / 2 powi ?u))"
    by (metis nonzero_mult_div_cancel_right pow2_pos less_irrefl)
  then have "\<lfloor>?a / 2 powi ?u\<rfloor> = rhe (?a / 2 powi ?u)" by (metis floor_of_int)
  then show ?thesis using a assms(1) by (simp add: representable_def dwf_def)
qed

text \<open>Reading back the bits of a double gives that double (a NaN gives a NaN).\<close>

theorem double_of_bits_double_bits [simp]: "dwf d \<Longrightarrow> double_of_bits (double_bits d) = d"
proof -
  assume d: "dwf d"
  note b = ieee_val_bits[of 53 11 d]
  have r: "representable 53 11 \<bar>q\<bar>" if "d = DFin q" "q \<noteq> 0" for q
    using representable_double d that by blast
  have "0 \<le> ieee_bits 53 11 d" "ieee_bits 53 11 d < 2 ^ 64" "ieee_val 53 11 (ieee_bits 53 11 d) = d"
    using b r by simp_all
  then show ?thesis
    by (simp add: double_of_bits_def double_bits_def uint_word_of_int take_bit_int_eq_self)
qed

end
