(* ===== verification/BufferData.thy ===== *)
theory BufferData
  imports FloatBits Variant Bytes
begin

text \<open>
  The data types of the binary buffers (\<open>Universal_System/buffers_data.h\<close>) and the
  conversion of a value to its bytes and back: \<open>serialize_to_type\<close>,
  \<open>deserialize_from_type\<close> and \<open>buffer_sizeof\<close> of \<open>Universal_System/bufferstruct.cpp\<close>.
  Bytes are big-endian.  A fatal message ends the program (\<open>None\<close>), and so does a
  floating-point value outside the integer type it is cast to.
\<close>

datatype buffer_data_t = buffer_u8 | buffer_s8 | buffer_u16 | buffer_s16 | buffer_u32 | buffer_s32
  | buffer_f16 | buffer_f32 | buffer_f64 | buffer_bool | buffer_string | buffer_u64 | buffer_text

section \<open>Big-endian words\<close>

definition BYTE :: "'a::len word \<Rightarrow> u8" where
  "BYTE w = ucast (w AND 0xff)"

definition bytes16 :: "u16 \<Rightarrow> u8 list" where
  "bytes16 w = [BYTE (drop_bit 8 w), BYTE w]"

definition bytes32 :: "u32 \<Rightarrow> u8 list" where
  "bytes32 w = [BYTE (drop_bit 24 w), BYTE (drop_bit 16 w), BYTE (drop_bit 8 w), BYTE w]"

definition bytes64 :: "u64 \<Rightarrow> u8 list" where
  "bytes64 w = [BYTE (drop_bit 56 w), BYTE (drop_bit 48 w), BYTE (drop_bit 40 w), BYTE (drop_bit 32 w),
    BYTE (drop_bit 24 w), BYTE (drop_bit 16 w), BYTE (drop_bit 8 w), BYTE w]"

text \<open>\<open>value = *first++; value = (value << 8) | *first++; ...\<close>\<close>

definition unbytes :: "u8 list \<Rightarrow> 'a::len word" where
  "unbytes bs = foldl (\<lambda>v b. push_bit 8 v OR ucast b) 0 bs"

section \<open>Values\<close>

definition need_real :: "variant \<Rightarrow> double option" where
  "need_real v = (if vtype v = ty_real then Some (rval v) else None)"

text \<open>
  A value above the maximum of the signed type is cast to the unsigned type, any other
  one to the signed type.
\<close>

definition to_wrapped :: "nat \<Rightarrow> double \<Rightarrow> int option" where
  "to_wrapped w d = (if dlt (DFin (2 ^ (w - 1) - 1)) d then d_to_uint w d else d_to_sint w d)"

definition serialize_to_type :: "variant \<Rightarrow> buffer_data_t \<Rightarrow> u8 list option" where
  "serialize_to_type value ty = (case ty of
      buffer_u8 \<Rightarrow> Option.bind (need_real value) (\<lambda>d. map_option (\<lambda>n. [word_of_int n]) (to_wrapped 8 d))
    | buffer_s8 \<Rightarrow> Option.bind (need_real value) (\<lambda>d. map_option (\<lambda>n. [word_of_int n]) (to_wrapped 8 d))
    | buffer_bool \<Rightarrow> Option.bind (need_real value) (\<lambda>d. map_option (\<lambda>n. [word_of_int n]) (to_wrapped 8 d))
    | buffer_u16 \<Rightarrow> Option.bind (need_real value) (\<lambda>d. map_option (\<lambda>n. bytes16 (word_of_int n)) (to_wrapped 16 d))
    | buffer_s16 \<Rightarrow> Option.bind (need_real value) (\<lambda>d. map_option (\<lambda>n. bytes16 (word_of_int n)) (to_wrapped 16 d))
    | buffer_u32 \<Rightarrow> Option.bind (need_real value) (\<lambda>d. map_option (\<lambda>n. bytes32 (word_of_int n)) (to_wrapped 32 d))
    | buffer_s32 \<Rightarrow> Option.bind (need_real value) (\<lambda>d. map_option (\<lambda>n. bytes32 (word_of_int n)) (to_wrapped 32 d))
    | buffer_u64 \<Rightarrow> Option.bind (need_real value) (\<lambda>d. map_option (\<lambda>n. bytes64 (word_of_int n)) (d_to_sint 64 d))
    | buffer_f16 \<Rightarrow> None
    | buffer_f32 \<Rightarrow> Option.bind (need_real value) (\<lambda>d. Some (bytes32 (float_bits (to_float d))))
    | buffer_f64 \<Rightarrow> Option.bind (need_real value) (\<lambda>d. Some (bytes64 (double_bits d)))
    | buffer_string \<Rightarrow> Some (map byte_of (sval value) @ [0])
    | buffer_text \<Rightarrow> Some (map byte_of (sval value) @ [0]))"

definition need_span :: "nat \<Rightarrow> u8 list \<Rightarrow> u8 list option" where
  "need_span n bytes = (if length bytes = n then Some bytes else None)"

definition deserialize_from_type :: "u8 list \<Rightarrow> buffer_data_t \<Rightarrow> variant option" where
  "deserialize_from_type bytes ty = (case ty of
      buffer_u8 \<Rightarrow> map_option (\<lambda>bs. variant_num (d_of_int (uint (unbytes bs :: u8)))) (need_span 1 bytes)
    | buffer_s8 \<Rightarrow> map_option (\<lambda>bs. variant_num (d_of_int (sint (unbytes bs :: u8)))) (need_span 1 bytes)
    | buffer_bool \<Rightarrow> map_option (\<lambda>bs. variant_num (d_of_int (uint (unbytes bs :: u8)))) (need_span 1 bytes)
    | buffer_u16 \<Rightarrow> map_option (\<lambda>bs. variant_num (d_of_int (uint (unbytes bs :: u16)))) (need_span 2 bytes)
    | buffer_s16 \<Rightarrow> map_option (\<lambda>bs. variant_num (d_of_int (sint (unbytes bs :: u16)))) (need_span 2 bytes)
    | buffer_u32 \<Rightarrow> map_option (\<lambda>bs. variant_num (d_of_int (uint (unbytes bs :: u32)))) (need_span 4 bytes)
    | buffer_s32 \<Rightarrow> map_option (\<lambda>bs. variant_num (d_of_int (sint (unbytes bs :: u32)))) (need_span 4 bytes)
    | buffer_u64 \<Rightarrow> map_option (\<lambda>bs. variant_num (d_of_int (uint (unbytes bs :: u64)))) (need_span 8 bytes)
    | buffer_f16 \<Rightarrow> None
    | buffer_f32 \<Rightarrow> map_option (\<lambda>bs. variant_num (float_of_bits (unbytes bs))) (need_span 4 bytes)
    | buffer_f64 \<Rightarrow> map_option (\<lambda>bs. variant_num (double_of_bits (unbytes bs))) (need_span 8 bytes)
    | buffer_string \<Rightarrow> Some (variant_str (map chr_of bytes))
    | buffer_text \<Rightarrow> Some (variant_str (map chr_of bytes)))"

definition buffer_sizeof :: "buffer_data_t \<Rightarrow> nat" where
  "buffer_sizeof ty = (case ty of
      buffer_u8 \<Rightarrow> 1 | buffer_s8 \<Rightarrow> 1 | buffer_bool \<Rightarrow> 1
    | buffer_u16 \<Rightarrow> 2 | buffer_s16 \<Rightarrow> 2 | buffer_f16 \<Rightarrow> 2
    | buffer_u32 \<Rightarrow> 4 | buffer_s32 \<Rightarrow> 4 | buffer_f32 \<Rightarrow> 4
    | buffer_u64 \<Rightarrow> 8 | buffer_f64 \<Rightarrow> 8
    | buffer_string \<Rightarrow> 0 | buffer_text \<Rightarrow> 0)"

section \<open>Bytes of words\<close>

lemma bit_BYTE [simp]: "bit (BYTE (w :: 'a::len word)) n \<longleftrightarrow> n < 8 \<and> bit w n"
proof -
  have "bit (0xff :: 'a word) n \<longleftrightarrow> n < 8 \<and> n < LENGTH('a)"
    using bit_mask_iff[where 'a = "'a word", of 8 n] by (auto simp: mask_eq_exp_minus_1)
  then show ?thesis by (auto simp: BYTE_def bit_simps dest: bit_imp_le_length)
qed

lemma length_bytes [simp]: "length (bytes16 v) = 2" "length (bytes32 w) = 4" "length (bytes64 x) = 8"
  by (simp_all add: bytes16_def bytes32_def bytes64_def)

lemma bit_unbytes:
  "bit (unbytes bs :: 'a::len word) n \<longleftrightarrow> n < LENGTH('a) \<and> n div 8 < length bs \<and> bit (rev bs ! (n div 8)) (n mod 8)"
proof (induction bs arbitrary: n rule: rev_induct)
  case Nil
  then show ?case by (simp add: unbytes_def)
next
  case (snoc b bs)
  have "unbytes (bs @ [b]) = push_bit 8 (unbytes bs) OR (ucast b :: 'a word)" by (simp add: unbytes_def)
  then have "bit (unbytes (bs @ [b]) :: 'a word) n \<longleftrightarrow>
      n < LENGTH('a) \<and> (8 \<le> n \<and> bit (unbytes bs :: 'a word) (n - 8) \<or> n < 8 \<and> bit b n)"
    by (auto simp: bit_simps dest: bit_imp_le_length)
  also have "\<dots> \<longleftrightarrow> n < LENGTH('a) \<and> n div 8 < length (bs @ [b]) \<and> bit (rev (bs @ [b]) ! (n div 8)) (n mod 8)"
  proof (cases "n < 8")
    case False
    then obtain m where "n = m + 8" by (metis add.commute le_Suc_ex not_less)
    then show ?thesis by (auto simp: snoc)
  qed simp
  finally show ?case .
qed

lemma unbytes_bytes:
  "unbytes [b] = b" "unbytes (bytes16 v) = v" "unbytes (bytes32 w) = w" "unbytes (bytes64 x) = x"
proof -
  have n: "8 * (n div 8) + n mod 8 = n" for n :: nat by simp
  have two: "q < 2 \<longleftrightarrow> q = 0 \<or> q = 1" and four: "q < 4 \<longleftrightarrow> q = 0 \<or> q = 1 \<or> q = 2 \<or> q = 3"
    and eight: "q < 8 \<longleftrightarrow> q = 0 \<or> q = 1 \<or> q = 2 \<or> q = 3 \<or> q = 4 \<or> q = 5 \<or> q = 6 \<or> q = 7" for q :: nat
    by auto
  show "unbytes [b] = b" by (simp add: unbytes_def)
  have "rev (bytes16 v) ! q = BYTE (drop_bit (8 * q) v)" if "q < 2" for q
    using that by (auto simp: bytes16_def two)
  then show "unbytes (bytes16 v) = v"
    by (intro bit_word_eqI) (auto simp: bit_unbytes bit_simps n length_bytes intro: less_mult_imp_div_less)
  have "rev (bytes32 w) ! q = BYTE (drop_bit (8 * q) w)" if "q < 4" for q
    using that unfolding four by (auto simp: bytes32_def)
  then show "unbytes (bytes32 w) = w"
    by (intro bit_word_eqI) (auto simp: bit_unbytes bit_simps n length_bytes intro: less_mult_imp_div_less)
  have "rev (bytes64 x) ! q = BYTE (drop_bit (8 * q) x)" if "q < 8" for q
    using that unfolding eight by (auto simp: bytes64_def)
  then show "unbytes (bytes64 x) = x"
    by (intro bit_word_eqI) (auto simp: bit_unbytes bit_simps n length_bytes intro: less_mult_imp_div_less)
qed


section \<open>Round trips\<close>

text \<open>The integer types: width, and whether a value is read back as signed.\<close>

definition int_type :: "buffer_data_t \<Rightarrow> (nat \<times> bool) option" where
  "int_type ty = (case ty of
      buffer_u8 \<Rightarrow> Some (8, False) | buffer_s8 \<Rightarrow> Some (8, True) | buffer_bool \<Rightarrow> Some (8, False)
    | buffer_u16 \<Rightarrow> Some (16, False) | buffer_s16 \<Rightarrow> Some (16, True)
    | buffer_u32 \<Rightarrow> Some (32, False) | buffer_s32 \<Rightarrow> Some (32, True) | _ \<Rightarrow> None)"

definition wrap_int :: "nat \<Rightarrow> bool \<Rightarrow> int \<Rightarrow> int" where
  "wrap_int w sgnd n = (if sgnd then (n + 2 ^ (w - 1)) mod 2 ^ w - 2 ^ (w - 1) else n mod 2 ^ w)"

lemma d_of_int_DFin: "\<bar>n\<bar> < 2 ^ 53 \<Longrightarrow> d_of_int n = DFin (of_int n)"
proof -
  assume n: "\<bar>n\<bar> < 2 ^ 53"
  then have "\<bar>of_int n :: rat\<bar> < of_int (2 ^ 53)" by (simp only: of_int_abs[symmetric] of_int_less_iff)
  also have "(of_int (2 ^ 53) :: rat) < 2 ^ 1024" by simp
  finally show ?thesis using rnd_of_int[OF n] by (simp add: d_of_int_def dround_def dround_sgn_def Let_def not_le)
qed

lemma to_wrapped_of_int:
  assumes "- (2 ^ (w - 1)) \<le> n" and "n < 2 ^ w" and "1 \<le> w" and "w \<le> 32"
  shows "to_wrapped w (DFin (of_int n)) = Some n"
proof -
  have "(of_int (2 ^ (w - 1) - 1) :: rat) < of_int n \<longleftrightarrow> 2 ^ (w - 1) - 1 < n" by (rule of_int_less_iff)
  then have "dlt (DFin (2 ^ (w - 1) - 1)) (DFin (of_int n)) \<longleftrightarrow> 2 ^ (w - 1) - 1 < n"
    by (auto simp: dlt_def)
  moreover have "rat_trunc (of_int n) = n" by (simp add: rat_trunc_def)
  moreover have "(1::int) \<le> 2 ^ (w - 1)" by simp
  ultimately show ?thesis using assms by (auto simp: to_wrapped_def d_to_uint_def d_to_sint_def)
qed

lemma sint_word_of_int_wrap: "sint (word_of_int n :: 'a::len word) = wrap_int LENGTH('a) True n"
  by (simp add: wrap_int_def sint_uint uint_word_of_int signed_take_bit_eq_take_bit_shift take_bit_eq_mod mod_simps)

lemma int_roundtrip:
  assumes "int_type ty = Some (w, sgnd)" and "- (2 ^ (w - 1)) \<le> n" and "n < 2 ^ w"
  shows "\<exists>bs. serialize_to_type (variant_num (d_of_int n)) ty = Some bs \<and> length bs = buffer_sizeof ty \<and>
    deserialize_from_type bs ty = Some (variant_num (d_of_int (wrap_int w sgnd n)))"
proof -
  have w: "w = 8 \<or> w = 16 \<or> w = 32" using assms(1) by (auto simp: int_type_def split: buffer_data_t.splits)
  have "(2::int) ^ w \<le> 2 ^ 32" "(2::int) ^ (w - 1) \<le> 2 ^ 32" using w by (auto intro!: power_increasing)
  then have "\<bar>n\<bar> < 2 ^ 53" using assms(2,3) by simp
  then have d: "d_of_int n = DFin (of_int n)" by (rule d_of_int_DFin)
  have t: "to_wrapped w (DFin (of_int n)) = Some n"
    using w assms(2,3) by (intro to_wrapped_of_int) auto
  show ?thesis using assms(1) t
    by (cases ty) (auto simp: int_type_def serialize_to_type_def deserialize_from_type_def need_real_def need_span_def
      buffer_sizeof_def variant_num_def d unbytes_bytes sint_word_of_int_wrap uint_word_of_int wrap_int_def take_bit_eq_mod)
qed

lemma f64_roundtrip:
  "dwf d \<Longrightarrow> \<exists>bs. serialize_to_type (variant_num d) buffer_f64 = Some bs \<and> length bs = 8 \<and>
    deserialize_from_type bs buffer_f64 = Some (variant_num d)"
  by (simp add: serialize_to_type_def deserialize_from_type_def need_real_def need_span_def variant_num_def unbytes_bytes)

text \<open>The integer types and \<open>buffer_f64\<close> are codecs on the values they can represent.\<close>

definition storable :: "buffer_data_t \<Rightarrow> variant \<Rightarrow> bool" where
  "storable ty v = (case int_type ty of
      Some (w, sgnd) \<Rightarrow> (\<exists>n. v = variant_num (d_of_int n) \<and>
        (if sgnd then - (2 ^ (w - 1)) \<le> n \<and> n < 2 ^ (w - 1) else 0 \<le> n \<and> n < 2 ^ w))
    | None \<Rightarrow> ty = buffer_f64 \<and> (\<exists>d. v = variant_num d \<and> dwf d))"

lemma storable_roundtrip:
  "storable ty v \<Longrightarrow> \<exists>bs. serialize_to_type v ty = Some bs \<and> length bs = buffer_sizeof ty \<and> deserialize_from_type bs ty = Some v"
proof (cases "int_type ty")
  case None
  moreover assume "storable ty v"
  ultimately show ?thesis using f64_roundtrip by (auto simp: storable_def buffer_sizeof_def)
next
  case (Some t)
  obtain w sgnd where t: "t = (w, sgnd)" by (cases t)
  have w: "1 \<le> w" using Some t by (auto simp: int_type_def split: buffer_data_t.splits)
  assume "storable ty v"
  then obtain n where n: "v = variant_num (d_of_int n)"
    "if sgnd then - (2 ^ (w - 1)) \<le> n \<and> n < 2 ^ (w - 1) else 0 \<le> n \<and> n < 2 ^ w"
    using Some t by (auto simp: storable_def)
  have p: "(2::int) ^ w = 2 * 2 ^ (w - 1)" using w by (cases w) simp_all
  have "0 < (2::int) ^ (w - 1)" by simp
  then have r: "- (2 ^ (w - 1)) \<le> n" "n < 2 ^ w" using n(2) p by (auto split: if_splits)
  have "wrap_int w sgnd n = n" using n(2) p by (auto simp: wrap_int_def split: if_splits)
  then show ?thesis using int_roundtrip[OF Some[unfolded t] r] n(1) by simp
qed

interpretation storage: codec "\<lambda>v. serialize_to_type v ty" "\<lambda>bs. deserialize_from_type bs ty" "storable ty" for ty
  using storable_roundtrip by unfold_locales blast

text \<open>An integer is serialised to the bytes of its type and read back: values of the
  signed and of the unsigned range are accepted by both variants of a type, and the value read
  is the one written, wrapped to the range of the type it is read as.\<close>

theorem int_serialize_roundtrip:
  assumes "int_type ty = Some (w, sgnd)" and "- (2 ^ (w - 1)) \<le> n" and "n < 2 ^ w"
  shows "\<exists>bs. serialize_to_type (variant_num (d_of_int n)) ty = Some bs \<and> length bs = buffer_sizeof ty \<and>
    deserialize_from_type bs ty = Some (variant_num (d_of_int (wrap_int w sgnd n)))"
  by (rule int_roundtrip[OF assms])

theorem int_serialize_roundtrip_witness:
  "\<exists>bs. serialize_to_type (variant_num (d_of_int 40000)) buffer_s16 = Some bs \<and> length bs = buffer_sizeof buffer_s16 \<and>
    deserialize_from_type bs buffer_s16 = Some (variant_num (d_of_int (- 25536)))"
  using int_serialize_roundtrip[of buffer_s16 16 True 40000] by (simp add: int_type_def wrap_int_def)

text \<open>A double is read back from its eight bytes unchanged, NaNs and signed zeros included.\<close>

theorem f64_serialize_roundtrip:
  assumes "dwf d"
  shows "Option.bind (serialize_to_type (variant_num d) buffer_f64) (\<lambda>bs. deserialize_from_type bs buffer_f64) =
    Some (variant_num d)"
  by (rule storage.dec_bind_enc) (use assms in \<open>auto simp: storable_def int_type_def\<close>)

theorem f64_serialize_roundtrip_witness:
  "Option.bind (serialize_to_type (variant_num DNegZero) buffer_f64) (\<lambda>bs. deserialize_from_type bs buffer_f64) =
    Some (variant_num DNegZero)"
  by (rule f64_serialize_roundtrip) simp

end
