(* ===== verification/AssetArray.thy ===== *)
theory AssetArray
  imports Prelude
begin

text \<open>
  \<open>Universal_System/Resources/AssetArray.h\<close> with \<open>LEFT = 0\<close>: a vector of asset slots,
  \<open>None\<close> where \<open>isDestroyed\<close>.  Built without \<open>DEBUG_MODE\<close>: \<open>CHECK_ID\<close> is empty, so an
  index outside the vector is undefined.  \<open>slots\<close> is the contract a client of the
  array relies on for its handles, which unlike the counters of the data structures
  are reused.
\<close>

type_synonym 'a assets = "'a option list"

definition assets_exists :: "int \<Rightarrow> 'a assets \<Rightarrow> bool" where
  "assets_exists k as = (0 \<le> k \<and> nat k < length as \<and> as ! nat k \<noteq> None)"

text \<open>\<open>return (int)id\<close> narrows to 32 bits.\<close>

definition assets_add :: "'a option \<Rightarrow> 'a assets \<Rightarrow> 'a assets \<times> int" where
  "assets_add a as = (as @ [a], sint (word_of_nat (length as) :: u32))"

definition assets_resize :: "nat \<Rightarrow> 'a assets \<Rightarrow> 'a assets" where
  "assets_resize n as = take n as @ replicate (n - length as) None"

text \<open>A negative id reaches \<open>assets_[id]\<close>, and its conversion to \<open>size_t\<close> exceeds any vector.\<close>

definition assets_assign :: "int \<Rightarrow> 'a option \<Rightarrow> 'a assets \<Rightarrow> ('a assets \<times> int) option" where
  "assets_assign k a as = (if k < 0 then None else
     let as1 = if assets_exists k as then as[nat k := None]
       else if length as \<le> nat k then assets_resize (nat k + 1) as else as in
     map_option (\<lambda>as2. (as2, k)) (arr_set as1 (nat k) a))"

definition assets_get :: "int \<Rightarrow> 'a assets \<Rightarrow> 'a option option" where
  "assets_get k as = (if k < 0 then None else arr_get as (nat k))"

definition assets_replace :: "int \<Rightarrow> 'a option \<Rightarrow> 'a assets \<Rightarrow> ('a assets \<times> int) option" where
  "assets_replace k a as = (if k < 0 then None else map_option (\<lambda>as2. (as2, k)) (arr_set as (nat k) a))"

definition assets_duplicate :: "int \<Rightarrow> 'a assets \<Rightarrow> ('a assets \<times> int) option" where
  "assets_duplicate k as = (if k < 0 then None else map_option (\<lambda>a. assets_add a as) (arr_get as (nat k)))"

definition assets_destroy :: "int \<Rightarrow> 'a assets \<Rightarrow> 'a assets option" where
  "assets_destroy k as = (if k < 0 then None else arr_set as (nat k) None)"

section \<open>Slots\<close>

text \<open>
  What an allocator of slots promises: with a valid request (\<open>ok\<close>) the handle was free, it
  holds the initial asset of the request, and no other slot changes.
\<close>

locale slots =
  fixes slot :: "'s \<Rightarrow> int \<Rightarrow> 'a option"
    and ok :: "'c \<Rightarrow> 's \<Rightarrow> bool"
    and init :: "'c \<Rightarrow> 'a"
    and create :: "'c \<Rightarrow> 's \<Rightarrow> ('s \<times> int) option"
    and delete :: "int \<Rightarrow> 's \<Rightarrow> 's option"
  assumes create_slot: "ok c s \<Longrightarrow> \<exists>s' h. create c s = Some (s', h) \<and> slot s h = None \<and> slot s' = (slot s)(h \<mapsto> init c)"
    and delete_slot: "slot s h \<noteq> None \<Longrightarrow> \<exists>s'. delete h s = Some s' \<and> slot s' = (slot s)(h := None)"
begin

lemma create_fresh:
  "ok c s \<Longrightarrow> create c s = Some (s', h) \<Longrightarrow> slot s h = None \<and> slot s' h = Some (init c) \<and> (\<forall>k. k \<noteq> h \<longrightarrow> slot s' k = slot s k)"
  using create_slot[of c s] by auto

lemma create_keeps: "ok c s \<Longrightarrow> create c s = Some (s', h) \<Longrightarrow> slot s k = Some b \<Longrightarrow> slot s' k = Some b \<and> k \<noteq> h"
  using create_fresh[of c s s' h] by (cases "k = h") auto

lemma delete_frees: "slot s h = Some a \<Longrightarrow> delete h s = Some s' \<Longrightarrow> slot s' h = None \<and> (\<forall>k. k \<noteq> h \<longrightarrow> slot s' k = slot s k)"
  using delete_slot[of s h] by auto

lemma create_delete: "ok c s \<Longrightarrow> create c s = Some (s', h) \<Longrightarrow> \<exists>s''. delete h s' = Some s'' \<and> slot s'' = slot s"
  using create_slot[of c s] delete_slot[of s' h] by (auto simp: fun_eq_iff)

end

definition assets_at :: "'a assets \<Rightarrow> int \<Rightarrow> 'a option" where
  "assets_at as k = (if 0 \<le> k \<and> nat k < length as then as ! nat k else None)"

lemma assets_at_exists: "assets_exists k as \<longleftrightarrow> assets_at as k \<noteq> None"
  by (auto simp: assets_exists_def assets_at_def)

lemma assets_at_set: "nat k < length as \<Longrightarrow> 0 \<le> k \<Longrightarrow> assets_at (as[nat k := a]) = (assets_at as)(k := a)"
  by (auto simp: assets_at_def fun_eq_iff nth_list_update nat_eq_iff)

lemma assets_at_snoc: "assets_at (as @ [a]) = (assets_at as)(int (length as) := a)"
  by (auto simp: assets_at_def fun_eq_iff nth_append)

lemma sint_length: "n < 2 ^ 31 \<Longrightarrow> sint (word_of_nat n :: u32) = int n"
proof -
  assume "n < 2 ^ 31"
  then have "int n < 2 ^ 31" by (simp add: nat_less_numeral_power_cancel_iff)
  then have "uint (word_of_nat n :: u32) = int n" by (simp add: uint_nat unat_of_nat take_bit_nat_eq_self nat_less_numeral_power_cancel_iff)
  then show ?thesis using sint_small[of "word_of_nat n"] \<open>int n < 2 ^ 31\<close> by simp
qed

lemma assets_destroy_at: "assets_at as k \<noteq> None \<Longrightarrow> \<exists>as'. assets_destroy k as = Some as' \<and> assets_at as' = (assets_at as)(k := None)"
  by (auto simp: assets_destroy_def assets_at_set assets_at_def[of as k] split: if_splits)

text \<open>The array as an allocator: \<open>add\<close> always takes the next index.\<close>

interpretation asset_slots: slots assets_at "\<lambda>(a :: 'a) as. length as < 2 ^ 31" "\<lambda>a. a"
  "\<lambda>a as. Some (assets_add (Some a) as)" assets_destroy
proof
  fix a :: 'a and as :: "'a assets"
  assume "length as < 2 ^ 31"
  then show "\<exists>as' h. Some (assets_add (Some a) as) = Some (as', h) \<and> assets_at as h = None \<and> assets_at as' = (assets_at as)(h \<mapsto> a)"
    by (simp add: assets_add_def sint_length assets_at_snoc) (simp add: assets_at_def)
qed (rule assets_destroy_at)

end
