(* ===== verification/Buffers.thy ===== *)
theory Buffers
  imports BufferData Base64 AssetArray
begin

text \<open>
  The binary buffers of the scripting language: \<open>BinaryBuffer\<close>
  (\<open>Universal_System/buffers_internal.cpp\<close>) and the functions of
  \<open>Universal_System/bufferstruct.cpp\<close> that create, resize, seek, fill, copy, read and write
  them.  The state is the global \<open>AssetArray\<close> of buffers.

  Sizes, offsets and positions are \<open>size_t\<close>: naturals below \<open>2 ^ 64\<close>, with the additions of
  the code reduced (\<open>zadd\<close>).  A vector holds fewer than \<open>2 ^ 63\<close> bytes.  The functions are those
  of a build without \<open>DEBUG_MODE\<close>, in which \<open>GET_BUFFER\<close> does not check its handle.  A loop that
  may not end is a \<open>partial_function\<close>, with \<open>None\<close> for its divergence.
\<close>

datatype buffer_type_t = buffer_fixed | buffer_grow | buffer_wrap | buffer_fast

datatype buffer_seek_t = buffer_seek_start | buffer_seek_relative | buffer_seek_end

record bbuf =
  bdata :: "u8 list"
  position :: nat
  alignment :: nat
  btype :: buffer_type_t

section \<open>\<open>size_t\<close>, \<open>long long\<close> and vectors\<close>

definition to_ll :: "int \<Rightarrow> int" where
  "to_ll n = (n + 2 ^ 63) mod 2 ^ 64 - 2 ^ 63"

text \<open>\<open>a % b\<close> and \<open>a / b\<close> on \<open>size_t\<close>: dividing by zero is undefined.\<close>

definition zmod :: "nat \<Rightarrow> nat \<Rightarrow> nat option" where
  "zmod a b = (if b = 0 then None else Some (a mod b))"

definition vec_resize :: "nat \<Rightarrow> u8 list \<Rightarrow> u8 list option" where
  "vec_resize n d = (if n < 2 ^ 63 then Some (take n d @ replicate (n - length d) 0) else None)"

text \<open>\<open>std::copy(src + a, src + b, dst + off)\<close>: the iterators must stay in their vectors.\<close>

definition copy_range :: "'a list \<Rightarrow> int \<Rightarrow> int \<Rightarrow> 'a list \<Rightarrow> nat \<Rightarrow> 'a list option" where
  "copy_range src a b dst off = (if 0 \<le> a \<and> a \<le> b \<and> b \<le> int (length src) \<and> off + nat (b - a) \<le> length dst
     then Some (take off dst @ take (nat (b - a)) (drop (nat a) src) @ drop (off + nat (b - a)) dst) else None)"

section \<open>\<open>BinaryBuffer\<close>\<close>

definition BinaryBuffer_new :: "nat \<Rightarrow> bbuf option" where
  "BinaryBuffer_new n = map_option (\<lambda>d. \<lparr>bdata = d, position = 0, alignment = 1, btype = buffer_fixed\<rparr>) (vec_resize n [])"

definition GetSize :: "bbuf \<Rightarrow> nat" where
  "GetSize b = length (bdata b)"

definition Resize :: "nat \<Rightarrow> bbuf \<Rightarrow> bbuf option" where
  "Resize n b = map_option (\<lambda>d. b\<lparr>bdata := d\<rparr>) (vec_resize n (bdata b))"

definition Seek :: "int \<Rightarrow> bbuf \<Rightarrow> bbuf option" where
  "Seek off b = (if off < 0 then Some (b\<lparr>position := 0\<rparr>) else
     case btype b of
       buffer_grow \<Rightarrow> (let b1 = b\<lparr>position := nat off\<rparr> in
         if GetSize b1 \<le> nat off then Resize (nat off + 1) b1 else Some b1)
     | buffer_wrap \<Rightarrow> map_option (\<lambda>p. b\<lparr>position := p\<rparr>) (zmod (nat off) (GetSize b))
     | buffer_fixed \<Rightarrow> Some (b\<lparr>position := min (nat off) (zsub (GetSize b) 1)\<rparr>)
     | buffer_fast \<Rightarrow> Some (b\<lparr>position := min (nat off) (zsub (GetSize b) 1)\<rparr>))"

definition ReadByte :: "bbuf \<Rightarrow> (bbuf \<times> u8) option" where
  "ReadByte b = do {
     b1 \<leftarrow> Seek (to_ll (int (position b))) b;
     byte \<leftarrow> arr_get (bdata b1) (position b1);
     b2 \<leftarrow> Seek (to_ll (int (zadd (position b1) 1))) b1;
     Some (b2, byte) }"

definition WriteByte :: "u8 \<Rightarrow> bbuf \<Rightarrow> bbuf option" where
  "WriteByte byte b = do {
     b1 \<leftarrow> Seek (to_ll (int (position b))) b;
     d \<leftarrow> arr_set (bdata b1) (position b1) byte;
     Seek (to_ll (int (zadd (position b1) 1))) (b1\<lparr>bdata := d\<rparr>) }"

section \<open>Writing a run of bytes\<close>

definition write_to_buffer :: "bbuf \<Rightarrow> u8 list \<Rightarrow> nat \<Rightarrow> bbuf option" where
  "write_to_buffer b dat offset = (let n = int (length dat); size = GetSize b in
     case btype b of
       buffer_wrap \<Rightarrow> do {
         off \<leftarrow> (if size \<le> offset then zmod offset size else Some offset);
         if size < zadd (length dat) off then
           if size < length dat then do {
             let first = n - int size;
             d \<leftarrow> copy_range dat first (n - int off) (bdata b) off;
             d \<leftarrow> copy_range dat (n - int off) n d 0;
             Some (b\<lparr>bdata := d\<rparr>) }
           else do {
             let extra = int (zsub (zadd (length dat) off) size);
             d \<leftarrow> copy_range dat 0 (n - extra) (bdata b) off;
             d \<leftarrow> copy_range dat (n - extra) n d 0;
             Some (b\<lparr>bdata := d\<rparr>) }
         else do {
           d \<leftarrow> copy_range dat 0 n (bdata b) off;
           Some (b\<lparr>bdata := d\<rparr>) } }
     | buffer_grow \<Rightarrow> do {
         b1 \<leftarrow> (if size < zadd (length dat) offset then Resize (zadd (length dat) offset) b else Some b);
         d \<leftarrow> copy_range dat 0 n (bdata b1) offset;
         Some (b1\<lparr>bdata := d\<rparr>) }
     | _ \<Rightarrow> if size \<le> offset then Some b else do {
         let over = (if size < zadd (length dat) offset then int (zsub (zadd (length dat) offset) size) else 0);
         d \<leftarrow> copy_range dat 0 (n - over) (bdata b) offset;
         Some (b\<lparr>bdata := d\<rparr>) })"

section \<open>The table of buffers\<close>

type_synonym buffers = "bbuf assets"

definition get_free_buffer :: "buffers \<Rightarrow> nat" where
  "get_free_buffer bs = length (takeWhile (\<lambda>s. s \<noteq> None) bs)"

text \<open>\<open>GET_BUFFER\<close>: a null pointer or an element past the vector is undefined when used.\<close>

definition get_buffer :: "int \<Rightarrow> buffers \<Rightarrow> bbuf option" where
  "get_buffer k bs = (if k < 0 then None else Option.bind (arr_get bs (nat k)) (\<lambda>s. s))"

definition put_buffer :: "int \<Rightarrow> bbuf \<Rightarrow> buffers \<Rightarrow> buffers" where
  "put_buffer k b bs = bs[nat k := Some b]"

definition upd_buffer :: "int \<Rightarrow> (bbuf \<Rightarrow> bbuf option) \<Rightarrow> buffers \<Rightarrow> buffers option" where
  "upd_buffer k f bs = do { b \<leftarrow> get_buffer k bs; b1 \<leftarrow> f b; Some (put_buffer k b1 bs) }"

definition make_new_buffer :: "nat \<Rightarrow> buffer_type_t \<Rightarrow> nat \<Rightarrow> buffers \<Rightarrow> (buffers \<times> int) option" where
  "make_new_buffer bytesz ty al bs = do {
     d \<leftarrow> vec_resize bytesz [];
     let b = \<lparr>bdata = d, position = 0, alignment = al, btype = ty\<rparr>;
     let k = get_free_buffer bs;
     (if k = length bs then Some (assets_add (Some b) bs)
      else map_option (\<lambda>r. (fst r, int k)) (assets_assign (int k) (Some b) bs)) }"

definition buffer_create :: "nat \<Rightarrow> buffer_type_t \<Rightarrow> nat \<Rightarrow> buffers \<Rightarrow> (buffers \<times> int) option" where
  "buffer_create = make_new_buffer"

definition buffer_delete :: "int \<Rightarrow> buffers \<Rightarrow> buffers option" where
  "buffer_delete = assets_destroy"

definition buffer_exists :: "int \<Rightarrow> buffers \<Rightarrow> bool" where
  "buffer_exists k bs = (0 \<le> k \<and> nat k < length bs \<and> bs ! nat k \<noteq> None)"

definition buffer_get_size :: "int \<Rightarrow> buffers \<Rightarrow> nat option" where
  "buffer_get_size k bs = map_option GetSize (get_buffer k bs)"

definition buffer_get_alignment :: "int \<Rightarrow> buffers \<Rightarrow> nat option" where
  "buffer_get_alignment k bs = map_option alignment (get_buffer k bs)"

definition buffer_get_type :: "int \<Rightarrow> buffers \<Rightarrow> buffer_type_t option" where
  "buffer_get_type k bs = map_option btype (get_buffer k bs)"

definition buffer_tell :: "int \<Rightarrow> buffers \<Rightarrow> nat option" where
  "buffer_tell k bs = map_option position (get_buffer k bs)"

definition buffer_resize :: "int \<Rightarrow> nat \<Rightarrow> buffers \<Rightarrow> buffers option" where
  "buffer_resize k bytesz = upd_buffer k (Resize bytesz)"

text \<open>The unsigned sums of \<open>buffer_seek\<close> are converted to the \<open>long long\<close> of \<open>Seek\<close>.\<close>

definition buffer_seek :: "int \<Rightarrow> buffer_seek_t \<Rightarrow> int \<Rightarrow> buffers \<Rightarrow> buffers option" where
  "buffer_seek k base offset = upd_buffer k (\<lambda>b. case base of
      buffer_seek_start \<Rightarrow> Seek offset b
    | buffer_seek_end \<Rightarrow> Seek (to_ll (int (GetSize b) - 1 + offset)) b
    | buffer_seek_relative \<Rightarrow> Seek (to_ll (int (position b) + offset)) b)"

section \<open>Reading and writing values\<close>

definition is_text :: "buffer_data_t \<Rightarrow> bool" where
  "is_text ty = (ty = buffer_string \<or> ty = buffer_text)"

partial_function (option) peek_string :: "bbuf \<Rightarrow> nat \<Rightarrow> string \<Rightarrow> string option" where
  "peek_string b pos acc = (if pos < GetSize b \<and> bdata b ! pos \<noteq> 0
     then peek_string b (if btype b = buffer_wrap then zadd pos 1 mod GetSize b else zadd pos 1) (acc @ [chr_of (bdata b ! pos)])
     else Some acc)"

definition peek :: "bbuf \<Rightarrow> nat \<Rightarrow> buffer_data_t \<Rightarrow> variant option" where
  "peek b offset ty = (if is_text ty then map_option variant_str (peek_string b offset [])
     else if offset + buffer_sizeof ty \<le> GetSize b
       then deserialize_from_type (take (buffer_sizeof ty) (drop offset (bdata b))) ty else None)"

definition buffer_peek :: "int \<Rightarrow> nat \<Rightarrow> buffer_data_t \<Rightarrow> buffers \<Rightarrow> variant option" where
  "buffer_peek k offset ty bs = Option.bind (get_buffer k bs) (\<lambda>b. peek b offset ty)"

text \<open>The alignment loops of \<open>buffer_read\<close> and \<open>buffer_write\<close>, and the loop that skips a string.\<close>

partial_function (option) skip_padding :: "bbuf \<Rightarrow> bbuf option" where
  "skip_padding b = Option.bind (zmod (position b) (alignment b)) (\<lambda>m. if m = 0 then Some b else
     Option.bind (ReadByte b) (\<lambda>r. if snd r \<noteq> 0 then None else skip_padding (fst r)))"

partial_function (option) write_padding :: "bbuf \<Rightarrow> bbuf option" where
  "write_padding b = Option.bind (zmod (position b) (alignment b)) (\<lambda>m. if m = 0 then Some b else
     Option.bind (WriteByte 0 b) write_padding)"

partial_function (option) skip_string :: "bbuf \<Rightarrow> bbuf option" where
  "skip_string b = (if position b < GetSize b \<and> bdata b ! position b \<noteq> 0
     then Option.bind (ReadByte b) (\<lambda>r. skip_string (fst r)) else Some b)"

definition advance :: "buffer_data_t \<Rightarrow> bbuf \<Rightarrow> bbuf option" where
  "advance ty b = (if is_text ty then do { b1 \<leftarrow> skip_string b; r \<leftarrow> ReadByte b1; Some (fst r) }
     else Seek (to_ll (int (zadd (position b) (buffer_sizeof ty)))) b)"

definition buffer_read :: "int \<Rightarrow> buffer_data_t \<Rightarrow> buffers \<Rightarrow> (buffers \<times> variant) option" where
  "buffer_read k ty bs = do {
     b \<leftarrow> get_buffer k bs;
     b1 \<leftarrow> skip_padding b;
     v \<leftarrow> peek b1 (position b1) ty;
     b2 \<leftarrow> advance ty b1;
     Some (put_buffer k b2 bs, v) }"

definition buffer_poke :: "int \<Rightarrow> nat \<Rightarrow> buffer_data_t \<Rightarrow> variant \<Rightarrow> bool \<Rightarrow> buffers \<Rightarrow> buffers option" where
  "buffer_poke k offset ty value resize = upd_buffer k (\<lambda>b. do {
     dat \<leftarrow> serialize_to_type value ty;
     (if GetSize b < zadd (length dat) offset \<and>
         (\<not> resize \<and> btype b = buffer_grow \<or> btype b = buffer_fixed \<or> btype b = buffer_fast)
      then Some b else write_to_buffer b dat offset) })"

definition buffer_write :: "int \<Rightarrow> buffer_data_t \<Rightarrow> variant \<Rightarrow> buffers \<Rightarrow> buffers option" where
  "buffer_write k ty value = upd_buffer k (\<lambda>b. do {
     b1 \<leftarrow> write_padding b;
     dat \<leftarrow> serialize_to_type value ty;
     b2 \<leftarrow> write_to_buffer b1 dat (position b1);
     advance ty b2 })"

section \<open>Filling and copying\<close>

text \<open>\<open>while (offset % alignment != 0 && offset < GetSize()) { WriteByte(0); offset++; }\<close>\<close>

partial_function (option) fill_padding :: "bbuf \<Rightarrow> nat \<Rightarrow> (bbuf \<times> nat) option" where
  "fill_padding b offset = Option.bind (zmod offset (alignment b)) (\<lambda>m.
     if m \<noteq> 0 \<and> offset < GetSize b then Option.bind (WriteByte 0 b) (\<lambda>b1. fill_padding b1 (zadd offset 1))
     else Some (b, offset))"

definition copy_all :: "u8 list \<Rightarrow> bbuf \<Rightarrow> nat \<Rightarrow> bbuf option" where
  "copy_all src b off = map_option (\<lambda>d. b\<lparr>bdata := d\<rparr>) (copy_range src 0 (int (length src)) (bdata b) off)"

definition fill_elements :: "u8 list \<Rightarrow> nat \<Rightarrow> nat \<Rightarrow> nat \<Rightarrow> bbuf \<Rightarrow> bbuf option" where
  "fill_elements bytes padding offset bytesz b0 = do {
     let element_size = zadd (length bytes) padding;
     remainder \<leftarrow> zmod bytesz element_size;
     let times = bytesz div element_size;
     b1 \<leftarrow> for_each [0..<times] (\<lambda>i b. do {
       b1 \<leftarrow> copy_all bytes b (offset + i * element_size);
       copy_all (replicate padding 0) b1 (offset + i * element_size + length bytes) }) b0;
     (if remainder \<noteq> 0 \<and> length bytes \<le> remainder then do {
        b2 \<leftarrow> copy_all bytes b1 (offset + times * element_size);
        (if padding \<le> remainder - length bytes then copy_all bytes b2 (offset + times * element_size + length bytes) else Some b2) }
      else Some b1) }"

definition buffer_fill :: "int \<Rightarrow> nat \<Rightarrow> buffer_data_t \<Rightarrow> variant \<Rightarrow> nat \<Rightarrow> buffers \<Rightarrow> buffers option" where
  "buffer_fill k offset ty value bytesz = upd_buffer k (\<lambda>b. do {
     (b1, off) \<leftarrow> fill_padding b offset;
     let sz = (if GetSize b1 < zadd off bytesz then zsub (GetSize b1) off else bytesz);
     bytes \<leftarrow> serialize_to_type value ty;
     m \<leftarrow> zmod (length bytes) (alignment b1);
     let padding = (if m \<noteq> 0 then alignment b1 - m else 0);
     b2 \<leftarrow> fill_elements bytes padding off sz b1;
     Seek 0 b2 })"

text \<open>
  \<open>srcbuff\<close> and \<open>dstbuff\<close> may be the same buffer: each iteration reads the source and the
  sizes from the table as the previous ones left it.
\<close>

definition copy_byte :: "int \<Rightarrow> int \<Rightarrow> (nat \<Rightarrow> nat) \<Rightarrow> (nat \<Rightarrow> nat) \<Rightarrow> nat \<Rightarrow> buffers \<Rightarrow> buffers option" where
  "copy_byte source dest from into i bs = do {
     s \<leftarrow> get_buffer source bs;
     v \<leftarrow> arr_get (bdata s) (from i);
     b \<leftarrow> get_buffer dest bs;
     d \<leftarrow> arr_set (bdata b) (into i) v;
     Some (put_buffer dest (b\<lparr>bdata := d\<rparr>) bs) }"

definition copy_offset :: "bbuf \<Rightarrow> nat \<Rightarrow> nat option option" where
  "copy_offset b off = (if off < GetSize b then Some (Some off)
     else if btype b = buffer_wrap then map_option Some (zmod off (GetSize b)) else Some None)"

definition buffer_copy :: "int \<Rightarrow> nat \<Rightarrow> nat \<Rightarrow> int \<Rightarrow> nat \<Rightarrow> buffers \<Rightarrow> buffers option" where
  "buffer_copy source src_offset bytesz dest dest_offset bs = do {
     s \<leftarrow> get_buffer source bs;
     d \<leftarrow> get_buffer dest bs;
     so \<leftarrow> copy_offset s src_offset;
     (case so of None \<Rightarrow> Some bs | Some src_off \<Rightarrow> do {
       do' \<leftarrow> copy_offset d dest_offset;
       (case do' of None \<Rightarrow> Some bs | Some dest_off \<Rightarrow> do {
         let written = (if btype s = buffer_wrap then bytesz else min (zsub (GetSize s) src_off) bytesz);
         let written_bytes = (if (btype d = buffer_fixed \<or> btype d = buffer_fast) \<and> GetSize d < zadd dest_off written
               then zsub (GetSize d) dest_off else written);
         bs1 \<leftarrow> (if btype d = buffer_grow \<and> GetSize d \<le> zadd dest_off written_bytes
           then upd_buffer dest (Resize (zadd (zadd dest_off written_bytes) 1)) bs else Some bs);
         s1 \<leftarrow> get_buffer source bs1;
         d1 \<leftarrow> get_buffer dest bs1;
         let wrapped = (btype s1 = buffer_wrap \<and> GetSize s1 \<le> zadd src_off written_bytes);
         for_each [0..<bytesz] (copy_byte source dest
           (\<lambda>i. if wrapped then zadd i src_off mod GetSize s1 else zadd i src_off)
           (\<lambda>i. if btype d1 = buffer_wrap then zadd i dest_off mod GetSize d1 else zadd i dest_off)) bs1 }) }) }"

section \<open>Base64\<close>

definition buffer_base64_decode :: "string \<Rightarrow> buffers \<Rightarrow> (buffers \<times> int) option" where
  "buffer_base64_decode str bs = do {
     (bs1, k) \<leftarrow> make_new_buffer 0 buffer_grow 1 bs;
     decoded \<leftarrow> internal_buffer_base64_decode str;
     bs2 \<leftarrow> upd_buffer k (\<lambda>b. do {
       d \<leftarrow> vec_resize (zadd (length decoded) 1) (bdata b);
       copy_all decoded (b\<lparr>bdata := d\<rparr>) 0 }) bs1;
     Some (bs2, k) }"

definition buffer_base64_decode_ext :: "int \<Rightarrow> string \<Rightarrow> nat \<Rightarrow> buffers \<Rightarrow> buffers option" where
  "buffer_base64_decode_ext k str offset = upd_buffer k (\<lambda>b. do {
     decoded \<leftarrow> internal_buffer_base64_decode str;
     (case btype b of
       buffer_grow \<Rightarrow> do {
         b1 \<leftarrow> (if GetSize b \<le> zadd offset (length decoded) then Resize (zadd (zadd offset (length decoded)) 1) b else Some b);
         copy_all decoded b1 offset }
     | buffer_wrap \<Rightarrow> do {
         b1 \<leftarrow> Seek (to_ll (int offset)) b;
         for_each decoded WriteByte b1 }
     | _ \<Rightarrow> if GetSize b \<le> offset then Some b else do {
         let written = (if GetSize b \<le> zadd offset (length decoded) then zsub (GetSize b) offset else length decoded);
         d \<leftarrow> copy_range decoded 0 (int written) (bdata b) offset;
         Some (b\<lparr>bdata := d\<rparr>) }) })"

definition buffer_base64_encode :: "int \<Rightarrow> nat \<Rightarrow> nat \<Rightarrow> buffers \<Rightarrow> string option" where
  "buffer_base64_encode k offset bytesz bs = do {
     b \<leftarrow> get_buffer k bs;
     (if GetSize b \<le> offset then base64_encode []
      else do {
        let sz = (if GetSize b < zadd offset bytesz then min (GetSize b - offset) bytesz else bytesz);
        (if offset + sz \<le> GetSize b then internal_buffer_base64_encode (take sz (drop offset (bdata b))) else None) }) }"

section \<open>Vectors and the table\<close>

lemma to_ll_small [simp]: "- (2 ^ 63) \<le> n \<Longrightarrow> n < 2 ^ 63 \<Longrightarrow> to_ll n = n"
  by (simp add: to_ll_def)

lemma to_ll_int [simp]: "n < 2 ^ 63 \<Longrightarrow> to_ll (int n) = int n"
  by (rule to_ll_small) (auto simp: nat_less_numeral_power_cancel_iff)

lemma vec_resize_Some [simp]: "n < 2 ^ 63 \<Longrightarrow> vec_resize n d = Some (take n d @ replicate (n - length d) 0)"
  by (simp add: vec_resize_def)

text \<open>\<open>overlay\<close>: a run of bytes in the place of as many others.\<close>

definition overlay :: "'a list \<Rightarrow> nat \<Rightarrow> 'a list \<Rightarrow> 'a list" where
  "overlay xs off d = take off d @ xs @ drop (off + length xs) d"

lemma length_overlay [simp]: "off + length xs \<le> length d \<Longrightarrow> length (overlay xs off d) = length d"
  by (simp add: overlay_def)

lemma nth_overlay:
  "off + length xs \<le> length d \<Longrightarrow> j < length d \<Longrightarrow>
    overlay xs off d ! j = (if off \<le> j \<and> j < off + length xs then xs ! (j - off) else d ! j)"
  by (auto simp: overlay_def nth_append min_def)

lemma take_drop_overlay [simp]:
  "off + length xs \<le> length d \<Longrightarrow> n = length xs \<Longrightarrow> take n (drop off (overlay xs off d)) = xs"
  by (simp add: overlay_def)

lemma copy_range_overlay:
  assumes "0 \<le> a" and "a \<le> b" and "b \<le> int (length src)" and "off + nat (b - a) \<le> length dst"
  shows "copy_range src a b dst off = Some (overlay (take (nat (b - a)) (drop (nat a) src)) off dst)"
proof -
  have "length (take (nat (b - a)) (drop (nat a) src)) = nat (b - a)" using assms by simp
  then show ?thesis using assms by (simp add: copy_range_def overlay_def)
qed

lemma copy_range_all: "off + length src \<le> length dst \<Longrightarrow> copy_range src 0 (int (length src)) dst off = Some (overlay src off dst)"
  by (simp add: copy_range_overlay)

lemma get_buffer_at: "get_buffer k bs = assets_at bs k"
  by (auto simp: get_buffer_def assets_at_def arr_get_def)

lemma get_buffer_Some: "get_buffer k bs = Some b \<longleftrightarrow> 0 \<le> k \<and> nat k < length bs \<and> bs ! nat k = Some b"
  by (auto simp: get_buffer_at assets_at_def)

lemma get_put [simp]: "get_buffer k bs = Some b \<Longrightarrow> get_buffer j (put_buffer k c bs) = (if j = k then Some c else get_buffer j bs)"
  by (auto simp: put_buffer_def get_buffer_at assets_at_set assets_at_def[of bs k] split: if_splits)

lemma put_put [simp]: "put_buffer k c (put_buffer k b bs) = put_buffer k c bs"
  by (simp add: put_buffer_def)

lemma upd_buffer_Some: "get_buffer k bs = Some b \<Longrightarrow> upd_buffer k f bs = map_option (\<lambda>c. put_buffer k c bs) (f b)"
  by (cases "f b") (simp_all add: upd_buffer_def)

section \<open>Handles\<close>

lemma create_slot:
  assumes "length bs < 2 ^ 31" and "n < 2 ^ 63"
  shows "\<exists>bs' k. make_new_buffer n ty al bs = Some (bs', k) \<and> get_buffer k bs = None \<and>
    get_buffer k bs' = Some \<lparr>bdata = replicate n 0, position = 0, alignment = al, btype = ty\<rparr> \<and>
    (\<forall>j. j \<noteq> k \<longrightarrow> get_buffer j bs' = get_buffer j bs) \<and>
    k = int (get_free_buffer bs)"
proof -
  let ?b = "\<lparr>bdata = replicate n 0, position = 0, alignment = al, btype = ty\<rparr>" and ?k = "get_free_buffer bs"
  have le: "?k \<le> length bs" by (simp add: get_free_buffer_def length_takeWhile_le)
  show ?thesis
  proof (cases "?k = length bs")
    case True
    then show ?thesis using assms
      by (simp add: make_new_buffer_def Let_def assets_add_def get_buffer_at assets_at_snoc sint_length)
         (simp add: assets_at_def)
  next
    case False
    then have lt: "?k < length bs" using le by simp
    then have "bs ! ?k = None"
      unfolding get_free_buffer_def by (metis (mono_tags, lifting) nth_length_takeWhile)
    then show ?thesis using False lt assms(2)
      by (simp add: make_new_buffer_def Let_def assets_assign_def assets_exists_def get_buffer_at assets_at_set[of "int ?k", simplified])
         (simp add: assets_at_def)
  qed
qed

text \<open>\<open>buffer_create\<close> takes the lowest free slot.\<close>

definition new_buffer :: "nat \<times> buffer_type_t \<times> nat \<Rightarrow> bbuf" where
  "new_buffer r = (case r of (n, ty, al) \<Rightarrow> \<lparr>bdata = replicate n 0, position = 0, alignment = al, btype = ty\<rparr>)"

interpretation buffer_slots: slots "\<lambda>bs k. get_buffer k bs" "\<lambda>(n, ty, al) bs. n < 2 ^ 63 \<and> length bs < 2 ^ 31" new_buffer
  "\<lambda>(n, ty, al) bs. buffer_create n ty al bs" buffer_delete
proof
  fix c :: "nat \<times> buffer_type_t \<times> nat" and bs :: buffers
  obtain n ty al where c: "c = (n, ty, al)" by (cases c) auto
  assume "(case c of (n, ty, al) \<Rightarrow> \<lambda>bs. n < 2 ^ 63 \<and> length bs < 2 ^ 31) bs"
  then show "\<exists>bs' h. (case c of (n, ty, al) \<Rightarrow> buffer_create n ty al) bs = Some (bs', h) \<and> get_buffer h bs = None \<and>
      (\<lambda>k. get_buffer k bs') = (\<lambda>k. get_buffer k bs)(h \<mapsto> new_buffer c)"
    using create_slot[of bs n ty al] c by (fastforce simp: buffer_create_def new_buffer_def fun_eq_iff)
next
  fix bs :: buffers and h assume "get_buffer h bs \<noteq> None"
  then show "\<exists>bs'. buffer_delete h bs = Some bs' \<and> (\<lambda>k. get_buffer k bs') = (\<lambda>k. get_buffer k bs)(h := None)"
    using assets_destroy_at[of bs h] by (auto simp: buffer_delete_def get_buffer_at fun_eq_iff)
qed

lemma buffer_exists_get: "buffer_exists k bs \<longleftrightarrow> get_buffer k bs \<noteq> None"
  by (auto simp: buffer_exists_def get_buffer_at assets_at_def)

section \<open>Positions\<close>

text \<open>\<open>Seek\<close> puts the position of a non-empty buffer on one of its bytes.\<close>

lemma Seek_in_bounds:
  assumes "0 < GetSize b" and "GetSize b < 2 ^ 63" and "off < 2 ^ 63 - 1"
  shows "\<exists>b'. Seek off b = Some b' \<and> position b' < GetSize b' \<and> btype b' = btype b \<and> alignment b' = alignment b \<and>
    bdata b' = bdata b @ replicate (if btype b = buffer_grow then nat off + 1 - GetSize b else 0) 0 \<and>
    position b' = (if off < 0 then 0 else case btype b of buffer_grow \<Rightarrow> nat off | buffer_wrap \<Rightarrow> nat off mod GetSize b
      | _ \<Rightarrow> min (nat off) (GetSize b - 1))"
proof -
  have o: "nat off + 1 < 2 ^ 63" using assms(3) by simp
  have n: "Suc 0 \<le> length (bdata b)" using assms(1) unfolding GetSize_def by arith
  have z: "zsub (length (bdata b)) (Suc 0) = length (bdata b) - Suc 0"
    by (rule zsub_le[OF n]) (use assms(2) in \<open>simp add: GetSize_def\<close>)
  show ?thesis
  proof (cases "off < 0")
    case True
    then show ?thesis using assms(1) n by (auto simp: Seek_def GetSize_def)
  next
    case False
    show ?thesis
    proof (cases "btype b")
      case buffer_grow
      then show ?thesis using False o by (simp add: Seek_def Resize_def GetSize_def Let_def)
    next
      case buffer_wrap
      have "0 < length (bdata b)" using n by arith
      then show ?thesis using False buffer_wrap by (auto simp: Seek_def zmod_def GetSize_def)
    qed (use False n z in \<open>auto simp: Seek_def GetSize_def min_def\<close>)
  qed
qed

lemma Seek_id [simp]:
  assumes "position b < GetSize b" and "GetSize b < 2 ^ 63"
  shows "Seek (int (position b)) b = Some b"
proof -
  have "int (position b) < 2 ^ 63 - 1" using assms by (simp add: nat_less_numeral_power_cancel_iff)
  then obtain b' where b': "Seek (int (position b)) b = Some b'" "btype b' = btype b" "alignment b' = alignment b"
    "bdata b' = bdata b" "position b' = position b"
    using Seek_in_bounds[of b "int (position b)"] assms by (auto split: buffer_type_t.splits)
  then show ?thesis by (cases b; cases b') simp
qed

end
