(* ===== verification/BufferLaws.thy ===== *)
theory BufferLaws
  imports Buffers
begin

text \<open>
  What the buffer functions guarantee: the runs of bytes \<open>write_to_buffer\<close> stores, values
  and strings written and read back, the alignment loops, \<open>buffer_copy\<close> and the handles.
\<close>

section \<open>Runs of bytes\<close>

text \<open>The reference: one byte after the other, modulo the size.\<close>

definition bytewise :: "nat \<Rightarrow> u8 list \<Rightarrow> u8 list \<Rightarrow> u8 list" where
  "bytewise off dat d = fold (\<lambda>(i, v) d. d[(off + i) mod length d := v]) (enumerate 0 dat) d"

lemma overlay_snoc:
  "off + length xs < length d \<Longrightarrow> (overlay xs off d)[off + length xs := v] = overlay (xs @ [v]) off d"
  by (intro nth_equalityI) (auto simp: nth_overlay nth_list_update nth_append)

lemma fold_update_overlay:
  assumes "\<And>i. i < length dat \<Longrightarrow> (off + (n + i)) mod length d = p + i" and "p + length dat \<le> length d"
  shows "fold (\<lambda>(i, v) d. d[(off + i) mod length d := v]) (enumerate n dat) d = overlay dat p d"
  using assms
proof (induction dat rule: rev_induct)
  case (snoc x dat)
  have "fold (\<lambda>(i, v) d. d[(off + i) mod length d := v]) (enumerate n dat) d = overlay dat p d"
    by (rule snoc.IH) (use snoc.prems in auto)
  moreover have "(overlay dat p d)[p + length dat := x] = overlay (dat @ [x]) p d"
    using snoc.prems(2) by (simp add: overlay_snoc)
  ultimately show ?case using snoc.prems by (simp add: enumerate_append_eq)
qed (simp add: overlay_def)

lemma bytewise_inside: "off + length dat \<le> length d \<Longrightarrow> bytewise off dat d = overlay dat off d"
  unfolding bytewise_def by (rule fold_update_overlay) auto

lemma bytewise_wrap:
  assumes "off < length d" and "length d < off + length dat" and "length dat \<le> length d"
  defines "r \<equiv> length d - off"
  shows "bytewise off dat d = overlay (drop r dat) 0 (overlay (take r dat) off d)"
proof -
  have e: "enumerate 0 dat = enumerate 0 (take r dat) @ enumerate r (drop r dat)"
    using assms enumerate_append_eq[of 0 "take r dat" "drop r dat"] by simp
  have 1: "fold (\<lambda>(i, v) d. d[(off + i) mod length d := v]) (enumerate 0 (take r dat)) d = overlay (take r dat) off d"
    by (rule fold_update_overlay) (use assms in auto)
  have 2: "fold (\<lambda>(i, v) d. d[(off + i) mod length d := v]) (enumerate r (drop r dat)) (overlay (take r dat) off d) =
      overlay (drop r dat) 0 (overlay (take r dat) off d)"
    by (rule fold_update_overlay) (use assms in auto)
  show ?thesis unfolding bytewise_def e fold_append comp_apply 1 2 ..
qed

text \<open>What a write stores, per buffer type.  Of a run longer than a wrapping buffer only the last bytes are stored, as many as it has.\<close>

definition write_spec :: "bbuf \<Rightarrow> u8 list \<Rightarrow> nat \<Rightarrow> u8 list" where
  "write_spec b dat off = (case btype b of
      buffer_wrap \<Rightarrow> bytewise (off mod GetSize b) (drop (length dat - GetSize b) dat) (bdata b)
    | buffer_grow \<Rightarrow> overlay dat off (bdata b @ replicate (off + length dat - GetSize b) 0)
    | _ \<Rightarrow> if GetSize b \<le> off then bdata b else overlay (take (GetSize b - off) dat) off (bdata b))"

lemma write_spec_ok:
  assumes "off + length dat < 2 ^ 63" and "GetSize b < 2 ^ 63"
    and "btype b = buffer_wrap \<longrightarrow> length dat \<le> GetSize b \<and> 0 < GetSize b"
  shows "write_to_buffer b dat off = Some (b\<lparr>bdata := write_spec b dat off\<rparr>)"
proof -
  have z: "zadd (length dat) off = length dat + off" using assms(1) by (intro zadd_small) simp
  have clipped: "copy_range dat 0 (int (length dat) - (if GetSize b < zadd (length dat) off
      then int (zsub (zadd (length dat) off) (GetSize b)) else 0)) (bdata b) off =
      Some (overlay (take (GetSize b - off) dat) off (bdata b))" if "\<not> GetSize b \<le> off"
  proof (cases "GetSize b < length dat + off")
    case True
    then have "zsub (length dat + off) (GetSize b) = length dat + off - GetSize b"
      using assms(1) by (intro zsub_le) simp_all
    then have "int (length dat) - int (zsub (length dat + off) (GetSize b)) = int (GetSize b - off)"
      using True that by simp
    then show ?thesis using True that z by (simp add: copy_range_overlay GetSize_def nat_minus_as_int)
  next
    case False
    then show ?thesis using that z by (simp add: copy_range_all GetSize_def)
  qed
  show ?thesis
  proof (cases "btype b")
  case buffer_wrap
  define q where "q = off mod GetSize b"
  have s: "length dat \<le> GetSize b" "0 < GetSize b" using assms(3) buffer_wrap by auto
  have o: "q < GetSize b" "q \<le> off" using s(2) by (simp_all add: q_def)
  have off: "(if GetSize b \<le> off then zmod off (GetSize b) else Some off) = Some q"
    using s(2) by (auto simp: zmod_def q_def)
  have z: "zadd (length dat) q = length dat + q" using assms(1) o by (intro zadd_small) simp
  show ?thesis
  proof (cases "GetSize b < length dat + q")
    case True
    have zs: "zsub (length dat + q) (GetSize b) = length dat + q - GetSize b"
      using True assms(1) o by (intro zsub_le) simp_all
    define r where "r = GetSize b - q"
    have r: "int (length dat) - int (length dat + q - GetSize b) = int r" "r \<le> length dat" "q + r = GetSize b"
      using True o s by (auto simp: r_def)
    have c1: "copy_range dat 0 (int r) (bdata b) q = Some (overlay (take r dat) q (bdata b))"
      by (subst copy_range_overlay) (use r(2,3) in \<open>auto simp: GetSize_def\<close>)
    have c2: "copy_range dat (int r) (int (length dat)) (overlay (take r dat) q (bdata b)) 0 =
        Some (overlay (drop r dat) 0 (overlay (take r dat) q (bdata b)))"
      by (subst copy_range_overlay) (use r(2,3) s in \<open>auto simp: GetSize_def nat_minus_as_int\<close>)
    have "bytewise q dat (bdata b) = overlay (drop r dat) 0 (overlay (take r dat) q (bdata b))"
      using bytewise_wrap[of q "bdata b" dat] True o s unfolding r_def GetSize_def by simp
    then have "write_spec b dat off = overlay (drop r dat) 0 (overlay (take r dat) q (bdata b))"
      using buffer_wrap s(1) by (simp add: write_spec_def q_def)
    moreover have "GetSize b < zadd (length dat) q" "\<not> GetSize b < length dat" using True s z by simp_all
    ultimately show ?thesis
      unfolding write_to_buffer_def Let_def buffer_wrap buffer_type_t.case off z zs r(1)
      using c1 c2 z zs r(1) by simp
  next
    case False
    then have "q + length dat \<le> length (bdata b)" by (simp add: GetSize_def)
    then have "copy_range dat 0 (int (length dat)) (bdata b) q = Some (bytewise q dat (bdata b))"
      by (simp only: copy_range_all bytewise_inside)
    then show ?thesis using False buffer_wrap z s(1) by (simp add: write_to_buffer_def off write_spec_def q_def)
  qed
next
  case buffer_grow
  show ?thesis
  proof (cases "GetSize b < length dat + off")
    case True
    then show ?thesis using buffer_grow z assms(1)
      by (simp add: write_to_buffer_def write_spec_def Resize_def GetSize_def copy_range_all add.commute)
  next
    case False
    then show ?thesis using buffer_grow z
      by (simp add: write_to_buffer_def write_spec_def GetSize_def copy_range_all add.commute)
  qed
next
  case buffer_fixed
  then show ?thesis using clipped by (simp add: write_to_buffer_def write_spec_def Let_def)
next
  case buffer_fast
  then show ?thesis using clipped by (simp add: write_to_buffer_def write_spec_def Let_def)
qed
qed

lemma copy_range_drop: "0 \<le> a \<Longrightarrow> k \<le> length src \<Longrightarrow> copy_range (drop k src) a c d off = copy_range src (int k + a) (int k + c) d off"
  by (auto simp: copy_range_def nat_add_distrib add.commute)

lemma write_long_run:
  assumes "btype b = buffer_wrap" "0 < GetSize b" "GetSize b < length dat" "off + length dat < 2 ^ 63"
  shows "write_to_buffer b dat off = write_to_buffer b (drop (length dat - GetSize b) dat) off"
proof -
  let ?k = "length dat - GetSize b"
  define q where "q = off mod GetSize b"
  have q: "q < GetSize b" "q \<le> off" using assms(2) by (simp_all add: q_def)
  have off: "(if GetSize b \<le> off then zmod off (GetSize b) else Some off) = Some q"
    using assms(2) by (auto simp: zmod_def q_def)
  have z: "zadd (length dat) q = length dat + q" "zadd (GetSize b) q = GetSize b + q" "zsub (GetSize b + q) (GetSize b) = q"
    using assms(3,4) q by (auto simp: zadd_def zsub_def)
  have n: "int ?k + 0 = int (length dat) - int (GetSize b)" "int ?k + int (GetSize b) = int (length dat)"
    "int ?k + (int (GetSize b) - int q) = int (length dat) - int q" using assms(3) by simp_all
  have c: "copy_range (drop ?k dat) a e d p = copy_range dat (int ?k + a) (int ?k + e) d p" if "0 \<le> a" for a e p d
    using that by (rule copy_range_drop) simp
  have l: "length (drop ?k dat) = GetSize b" using assms(3) by simp
  have "write_to_buffer b dat off = Option.bind (copy_range dat (int (length dat) - int (GetSize b)) (int (length dat) - int q) (bdata b) q)
      (\<lambda>d. Option.bind (copy_range dat (int (length dat) - int q) (int (length dat)) d 0) (\<lambda>d. Some (b\<lparr>bdata := d\<rparr>)))"
    unfolding write_to_buffer_def Let_def assms(1) buffer_type_t.case off bind.bind_lunit z(1)
    using assms(3) by (simp only: trans_less_add1 if_True)
  moreover have "write_to_buffer b (drop ?k dat) off = Option.bind (copy_range dat (int (length dat) - int (GetSize b)) (int (length dat) - int q) (bdata b) q)
      (\<lambda>d. Option.bind (copy_range dat (int (length dat) - int q) (int (length dat)) d 0) (\<lambda>d. Some (b\<lparr>bdata := d\<rparr>)))"
  proof (cases "q = 0")
    case True
    have e: "copy_range dat (int (length dat)) (int (length dat)) d 0 = Some d" for d by (simp add: copy_range_def)
    show ?thesis
      unfolding write_to_buffer_def Let_def assms(1) buffer_type_t.case off bind.bind_lunit l z(2) c[OF order_refl] n(1,2)
      unfolding True by (simp add: e)
  next
    case False
    have qs: "0 \<le> int (GetSize b) - int q" using q(1) by simp
    have "GetSize b < GetSize b + q" "\<not> GetSize b < GetSize b" using False by simp_all
    then show ?thesis
      unfolding write_to_buffer_def Let_def assms(1) buffer_type_t.case off bind.bind_lunit l z(2,3) c[OF order_refl] c[OF qs] n
      by (simp only: if_True if_False)
  qed
  ultimately show ?thesis by simp
qed

section \<open>Values written and read back\<close>

lemma write_padding_aligned [simp]: "0 < alignment b \<Longrightarrow> position b mod alignment b = 0 \<Longrightarrow> write_padding b = Some b"
  by (subst write_padding.simps) (simp add: zmod_def)

lemma skip_padding_aligned [simp]: "0 < alignment b \<Longrightarrow> position b mod alignment b = 0 \<Longrightarrow> skip_padding b = Some b"
  by (subst skip_padding.simps) (simp add: zmod_def)

lemma storable_not_text: "storable ty v \<Longrightarrow> \<not> is_text ty"
  by (auto simp: storable_def int_type_def is_text_def)

lemma buffer_sizeof_le: "buffer_sizeof ty \<le> 8"
  by (cases ty) (simp_all add: buffer_sizeof_def)

text \<open>A run that fits, or a buffer that grows.\<close>

definition fits :: "nat \<Rightarrow> nat \<Rightarrow> bbuf \<Rightarrow> bool" where
  "fits off n b = (off < GetSize b \<and> off + n < 2 ^ 63 - 1 \<and> GetSize b < 2 ^ 63 \<and> (btype b = buffer_grow \<or> off + n \<le> GetSize b))"

lemma write_fits:
  assumes "fits off (length dat) b"
  shows "write_to_buffer b dat off = Some (b\<lparr>bdata := overlay dat off (bdata b @ replicate (off + length dat - GetSize b) 0)\<rparr>)"
proof -
  have "write_spec b dat off = overlay dat off (bdata b @ replicate (off + length dat - GetSize b) 0)"
  proof (cases "btype b")
    case buffer_wrap
    then show ?thesis using assms by (simp add: write_spec_def fits_def bytewise_inside GetSize_def)
  next
    case buffer_fixed
    then have "take (GetSize b - off) dat = dat" "\<not> GetSize b \<le> off" "off + length dat \<le> GetSize b"
      using assms by (auto simp: fits_def)
    then show ?thesis using buffer_fixed by (simp add: write_spec_def)
  next
    case buffer_fast
    then have "take (GetSize b - off) dat = dat" "\<not> GetSize b \<le> off" "off + length dat \<le> GetSize b"
      using assms by (auto simp: fits_def)
    then show ?thesis using buffer_fast by (simp add: write_spec_def)
  qed (simp add: write_spec_def)
  moreover have "btype b = buffer_wrap \<longrightarrow> length dat \<le> GetSize b \<and> 0 < GetSize b" using assms by (auto simp: fits_def)
  ultimately show ?thesis using write_spec_ok[of off dat b] assms by (simp add: fits_def)
qed

text \<open>A position that \<open>Seek\<close> sets on an existing byte changes nothing else.\<close>

lemma Seek_inside:
  assumes "p < GetSize b" and "GetSize b < 2 ^ 63"
  shows "Seek (int p) b = Some (b\<lparr>position := p\<rparr>)"
proof -
  have "Seek (int p) b = Seek (int p) (b\<lparr>position := p\<rparr>)"
    by (cases "btype b") (simp_all add: Seek_def GetSize_def Resize_def Let_def)
  then show ?thesis using Seek_id[of "b\<lparr>position := p\<rparr>"] assms by (simp add: GetSize_def)
qed

lemma write_read_back:
  assumes "fits (position b) (buffer_sizeof ty) b" and "0 < alignment b" and "position b mod alignment b = 0"
    and "storable ty v"
  shows "\<exists>d b1. serialize_to_type v ty = Some d \<and> write_to_buffer b d (position b) = Some b1 \<and>
    peek b1 (position b) ty = Some v \<and> position b < GetSize b1 \<and> GetSize b1 < 2 ^ 63 \<and> 
    position b1 = position b \<and> alignment b1 = alignment b \<and> btype b1 = btype b \<and>
    GetSize b1 = max (GetSize b) (position b + buffer_sizeof ty)"
proof -
  obtain d where d: "serialize_to_type v ty = Some d" "length d = buffer_sizeof ty" "deserialize_from_type d ty = Some v"
    using storable_roundtrip[OF assms(4)] by blast
  let ?b = "b\<lparr>bdata := overlay d (position b) (bdata b @ replicate (position b + length d - GetSize b) 0)\<rparr>"
  have f: "fits (position b) (length d) b" using assms(1) d(2) by simp
  have w: "write_to_buffer b d (position b) = Some ?b" by (rule write_fits[OF f])
  have l: "position b + length d \<le> length (bdata b @ replicate (position b + length d - GetSize b) 0)"
    by (simp add: GetSize_def)
  then have s: "GetSize ?b = max (GetSize b) (position b + length d)" by (simp add: GetSize_def max_def)
  have "peek ?b (position b) ty = Some v"
    using s d l storable_not_text[OF assms(4)] by (simp add: peek_def)
  then show ?thesis using d w s f by (intro exI[of _ d] exI[of _ ?b]) (auto simp: fits_def)
qed

lemma advance_value:
  assumes "\<not> is_text ty" and "position b < GetSize b" and "GetSize b < 2 ^ 63" and "position b + 8 < 2 ^ 63 - 1"
  shows "\<exists>b'. advance ty b = Some b' \<and> position b' < GetSize b' \<and> alignment b' = alignment b \<and> btype b' = btype b \<and>
    (\<exists>z. bdata b' = bdata b @ z)  \<and> GetSize b' \<le> max (GetSize b) (position b + buffer_sizeof ty + 1)"
proof -
  have "position b + buffer_sizeof ty < 2 ^ 63 - 1" using assms(4) buffer_sizeof_le[of ty] by linarith
  then have e: "to_ll (int (zadd (position b) (buffer_sizeof ty))) = int (position b + buffer_sizeof ty)"
    and lt: "int (position b + buffer_sizeof ty) < 2 ^ 63 - 1"
    by (simp_all add: to_ll_def)
  have "0 < GetSize b" using assms(2) by simp
  then obtain b' n where b': "Seek (int (position b + buffer_sizeof ty)) b = Some b'" "position b' < GetSize b'"
    "btype b' = btype b" "alignment b' = alignment b"
    "bdata b' = bdata b @ replicate n 0" "n \<le> position b + buffer_sizeof ty + 1 - GetSize b"
    using Seek_in_bounds[OF _ assms(3) lt] by (auto split: if_splits)
  then have "GetSize b' \<le> max (GetSize b) (position b + buffer_sizeof ty + 1)" by (auto simp: GetSize_def)
  then show ?thesis using b' e assms(1) by (auto simp: advance_def)
qed

lemma peek_append: "peek b p ty = Some v \<Longrightarrow> \<not> is_text ty \<Longrightarrow> peek (b'\<lparr>bdata := bdata b @ z\<rparr>) p ty = Some v"
  by (auto simp: peek_def GetSize_def split: if_splits)

text \<open>C15.  A number that its type can hold, of the integer types of up to 32 bits or of \<open>buffer_f64\<close>, is written at a position in
  the buffer that is a multiple of the alignment, with room for it or in a growing buffer.  A seek back to that position and a read
  of the same type return the number; the other buffers are untouched.\<close>

theorem buffer_write_seek_read:
  assumes "get_buffer k bs = Some b" and "0 < alignment b" and "position b mod alignment b = 0"
    and "storable ty v" and "fits (position b) (buffer_sizeof ty) b" and "position b + 9 < 2 ^ 63 - 1"
  shows "\<exists>bs1 bs2 bs3. buffer_write k ty v bs = Some bs1 \<and> buffer_seek k buffer_seek_start (int (position b)) bs1 = Some bs2 \<and>
    buffer_read k ty bs2 = Some (bs3, v) \<and> (\<forall>j. j \<noteq> k \<longrightarrow> get_buffer j bs3 = get_buffer j bs)"
proof -
  let ?p = "position b"
  have nt: "\<not> is_text ty" by (rule storable_not_text[OF assms(4)])
  obtain d b1 where w: "serialize_to_type v ty = Some d" "write_to_buffer b d ?p = Some b1" "peek b1 ?p ty = Some v"
    "?p < GetSize b1" "GetSize b1 < 2 ^ 63" "position b1 = ?p" "alignment b1 = alignment b"
    using write_read_back[OF assms(5,2,3,4)] by blast
  obtain b2 z where a: "advance ty b1 = Some b2" "alignment b2 = alignment b" "bdata b2 = bdata b1 @ z" 
    "GetSize b2 \<le> max (GetSize b1) (?p + buffer_sizeof ty + 1)"
    using advance_value[of ty b1] nt w assms(6) by auto
  have g2: "?p < GetSize b2" "GetSize b2 < 2 ^ 63" using a w(4,5) assms(6) buffer_sizeof_le[of ty] by (auto simp: GetSize_def)
  define b3 where "b3 = b2\<lparr>position := ?p\<rparr>"
  have s: "Seek (int ?p) b2 = Some b3" unfolding b3_def by (rule Seek_inside[OF g2])
  have b3: "position b3 = ?p" "alignment b3 = alignment b" "GetSize b3 = GetSize b2" "GetSize b3 < 2 ^ 63"
    using a g2 by (simp_all add: b3_def GetSize_def)
  have p3: "peek b3 ?p ty = Some v" using peek_append[OF w(3) nt, where b' = b3 and z = z] a(3)
    by (cases b2) (simp add: b3_def)
  obtain b4 where a3: "advance ty b3 = Some b4"
    using advance_value[of ty b3] nt b3 g2 assms(6) by auto
  have "buffer_write k ty v bs = Some (put_buffer k b2 bs)"
    using assms(1-3) w a by (simp add: buffer_write_def upd_buffer_Some)
  moreover have "buffer_seek k buffer_seek_start (int ?p) (put_buffer k b2 bs) = Some (put_buffer k b3 bs)"
    using assms(1) s by (simp add: buffer_seek_def upd_buffer_Some)
  moreover have "buffer_read k ty (put_buffer k b3 bs) = Some (put_buffer k b4 bs, v)"
    using assms(1-3) b3 p3 a3 by (simp add: buffer_read_def)
  moreover have "\<forall>j. j \<noteq> k \<longrightarrow> get_buffer j (put_buffer k b4 bs) = get_buffer j bs" using assms(1) by simp
  ultimately show ?thesis by blast
qed

theorem buffer_write_seek_read_witness:
  defines "b \<equiv> \<lparr>bdata = [1, 2, 3, 4, 5, 6], position = 2, alignment = 2, btype = buffer_wrap\<rparr>"
  shows "\<exists>bs1 bs2 bs3. buffer_write 1 buffer_u16 (variant_num (d_of_int 513)) [None, Some b] = Some bs1 \<and>
    buffer_seek 1 buffer_seek_start 2 bs1 = Some bs2 \<and> buffer_read 1 buffer_u16 bs2 = Some (bs3, variant_num (d_of_int 513))"
proof -
  have "storable buffer_u16 (variant_num (d_of_int 513))"
    by (auto simp: storable_def int_type_def intro: exI[of _ 513])
  then show ?thesis
    using buffer_write_seek_read[of 1 "[None, Some b]" b buffer_u16 "variant_num (d_of_int 513)"]
    by (auto simp: b_def get_buffer_def fits_def GetSize_def buffer_sizeof_def)
qed

section \<open>The claims on runs, positions and handles\<close>

text \<open>C4.  \<open>write_to_buffer\<close> implements its specification: a fixed or fast buffer keeps the
  part of the run that fits, a growing one is extended, and in a wrapping one that is not empty the run, or of a longer run the last bytes,
  as many as the buffer has, is stored byte after byte from the offset on, modulo the size.  Sizes are below \<open>2 ^ 63\<close>.\<close>

theorem write_to_buffer_spec:
  assumes "off + length dat < 2 ^ 63" and "GetSize b < 2 ^ 63" and "btype b = buffer_wrap \<longrightarrow> 0 < GetSize b"
  shows "write_to_buffer b dat off = Some (b\<lparr>bdata := write_spec b dat off\<rparr>)"
proof (cases "btype b = buffer_wrap \<and> GetSize b < length dat")
  case True
  let ?d = "drop (length dat - GetSize b) dat"
  have "write_to_buffer b dat off = write_to_buffer b ?d off" using write_long_run True assms by blast
  also have "\<dots> = Some (b\<lparr>bdata := write_spec b ?d off\<rparr>)" using True assms by (intro write_spec_ok) auto
  also have "write_spec b ?d off = write_spec b dat off" using True by (simp add: write_spec_def)
  finally show ?thesis .
qed (use write_spec_ok[OF assms(1,2)] assms(3) in auto)

theorem write_to_buffer_spec_witness:
  "write_to_buffer \<lparr>bdata = [1, 2, 3, 4], position = 0, alignment = 1, btype = buffer_wrap\<rparr> [7, 8, 9] 6 =
    Some \<lparr>bdata = [9, 2, 7, 8], position = 0, alignment = 1, btype = buffer_wrap\<rparr>"
  by (subst write_to_buffer_spec) (simp_all add: GetSize_def write_spec_def bytewise_def)

text \<open>
  A run longer than a wrapping buffer: the last bytes are stored from the offset on instead of
  where their index puts them.
\<close>

lemma write_to_buffer_long_run:
  "let b = \<lparr>bdata = [0, 0, 0, 0], position = 0, alignment = 1, btype = buffer_wrap\<rparr> in
    map_option bdata (write_to_buffer b [1, 2, 3, 4, 5, 6] 0) = Some [3, 4, 5, 6] \<and>
    bytewise 0 [1, 2, 3, 4, 5, 6] (bdata b) = [5, 6, 3, 4]"
  by (simp add: write_to_buffer_def GetSize_def zadd_def copy_range_def bytewise_def)

text \<open>Every seek in a non-empty buffer has a result and leaves the position on a byte of
  the buffer: on the requested one if the buffer grows, on its remainder if it wraps, on the
  last byte at most if its size is fixed.\<close>

theorem Seek_position:
  assumes "0 < GetSize b" and "GetSize b < 2 ^ 63" and "off < 2 ^ 63 - 1"
  shows "\<exists>b'. Seek off b = Some b' \<and> position b' < GetSize b' \<and>
    bdata b' = bdata b @ replicate (if btype b = buffer_grow then nat off + 1 - GetSize b else 0) 0 \<and>
    position b' = (if off < 0 then 0 else case btype b of buffer_grow \<Rightarrow> nat off | buffer_wrap \<Rightarrow> nat off mod GetSize b
      | _ \<Rightarrow> min (nat off) (GetSize b - 1))"
  using Seek_in_bounds[OF assms] by blast

theorem Seek_position_witness:
  "map_option position (Seek 9 \<lparr>bdata = [1, 2, 3, 4], position = 0, alignment = 1, btype = buffer_wrap\<rparr>) = Some 1"
  using Seek_position[of "\<lparr>bdata = [1, 2, 3, 4], position = 0, alignment = 1, btype = buffer_wrap\<rparr>" 9]
  by (auto simp: GetSize_def)

text \<open>\<open>buffer_create\<close> returns a handle that no existing buffer has, and holds a
  zeroed buffer of the requested size, type and alignment; the others are unchanged, and deleting it
  restores every slot.\<close>

theorem buffer_create_fresh:
  assumes "n < 2 ^ 63" and "length bs < 2 ^ 31"
  shows "\<exists>bs1 h bs2. buffer_create n ty al bs = Some (bs1, h) \<and> \<not> buffer_exists h bs \<and> buffer_exists h bs1 \<and>
    get_buffer h bs1 = Some \<lparr>bdata = replicate n 0, position = 0, alignment = al, btype = ty\<rparr> \<and>
    (\<forall>k. k \<noteq> h \<longrightarrow> get_buffer k bs1 = get_buffer k bs) \<and>
    buffer_delete h bs1 = Some bs2 \<and> (\<forall>k. get_buffer k bs2 = get_buffer k bs)"
proof -
  let ?c = "(n, ty, al)"
  have ok: "(case ?c of (n, ty, al) \<Rightarrow> \<lambda>bs. n < 2 ^ 63 \<and> length bs < 2 ^ 31) bs" using assms by simp
  obtain bs1 h where c: "buffer_create n ty al bs = Some (bs1, h)"
    using buffer_slots.create_slot[OF ok] by auto
  obtain bs2 where "buffer_delete h bs1 = Some bs2" "(\<lambda>k. get_buffer k bs2) = (\<lambda>k. get_buffer k bs)"
    using buffer_slots.create_delete[OF ok] c by auto
  then show ?thesis
    using buffer_slots.create_fresh[OF ok, of bs1 h] c by (auto simp: buffer_exists_get new_buffer_def fun_eq_iff)
qed

theorem buffer_create_fresh_witness:
  "\<exists>bs1 h. buffer_create 4 buffer_grow 1 [] = Some (bs1, h) \<and> buffer_exists h bs1"
  using buffer_create_fresh[of 4 "[]" buffer_grow 1] by auto

section \<open>The alignment loop\<close>

text \<open>In a growing buffer the alignment loop of \<open>buffer_write\<close> ends, on the next
  multiple of the alignment.\<close>

theorem write_padding_ends:
  assumes "btype b = buffer_grow" and "0 < alignment b" and "GetSize b < 2 ^ 62" and "position b + alignment b < 2 ^ 62"
  shows "\<exists>b'. write_padding b = Some b' \<and> position b' mod alignment b = 0 \<and> position b \<le> position b' \<and>
    position b' < position b + alignment b"
proof -
  have "\<exists>b'. write_padding b = Some b' \<and> position b' mod alignment b = 0 \<and> position b \<le> position b' \<and>
      position b' \<le> position b + n"
    if "(position b + n) mod alignment b = 0" "btype b = buffer_grow" "0 < alignment b" "GetSize b \<le> 2 ^ 62"
      "position b + n < 2 ^ 62" for n and b
    using that
  proof (induction n arbitrary: b)
    case 0
    then show ?case by simp
  next
    case (Suc n)
    show ?case
    proof (cases "position b mod alignment b = 0")
      case True
      then show ?thesis using Suc.prems(3) by auto
    next
      case False
      let ?p = "position b"
      define d1 where "d1 = bdata b @ replicate (?p + 1 - GetSize b) 0"
      have l1: "?p < length d1" "length d1 < 2 ^ 63" using Suc.prems by (auto simp: d1_def GetSize_def)
      have s1: "Seek (to_ll (int ?p)) b = Some (b\<lparr>bdata := d1\<rparr>)"
        using Suc.prems(2,4,5) by (auto simp: Seek_def Resize_def GetSize_def Let_def d1_def)
      define d2 where "d2 = (d1[?p := 0]) @ replicate (?p + 2 - length d1) 0"
      have z: "zadd ?p 1 = ?p + 1" using Suc.prems(5) by (intro zadd_small) simp
      have ll: "to_ll (int (?p + 1)) = int (?p + 1)" using Suc.prems(5) by (intro to_ll_int) simp
      have "Seek (int (?p + 1)) (b\<lparr>bdata := d1[?p := 0]\<rparr>) = Some (b\<lparr>bdata := d2, position := ?p + 1\<rparr>)"
        using Suc.prems(2,4,5) l1 by (auto simp: Seek_def Resize_def GetSize_def Let_def d2_def nat_add_distrib)
      then have w: "WriteByte 0 b = Some (b\<lparr>bdata := d2, position := ?p + 1\<rparr>)"
        using l1(1) z ll by (simp add: WriteByte_def s1)
      let ?b = "b\<lparr>bdata := d2, position := ?p + 1\<rparr>"
      have "GetSize ?b \<le> 2 ^ 62" using Suc.prems(4,5) by (auto simp: GetSize_def d2_def d1_def)
      then obtain b' where "write_padding ?b = Some b'" "position b' mod alignment b = 0" "?p + 1 \<le> position b'"
        "position b' \<le> ?p + 1 + n"
        using Suc.IH[of ?b] Suc.prems by auto
      moreover have "write_padding b = write_padding ?b"
        using False w Suc.prems(3) by (subst write_padding.simps) (simp add: zmod_def)
      ultimately show ?thesis by auto
    qed
  qed
  note loop = this
  define n where "n = (alignment b - position b mod alignment b) mod alignment b"
  have n: "n < alignment b" using assms(2) by (simp add: n_def)
  have "position b mod alignment b \<le> alignment b" using assms(2) by (simp add: less_imp_le)
  then have "(position b mod alignment b + (alignment b - position b mod alignment b)) mod alignment b = 0" by simp
  then have "(position b + n) mod alignment b = 0" by (simp add: n_def mod_add_left_eq mod_add_right_eq)
  then show ?thesis using loop[of b n] assms n by fastforce
qed

theorem write_padding_ends_witness:
  "\<exists>b'. write_padding \<lparr>bdata = [1, 2, 3], position = 3, alignment = 4, btype = buffer_grow\<rparr> = Some b' \<and>
    position b' mod 4 = 0 \<and> 3 \<le> position b' \<and> position b' < 7"
  using write_padding_ends[of "\<lparr>bdata = [1, 2, 3], position = 3, alignment = 4, btype = buffer_grow\<rparr>"]
  by (auto simp: GetSize_def)

text \<open>On the last byte of a fixed buffer whose last index is not a multiple of the
  alignment, the loop never ends: the position is clamped to that byte, so \<open>buffer_write\<close> has no
  result whatever it writes.\<close>

lemma write_padding_stuck:
  assumes "btype b = buffer_fixed" and "0 < GetSize b" and "GetSize b < 2 ^ 63"
    and "position b = GetSize b - 1" and "position b mod alignment b \<noteq> 0"
  shows "write_padding b = None"
proof -
  define stuck where "stuck b \<longleftrightarrow> btype b = buffer_fixed \<and> 0 < GetSize b \<and> GetSize b < 2 ^ 63 \<and>
    position b = GetSize b - 1 \<and> position b mod alignment b \<noteq> 0" for b
  have step: "\<exists>b1. WriteByte 0 b = Some b1 \<and> stuck b1" if "stuck b" for b
  proof -
    let ?b1 = "b\<lparr>bdata := (bdata b)[position b := 0]\<rparr>"
    have b: "position b < length (bdata b)" "length (bdata b) < 2 ^ 63" "position b = length (bdata b) - 1" "btype b = buffer_fixed"
      using that by (auto simp: stuck_def GetSize_def)
    have "zsub (length (bdata b)) 1 = length (bdata b) - 1" using b by (intro zsub_le) auto
    then have s: "Seek (int p) c = Some (c\<lparr>position := min p (length (bdata b) - 1)\<rparr>)"
      if "GetSize c = length (bdata b)" "btype c = buffer_fixed" for p c
      using that by (simp add: Seek_def)
    have z: "zadd (position b) 1 = position b + 1" "to_ll (int (position b)) = int (position b)"
      using b by (auto intro!: zadd_small to_ll_int)
    have "WriteByte 0 b = Some ?b1"
      using b z s[of b "position b"] s[of ?b1 "position b + 1"]
      by (cases b) (simp add: WriteByte_def GetSize_def to_ll_def)
    then show ?thesis using that by (auto simp: stuck_def GetSize_def)
  qed
  have "\<not> stuck b" if "write_padding b = Some y" for y
  proof (rule write_padding.raw_induct[of "\<lambda>b _. \<not> stuck b", OF _ that])
    fix rec b y
    assume rec: "\<And>b y. rec b = Some y \<Longrightarrow> \<not> stuck b"
      and run: "Option.bind (zmod (position b) (alignment b)) (\<lambda>m. if m = 0 then Some b else Option.bind (WriteByte 0 b) rec) = Some y"
    show "\<not> stuck b"
    proof
      assume s: "stuck b"
      then obtain b1 where "WriteByte 0 b = Some b1" "stuck b1" using step by blast
      moreover have "position b mod alignment b \<noteq> 0" using s unfolding stuck_def by blast
      ultimately show False using run rec[of b1 y] by (auto simp: zmod_def split: if_splits)
    qed
  qed
  moreover have "stuck b" unfolding stuck_def using assms by blast
  ultimately show ?thesis by (cases "write_padding b") blast+
qed

text \<open>At the end of a fixed buffer whose last index is not a multiple of its alignment,
  \<open>buffer_write\<close> does not return: the alignment loop writes its zero byte again and again.\<close>

theorem buffer_write_hangs:
  assumes "get_buffer k bs = Some b" and "btype b = buffer_fixed" and "0 < GetSize b" and "GetSize b < 2 ^ 63"
    and "position b = GetSize b - 1" and "position b mod alignment b \<noteq> 0"
  shows "buffer_write k ty v bs = None"
  using assms(1) write_padding_stuck[OF assms(2-6)] by (simp add: buffer_write_def upd_buffer_Some)

theorem buffer_write_hangs_witness:
  "\<forall>v. buffer_write 0 buffer_u8 v [Some \<lparr>bdata = [1, 2, 3, 4], position = 3, alignment = 2, btype = buffer_fixed\<rparr>] = None"
  by (intro allI, rule buffer_write_hangs[of _ _ "\<lparr>bdata = [1, 2, 3, 4], position = 3, alignment = 2, btype = buffer_fixed\<rparr>"])
     (simp_all add: get_buffer_def GetSize_def)

section \<open>Strings\<close>

lemma ReadByte_inside:
  assumes "position b + 1 < GetSize b" and "GetSize b < 2 ^ 63"
  shows "ReadByte b = Some (b\<lparr>position := position b + 1\<rparr>, bdata b ! position b)"
proof -
  have "zadd (position b) 1 = position b + 1" "to_ll (int (position b + 1)) = int (position b + 1)"
    "to_ll (int (position b)) = int (position b)"
    using assms by (auto intro!: zadd_small to_ll_int)
  then show ?thesis using assms Seek_inside[OF assms] Seek_id[of b]
    by (simp add: ReadByte_def GetSize_def)
qed

lemma skip_string_run:
  assumes "position b + n < GetSize b" and "GetSize b < 2 ^ 63" and "\<And>i. i < n \<Longrightarrow> bdata b ! (position b + i) \<noteq> 0"
    and "bdata b ! (position b + n) = 0"
  shows "skip_string b = Some (b\<lparr>position := position b + n\<rparr>)"
  using assms
proof (induction n arbitrary: b)
  case 0
  then show ?case by (subst skip_string.simps) (cases b, simp)
next
  case (Suc n)
  let ?b = "b\<lparr>position := position b + 1\<rparr>"
  have "skip_string ?b = Some (?b\<lparr>position := position ?b + n\<rparr>)"
    using Suc.prems Suc.prems(3)[of "Suc i" for i] by (intro Suc.IH) (auto simp: GetSize_def)
  moreover have "ReadByte b = Some (?b, bdata b ! position b)"
    by (rule ReadByte_inside) (use Suc.prems in auto)
  ultimately show ?case using Suc.prems(1) Suc.prems(3)[of 0]
    by (subst skip_string.simps) (simp add: GetSize_def)
qed

lemma peek_string_run:
  assumes "p + n < GetSize b" and "GetSize b < 2 ^ 63" and "\<And>i. i < n \<Longrightarrow> bdata b ! (p + i) \<noteq> 0" and "bdata b ! (p + n) = 0"
  shows "peek_string b p acc = Some (acc @ map chr_of (take n (drop p (bdata b))))"
  using assms
proof (induction n arbitrary: p acc)
  case 0
  then show ?case by (subst peek_string.simps) simp
next
  case (Suc n)
  have z: "zadd p 1 = p + 1" using Suc.prems(1,2) by (intro zadd_small) simp
  have "peek_string b (p + 1) (acc @ [chr_of (bdata b ! p)]) =
      Some ((acc @ [chr_of (bdata b ! p)]) @ map chr_of (take n (drop (p + 1) (bdata b))))"
    using Suc.prems Suc.prems(3)[of "Suc i" for i] by (intro Suc.IH) auto
  moreover have "drop p (bdata b) = bdata b ! p # drop (p + 1) (bdata b)"
    using Suc.prems(1) by (simp add: GetSize_def Cons_nth_drop_Suc)
  ultimately show ?case using Suc.prems(1) Suc.prems(3)[of 0] z
    by (subst peek_string.simps) simp
qed

lemma byte_of_zero: "byte_of c = 0 \<longleftrightarrow> c = CHR 0x00"
proof -
  have "byte_of (CHR 0x00) = 0" by (simp add: byte_of_def)
  then show ?thesis by (metis chr_of_byte_of)
qed

text \<open>A string without a NUL character, written at an aligned position of a buffer that
  has room for it and its terminator, or that grows, is what a seek back and a read return.\<close>

theorem buffer_string_write_seek_read:
  assumes "get_buffer k bs = Some b" and "0 < alignment b" and "position b mod alignment b = 0" and "is_text ty"
    and "CHR 0x00 \<notin> set s" and "fits (position b) (length s + 1) b"
  shows "\<exists>bs1 bs2 bs3. buffer_write k ty (variant_str s) bs = Some bs1 \<and>
    buffer_seek k buffer_seek_start (int (position b)) bs1 = Some bs2 \<and> buffer_read k ty bs2 = Some (bs3, variant_str s)"
proof -
  let ?p = "position b" and ?n = "length s" and ?d = "map byte_of s @ [0]"
  have dat: "serialize_to_type (variant_str s) ty = Some ?d"
    using assms(4) by (auto simp: is_text_def serialize_to_type_def variant_str_def)
  define b1 where "b1 = b\<lparr>bdata := overlay ?d ?p (bdata b @ replicate (?p + length ?d - GetSize b) 0)\<rparr>"
  have w: "write_to_buffer b ?d ?p = Some b1" unfolding b1_def by (rule write_fits) (use assms(6) in simp)
  have l: "?p + length ?d \<le> length (bdata b @ replicate (?p + length ?d - GetSize b) 0)" by (simp add: GetSize_def)
  have sz: "?p + ?n < GetSize b1" "GetSize b1 < 2 ^ 63"
    using l assms(6) by (auto simp: b1_def GetSize_def fits_def)
  have at: "bdata b1 ! (?p + i) = ?d ! i" if "i \<le> ?n" for i
    using that l unfolding b1_def by (simp add: nth_overlay)
  have run: "bdata b1 ! (?p + i) \<noteq> 0" if "i < ?n" for i
  proof -
    have "?d ! i = byte_of (s ! i)" "s ! i \<in> set s" using that by (simp_all add: nth_append)
    then show ?thesis using that at[of i] assms(5) byte_of_zero[of "s ! i"] by (metis less_imp_le)
  qed
  have stop: "bdata b1 ! (?p + ?n) = 0" using at[of ?n] by (simp add: nth_append)
  have str: "map chr_of (take ?n (drop ?p (bdata b1))) = s"
    using sz at by (intro nth_equalityI) (auto simp: GetSize_def nth_append)
  have skip: "skip_string c = Some (c\<lparr>position := ?p + ?n\<rparr>)"
    if "position c = ?p" "\<exists>z. bdata c = bdata b1 @ z" "GetSize c < 2 ^ 63" for c
    using skip_string_run[of c ?n] that sz run stop by (auto simp: GetSize_def nth_append)
  have rd: "\<exists>c1 z. advance ty c = Some c1 \<and> bdata c1 = bdata c @ z \<and> alignment c1 = alignment c \<and> GetSize c1 < 2 ^ 63"
    if c: "position c = ?p" "\<exists>z. bdata c = bdata b1 @ z" "GetSize c < 2 ^ 63" for c
  proof -
    let ?c = "c\<lparr>position := ?p + ?n\<rparr>"
    have p: "position ?c < GetSize ?c" "GetSize ?c < 2 ^ 63" using c sz by (auto simp: GetSize_def)
    have "?p + ?n + 1 < 2 ^ 63 - 1" using assms(6) by (simp add: fits_def)
    then have "int (?p + ?n + 1) < 2 ^ 63 - 1" "zadd (?p + ?n) 1 = ?p + ?n + 1" "to_ll (int (?p + ?n + 1)) = int (?p + ?n + 1)"
      "to_ll (int (?p + ?n)) = int (?p + ?n)"
      by (auto intro!: zadd_small to_ll_int)
    moreover obtain c1 m where "Seek (int (?p + ?n + 1)) ?c = Some c1" "bdata c1 = bdata ?c @ replicate m 0"
      "alignment c1 = alignment ?c" "m \<le> ?p + ?n + 2 - GetSize ?c"
      using Seek_in_bounds[of ?c "int (?p + ?n + 1)"] p calculation(1) by (auto split: if_splits)
    moreover have "GetSize c1 < 2 ^ 63" using calculation p(2) \<open>?p + ?n + 1 < 2 ^ 63 - 1\<close> by (auto simp: GetSize_def)
    ultimately show ?thesis using skip[OF c] assms(4) p Seek_id[of ?c]
      by (auto simp: advance_def ReadByte_def GetSize_def)
  qed
  obtain b2 z where a: "advance ty b1 = Some b2" "bdata b2 = bdata b1 @ z" "alignment b2 = alignment b" "GetSize b2 < 2 ^ 63"
    using rd[of b1] sz by (auto simp: b1_def)
  have wr: "buffer_write k ty (variant_str s) bs = Some (put_buffer k b2 bs)"
    using assms(1-3) w a(1) dat by (simp add: buffer_write_def upd_buffer_Some)
  define b3 where "b3 = b2\<lparr>position := ?p\<rparr>"
  have b3: "position b3 = ?p" "bdata b3 = bdata b1 @ z" "alignment b3 = alignment b" "GetSize b3 < 2 ^ 63"
    using a by (simp_all add: b3_def GetSize_def)
  have "Seek (int ?p) b2 = Some b3" unfolding b3_def using a sz by (intro Seek_inside) (auto simp: GetSize_def)
  then have sk: "buffer_seek k buffer_seek_start (int ?p) (put_buffer k b2 bs) = Some (put_buffer k b3 bs)"
    using assms(1) by (simp add: buffer_seek_def upd_buffer_Some)
  have "peek_string b3 ?p [] = Some s"
    using peek_string_run[of ?p ?n b3 "[]"] b3 sz run stop str by (auto simp: GetSize_def nth_append)
  then have pk: "peek b3 ?p ty = Some (variant_str s)" using assms(4) by (simp add: peek_def)
  obtain b4 where "advance ty b3 = Some b4" using rd[of b3] b3 by auto
  then have "buffer_read k ty (put_buffer k b3 bs) = Some (put_buffer k b4 bs, variant_str s)"
    using assms(1-3) b3 pk by (simp add: buffer_read_def)
  then show ?thesis using wr sk by blast
qed

theorem buffer_string_write_seek_read_witness:
  defines "b \<equiv> \<lparr>bdata = [1, 2], position = 1, alignment = 1, btype = buffer_grow\<rparr>"
  shows "\<exists>bs1 bs2 bs3. buffer_write 0 buffer_string (variant_str ''abc'') [Some b] = Some bs1 \<and>
    buffer_seek 0 buffer_seek_start 1 bs1 = Some bs2 \<and> buffer_read 0 buffer_string bs2 = Some (bs3, variant_str ''abc'')"
  using buffer_string_write_seek_read[of 0 "[Some b]" b buffer_string "''abc''"]
  by (auto simp: b_def get_buffer_def fits_def GetSize_def is_text_def)

section \<open>\<open>buffer_copy\<close>\<close>

lemma copy_loop:
  assumes "source \<noteq> dest" and "get_buffer source bs = Some s" and "get_buffer dest bs = Some d"
    and "so + n \<le> GetSize s" and "to + n \<le> GetSize d" and "GetSize s < 2 ^ 62" and "GetSize d < 2 ^ 62"
  shows "for_each [0..<n] (copy_byte source dest (\<lambda>i. zadd i so) (\<lambda>i. zadd i to)) bs =
    Some (put_buffer dest (d\<lparr>bdata := overlay (take n (drop so (bdata s))) to (bdata d)\<rparr>) bs)"
  using assms(4,5)
proof (induction n)
  case 0
  have "put_buffer dest (d\<lparr>bdata := overlay [] to (bdata d)\<rparr>) bs = bs"
    using assms(3) by (cases d) (auto simp: put_buffer_def overlay_def get_buffer_Some list_update_same_conv)
  then show ?case by simp
next
  case (Suc n)
  let ?o = "\<lambda>n. overlay (take n (drop so (bdata s))) to (bdata d)"
  have l: "length (take n (drop so (bdata s))) = n" "so + n < length (bdata s)" "to + n < length (bdata d)"
    using Suc.prems by (auto simp: GetSize_def)
  have "(?o n)[to + n := bdata s ! (so + n)] = ?o (Suc n)"
    using l overlay_snoc[of to "take n (drop so (bdata s))" "bdata d" "bdata s ! (so + n)"]
    by (simp add: take_Suc_conv_app_nth)
  moreover have "zadd n so = so + n" "zadd n to = to + n"
    using Suc.prems assms(6,7) by (simp_all add: add.commute)
  ultimately show ?case
    using Suc assms(1-3) l by (simp add: for_each_append copy_byte_def)
qed

text \<open>C26. From a buffer that does not wrap into another, fixed one, at offsets inside the two and with sizes below \<open>2 ^ 62\<close>,
  \<open>buffer_copy\<close> stores the requested bytes when both ranges lie inside the buffers, and is
  undefined in every other case: the length is clamped but the loop still runs to the requested size.\<close>

theorem buffer_copy_ranges:
  assumes "source \<noteq> dest" and "get_buffer source bs = Some s" and "get_buffer dest bs = Some d"
    and "btype s \<noteq> buffer_wrap" and "btype d = buffer_fixed" and "so < GetSize s" and "to < GetSize d"
    and "GetSize s < 2 ^ 62" and "GetSize d < 2 ^ 62" and "n < 2 ^ 62"
  shows "buffer_copy source so n dest to bs = (if so + n \<le> GetSize s \<and> to + n \<le> GetSize d
    then Some (put_buffer dest (d\<lparr>bdata := overlay (take n (drop so (bdata s))) to (bdata d)\<rparr>) bs) else None)"
proof -
  let ?step = "copy_byte source dest (\<lambda>i. zadd i so) (\<lambda>i. zadd i to)"
  have "buffer_copy source so n dest to bs = for_each [0..<n] ?step bs"
    using assms(2-7) by (simp add: buffer_copy_def copy_offset_def Let_def)
  also have "\<dots> = (if so + n \<le> GetSize s \<and> to + n \<le> GetSize d
    then Some (put_buffer dest (d\<lparr>bdata := overlay (take n (drop so (bdata s))) to (bdata d)\<rparr>) bs) else None)"
  proof (cases "so + n \<le> GetSize s \<and> to + n \<le> GetSize d")
    case False
    define m where "m = min (GetSize s - so) (GetSize d - to)"
    have m: "m < n" "so + m \<le> GetSize s" "to + m \<le> GetSize d" "so + m = GetSize s \<or> to + m = GetSize d"
      using False assms(6,7) by (auto simp: m_def min_def)
    have u: "[0..<n] = [0..<m] @ m # [Suc m..<n]" using m(1) by (metis upt_add_eq_append upt_conv_Cons le_add_diff_inverse less_imp_le zero_le)
    have "zadd m so = so + m" "zadd m to = to + m" using m assms(8,9) by (simp_all add: add.commute)
    then have "?step m (put_buffer dest (d\<lparr>bdata := overlay (take m (drop so (bdata s))) to (bdata d)\<rparr>) bs) = None"
      using m assms(1-3) by (auto simp: copy_byte_def GetSize_def)
    then show ?thesis using False copy_loop[OF assms(1-3) m(2,3) assms(8,9)]
      by (simp add: u for_each_append)
  qed (use copy_loop[OF assms(1-3) _ _ assms(8,9)] in simp)
  finally show ?thesis .
qed

theorem buffer_copy_ranges_witness:
  defines "b \<equiv> \<lambda>d. \<lparr>bdata = d, position = 0, alignment = 1, btype = buffer_fixed\<rparr>"
  shows "buffer_copy 0 1 2 1 0 [Some (b [1, 2, 3]), Some (b [7, 8, 9])] = Some [Some (b [1, 2, 3]), Some (b [2, 3, 9])] \<and>
    buffer_copy 0 1 3 1 0 [Some (b [1, 2, 3]), Some (b [7, 8, 9])] = None"
  using buffer_copy_ranges[of 0 1 "[Some (b [1, 2, 3]), Some (b [7, 8, 9])]" "b [1, 2, 3]" "b [7, 8, 9]" 1 0 2]
    buffer_copy_ranges[of 0 1 "[Some (b [1, 2, 3]), Some (b [7, 8, 9])]" "b [1, 2, 3]" "b [7, 8, 9]" 1 0 3]
  by (simp add: b_def get_buffer_def GetSize_def put_buffer_def overlay_def)

end
