(* ===== verification/Tokens.thy ===== *)
theory Tokens
  imports Prelude
begin

text \<open>
  The tokens of the compiler front end (\<open>CompilerSource/parsing/tokens.h\<close> and
  \<open>tokens.cpp\<close>).  \<open>TokenType\<close> is an unscoped enumeration: its enumerators are the integers
  from 0 on, in the order of the declaration, and \<open>kTokenNames\<close> is indexed by them.  A
  \<open>CodeSnippet\<close> is the text of a token and its position in the source; the pointer \<open>ext\<close>
  of \<open>Token\<close> to a definition of the target language is an opaque number.
\<close>

type_synonym TokenType = nat

abbreviation (input) TT_IDENTIFIER :: TokenType where "TT_IDENTIFIER \<equiv> 0"
abbreviation (input) TT_SEMICOLON :: TokenType where "TT_SEMICOLON \<equiv> 1"
abbreviation (input) TT_COLON :: TokenType where "TT_COLON \<equiv> 2"
abbreviation (input) TT_COMMA :: TokenType where "TT_COMMA \<equiv> 3"
abbreviation (input) TT_ASSIGN :: TokenType where "TT_ASSIGN \<equiv> 4"
abbreviation (input) TT_ASSOP :: TokenType where "TT_ASSOP \<equiv> 5"
abbreviation (input) TT_EQUALS :: TokenType where "TT_EQUALS \<equiv> 6"
abbreviation (input) TT_DOT :: TokenType where "TT_DOT \<equiv> 7"
abbreviation (input) TT_ELLIPSES :: TokenType where "TT_ELLIPSES \<equiv> 8"
abbreviation (input) TT_ARROW :: TokenType where "TT_ARROW \<equiv> 9"
abbreviation (input) TT_DOT_STAR :: TokenType where "TT_DOT_STAR \<equiv> 10"
abbreviation (input) TT_ARROW_STAR :: TokenType where "TT_ARROW_STAR \<equiv> 11"
abbreviation (input) TT_PLUS :: TokenType where "TT_PLUS \<equiv> 12"
abbreviation (input) TT_MINUS :: TokenType where "TT_MINUS \<equiv> 13"
abbreviation (input) TT_STAR :: TokenType where "TT_STAR \<equiv> 14"
abbreviation (input) TT_SLASH :: TokenType where "TT_SLASH \<equiv> 15"
abbreviation (input) TT_PERCENT :: TokenType where "TT_PERCENT \<equiv> 16"
abbreviation (input) TT_AMPERSAND :: TokenType where "TT_AMPERSAND \<equiv> 17"
abbreviation (input) TT_PIPE :: TokenType where "TT_PIPE \<equiv> 18"
abbreviation (input) TT_CARET :: TokenType where "TT_CARET \<equiv> 19"
abbreviation (input) TT_AND :: TokenType where "TT_AND \<equiv> 20"
abbreviation (input) TT_OR :: TokenType where "TT_OR \<equiv> 21"
abbreviation (input) TT_XOR :: TokenType where "TT_XOR \<equiv> 22"
abbreviation (input) TT_DIV :: TokenType where "TT_DIV \<equiv> 23"
abbreviation (input) TT_MOD :: TokenType where "TT_MOD \<equiv> 24"
abbreviation (input) TT_NOT :: TokenType where "TT_NOT \<equiv> 25"
abbreviation (input) TT_EQUALTO :: TokenType where "TT_EQUALTO \<equiv> 26"
abbreviation (input) TT_NOTEQUAL :: TokenType where "TT_NOTEQUAL \<equiv> 27"
abbreviation (input) TT_BANG :: TokenType where "TT_BANG \<equiv> 28"
abbreviation (input) TT_TILDE :: TokenType where "TT_TILDE \<equiv> 29"
abbreviation (input) TT_INCREMENT :: TokenType where "TT_INCREMENT \<equiv> 30"
abbreviation (input) TT_DECREMENT :: TokenType where "TT_DECREMENT \<equiv> 31"
abbreviation (input) TT_LESS :: TokenType where "TT_LESS \<equiv> 32"
abbreviation (input) TT_GREATER :: TokenType where "TT_GREATER \<equiv> 33"
abbreviation (input) TT_LESSEQUAL :: TokenType where "TT_LESSEQUAL \<equiv> 34"
abbreviation (input) TT_GREATEREQUAL :: TokenType where "TT_GREATEREQUAL \<equiv> 35"
abbreviation (input) TT_THREEWAY :: TokenType where "TT_THREEWAY \<equiv> 36"
abbreviation (input) TT_JS_ARROW :: TokenType where "TT_JS_ARROW \<equiv> 37"
abbreviation (input) TT_LSH :: TokenType where "TT_LSH \<equiv> 38"
abbreviation (input) TT_RSH :: TokenType where "TT_RSH \<equiv> 39"
abbreviation (input) TT_QMARK :: TokenType where "TT_QMARK \<equiv> 40"
abbreviation (input) TT_BEGINPARENTH :: TokenType where "TT_BEGINPARENTH \<equiv> 41"
abbreviation (input) TT_ENDPARENTH :: TokenType where "TT_ENDPARENTH \<equiv> 42"
abbreviation (input) TT_BEGINBRACKET :: TokenType where "TT_BEGINBRACKET \<equiv> 43"
abbreviation (input) TT_ENDBRACKET :: TokenType where "TT_ENDBRACKET \<equiv> 44"
abbreviation (input) TT_BEGINBRACE :: TokenType where "TT_BEGINBRACE \<equiv> 45"
abbreviation (input) TT_ENDBRACE :: TokenType where "TT_ENDBRACE \<equiv> 46"
abbreviation (input) TT_DECLITERAL :: TokenType where "TT_DECLITERAL \<equiv> 47"
abbreviation (input) TT_BINLITERAL :: TokenType where "TT_BINLITERAL \<equiv> 48"
abbreviation (input) TT_OCTLITERAL :: TokenType where "TT_OCTLITERAL \<equiv> 49"
abbreviation (input) TT_HEXLITERAL :: TokenType where "TT_HEXLITERAL \<equiv> 50"
abbreviation (input) TT_STRINGLIT :: TokenType where "TT_STRINGLIT \<equiv> 51"
abbreviation (input) TT_CHARLIT :: TokenType where "TT_CHARLIT \<equiv> 52"
abbreviation (input) TT_BOOLLITERAL :: TokenType where "TT_BOOLLITERAL \<equiv> 53"
abbreviation (input) TT_SCOPEACCESS :: TokenType where "TT_SCOPEACCESS \<equiv> 54"
abbreviation (input) TT_TYPE_NAME :: TokenType where "TT_TYPE_NAME \<equiv> 55"
abbreviation (input) TT_LOCAL :: TokenType where "TT_LOCAL \<equiv> 56"
abbreviation (input) TT_GLOBAL :: TokenType where "TT_GLOBAL \<equiv> 57"
abbreviation (input) TT_RETURN :: TokenType where "TT_RETURN \<equiv> 58"
abbreviation (input) TT_EXIT :: TokenType where "TT_EXIT \<equiv> 59"
abbreviation (input) TT_BREAK :: TokenType where "TT_BREAK \<equiv> 60"
abbreviation (input) TT_CONTINUE :: TokenType where "TT_CONTINUE \<equiv> 61"
abbreviation (input) TT_ENUM :: TokenType where "TT_ENUM \<equiv> 62"
abbreviation (input) TT_TYPEDEF :: TokenType where "TT_TYPEDEF \<equiv> 63"
abbreviation (input) TT_TYPENAME :: TokenType where "TT_TYPENAME \<equiv> 64"
abbreviation (input) TT_OPERATOR :: TokenType where "TT_OPERATOR \<equiv> 65"
abbreviation (input) TT_CONSTEXPR :: TokenType where "TT_CONSTEXPR \<equiv> 66"
abbreviation (input) TT_CONSTINIT :: TokenType where "TT_CONSTINIT \<equiv> 67"
abbreviation (input) TT_CONSTEVAL :: TokenType where "TT_CONSTEVAL \<equiv> 68"
abbreviation (input) TT_INLINE :: TokenType where "TT_INLINE \<equiv> 69"
abbreviation (input) TT_STATIC :: TokenType where "TT_STATIC \<equiv> 70"
abbreviation (input) TT_THREAD_LOCAL :: TokenType where "TT_THREAD_LOCAL \<equiv> 71"
abbreviation (input) TT_EXTERN :: TokenType where "TT_EXTERN \<equiv> 72"
abbreviation (input) TT_MUTABLE :: TokenType where "TT_MUTABLE \<equiv> 73"
abbreviation (input) TT_CO_AWAIT :: TokenType where "TT_CO_AWAIT \<equiv> 74"
abbreviation (input) TT_NOEXCEPT :: TokenType where "TT_NOEXCEPT \<equiv> 75"
abbreviation (input) TT_ALIGNOF :: TokenType where "TT_ALIGNOF \<equiv> 76"
abbreviation (input) TT_SIZEOF :: TokenType where "TT_SIZEOF \<equiv> 77"
abbreviation (input) TT_STATIC_CAST :: TokenType where "TT_STATIC_CAST \<equiv> 78"
abbreviation (input) TT_DYNAMIC_CAST :: TokenType where "TT_DYNAMIC_CAST \<equiv> 79"
abbreviation (input) TT_REINTERPRET_CAST :: TokenType where "TT_REINTERPRET_CAST \<equiv> 80"
abbreviation (input) TT_CONST_CAST :: TokenType where "TT_CONST_CAST \<equiv> 81"
abbreviation (input) TT_S_SWITCH :: TokenType where "TT_S_SWITCH \<equiv> 82"
abbreviation (input) TT_S_REPEAT :: TokenType where "TT_S_REPEAT \<equiv> 83"
abbreviation (input) TT_S_CASE :: TokenType where "TT_S_CASE \<equiv> 84"
abbreviation (input) TT_S_DEFAULT :: TokenType where "TT_S_DEFAULT \<equiv> 85"
abbreviation (input) TT_S_FOR :: TokenType where "TT_S_FOR \<equiv> 86"
abbreviation (input) TT_S_IF :: TokenType where "TT_S_IF \<equiv> 87"
abbreviation (input) TT_S_THEN :: TokenType where "TT_S_THEN \<equiv> 88"
abbreviation (input) TT_S_ELSE :: TokenType where "TT_S_ELSE \<equiv> 89"
abbreviation (input) TT_S_DO :: TokenType where "TT_S_DO \<equiv> 90"
abbreviation (input) TT_S_WHILE :: TokenType where "TT_S_WHILE \<equiv> 91"
abbreviation (input) TT_S_UNTIL :: TokenType where "TT_S_UNTIL \<equiv> 92"
abbreviation (input) TT_S_WITH :: TokenType where "TT_S_WITH \<equiv> 93"
abbreviation (input) TT_S_TRY :: TokenType where "TT_S_TRY \<equiv> 94"
abbreviation (input) TT_S_CATCH :: TokenType where "TT_S_CATCH \<equiv> 95"
abbreviation (input) TT_S_NEW :: TokenType where "TT_S_NEW \<equiv> 96"
abbreviation (input) TT_S_DELETE :: TokenType where "TT_S_DELETE \<equiv> 97"
abbreviation (input) TT_CLASS :: TokenType where "TT_CLASS \<equiv> 98"
abbreviation (input) TT_STRUCT :: TokenType where "TT_STRUCT \<equiv> 99"
abbreviation (input) TT_UNION :: TokenType where "TT_UNION \<equiv> 100"
abbreviation (input) TT_DECLSPEC :: TokenType where "TT_DECLSPEC \<equiv> 101"
abbreviation (input) TT_DECLTYPE :: TokenType where "TT_DECLTYPE \<equiv> 102"
abbreviation (input) TTM_WHITESPACE :: TokenType where "TTM_WHITESPACE \<equiv> 103"
abbreviation (input) TTM_CONCAT :: TokenType where "TTM_CONCAT \<equiv> 104"
abbreviation (input) TTM_STRINGIFY :: TokenType where "TTM_STRINGIFY \<equiv> 105"
abbreviation (input) TT_ERROR :: TokenType where "TT_ERROR \<equiv> 106"
abbreviation (input) TT_ENDOFCODE :: TokenType where "TT_ENDOFCODE \<equiv> 107"

record CodeSnippet =
  content :: string
  line :: nat
  position :: nat

record Token = CodeSnippet +
  ttype :: TokenType
  ext :: "nat option"

text \<open>\<open>Token(TokenType t, CodeSnippet snippet)\<close>, and the snippet of a token.\<close>

definition mk_token :: "TokenType \<Rightarrow> CodeSnippet \<Rightarrow> Token" where
  "mk_token t s = \<lparr>content = content s, line = line s, position = position s, ttype = t, ext = None\<rparr>"

definition snippet_of :: "Token \<Rightarrow> CodeSnippet" where
  "snippet_of t = \<lparr>content = content t, line = line t, position = position t\<rparr>"

lemma mk_token_simps [simp]:
  "content (mk_token t s) = content s" "line (mk_token t s) = line s" "position (mk_token t s) = position s"
  "ttype (mk_token t s) = t" "ext (mk_token t s) = None" "snippet_of (mk_token t s) = s"
  by (simp_all add: mk_token_def snippet_of_def)

definition PreprocessesAway :: "Token \<Rightarrow> bool" where
  "PreprocessesAway t = (ttype t = TTM_WHITESPACE)"

section \<open>Names\<close>

definition kTokenNames :: "string list" where
  "kTokenNames = [
    ''TT_IDENTIFIER'', ''TT_SEMICOLON'', ''TT_COLON'', ''TT_COMMA'', ''TT_ASSIGN'', ''TT_ASSOP''
    , ''TT_EQUALS'', ''TT_DOT'', ''TT_ELLIPSES'', ''TT_ARROW'', ''TT_DOT_STAR'', ''TT_ARROW_STAR''
    , ''TT_PLUS'', ''TT_MINUS'', ''TT_STAR'', ''TT_SLASH'', ''TT_PERCENT'', ''TT_AMPERSAND''
    , ''TT_PIPE'', ''TT_CARET'', ''TT_AND'', ''TT_OR'', ''TT_XOR'', ''TT_DIV'', ''TT_MOD''
    , ''TT_NOT'', ''TT_EQUALTO'', ''TT_NOTEQUAL'', ''TT_BANG'', ''TT_TILDE'', ''TT_INCREMENT''
    , ''TT_DECREMENT'', ''TT_LESS'', ''TT_GREATER'', ''TT_LESSEQUAL'', ''TT_GREATEREQUAL''
    , ''TT_THREEWAY'', ''TT_JS_ARROW'', ''TT_LSH'', ''TT_RSH'', ''TT_QMARK'', ''TT_BEGINPARENTH''
    , ''TT_ENDPARENTH'', ''TT_BEGINBRACKET'', ''TT_ENDBRACKET'', ''TT_BEGINBRACE''
    , ''TT_ENDBRACE'', ''TT_DECLITERAL'', ''TT_BINLITERAL'', ''TT_OCTLITERAL'', ''TT_HEXLITERAL''
    , ''TT_STRINGLIT'', ''TT_CHARLIT'', ''TT_BOOLLITERAL'', ''TT_SCOPEACCESS'', ''TT_TYPE_NAME''
    , ''TT_LOCAL'', ''TT_GLOBAL'', ''TT_RETURN'', ''TT_EXIT'', ''TT_BREAK'', ''TT_CONTINUE''
    , ''TT_ENUM'', ''TT_TYPEDEF'', ''TT_TYPENAME'', ''TT_OPERATOR'', ''TT_CONSTEXPR''
    , ''TT_CONSTINIT'', ''TT_CONSTEVAL'', ''TT_INLINE'', ''TT_STATIC'', ''TT_THREAD_LOCAL''
    , ''TT_EXTERN'', ''TT_MUTABLE'', ''TT_CO_AWAIT'', ''TT_NOEXCEPT'', ''TT_ALIGNOF''
    , ''TT_SIZEOF'', ''TT_STATIC_CAST'', ''TT_DYNAMIC_CAST'', ''TT_REINTERPRET_CAST''
    , ''TT_CONST_CAST'', ''TT_S_SWITCH'', ''TT_S_REPEAT'', ''TT_S_CASE'', ''TT_S_DEFAULT''
    , ''TT_S_FOR'', ''TT_S_IF'', ''TT_S_THEN'', ''TT_S_ELSE'', ''TT_S_DO'', ''TT_S_WHILE''
    , ''TT_S_UNTIL'', ''TT_S_WITH'', ''TT_S_TRY'', ''TT_S_CATCH'', ''TT_S_NEW'', ''TT_S_DELETE''
    , ''TT_CLASS'', ''TT_STRUCT'', ''TT_UNION'', ''TT_DECLSPEC'', ''TT_DECLTYPE''
    , ''TTM_WHITESPACE'', ''TTM_CONCAT'', ''TTM_STRINGIFY'', ''<ERROR>'', ''TT_ENDOFCODE'']"

definition TokenType_ToString :: "TokenType \<Rightarrow> string" where
  "TokenType_ToString tt = kTokenNames ! tt"

definition Token_ToString :: "Token \<Rightarrow> string" where
  "Token_ToString t = kTokenNames ! ttype t @ ''('' @ [CHR 0x22] @ content t @ [CHR 0x22] @ '')''"

lemma kTokenNames_complete: "length kTokenNames = Suc TT_ENDOFCODE"
  by (simp add: kTokenNames_def)

end
