(* ===== verification/LexRaw.thy ===== *)
theory LexRaw
  imports Tokens "HOL-Library.Char_ord"
begin

text \<open>
  The lexer of the compiler front end up to raw tokens (\<open>CompilerSource/parsing/lexer.cpp\<close>):
  the operator trie, line counting, string literals and \<open>ReadRawToken\<close>.  Macros and
  keywords follow in the theories built on this one.

  \<open>code[i]\<close> is a NUL character at the end of the source, as for \<open>std::string\<close>; the lexer
  reads no further.  \<open>isspace\<close> is that of the C locale.  The error handler is the list of
  the errors reported so far.
\<close>

section \<open>Character classes\<close>

definition between :: "char \<Rightarrow> char \<Rightarrow> char \<Rightarrow> bool" where
  "between a b x = (a \<le> x \<and> x \<le> b)"

definition is_letter :: "char \<Rightarrow> bool" where
  "is_letter x = (between CHR ''a'' CHR ''z'' x \<or> between CHR ''A'' CHR ''Z'' x \<or> x = CHR ''_'')"

definition is_digit :: "char \<Rightarrow> bool" where
  "is_digit x = between CHR ''0'' CHR ''9'' x"

definition is_hexdigit :: "char \<Rightarrow> bool" where
  "is_hexdigit x = (between CHR ''0'' CHR ''9'' x \<or> between CHR ''a'' CHR ''f'' x \<or> between CHR ''A'' CHR ''F'' x)"

definition is_nybble :: "char \<Rightarrow> bool" where
  "is_nybble x = is_hexdigit x"

definition is_octal :: "char \<Rightarrow> bool" where
  "is_octal x = between CHR ''0'' CHR ''7'' x"

definition is_bit :: "char \<Rightarrow> bool" where
  "is_bit x = (x = CHR ''0'' \<or> x = CHR ''1'')"

definition is_letterd :: "char \<Rightarrow> bool" where
  "is_letterd x = (is_letter x \<or> is_digit x)"

definition isspace :: "char \<Rightarrow> bool" where
  "isspace x = (x = CHR '' '' \<or> between CHR 0x09 CHR 0x0D x)"

section \<open>The operator trie\<close>

text \<open>A node has its token and, once a key passes through it, a child for every byte.\<close>

datatype TokenTrie = TokenTrie TokenType "(char \<Rightarrow> TokenTrie) option"

definition empty_trie :: TokenTrie where
  "empty_trie = TokenTrie TT_ERROR None"

function trie_Get :: "TokenTrie \<Rightarrow> string \<Rightarrow> nat \<Rightarrow> TokenType \<times> nat" where
  "trie_Get (TokenTrie token children) code pos = (case children of
      None \<Rightarrow> (token, pos)
    | Some Child \<Rightarrow> if length code \<le> pos then (token, pos) else
        let child = trie_Get (Child (code ! pos)) code (pos + 1) in
        if fst child \<noteq> TT_ERROR then child else (token, pos))"
  by pat_completeness auto
termination by (relation "measure (\<lambda>(_, code, pos). length code - pos)") auto

fun trie_Put :: "string \<Rightarrow> TokenType \<Rightarrow> TokenTrie \<Rightarrow> TokenTrie" where
  "trie_Put [] tok (TokenTrie token children) = TokenTrie tok children"
| "trie_Put (c # key) tok (TokenTrie token children) =
    (let Child = (case children of None \<Rightarrow> (\<lambda>_. empty_trie) | Some f \<Rightarrow> f) in
     TokenTrie token (Some (Child(c := trie_Put key tok (Child c)))))"

definition trie_of :: "(string \<times> TokenType) list \<Rightarrow> TokenTrie" where
  "trie_of pairs = fold (\<lambda>(key, tok). trie_Put key tok) pairs empty_trie"

definition operators :: "(string \<times> TokenType) list" where
  "operators = [
    (''!'', TT_BANG), (''!='', TT_NOTEQUAL), (''%'', TT_PERCENT), (''%='', TT_ASSOP),
    (''&'', TT_AMPERSAND), (''&&'', TT_AND), (''&='', TT_ASSOP), (''('', TT_BEGINPARENTH),
    ('')'', TT_ENDPARENTH), (''+'', TT_PLUS), (''++'', TT_INCREMENT), (''+='', TT_ASSOP),
    (''^='', TT_ASSOP), ('','', TT_COMMA), (''-'', TT_MINUS), (''--'', TT_DECREMENT),
    (''-='', TT_ASSOP), (''*'', TT_STAR), (''*='', TT_ASSOP), (''/'', TT_SLASH),
    (''/='', TT_ASSOP), (''.'', TT_DOT), (''...'', TT_ELLIPSES), (''->'', TT_ARROW),
    (''.*'', TT_DOT_STAR), (''->*'', TT_ARROW_STAR), ('':'', TT_COLON), (''::'', TT_SCOPEACCESS),
    ('':='', TT_ASSIGN), ('';'', TT_SEMICOLON), (''<'', TT_LESS), (''<<'', TT_LSH),
    (''<<='', TT_ASSOP), (''<='', TT_LESSEQUAL), (''<>'', TT_NOTEQUAL), (''<=>'', TT_THREEWAY),
    (''=>'', TT_JS_ARROW), (''='', TT_EQUALS), (''=='', TT_EQUALTO), (''>'', TT_GREATER),
    (''>='', TT_GREATEREQUAL), (''>>'', TT_RSH), (''>>='', TT_ASSOP), (''?'', TT_QMARK),
    (''['', TT_BEGINBRACKET), ('']'', TT_ENDBRACKET), (''^'', TT_CARET), (''^^'', TT_XOR),
    (''{'', TT_BEGINBRACE), (''|'', TT_PIPE), (''|='', TT_ASSOP), (''||'', TT_OR),
    (''}'', TT_ENDBRACE), (''~'', TT_TILDE)]"

definition token_lookup :: TokenTrie where
  "token_lookup = trie_of operators"

definition LookUpOperator :: "string \<Rightarrow> TokenType" where
  "LookUpOperator op = (let tnode = trie_Get token_lookup op 0 in
     if snd tnode \<noteq> length op then TT_ERROR else fst tnode)"

definition keyword_lookup :: "string \<Rightarrow> TokenType option" where
  "keyword_lookup = map_of [
    (''alignof'', TT_ALIGNOF), (''break'', TT_BREAK), (''case'', TT_S_CASE),
    (''catch'', TT_S_CATCH), (''co_await'', TT_CO_AWAIT), (''continue'', TT_CONTINUE),
    (''decltype'', TT_DECLTYPE), (''default'', TT_S_DEFAULT), (''delete'', TT_S_DELETE),
    (''do'', TT_S_DO), (''else'', TT_S_ELSE), (''enum'', TT_ENUM), (''true'', TT_BOOLLITERAL),
    (''exit'', TT_EXIT), (''false'', TT_BOOLLITERAL), (''for'', TT_S_FOR), (''if'', TT_S_IF),
    (''new'', TT_S_NEW), (''noexcept'', TT_NOEXCEPT), (''operator'', TT_OPERATOR),
    (''return'', TT_RETURN), (''repeat'', TT_S_REPEAT), (''sizeof'', TT_SIZEOF),
    (''switch'', TT_S_SWITCH), (''try'', TT_S_TRY), (''typedef'', TT_TYPEDEF),
    (''typename'', TT_TYPENAME), (''until'', TT_S_UNTIL), (''while'', TT_S_WHILE),
    (''with'', TT_S_WITH), (''then'', TT_S_THEN), (''and'', TT_AND), (''div'', TT_DIV),
    (''mod'', TT_MOD), (''not'', TT_NOT), (''or'', TT_OR), (''xor'', TT_XOR),
    (''dynamic_cast'', TT_DYNAMIC_CAST), (''static_cast'', TT_STATIC_CAST),
    (''reinterpret_cast'', TT_REINTERPRET_CAST), (''const_cast'', TT_CONST_CAST),
    (''const'', TT_DECLSPEC), (''constexpr'', TT_CONSTEXPR), (''constinit'', TT_CONSTINIT),
    (''consteval'', TT_CONSTEVAL), (''extern'', TT_EXTERN), (''inline'', TT_INLINE),
    (''mutable'', TT_MUTABLE), (''signed'', TT_DECLSPEC), (''static'', TT_STATIC),
    (''thread_local'', TT_THREAD_LOCAL), (''unsigned'', TT_DECLSPEC), (''volatile'', TT_DECLSPEC),
    (''char'', TT_TYPE_NAME), (''char8_t'', TT_TYPE_NAME), (''char16_t'', TT_TYPE_NAME),
    (''char32_t'', TT_TYPE_NAME), (''wchar_t'', TT_TYPE_NAME), (''bool'', TT_TYPE_NAME),
    (''short'', TT_TYPE_NAME), (''int'', TT_TYPE_NAME), (''long'', TT_TYPE_NAME),
    (''float'', TT_TYPE_NAME), (''double'', TT_TYPE_NAME), (''void'', TT_TYPE_NAME)]"

section \<open>State\<close>

record Options =
  use_escapes :: bool
  use_char_literals :: bool
  use_hex_literals :: bool
  use_oct_literals :: bool
  use_bin_literals :: bool
  use_gml_style_hex :: bool
  use_preprocessor_tokens :: bool

record CompatibilityOptions =
  use_cpp_strings :: bool
  use_cpp_literals :: bool
  use_cpp_escapes :: bool

definition Options_of :: "CompatibilityOptions \<Rightarrow> Options" where
  "Options_of c = \<lparr>use_escapes = use_cpp_escapes c, use_char_literals = use_cpp_strings c,
     use_hex_literals = True, use_oct_literals = True, use_bin_literals = True,
     use_gml_style_hex = True, use_preprocessor_tokens = False\<rparr>"

definition SetAsCpp :: "Options \<Rightarrow> Options" where
  "SetAsCpp o1 = o1\<lparr>use_escapes := True, use_char_literals := True, use_hex_literals := True,
     use_oct_literals := True, use_bin_literals := True, use_gml_style_hex := False,
     use_preprocessor_tokens := True\<rparr>"

definition kCppCompatibility :: CompatibilityOptions where
  "kCppCompatibility = \<lparr>use_cpp_strings = True, use_cpp_literals = True, use_cpp_escapes = True\<rparr>"

record OpenMacro =
  om_tokens :: "Token list"
  om_index :: nat
  om_name :: string

record Lexer =
  code :: string
  pos :: nat
  line_number :: nat
  line_last_evaluated_at :: nat
  last_line_position :: nat
  open_macros :: "OpenMacro list"
  options :: Options
  herr :: "(CodeSnippet \<times> string) list"

definition new_lexer :: "string \<Rightarrow> CompatibilityOptions \<Rightarrow> (CodeSnippet \<times> string) list \<Rightarrow> Lexer" where
  "new_lexer src c errs = \<lparr>code = src, pos = 0, line_number = 1, line_last_evaluated_at = 0,
     last_line_position = 2 ^ 64 - 1, open_macros = [], options = Options_of c, herr = errs\<rparr>"

definition report :: "CodeSnippet \<Rightarrow> string \<Rightarrow> Lexer \<Rightarrow> Lexer" where
  "report s msg l = l\<lparr>herr := herr l @ [(s, msg)]\<rparr>"

definition code_at :: "string \<Rightarrow> nat \<Rightarrow> char" where
  "code_at c i = (if i < length c then c ! i else CHR 0x00)"

definition substr :: "string \<Rightarrow> nat \<Rightarrow> nat \<Rightarrow> string" where
  "substr s p n = take n (drop p s)"

section \<open>Line numbers\<close>

function count_lines :: "nat \<Rightarrow> Lexer \<Rightarrow> Lexer" where
  "count_lines lpos l = (let k = line_last_evaluated_at l in
     if lpos \<le> k then l
     else if code_at (code l) k = CHR 0x0A then
       count_lines lpos (l\<lparr>line_number := line_number l + 1, last_line_position := k, line_last_evaluated_at := k + 1\<rparr>)
     else if code_at (code l) k = CHR 0x0D then
       if code_at (code l) (k + 1) = CHR 0x0A then
         count_lines lpos (l\<lparr>line_number := line_number l + 1, last_line_position := k + 1, line_last_evaluated_at := k + 2\<rparr>)
       else
         count_lines lpos (l\<lparr>line_number := line_number l + 1, last_line_position := k, line_last_evaluated_at := k + 1\<rparr>)
     else count_lines lpos (l\<lparr>line_last_evaluated_at := k + 1\<rparr>))"
  by pat_completeness auto
termination by (relation "measure (\<lambda>(lpos, l). lpos - line_last_evaluated_at l)") auto

declare count_lines.simps [simp del]

text \<open>Asked for a position before the last one, the lexer starts counting again.\<close>

definition ComputeLineNumber :: "nat \<Rightarrow> Lexer \<Rightarrow> Lexer" where
  "ComputeLineNumber lpos l = count_lines lpos
     (if lpos < line_last_evaluated_at l then l\<lparr>line_last_evaluated_at := 0, line_number := 1\<rparr> else l)"

definition Mark :: "nat \<Rightarrow> nat \<Rightarrow> Lexer \<Rightarrow> CodeSnippet \<times> Lexer" where
  "Mark p n l = (let l1 = ComputeLineNumber p l in
     (\<lparr>content = substr (code l1) p n, line = line_number l1, position = zsub p (last_line_position l1)\<rparr>, l1))"

text \<open>\<open>herr->Error(Mark(p, 1)) << msg\<close> and \<open>return Token(t, Mark(p, n))\<close>.\<close>

definition error_at :: "nat \<Rightarrow> string \<Rightarrow> Lexer \<Rightarrow> Lexer" where
  "error_at p msg l = (let (s, l1) = Mark p 1 l in report s msg l1)"

definition token_at :: "TokenType \<Rightarrow> nat \<Rightarrow> nat \<Rightarrow> Lexer \<Rightarrow> Token \<times> Lexer" where
  "token_at t p n l = (let (s, l1) = Mark p n l in (mk_token t s, l1))"

section \<open>String literals\<close>

text \<open>
  The loop of \<open>ProcessLiteral\<close> with escapes, on the literal from index \<open>i\<close> on: it stops
  before the last character.  \<open>None\<close> is an escape it does not know.
\<close>

definition escape :: "char \<Rightarrow> char option" where
  "escape c = map_of [(CHR 0x5C, CHR 0x5C), (CHR ''n'', CHR 0x0A), (CHR ''t'', CHR 0x09), (CHR ''v'', CHR 0x0B),
     (CHR ''b'', CHR 0x08), (CHR ''r'', CHR 0x0D), (CHR ''f'', CHR 0x0C), (CHR ''a'', CHR 0x07), (CHR ''?'', CHR ''?'')] c"

fun unescape :: "string \<Rightarrow> string option" where
  "unescape [] = Some []"
| "unescape [c] = Some []"
| "unescape (c # d # rest) = (if c = CHR 0x5C
     then Option.bind (escape d) (\<lambda>e. map_option (Cons e) (unescape rest))
     else map_option (Cons c) (unescape (d # rest)))"

definition ProcessLiteral :: "string \<Rightarrow> nat \<Rightarrow> Lexer \<Rightarrow> string \<times> Lexer" where
  "ProcessLiteral lit spos l = (if use_escapes (options l)
     then case unescape (tl lit) of
         None \<Rightarrow> (lit, error_at spos ''Unkown escape'' l)
       | Some v \<Rightarrow> (v, l)
     else (map (\<lambda>c. if c = CHR ''#'' then CHR 0x0A else c) (butlast (tl lit)), l))"

text \<open>The search for the closing quote: its index, or the position past the end.\<close>

function find_quote :: "char \<Rightarrow> bool \<Rightarrow> string \<Rightarrow> nat \<Rightarrow> nat option \<times> nat" where
  "find_quote q esc src p = (if length src \<le> p then (None, p) else
     let p1 = (if esc \<and> src ! p = CHR 0x5C then p + 1 else p) in
     if code_at src p1 = q then (Some p1, p1) else find_quote q esc src (p1 + 1))"
  by pat_completeness auto
termination by (relation "measure (\<lambda>(_, _, src, p). length src - p)") (auto split: if_splits)

declare find_quote.simps [simp del]

definition read_quoted :: "char \<Rightarrow> TokenType \<Rightarrow> string \<Rightarrow> nat \<Rightarrow> Lexer \<Rightarrow> Token \<times> Lexer" where
  "read_quoted q ty msg spos l = (case find_quote q (use_escapes (options l)) (code l) (pos l) of
      (None, p) \<Rightarrow> token_at ty spos (p - spos) (error_at spos msg (l\<lparr>pos := p\<rparr>))
    | (Some p, _) \<Rightarrow> let (value, l1) = ProcessLiteral (substr (code l) spos (p - spos + 1)) spos (l\<lparr>pos := p\<rparr>);
        (tok, l2) = token_at ty spos (p + 1 - spos) (l1\<lparr>pos := p + 1\<rparr>) in
      (tok\<lparr>content := value\<rparr>, l2))"

section \<open>Raw tokens\<close>

text \<open>\<open>while (p < code.length() && P(code[p])) ++p\<close>\<close>

definition skip_while :: "(char \<Rightarrow> bool) \<Rightarrow> string \<Rightarrow> nat \<Rightarrow> nat" where
  "skip_while P src p = p + length (takeWhile P (drop p src))"

function skip_comment :: "string \<Rightarrow> nat \<Rightarrow> nat" where
  "skip_comment src p = (if p < length src \<and> (src ! p \<noteq> CHR ''/'' \<or> code_at src (p - 1) \<noteq> CHR ''*'')
     then skip_comment src (p + 1) else p)"
  by pat_completeness auto
termination by (relation "measure (\<lambda>(src, p). length src - p)") auto

declare skip_comment.simps [simp del]

text \<open>One pass over the switch: a token, or a position to read again from.\<close>

datatype raw = Tok "Token \<times> Lexer" | Again Lexer

definition read_span :: "TokenType \<Rightarrow> nat \<Rightarrow> nat \<Rightarrow> Lexer \<Rightarrow> raw" where
  "read_span ty from p l = Tok (token_at ty from (p - from) (l\<lparr>pos := p\<rparr>))"

definition read_number :: "nat \<Rightarrow> Lexer \<Rightarrow> raw" where
  "read_number spos l = (let src = code l; p = skip_while is_digit src (pos l);
       p1 = (if p < length src \<and> src ! p = CHR ''.'' then skip_while is_digit src (p + 1) else p) in
     read_span TT_DECLITERAL spos p1 l)"

definition read_operator :: "nat \<Rightarrow> Lexer \<Rightarrow> raw" where
  "read_operator spos l = (let tnode = trie_Get token_lookup (code l) spos in
     if fst tnode \<noteq> TT_ERROR then read_span (fst tnode) spos (snd tnode) l
     else Again (error_at spos (''Unexpected symbol '' @ [CHR 0x27, code l ! spos, CHR 0x27]) l))"

definition read_name :: "nat \<Rightarrow> Lexer \<Rightarrow> raw" where
  "read_name spos l = read_span TT_IDENTIFIER spos (skip_while is_letterd (code l) (pos l)) l"

definition raw_step :: "Lexer \<Rightarrow> raw" where
  "raw_step l0 = (let src = code l0; spos = pos l0; c = src ! spos; opt = options l0 in
     if isspace c then Again (l0\<lparr>pos := skip_while isspace src (spos + 1)\<rparr>) else
     let p = spos + 1; l = l0\<lparr>pos := p\<rparr> in
     if c = CHR ''$'' \<and> use_gml_style_hex opt then
       (if \<not> is_nybble (code_at src p) then Again (error_at spos ''GML-style hex literal is trunucated'' l)
        else let p1 = skip_while is_nybble src (p + 1) in
          Tok (token_at TT_HEXLITERAL (spos + 1) (p1 - spos - 1) (l\<lparr>pos := p1\<rparr>)))
     else if c = CHR ''$'' \<or> is_letter c then read_name spos l
     else if c = CHR 0x22 then Tok (read_quoted c TT_STRINGLIT ''Unclosed double quote at this point'' spos l)
     else if c = CHR 0x27 then
       Tok (read_quoted c (if use_char_literals opt then TT_CHARLIT else TT_STRINGLIT) ''Unclosed single quote at this point'' spos l)
     else if c = CHR ''.'' \<and> p < length src \<and> is_digit (src ! p) then
       read_span TT_DECLITERAL spos (skip_while is_digit src p) l
     else if c = CHR ''0'' \<and> length src \<le> p then read_span TT_DECLITERAL spos p l
     else if c = CHR ''0'' \<and> src ! p = CHR ''x'' \<and> use_hex_literals opt then
       (let p1 = skip_while is_nybble src (p + 1) in
        Tok (token_at TT_HEXLITERAL (spos + 2) (p1 - spos - 2) (l\<lparr>pos := p1\<rparr>)))
     else if c = CHR ''0'' \<and> src ! p = CHR ''b'' \<and> use_bin_literals opt then
       (let p1 = skip_while is_bit src (p + 1) in
        Tok (token_at TT_BINLITERAL (spos + 2) (p1 - spos - 2) (l\<lparr>pos := p1\<rparr>)))
     else if c = CHR ''0'' \<and> src ! p = CHR ''o'' \<and> use_oct_literals opt then
       (let p1 = skip_while is_octal src (p + 1) in
        Tok (token_at TT_OCTLITERAL (spos + 2) (p1 - spos - 2) (l\<lparr>pos := p1\<rparr>)))
     else if is_digit c then read_number spos l
     else if c = CHR ''/'' \<and> p < length src \<and> src ! p = CHR ''/'' then
       Again (l\<lparr>pos := skip_while (\<lambda>x. x \<noteq> CHR 0x0A \<and> x \<noteq> CHR 0x0D) src p + 1\<rparr>)
     else if c = CHR ''/'' \<and> code_at src p = CHR ''*'' then
       Again (l\<lparr>pos := skip_comment src (p + 1) + 1\<rparr>)
     else if c = CHR ''#'' \<and> use_preprocessor_tokens opt then
       (if p < length src \<and> src ! p = CHR ''#''
        then Tok (token_at TTM_CONCAT spos 2 (l\<lparr>pos := p + 1\<rparr>))
        else Tok (token_at TTM_STRINGIFY spos 1 l))
     else read_operator spos l)"

definition end_token :: "Lexer \<Rightarrow> Token \<times> Lexer" where
  "end_token l = (let l1 = ComputeLineNumber (pos l) l in
     (mk_token TT_ENDOFCODE \<lparr>content = [], line = line_number l1, position = zsub (pos l1) (last_line_position l1)\<rparr>, l1))"

section \<open>\<open>ReadRawToken\<close>\<close>

text \<open>Marking a position changes the line counters and nothing else.\<close>

definition lex_frame :: "Lexer \<Rightarrow> string \<times> nat \<times> OpenMacro list \<times> Options" where
  "lex_frame l = (code l, pos l, open_macros l, options l)"

lemma lex_frame_eq:
  "lex_frame l = lex_frame l' \<longleftrightarrow> code l = code l' \<and> pos l = pos l' \<and> open_macros l = open_macros l' \<and> options l = options l'"
  by (auto simp: lex_frame_def)

lemma count_lines_frame [simp]: "lex_frame (count_lines p l) = lex_frame l \<and> herr (count_lines p l) = herr l"
proof (induction p l rule: count_lines.induct)
  case (1 lpos l)
  show ?case
    by (subst (1 2) count_lines.simps) (use "1.IH" in \<open>auto simp: Let_def lex_frame_def\<close>)
qed

lemma ComputeLineNumber_frame [simp]:
  "lex_frame (ComputeLineNumber p l) = lex_frame l" "herr (ComputeLineNumber p l) = herr l"
  using count_lines_frame[of p l] count_lines_frame[of p "l\<lparr>line_last_evaluated_at := 0, line_number := 1\<rparr>"]
  by (auto simp: ComputeLineNumber_def lex_frame_def)

lemma Mark_frame [simp]: "Mark p n l = (s, l') \<Longrightarrow> lex_frame l' = lex_frame l \<and> herr l' = herr l"
  by (auto simp: Mark_def Let_def)

lemma error_at_frame [simp]: "lex_frame (error_at p msg l) = lex_frame l"
  by (auto simp: error_at_def report_def Mark_def Let_def lex_frame_eq ComputeLineNumber_frame(1)[unfolded lex_frame_eq])

lemma token_at_frame [simp]: "lex_frame (snd (token_at t p n l)) = lex_frame l" "ttype (fst (token_at t p n l)) = t"
  by (simp_all add: token_at_def Mark_def Let_def)

lemmas frame_simps = error_at_frame[unfolded lex_frame_eq] token_at_frame(1)[unfolded lex_frame_eq]
  ComputeLineNumber_frame(1)[unfolded lex_frame_eq]

lemma skip_while_ge [simp]: "p \<le> skip_while P src p"
  by (simp add: skip_while_def)

lemma skip_while_le: "p \<le> length src \<Longrightarrow> skip_while P src p \<le> length src"
  using length_takeWhile_le[of P "drop p src"] by (simp add: skip_while_def)

lemma skip_comment_ge [simp]: "p \<le> skip_comment src p"
  by (induction src p rule: skip_comment.induct) (subst skip_comment.simps, auto)

lemma skip_comment_le: "p \<le> length src \<Longrightarrow> skip_comment src p \<le> length src"
  by (induction src p rule: skip_comment.induct) (subst skip_comment.simps, auto)

text \<open>The token of a key, and what lookup and insertion have to do with it.\<close>

fun trie_tok :: "TokenTrie \<Rightarrow> string \<Rightarrow> TokenType" where
  "trie_tok (TokenTrie token children) [] = token"
| "trie_tok (TokenTrie token children) (c # key) =
    (case children of None \<Rightarrow> TT_ERROR | Some Child \<Rightarrow> trie_tok (Child c) key)"

lemma trie_tok_empty [simp]: "trie_tok empty_trie key = TT_ERROR"
  by (cases key) (simp_all add: empty_trie_def)

lemma trie_tok_Put: "trie_tok (trie_Put key tok t) key' = (if key' = key then tok else trie_tok t key')"
proof (induction key tok t arbitrary: key' rule: trie_Put.induct)
  case (1 tok token children)
  then show ?case by (cases key') simp_all
next
  case (2 c key tok token children)
  then show ?case by (cases key') (auto split: option.splits)
qed

lemma trie_tok_of: "trie_tok (trie_of pairs) key = (case map_of (rev pairs) key of None \<Rightarrow> TT_ERROR | Some tok \<Rightarrow> tok)"
  by (induction pairs rule: rev_induct) (auto simp: trie_of_def trie_tok_Put)

lemma trie_Get_longest:
  assumes "trie_Get t src p = (tok, q)" and "p \<le> length src"
  shows "p \<le> q \<and> q \<le> length src \<and> (tok = TT_ERROR \<longrightarrow> q = p) \<and> tok = trie_tok t (substr src p (q - p)) \<and>
    (\<forall>n. q < p + n \<longrightarrow> p + n \<le> length src \<longrightarrow> trie_tok t (substr src p n) = TT_ERROR)"
  using assms
proof (induction t src p arbitrary: tok q rule: trie_Get.induct)
  case (1 token children src p)
  have step: "substr src p (Suc n) = src ! p # substr src (Suc p) n" if "p < length src" for n
    using that by (simp add: substr_def Cons_nth_drop_Suc[symmetric])
  have z: "substr src p 0 = []" by (simp add: substr_def)
  show ?case
  proof (cases children)
    case None
    have "trie_tok (TokenTrie token children) key = TT_ERROR" if "key \<noteq> []" for key
      using that None by (cases key) simp_all
    moreover have "substr src p n \<noteq> []" if "0 < n" "p + n \<le> length src" for n
      using that by (auto simp: substr_def)
    ultimately show ?thesis using "1.prems" None z by auto
  next
    case (Some Child)
    show ?thesis
    proof (cases "length src \<le> p")
      case True
      then show ?thesis using "1.prems" Some z by auto
    next
      case False
      obtain ctok cq where c: "trie_Get (Child (src ! p)) src (p + 1) = (ctok, cq)" by fastforce
      have le: "p + 1 \<le> length src" using False by simp
      have ih: "p + 1 \<le> cq" "cq \<le> length src" "ctok = trie_tok (Child (src ! p)) (substr src (p + 1) (cq - (p + 1)))"
        "ctok = TT_ERROR \<longrightarrow> cq = p + 1"
        "\<And>n. cq < p + 1 + n \<Longrightarrow> p + 1 + n \<le> length src \<Longrightarrow> trie_tok (Child (src ! p)) (substr src (p + 1) n) = TT_ERROR"
        using "1.IH"[OF Some False c] le by blast+
      have longer: "trie_tok (TokenTrie token children) (substr src p n) = TT_ERROR"
        if n: "cq < p + n" "p + n \<le> length src" for n
      proof -
        obtain m where m: "n = Suc m" using n ih(1) by (cases n) auto
        show ?thesis using ih(5)[of m] n Some False unfolding m by (simp add: step)
      qed
      show ?thesis
      proof (cases "ctok = TT_ERROR")
        case False
        then have r: "tok = ctok" "q = cq" using "1.prems" Some c \<open>\<not> length src \<le> p\<close> by (simp_all add: Let_def)
        have "cq - p = Suc (cq - (p + 1))" using ih(1) by simp
        then have tk: "ctok = trie_tok (TokenTrie token children) (substr src p (cq - p))"
          using ih(3) Some \<open>\<not> length src \<le> p\<close> by (simp add: step)
        have "p \<le> cq" using ih(1) by simp
        then show ?thesis unfolding r using ih(2) False tk longer by blast
      next
        case True
        then have r: "tok = token" "q = p" using "1.prems" Some c \<open>\<not> length src \<le> p\<close> by (simp_all add: Let_def)
        have "trie_tok (TokenTrie token children) (substr src p n) = TT_ERROR" if n: "p < p + n" "p + n \<le> length src" for n
        proof (cases "cq < p + n")
          case False
          then have "n = Suc 0" "cq = p + 1" using n ih(4) True by auto
          then show ?thesis using ih(3) True Some \<open>\<not> length src \<le> p\<close> by (simp add: step)
        qed (use longer n in blast)
        moreover have "token = trie_tok (TokenTrie token children) (substr src p (p - p))" using z by simp
        ultimately show ?thesis unfolding r using \<open>\<not> length src \<le> p\<close> by (intro conjI allI impI) simp_all
      qed
    qed
  qed
qed

lemma trie_tok_lookup: "trie_tok token_lookup key = (case map_of operators key of None \<Rightarrow> TT_ERROR | Some tok \<Rightarrow> tok)"
proof -
  have "distinct (map fst operators)" by (simp add: operators_def)
  then have "map_of (rev operators) = map_of operators" by (subst map_of_inject_set) (simp_all add: rev_map[symmetric])
  then show ?thesis by (simp add: token_lookup_def trie_tok_of)
qed

lemma operators_ok: "map_of operators key = Some tok \<Longrightarrow> tok \<noteq> TT_ERROR \<and> tok \<noteq> TT_ENDOFCODE \<and> tok \<noteq> TT_IDENTIFIER \<and> key \<noteq> []"
proof -
  have "list_all (\<lambda>(key, tok). tok \<noteq> TT_ERROR \<and> tok \<noteq> TT_ENDOFCODE \<and> tok \<noteq> TT_IDENTIFIER \<and> key \<noteq> []) operators"
    by (simp add: operators_def)
  then show "map_of operators key = Some tok \<Longrightarrow> ?thesis" by (auto simp: list_all_iff dest!: map_of_SomeD)
qed

lemma operator_found:
  assumes "trie_Get token_lookup src p = (tok, q)" and "tok \<noteq> TT_ERROR" and "p \<le> length src"
  shows "p < q \<and> q \<le> length src \<and> tok \<noteq> TT_ENDOFCODE \<and> tok \<noteq> TT_IDENTIFIER \<and> map_of operators (substr src p (q - p)) = Some tok"
proof -
  have g: "p \<le> q" "q \<le> length src" "tok = trie_tok token_lookup (substr src p (q - p))"
    using trie_Get_longest[OF assms(1,3)] by blast+
  then have m: "map_of operators (substr src p (q - p)) = Some tok"
    using assms(2) unfolding trie_tok_lookup by (cases "map_of operators (substr src p (q - p))") simp_all
  have "q \<noteq> p" using operators_ok[OF m] by (auto simp: substr_def)
  then show ?thesis using g m operators_ok[OF m] by auto
qed

section \<open>Progress\<close>

text \<open>A pass that starts inside the source moves on, and not past the position after its end.\<close>

definition moved :: "Lexer \<Rightarrow> Lexer \<Rightarrow> bool" where
  "moved l l' = (code l' = code l \<and> open_macros l' = open_macros l \<and> options l' = options l \<and>
     pos l < pos l' \<and> pos l' \<le> length (code l) + 1)"

definition raw_ok :: "Lexer \<Rightarrow> raw \<Rightarrow> bool" where
  "raw_ok l r = (case r of Again l' \<Rightarrow> moved l l' | Tok r \<Rightarrow> moved l (snd r) \<and> ttype (fst r) \<noteq> TT_ENDOFCODE)"

lemma raw_ok_simps [simp]:
  "raw_ok l (Again l') = moved l l'" "raw_ok l (Tok r) \<longleftrightarrow> moved l (snd r) \<and> ttype (fst r) \<noteq> TT_ENDOFCODE"
  by (simp_all add: raw_ok_def)

lemma raw_ok_if: "(b \<Longrightarrow> raw_ok l r) \<Longrightarrow> (\<not> b \<Longrightarrow> raw_ok l s) \<Longrightarrow> raw_ok l (if b then r else s)"
  by simp

lemma moved_frame: "moved l l' \<longleftrightarrow> (case lex_frame l' of (c, p, m, opt) \<Rightarrow>
    c = code l \<and> m = open_macros l \<and> opt = options l \<and> pos l < p \<and> p \<le> length (code l) + 1)"
  by (simp add: moved_def lex_frame_def)

lemma moved_simps [simp]:
  "moved l (error_at p msg l') = moved l l'" "moved l (snd (token_at t p n l')) = moved l l'"
  by (simp_all add: moved_frame)

lemma find_quote_bounds:
  "find_quote q esc src p = (r, p') \<Longrightarrow> p \<le> length src + 1 \<Longrightarrow> p \<le> p' \<and> p' \<le> length src + 1 \<and> (r = Some k \<longrightarrow> k = p' \<and> k \<le> length src)"
proof (induction q esc src p rule: find_quote.induct)
  case (1 q esc src p)
  let ?p = "if esc \<and> src ! p = CHR 0x5C then p + 1 else p"
  show ?case
  proof (cases "length src \<le> p")
    case True
    then show ?thesis using "1.prems" by (simp add: find_quote.simps[of q esc src p])
  next
    case False
    have p: "p \<le> ?p" "?p \<le> length src" using False by auto
    show ?thesis
    proof (cases "code_at src ?p = q")
      case True
      then show ?thesis using "1.prems" p False by (auto simp: find_quote.simps[of q esc src p] Let_def)
    next
      case f: False
      then have "find_quote q esc src (?p + 1) = (r, p')" using "1.prems"(1) False
        by (simp add: find_quote.simps[of q esc src p] Let_def)
      then have "?p + 1 \<le> p' \<and> p' \<le> length src + 1 \<and> (r = Some k \<longrightarrow> k = p' \<and> k \<le> length src)"
        using "1.IH"[OF False refl f] p by simp
      then show ?thesis using p by simp
    qed
  qed
qed

lemma ProcessLiteral_frame: "lex_frame (snd (ProcessLiteral lit spos l)) = lex_frame l"
  by (auto simp: ProcessLiteral_def split: option.splits)

lemma read_quoted_moved:
  assumes "pos l = pos l0 + 1" and "pos l \<le> length (code l)" and "code l = code l0" and "open_macros l = open_macros l0"
    and "options l = options l0" and "ty \<noteq> TT_ENDOFCODE"
  shows "moved l0 (snd (read_quoted q ty msg (pos l0) l)) \<and> ttype (fst (read_quoted q ty msg (pos l0) l)) \<noteq> TT_ENDOFCODE"
proof -
  obtain r p where f: "find_quote q (use_escapes (options l)) (code l) (pos l) = (r, p)" by fastforce
  have b: "pos l \<le> p" "p \<le> length (code l) + 1" "r = Some k \<Longrightarrow> k = p \<and> k \<le> length (code l)" for k
    using find_quote_bounds[OF f, of k] assms(2) by auto
  show ?thesis
  proof (cases r)
    case None
    then show ?thesis using f b assms by (simp add: read_quoted_def) (simp add: moved_def)
  next
    case (Some k)
    let ?lit = "substr (code l) (pos l0) (k - pos l0 + 1)"
    obtain v l1 where pl: "ProcessLiteral ?lit (pos l0) (l\<lparr>pos := k\<rparr>) = (v, l1)" by fastforce
    then have fr: "lex_frame l1 = lex_frame (l\<lparr>pos := k\<rparr>)" using ProcessLiteral_frame by (metis snd_conv)
    obtain tok l2 where t: "token_at ty (pos l0) (k + 1 - pos l0) (l1\<lparr>pos := k + 1\<rparr>) = (tok, l2)" by fastforce
    then have "lex_frame l2 = lex_frame (l1\<lparr>pos := k + 1\<rparr>)" "ttype tok = ty"
      using token_at_frame by (metis snd_conv fst_conv)+
    then show ?thesis using f Some pl t b(1) b(3)[OF Some] fr assms
      by (simp add: read_quoted_def moved_frame lex_frame_def)
  qed
qed

lemma raw_step_ok:
  assumes "pos l < length (code l)"
  shows "raw_ok l (raw_step l)"
proof -
  let ?p = "Suc (pos l)" and ?src = "code l"
  have p: "?p \<le> length ?src" using assms by simp
  have mv: "moved l (l\<lparr>pos := n\<rparr>)" if "?p \<le> n" "n \<le> length ?src + 1" for n
    using that by (simp add: moved_def)
  have sw: "?p \<le> skip_while P ?src n" "skip_while P ?src n \<le> Suc (length ?src)" "pos l \<le> skip_while P ?src n"
    "skip_while P ?src n \<le> length ?src" if "?p \<le> n" "n \<le> length ?src" for P n
    using that order.trans[OF _ skip_while_ge[of n P ?src]] skip_while_le[of n ?src P] by auto
  have sc: "pos l \<le> skip_comment ?src n" "skip_comment ?src n \<le> length ?src" if "?p \<le> n" "n \<le> length ?src" for n
    using that order.trans[OF _ skip_comment_ge[of n ?src]] skip_comment_le[of n ?src] by auto
  have at: "Suc (pos l) < length ?src" if "code_at ?src ?p = CHR ''*''"
    using that by (auto simp: code_at_def split: if_splits)
  have nyb: "Suc (pos l) < length ?src" if "is_nybble (code_at ?src ?p)"
    using that by (auto simp: code_at_def is_nybble_def is_hexdigit_def between_def less_eq_char_def split: if_splits)
  have quoted: "moved l (snd (read_quoted q ty msg (pos l) (l\<lparr>pos := ?p\<rparr>)))"
    "ttype (fst (read_quoted q ty msg (pos l) (l\<lparr>pos := ?p\<rparr>))) \<noteq> TT_ENDOFCODE" if "ty \<noteq> TT_ENDOFCODE" for q ty msg
    using read_quoted_moved[of "l\<lparr>pos := ?p\<rparr>" l ty q msg] p that by simp_all
  have op: "raw_ok l (read_operator (pos l) (l\<lparr>pos := ?p\<rparr>))"
  proof -
    obtain tok q where g: "trie_Get token_lookup ?src (pos l) = (tok, q)" by fastforce
    show ?thesis
    proof (cases "tok = TT_ERROR")
      case True
      then show ?thesis using g p by (simp add: read_operator_def mv)
    next
      case False
      then have "?p \<le> q" "q \<le> length ?src + 1" "tok \<noteq> TT_ENDOFCODE" using operator_found[OF g False] p by auto
      then show ?thesis using False g mv by (simp add: read_operator_def read_span_def)
    qed
  qed
  have number: "raw_ok l (read_number (pos l) (l\<lparr>pos := ?p\<rparr>))"
  proof -
    define q where "q = skip_while is_digit ?src ?p"
    have q: "?p \<le> q" "q \<le> length ?src" using skip_while_ge skip_while_le[OF p] by (auto simp: q_def)
    show ?thesis
    proof (cases "q < length ?src \<and> ?src ! q = CHR ''.''")
      case True
      then have "?p \<le> skip_while is_digit ?src (Suc q)" "skip_while is_digit ?src (Suc q) \<le> length ?src + 1"
        using sw(1,2)[OF le_SucI[OF q(1)] Suc_leI] True by simp_all
      then show ?thesis using True by (simp add: read_number_def read_span_def Let_def mv flip: q_def)
    next
      case False
      then show ?thesis using q by (auto simp add: read_number_def read_span_def Let_def mv simp flip: q_def)
    qed
  qed
  show ?thesis
    unfolding raw_step_def Let_def
    by (intro raw_ok_if)
       (use p at nyb in \<open>simp_all add: quoted op number read_name_def read_span_def mv sw sc Suc_leI\<close>)
qed

function ReadRawToken :: "Lexer \<Rightarrow> Token \<times> Lexer" where
  "ReadRawToken l = (if length (code l) \<le> pos l then end_token l
     else case raw_step l of Again l' \<Rightarrow> ReadRawToken l' | Tok r \<Rightarrow> r)"
  by pat_completeness auto
termination
  by (relation "measure (\<lambda>l. length (code l) - pos l)") (use raw_step_ok in \<open>fastforce simp: moved_def not_le\<close>)+

declare ReadRawToken.simps [simp del]

end
