(* ===== verification/LexLaws.thy ===== *)
theory LexLaws
  imports LexRaw
begin

text \<open>
  What raw lexing guarantees: every token moves the lexer on, line numbers count the line
  ends of the source, operators are the longest of the table, and what escapes do to
  string literals.
\<close>

section \<open>Line numbers\<close>

text \<open>The line ends of a text: LF, CR or CR LF.\<close>

fun breaks :: "string \<Rightarrow> nat" where
  "breaks [] = 0"
| "breaks (c # cs) = (if c = CHR 0x0A then 1 + breaks cs
     else if c = CHR 0x0D then (case cs of d # ds \<Rightarrow> if d = CHR 0x0A then 1 + breaks ds else 1 + breaks cs | [] \<Rightarrow> 1)
     else breaks cs)"

lemma breaks_snoc:
  "breaks (xs @ [c]) = breaks xs + (if c = CHR 0x0A \<and> xs \<noteq> [] \<and> last xs = CHR 0x0D then 0
     else if c = CHR 0x0A \<or> c = CHR 0x0D then 1 else 0)"
proof (induction xs rule: breaks.induct)
  case (2 d ds)
  then show ?case by (cases ds) (auto split: if_splits)
qed simp

text \<open>A position between the CR and the LF of a line end.\<close>

definition inside_crlf :: "string \<Rightarrow> nat \<Rightarrow> bool" where
  "inside_crlf src p = (0 < p \<and> p < length src \<and> src ! (p - 1) = CHR 0x0D \<and> src ! p = CHR 0x0A)"

definition lines_ok :: "Lexer \<Rightarrow> bool" where
  "lines_ok l = (line_number l = 1 + breaks (take (line_last_evaluated_at l) (code l)) \<and>
     \<not> inside_crlf (code l) (line_last_evaluated_at l))"

lemma breaks_take_Suc:
  "breaks (take (Suc k) src) = breaks (take k src) + (if k < length src \<and> \<not> inside_crlf src k \<and> src ! k \<in> {CHR 0x0A, CHR 0x0D} then 1 else 0)"
proof (cases "k < length src")
  case True
  then have "take (Suc k) src = take k src @ [src ! k]" by (rule take_Suc_conv_app_nth)
  moreover have "last (take k src) = src ! (k - 1)" if "0 < k" using that True by (cases src) (simp_all add: last_conv_nth min_def)
  ultimately show ?thesis using True by (cases k) (auto simp: breaks_snoc inside_crlf_def)
qed simp

lemma code_at_line_end: "code_at src k = c \<Longrightarrow> c \<noteq> CHR 0x00 \<Longrightarrow> k < length src \<and> src ! k = c"
  by (auto simp: code_at_def split: if_splits)

lemma code_at_no_line_end: "k < length src \<Longrightarrow> code_at src k = src ! k"
  by (simp add: code_at_def)

lemma count_lines_ok:
  assumes "lines_ok l"
  shows "lines_ok (count_lines p l) \<and>
    (line_last_evaluated_at l \<le> p \<longrightarrow> \<not> inside_crlf (code l) p \<longrightarrow> line_last_evaluated_at (count_lines p l) = p)"
  using assms
proof (induction p l rule: count_lines.induct)
  case (1 p l)
  let ?k = "line_last_evaluated_at l" and ?src = "code l"
  have inv: "line_number l = 1 + breaks (take ?k ?src)" "\<not> inside_crlf ?src ?k" using "1.prems" by (simp_all add: lines_ok_def)
  show ?case
  proof (cases "p \<le> ?k")
    case True
    then show ?thesis using "1.prems" by (auto simp: count_lines.simps[of p l] Let_def)
  next
    case lt: False
    show ?thesis
    proof (cases "code_at ?src ?k = CHR 0x0A")
      case True
      let ?l = "l\<lparr>line_number := line_number l + 1, last_line_position := ?k, line_last_evaluated_at := ?k + 1\<rparr>"
      have "lines_ok ?l" using inv code_at_line_end[OF True]
        by (auto simp: lines_ok_def breaks_take_Suc) (auto simp: inside_crlf_def)
      then show ?thesis using "1.IH"(1)[OF refl lt True] lt True by (simp add: count_lines.simps[of p l] Let_def)
    next
      case nl: False
      show ?thesis
      proof (cases "code_at ?src ?k = CHR 0x0D")
        case cr: True
        note k = code_at_line_end[OF cr]
        show ?thesis
        proof (cases "code_at ?src (?k + 1) = CHR 0x0A")
          case True
          let ?l = "l\<lparr>line_number := line_number l + 1, last_line_position := ?k + 1, line_last_evaluated_at := ?k + 2\<rparr>"
          note k1 = code_at_line_end[OF True]
          have in1: "inside_crlf ?src (?k + 1)" using k k1 by (simp add: inside_crlf_def)
          then have "breaks (take (?k + 2) ?src) = breaks (take ?k ?src) + 1"
            using inv(2) k breaks_take_Suc[of ?k ?src] breaks_take_Suc[of "?k + 1" ?src] by simp
          moreover have "\<not> inside_crlf ?src (?k + 2)" using k1 by (auto simp: inside_crlf_def)
          ultimately have "lines_ok ?l" using inv by (simp add: lines_ok_def)
          moreover have "p \<noteq> ?k + 1" if "\<not> inside_crlf ?src p" using that in1 by auto
          ultimately show ?thesis using "1.IH"(2)[OF refl lt nl cr True] lt nl cr True
            by (auto simp: count_lines.simps[of p l] Let_def)
        next
          case False
          let ?l = "l\<lparr>line_number := line_number l + 1, last_line_position := ?k, line_last_evaluated_at := ?k + 1\<rparr>"
          have "lines_ok ?l" using inv k False
            by (auto simp: lines_ok_def breaks_take_Suc) (auto simp: inside_crlf_def code_at_def)
          then show ?thesis using "1.IH"(3)[OF refl lt nl cr False] lt nl cr False by (simp add: count_lines.simps[of p l] Let_def)
        qed
      next
        case cr: False
        let ?l = "l\<lparr>line_last_evaluated_at := ?k + 1\<rparr>"
        have "lines_ok ?l" using inv nl cr
          by (auto simp: lines_ok_def breaks_take_Suc code_at_def) (auto simp: inside_crlf_def)
        then show ?thesis using "1.IH"(4)[OF refl lt nl cr] lt nl cr by (simp add: count_lines.simps[of p l] Let_def)
      qed
    qed
  qed
qed

lemma ComputeLineNumber_ok:
  assumes "lines_ok l"
  shows "lines_ok (ComputeLineNumber p l)"
    and "\<not> inside_crlf (code l) p \<Longrightarrow> line_number (ComputeLineNumber p l) = 1 + breaks (take p (code l))"
proof -
  let ?l = "if p < line_last_evaluated_at l then l\<lparr>line_last_evaluated_at := 0, line_number := 1\<rparr> else l"
  have "lines_ok ?l" using assms by (simp add: lines_ok_def inside_crlf_def)
  from count_lines_ok[OF this, of p]
  have c: "lines_ok (ComputeLineNumber p l)"
    "\<not> inside_crlf (code ?l) p \<Longrightarrow> line_last_evaluated_at (ComputeLineNumber p l) = p"
    by (auto simp: ComputeLineNumber_def)
  show "lines_ok (ComputeLineNumber p l)" by (rule c(1))
  assume "\<not> inside_crlf (code l) p"
  then show "line_number (ComputeLineNumber p l) = 1 + breaks (take p (code l))"
    using c by (simp add: lines_ok_def frame_simps)
qed

lemma lines_ok_pos [simp]: "lines_ok (l\<lparr>pos := p\<rparr>) = lines_ok l" "lines_ok (l\<lparr>herr := e\<rparr>) = lines_ok l"
  by (simp_all add: lines_ok_def)

lemma lines_ok_Mark [simp]:
  "lines_ok l \<Longrightarrow> lines_ok (snd (token_at t p n l))" "lines_ok l \<Longrightarrow> lines_ok (error_at p msg l)"
  "lines_ok l \<Longrightarrow> lines_ok (snd (end_token l))"
  using ComputeLineNumber_ok(1)[of l] by (simp_all add: token_at_def error_at_def end_token_def Mark_def report_def Let_def)

definition raw_lines :: "raw \<Rightarrow> bool" where
  "raw_lines r = (case r of Again l' \<Rightarrow> lines_ok l' | Tok tl' \<Rightarrow> lines_ok (snd tl'))"

lemma raw_lines_simps [simp]: "raw_lines (Again l) = lines_ok l" "raw_lines (Tok r) = lines_ok (snd r)"
  by (simp_all add: raw_lines_def)

lemma raw_lines_if: "(b \<Longrightarrow> raw_lines r) \<Longrightarrow> (\<not> b \<Longrightarrow> raw_lines s) \<Longrightarrow> raw_lines (if b then r else s)"
  by simp

lemma read_quoted_lines: "lines_ok l \<Longrightarrow> lines_ok (snd (read_quoted q ty msg p l))"
proof -
  assume l: "lines_ok l"
  have "lines_ok (snd (ProcessLiteral lit p (l\<lparr>pos := k\<rparr>)))" for lit k
    using l by (auto simp: ProcessLiteral_def split: option.splits)
  then have "lines_ok l1" if "ProcessLiteral lit p (l\<lparr>pos := k\<rparr>) = (v, l1)" for lit k v l1
    using that by (metis snd_conv)
  then show ?thesis using l
    by (auto simp: read_quoted_def split: prod.splits option.splits) (metis lines_ok_Mark(1) lines_ok_pos(1) snd_conv)+
qed

lemma raw_step_lines: "lines_ok l \<Longrightarrow> raw_lines (raw_step l)"
  unfolding raw_step_def Let_def
  by (intro raw_lines_if)
     (simp_all add: read_quoted_lines read_span_def read_name_def read_number_def read_operator_def Let_def)

lemma ReadRawToken_lines: "lines_ok l \<Longrightarrow> lines_ok (snd (ReadRawToken l))"
proof (induction l rule: ReadRawToken.induct)
  case (1 l)
  show ?case
  proof (cases "length (code l) \<le> pos l")
    case False
    show ?thesis
    proof (cases "raw_step l")
      case (Tok r)
      then show ?thesis using False raw_step_lines[OF "1.prems"] by (simp add: ReadRawToken.simps[of l])
    next
      case (Again l')
      then show ?thesis using False raw_step_lines[OF "1.prems"] "1.IH"[OF False Again] by (simp add: ReadRawToken.simps[of l])
    qed
  qed (use "1.prems" in \<open>simp add: ReadRawToken.simps[of l]\<close>)
qed

section \<open>Progress\<close>

lemma moved_trans: "moved l l' \<Longrightarrow> moved l' l'' \<Longrightarrow> moved l l''"
  by (auto simp: moved_def)

lemma ReadRawToken_moved:
  assumes "ReadRawToken l = (t, l')"
  shows "code l' = code l \<and> open_macros l' = open_macros l \<and> options l' = options l \<and>
    (if ttype t = TT_ENDOFCODE then length (code l) \<le> pos l' \<and> pos l \<le> pos l' \<and> pos l' \<le> max (pos l) (length (code l) + 1) else pos l < length (code l) \<and> moved l l')"
  using assms
proof (induction l rule: ReadRawToken.induct)
  case (1 l)
  show ?case
  proof (cases "length (code l) \<le> pos l")
    case True
    then have "end_token l = (t, l')" using "1.prems" by (simp add: ReadRawToken.simps[of l])
    then show ?thesis using True by (auto simp: end_token_def Let_def frame_simps)
  next
    case False
    then have ok: "raw_ok l (raw_step l)" using raw_step_ok by simp
    show ?thesis
    proof (cases "raw_step l")
      case (Tok r)
      then show ?thesis using False ok "1.prems" by (auto simp: ReadRawToken.simps[of l] moved_def)
    next
      case (Again l1)
      then have m: "moved l l1" using ok by simp
      have "ReadRawToken l1 = (t, l')" using "1.prems" False Again by (simp add: ReadRawToken.simps[of l])
      from "1.IH"[OF False Again this] show ?thesis using m False by (auto simp: moved_def)
    qed
  qed
qed

text \<open>\<open>ReadRawToken\<close> moves on: it returns a token other than the end of the code only from
  inside the source, it then advances, to at most the position after the end, and it changes
  neither the source nor the options.\<close>

theorem ReadRawToken_progress:
  assumes "ReadRawToken l = (t, l')" and "ttype t \<noteq> TT_ENDOFCODE"
  shows "pos l < length (code l) \<and> pos l < pos l' \<and> pos l' \<le> length (code l) + 1 \<and> code l' = code l \<and> options l' = options l"
  using ReadRawToken_moved[OF assms(1)] assms(2) by (simp add: moved_def)

theorem ReadRawToken_progress_witness:
  "pos (snd (ReadRawToken (new_lexer ''x+1'' kCppCompatibility []))) = 1 \<and>
   pos (new_lexer ''x+1'' kCppCompatibility []) < pos (snd (ReadRawToken (new_lexer ''x+1'' kCppCompatibility [])))"
proof -
  let ?l = "new_lexer ''x+1'' kCppCompatibility []"
  have r: "ttype (fst (ReadRawToken ?l)) = TT_IDENTIFIER \<and> pos (snd (ReadRawToken ?l)) = 1"
    unfolding new_lexer_def
    by (simp add: ReadRawToken.simps raw_step_def Let_def isspace_def between_def is_letter_def is_letterd_def
      is_digit_def less_eq_char_def read_name_def read_span_def skip_while_def frame_simps)
  then show ?thesis using ReadRawToken_progress[of ?l "fst (ReadRawToken ?l)" "snd (ReadRawToken ?l)"] by simp
qed

text \<open>C21.  Line numbers are right however the lexer got where it is: after any number of
  tokens, a mark at a position that does not split a CR LF has the line that the line ends before it count.\<close>

theorem Mark_line:
  assumes "lines_ok l" and "\<not> inside_crlf (code l) p"
  shows "lines_ok (snd (ReadRawToken l)) \<and> line (fst (Mark p n (snd (ReadRawToken l)))) = 1 + breaks (take p (code l))"
proof -
  have "code (snd (ReadRawToken l)) = code l" using ReadRawToken_moved[of l] by (metis prod.collapse)
  then show ?thesis using ReadRawToken_lines[OF assms(1)] ComputeLineNumber_ok(2)[of "snd (ReadRawToken l)" p] assms(2)
    by (simp add: Mark_def Let_def)
qed

theorem Mark_line_witness:
  "line (fst (Mark 4 1 (snd (ReadRawToken (new_lexer [CHR ''a'', CHR 0x0D, CHR 0x0A, CHR 0x0A, CHR ''b''] kCppCompatibility []))))) = 3"
  using Mark_line[of "new_lexer [CHR ''a'', CHR 0x0D, CHR 0x0A, CHR 0x0A, CHR ''b''] kCppCompatibility []" 4 1]
  by (simp add: new_lexer_def lines_ok_def inside_crlf_def)

section \<open>Operators\<close>

text \<open>C16.  The trie finds the longest operator of the table: when any operator starts at a
  position, the result is the token of the longest one and the position after it; otherwise it is
  \<open>TT_ERROR\<close>.\<close>

theorem operator_longest_match:
  assumes "p \<le> length src"
  shows "case trie_Get token_lookup src p of (tok, q) \<Rightarrow>
    (if \<exists>n. p + n \<le> length src \<and> map_of operators (substr src p n) \<noteq> None
     then p < q \<and> q \<le> length src \<and> map_of operators (substr src p (q - p)) = Some tok \<and>
       (\<forall>n. q < p + n \<longrightarrow> p + n \<le> length src \<longrightarrow> map_of operators (substr src p n) = None)
     else tok = TT_ERROR \<and> q = p)"
proof -
  obtain tok q where g: "trie_Get token_lookup src p = (tok, q)" by fastforce
  from trie_Get_longest[OF g assms]
  have l: "p \<le> q" "q \<le> length src" "tok = TT_ERROR \<longrightarrow> q = p" "tok = trie_tok token_lookup (substr src p (q - p))"
    "\<forall>n. q < p + n \<longrightarrow> p + n \<le> length src \<longrightarrow> trie_tok token_lookup (substr src p n) = TT_ERROR" by blast+
  have none: "trie_tok token_lookup key = TT_ERROR \<longleftrightarrow> map_of operators key = None" for key
    using operators_ok[of key] unfolding trie_tok_lookup by (cases "map_of operators key") simp_all
  show ?thesis
  proof (cases "tok = TT_ERROR")
    case True
    have nn: "map_of operators (substr src p n) = None" if "p + n \<le> length src" for n
    proof (cases "n = 0")
      case True
      have "q = p" using l(3) \<open>tok = TT_ERROR\<close> by blast
      then show ?thesis using l(4) \<open>tok = TT_ERROR\<close> none[of "substr src p 0"] True by simp
    next
      case False
      have "q = p" using l(3) True by blast
      then have "q < p + n" using False by simp
      then show ?thesis using l(5) that none by blast
    qed
    have nex: "\<not> (\<exists>n. p + n \<le> length src \<and> map_of operators (substr src p n) \<noteq> None)"
      by (rule notI, elim exE conjE, erule notE, erule nn)
    show ?thesis unfolding g prod.case if_not_P[OF nex] using True l(3) by blast
  next
    case False
    have f: "p < q" "q \<le> length src" "map_of operators (substr src p (q - p)) = Some tok"
      using operator_found[OF g False assms] by blast+
    have ex: "\<exists>n. p + n \<le> length src \<and> map_of operators (substr src p n) \<noteq> None"
      by (rule exI[of _ "q - p"]) (use f(1,2) in \<open>simp add: f(3)\<close>)
    have "\<forall>n. q < p + n \<longrightarrow> p + n \<le> length src \<longrightarrow> map_of operators (substr src p n) = None"
      using l(5) none by blast
    then show ?thesis unfolding g prod.case if_P[OF ex] using f by blast
  qed
qed

theorem operator_longest_match_witness: "trie_Get token_lookup ''a<<=b'' 1 = (TT_ASSOP, 4)"
proof -
  obtain tok q where g: "trie_Get token_lookup ''a<<=b'' 1 = (tok, q)" by fastforce
  have 3: "map_of operators (substr ''a<<=b'' 1 3) = Some TT_ASSOP" by (simp add: substr_def operators_def)
  have 4: "map_of operators (substr ''a<<=b'' 1 4) = None" by (simp add: substr_def operators_def)
  have "\<exists>n. 1 + n \<le> length ''a<<=b'' \<and> map_of operators (substr ''a<<=b'' 1 n) \<noteq> None"
    by (rule exI[of _ 3]) (use 3 in simp)
  from operator_longest_match[of 1 "''a<<=b''", unfolded g prod.case if_P[OF this]]
  have r: "1 < q" "q \<le> 5" "map_of operators (substr ''a<<=b'' 1 (q - 1)) = Some tok"
    "\<forall>n. q < 1 + n \<longrightarrow> 1 + n \<le> 5 \<longrightarrow> map_of operators (substr ''a<<=b'' 1 n) = None" by simp_all
  have "q \<noteq> 5" using r(3) 4 by auto
  moreover have "\<not> q < 4" using r(4) 3 by fastforce
  ultimately have "q = 4" using r(2) by simp
  then show ?thesis using g r(3) 3 by simp
qed

end
