(* ===== verification/Macros.thy ===== *)
theory Macros
  imports LexRaw
begin

text \<open>
  Preprocessor macros (\<open>CompilerSource/parsing/macros.h\<close> and \<open>macros.cpp\<close>): the components of
  a replacement list, token pasting, stringification and the expansion of a macro function.
  Errors go to the error handler, a list that the operations extend; their messages are
  the texts of the code without the numbers inserted at the end.  A component whose span is
  reversed makes \<open>vector::insert\<close> copy an invalid range, which is undefined.
\<close>

type_synonym errors = "(CodeSnippet \<times> string) list"

datatype FuncComponent = TOKEN_SPAN nat nat | RAW_ARGUMENT nat | EXPANDED_ARGUMENT nat | PASTE | STRINGIFY nat | VA_OPT

record Macro =
  m_name :: string
  m_value :: "Token list"
  parameters :: "string list option"
  is_variadic :: bool
  parts :: "FuncComponent list"

section \<open>Text\<close>

fun quote_char :: "char \<Rightarrow> string" where
  "quote_char c = (if c = CHR 0x0D then [CHR 0x5C, CHR ''r''] else if c = CHR 0x0A then [CHR 0x5C, CHR ''n'']
     else if c = CHR 0x5C then [CHR 0x5C, CHR 0x5C] else if c = CHR 0x22 then [CHR 0x5C, CHR 0x22]
     else if c = CHR 0x27 then [CHR 0x5C, CHR 0x27] else [c])"

definition QuoteString :: "string \<Rightarrow> string" where
  "QuoteString str = [CHR 0x22] @ concat (map quote_char str) @ [CHR 0x22]"

fun prototype :: "bool \<Rightarrow> string list \<Rightarrow> string" where
  "prototype va [] = []"
| "prototype va [p] = p @ (if va then ''...'' else [])"
| "prototype va (p # q # ps) = p @ '', '' @ prototype va (q # ps)"

definition NameAndPrototype :: "Macro \<Rightarrow> string" where
  "NameAndPrototype m = (case parameters m of None \<Rightarrow> m_name m
     | Some ps \<Rightarrow> m_name m @ ''('' @ prototype (is_variadic m) ps @ '')'')"

fun value_lines :: "Token list \<Rightarrow> string" where
  "value_lines [] = []"
| "value_lines [t] = ''  '' @ Token_ToString t"
| "value_lines (t # u # ts) = ''  '' @ Token_ToString t @ [CHR 0x5C, CHR 0x0A] @ value_lines (u # ts)"

definition Macro_ToString :: "Macro \<Rightarrow> string" where
  "Macro_ToString m = ''#define '' @ NameAndPrototype m @ '' '' @ [CHR 0x5C, CHR 0x0A] @ value_lines (m_value m)"

section \<open>Components of a replacement list\<close>

definition meaningful_span :: "Token list \<Rightarrow> nat \<Rightarrow> nat \<Rightarrow> bool" where
  "meaningful_span tokens b e = list_ex (\<lambda>i. \<not> PreprocessesAway (tokens ! i)) [b..<e]"

text \<open>\<open>params_by_name\<close>: a later parameter of the same name replaces an earlier one.\<close>

definition params_by_name :: "string list \<Rightarrow> string \<Rightarrow> nat option" where
  "params_by_name params = map_of (rev (zip params [0..<length params]))"

text \<open>\<open>while (++i < tokens.size() && tokens[i].PreprocessesAway())\<close>\<close>

definition next_token :: "Token list \<Rightarrow> nat \<Rightarrow> nat" where
  "next_token tokens i = Suc i + length (takeWhile PreprocessesAway (drop (Suc i) tokens))"

definition tok_error :: "Token \<Rightarrow> string \<Rightarrow> errors" where
  "tok_error t msg = [(snippet_of t, msg)]"

text \<open>An argument is used raw next to a \<open>##\<close>, otherwise expanded.\<close>

definition argument_part :: "Token list \<Rightarrow> nat \<Rightarrow> FuncComponent list \<Rightarrow> nat \<Rightarrow> FuncComponent" where
  "argument_part tokens i res arg_num = (let j = next_token tokens i in
     if j < length tokens \<and> ttype (tokens ! j) = TTM_CONCAT \<or> res \<noteq> [] \<and> last res = PASTE
     then RAW_ARGUMENT arg_num else EXPANDED_ARGUMENT arg_num)"

definition span_to :: "nat \<Rightarrow> nat \<Rightarrow> FuncComponent list" where
  "span_to e i = (if e \<noteq> i then [TOKEN_SPAN e i] else [])"

function componentize_from :: "Token list \<Rightarrow> string list \<Rightarrow> nat \<Rightarrow> nat \<Rightarrow> FuncComponent list \<Rightarrow> errors \<Rightarrow> FuncComponent list \<times> errors" where
  "componentize_from tokens params i e res errs = (if length tokens \<le> i
     then (if e < length tokens then res @ [TOKEN_SPAN e (length tokens)] else res, errs)
     else let t = tokens ! i in
     if ttype t = TTM_CONCAT then
       if i = 0 then componentize_from tokens params (i + 1) e res
         (errs @ tok_error t ''Concatenation marker (`##`) cannot appear at either end of a replacement list.'')
       else
         let res1 = (if meaningful_span tokens e i then res @ [TOKEN_SPAN e i] else res) @ [PASTE];
             j = next_token tokens i in
         componentize_from tokens params j j res1 errs
     else if ttype t = TT_IDENTIFIER then
       case params_by_name params (content t) of
         Some n \<Rightarrow> (let res1 = res @ span_to e i in
           componentize_from tokens params (i + 1) (i + 1) (res1 @ [argument_part tokens i res1 n]) errs)
       | None \<Rightarrow>
           if content t = ''__VA_OPT__'' then
             let res1 = res @ span_to e i @ [VA_OPT] @ span_to (i + 1) i in
             componentize_from tokens params (i + 1) (i + 1) (res1 @ [argument_part tokens i res1 0]) errs
           else if content t = ''__VA_ARGS__'' then
             let res1 = res @ span_to e i in
             componentize_from tokens params (i + 1) (i + 1) (res1 @ [argument_part tokens i res1 (zsub (length params) 1)]) errs
           else componentize_from tokens params (i + 1) e res errs
     else if ttype t = TTM_STRINGIFY then
       let j = next_token tokens i in
       if length tokens \<le> j \<or> ttype (tokens ! j) \<noteq> TT_IDENTIFIER then
         componentize_from tokens params (i + 1) e res (errs @ tok_error t ''# must be followed by a parameter name'')
       else let res1 = res @ span_to e i in
         (case params_by_name params (content (tokens ! j)) of
           None \<Rightarrow> componentize_from tokens params (j + 1) e res1
             (errs @ tok_error (tokens ! j) (''# must be followed by a parameter name; '' @ content (tokens ! j) @ '' is not a parameter''))
         | Some n \<Rightarrow> componentize_from tokens params (j + 1) (j + 1) (res1 @ [STRINGIFY n]) errs)
     else componentize_from tokens params (i + 1) e res errs)"
  by pat_completeness auto
termination
  by (relation "measure (\<lambda>(tokens, params, i, e, res, errs). length tokens - i)") (auto simp: next_token_def)

declare componentize_from.simps [simp del]

definition Componentize :: "Token list \<Rightarrow> string list \<Rightarrow> errors \<Rightarrow> FuncComponent list \<times> errors" where
  "Componentize tokens params errs = componentize_from tokens params 0 0 [] errs"

definition object_macro :: "string \<Rightarrow> Token list \<Rightarrow> Macro" where
  "object_macro definiendum definiens = \<lparr>m_name = definiendum, m_value = definiens, parameters = None, is_variadic = False, parts = []\<rparr>"

definition function_macro :: "string \<Rightarrow> string list \<Rightarrow> bool \<Rightarrow> Token list \<Rightarrow> errors \<Rightarrow> Macro \<times> errors" where
  "function_macro definiendum args variadic definiens errs = (let (ps, errs1) = Componentize definiens args errs in
     (\<lparr>m_name = definiendum, m_value = definiens, parameters = Some args, is_variadic = variadic, parts = ps\<rparr>, errs1))"

section \<open>Expansion\<close>

definition TokContentCat :: "Token \<Rightarrow> Token \<Rightarrow> string" where
  "TokContentCat left right = content left @ content right"

text \<open>The lexer of \<open>PasteTokens\<close> has the C++ compatibility options but no preprocessor tokens.\<close>

definition PasteTokens :: "Token \<Rightarrow> Token \<Rightarrow> CodeSnippet \<Rightarrow> errors \<Rightarrow> Token \<times> errors" where
  "PasteTokens left right errc errs = (let
      (res, l1) = ReadRawToken (new_lexer (TokContentCat left right) kCppCompatibility errs);
      (end1, l2) = ReadRawToken l1 in
    if ttype end1 \<noteq> TT_ENDOFCODE then (res, herr l2 @ [(errc, ''Concatenation of `'' @ content left @ ''` and `'' @ content right
        @ ''` does not produce a valid token.'')])
    else (res, herr l2))"

definition AppendOrPaste :: "Token list \<Rightarrow> Token list \<Rightarrow> bool \<Rightarrow> CodeSnippet \<Rightarrow> errors \<Rightarrow> Token list \<times> errors" where
  "AppendOrPaste dest toks paste errc errs = (
     if toks = [] then (dest, errs)
     else if paste then
       let dest1 = rev (dropWhile PreprocessesAway (rev dest)); toks1 = dropWhile PreprocessesAway toks in
       (if dest1 \<noteq> [] \<and> toks1 \<noteq> [] then
          let (t, errs1) = PasteTokens (last dest1) (hd toks1) errc errs in (butlast dest1 @ [t] @ tl toks1, errs1)
        else (dest1 @ toks1, errs))
     else (dest @ toks, errs))"

record unroll =
  u_res :: "Token list"
  u_paste :: bool
  u_errs :: errors

definition append_part :: "CodeSnippet \<Rightarrow> Token list \<Rightarrow> unroll \<Rightarrow> unroll" where
  "append_part errc ts s = (let (r, e) = AppendOrPaste (u_res s) ts (u_paste s) errc (u_errs s) in
     \<lparr>u_res = r, u_paste = False, u_errs = e\<rparr>)"

definition span_tokens :: "Token list \<Rightarrow> nat \<Rightarrow> nat \<Rightarrow> Token list option" where
  "span_tokens ts b e = (if b \<le> e \<and> e \<le> length ts then Some (take (e - b) (drop b ts)) else None)"

text \<open>\<open>Token(TT_STRINGLIT, snr)\<close> for a snippet whose line and position are not initialised: zero here.\<close>

definition stringified :: "Token list \<Rightarrow> Token" where
  "stringified arg = mk_token TT_STRINGLIT \<lparr>content = QuoteString (concat (map content arg)), line = 0, position = 0\<rparr>"

definition unroll_part :: "Macro \<Rightarrow> string list \<Rightarrow> Token list list \<Rightarrow> Token list list \<Rightarrow> CodeSnippet \<Rightarrow> FuncComponent \<Rightarrow> unroll \<Rightarrow> unroll option" where
  "unroll_part m params args args_evald errc part s = (case part of
      TOKEN_SPAN b e \<Rightarrow> map_option (\<lambda>ts. append_part errc ts s) (span_tokens (m_value m) b e)
    | RAW_ARGUMENT n \<Rightarrow> Some (if n < length args then append_part errc (args ! n) s
        else s\<lparr>u_paste := False, u_errs := u_errs s @ (if n < length params then [] else [(errc, ''Internal error: Macro function built with bad argument references.'')])\<rparr>)
    | EXPANDED_ARGUMENT n \<Rightarrow> (if n < length args then map_option (\<lambda>ts. append_part errc ts s) (arr_get args_evald n)
        else Some (s\<lparr>u_paste := False, u_errs := u_errs s @ (if n < length params then [] else [(errc, ''Internal error: Macro function built with bad argument references.'')])\<rparr>))
    | STRINGIFY n \<Rightarrow> Some (if n < length args then append_part errc [stringified (args ! n)] s
        else s\<lparr>u_paste := False, u_errs := u_errs s @ (if n < length params then [] else [(errc, ''Internal error: Macro function built with bad argument references.'')])\<rparr>)
    | PASTE \<Rightarrow> Some (s\<lparr>u_paste := True\<rparr>)
    | VA_OPT \<Rightarrow> Some s)"

definition arity_errors :: "Macro \<Rightarrow> string list \<Rightarrow> Token list list \<Rightarrow> CodeSnippet \<Rightarrow> errors" where
  "arity_errors m params args errc = (
     if length args = length params then []
     else if \<not> is_variadic m \<or> length args + 1 < length params then
       [(errc, (if length params < length args then ''Too many arguments to macro '' else ''Too few arguments to macro '') @ NameAndPrototype m)]
     else if length params < length args then [(errc, ''Internal error: variadic macro passed too many arguments'')]
     else [])"

definition SubstituteAndUnroll :: "Macro \<Rightarrow> Token list list \<Rightarrow> Token list list \<Rightarrow> CodeSnippet \<Rightarrow> errors \<Rightarrow> (Token list \<times> errors) option" where
  "SubstituteAndUnroll m args args_evald errc errs = (case parameters m of None \<Rightarrow> None | Some params \<Rightarrow>
     map_option (\<lambda>s. (u_res s, u_errs s))
       (for_each (parts m) (unroll_part m params args args_evald errc)
         \<lparr>u_res = [], u_paste = False, u_errs = errs @ arity_errors m params args errc\<rparr>))"

end
