(* ===== verification/Lexer.thy ===== *)
theory Lexer
  imports LexLaws Macros
begin

text \<open>
  The lexer with macros and names (\<open>CompilerSource/parsing/lexer.cpp\<close>): \<open>HandleMacro\<close>,
  \<open>TranslateNameToken\<close>, \<open>ReadToken\<close>, \<open>PreprocessBuffer\<close> and \<open>Macro::ParseTokens\<close>.

  \<open>LanguageFrontend\<close> is an abstract class: the functions the lexer calls, whether a name is a
  shared local and the definition it has in the target language, are fields of the context.
  \<open>ReadToken\<close> and \<open>PreprocessBuffer\<close> call each other, so they take fuel; \<open>None\<close> is either
  exhausted fuel or the undefined expansion of a macro.
\<close>

record ParseContext =
  macro_map :: "string \<Rightarrow> Macro option"
  is_shared_local :: "string \<Rightarrow> bool"
  look_up :: "string \<Rightarrow> (nat \<times> bool) option"
  compatibility_opts :: CompatibilityOptions

text \<open>\<open>ParseContext::ForPreprocessorEvaluation\<close>: no macros, no names.\<close>

definition kEmptyContextCpp :: ParseContext where
  "kEmptyContextCpp = \<lparr>macro_map = (\<lambda>_. None), is_shared_local = (\<lambda>_. False), look_up = (\<lambda>_. None),
     compatibility_opts = kCppCompatibility\<rparr>"

section \<open>Open macros\<close>

text \<open>The last open macro is the head of the list.\<close>

definition MacroRecurses :: "string \<Rightarrow> Lexer \<Rightarrow> bool" where
  "MacroRecurses name l = list_ex (\<lambda>m. om_name m = name) (open_macros l)"

definition PopMacro :: "Lexer \<Rightarrow> Lexer" where
  "PopMacro l = l\<lparr>open_macros := tl (open_macros l)\<rparr>"

definition PushMacro :: "string \<Rightarrow> Token list \<Rightarrow> Lexer \<Rightarrow> Lexer" where
  "PushMacro name ts l = l\<lparr>open_macros := \<lparr>om_tokens = ts, om_index = 0, om_name = name\<rparr> # open_macros l\<rparr>"

section \<open>Macro calls\<close>

lemma report_simps [simp]:
  "code (report s m l) = code l" "pos (report s m l) = pos l" "open_macros (report s m l) = open_macros l"
  "options (report s m l) = options l" "herr (report s m l) = herr l @ [(s, m)]"
  by (simp_all add: report_def)

text \<open>The loop that collects the arguments: the lexer, the open parentheses and the arguments.\<close>

function read_args :: "nat \<Rightarrow> bool \<Rightarrow> string \<Rightarrow> CodeSnippet \<Rightarrow> Lexer \<Rightarrow> nat \<Rightarrow> Token list list \<Rightarrow> Lexer \<times> nat \<times> Token list list" where
  "read_args nparams variadic name errc l paren args = (let (t, l1) = ReadRawToken l;
      paren1 = (if ttype t = TT_BEGINPARENTH then paren + 1 else if ttype t = TT_ENDPARENTH then paren - 1 else paren) in
    if ttype t = TT_ENDPARENTH \<and> paren1 = 0 then (l1, 0, args) else
    let (l2, args1) = (if ttype t = TT_COMMA \<and> paren1 = 1 then
          if length args < nparams then (l1, args @ [[]])
          else if variadic then (l1, butlast args @ [last args @ [t]])
          else (report errc (''Too many arguments to macro function `'' @ name @ ''`'') l1, args)
        else (l1, butlast args @ [last args @ [t]])) in
    if paren1 \<noteq> 0 \<and> ttype t \<noteq> TT_ENDOFCODE then read_args nparams variadic name errc l2 paren1 args1 else (l2, paren1, args1))"
  by pat_completeness auto

termination
proof (relation "measure (\<lambda>(_, _, _, _, l, _, _). length (code l) + 1 - pos l)", goal_cases)
  case (2 nparams variadic name errc l paren args x t l1 paren1 y l2 args1)
  have "ReadRawToken l = (t, l1)" using 2(1,2) by simp
  from ReadRawToken_moved[OF this] have "moved l l1" "pos l < length (code l)" using 2(7) by auto
  moreover have "code l2 = code l1 \<and> pos l2 = pos l1" using 2(5,6) by (auto split: if_splits)
  ultimately show ?case by (auto simp: moved_def)
qed simp

declare read_args.simps [simp del]

fun eval_args :: "(Token list \<Rightarrow> errors \<Rightarrow> (Token list \<times> errors) option) \<Rightarrow> Token list list \<Rightarrow> errors \<Rightarrow> (Token list list \<times> errors) option" where
  "eval_args pp [] errs = Some ([], errs)"
| "eval_args pp (a # as) errs = Option.bind (pp a errs) (\<lambda>(b, errs1).
     Option.bind (eval_args pp as errs1) (\<lambda>(bs, errs2). Some (b # bs, errs2)))"

definition HandleMacro :: "ParseContext \<Rightarrow> (Token list \<Rightarrow> errors \<Rightarrow> (Token list \<times> errors) option) \<Rightarrow> string \<Rightarrow> Lexer \<Rightarrow> (bool \<times> Lexer) option" where
  "HandleMacro context pp name l = (case macro_map context name of
      None \<Rightarrow> Some (False, l)
    | Some macro \<Rightarrow> if MacroRecurses name l then Some (False, l) else
      (case parameters macro of
        None \<Rightarrow> Some (True, PushMacro (m_name macro) (m_value macro) l)
      | Some params \<Rightarrow> let mpos = pos l; (t, l1) = ReadRawToken l in
          if ttype t \<noteq> TT_BEGINPARENTH then Some (True, l1) else
          let errc = snippet_of t;
              (l2, paren, args) = read_args (length params) (is_variadic macro) name errc l1 1 [[]] in
          if paren = 0 then
            Option.bind (eval_args pp args (herr l2)) (\<lambda>(args_evald, errs).
            Option.bind (SubstituteAndUnroll macro args args_evald errc errs) (\<lambda>(ts, errs1).
            Some (True, PushMacro (m_name macro) ts (l2\<lparr>herr := errs1\<rparr>))))
          else Some (True, (report errc (''No closing parenthesis for arguments to `'' @ name @ ''`'') l2)\<lparr>pos := mpos\<rparr>)))"

definition TranslateNameToken :: "ParseContext \<Rightarrow> Token \<Rightarrow> Token" where
  "TranslateNameToken context token = (case keyword_lookup (content token) of
      Some kw \<Rightarrow> token\<lparr>ttype := kw\<rparr>
    | None \<Rightarrow> if is_shared_local context (content token) then token else
        (case look_up context (content token) of
          None \<Rightarrow> token
        | Some (d, is_typename) \<Rightarrow> token\<lparr>ext := Some d, ttype := (if is_typename then TT_TYPE_NAME else TT_IDENTIFIER)\<rparr>))"

section \<open>\<open>ReadToken\<close>\<close>

definition token_lexer :: "ParseContext \<Rightarrow> Token list \<Rightarrow> errors \<Rightarrow> Lexer" where
  "token_lexer context ts errs = PushMacro [] ts (new_lexer [] (compatibility_opts context) errs)"

fun ReadToken :: "ParseContext \<Rightarrow> nat \<Rightarrow> Lexer \<Rightarrow> (Token \<times> Lexer) option"
  and read_all :: "ParseContext \<Rightarrow> nat \<Rightarrow> Lexer \<Rightarrow> (Token list \<times> errors) option"
  and PreprocessBuffer :: "ParseContext \<Rightarrow> nat \<Rightarrow> Token list \<Rightarrow> errors \<Rightarrow> (Token list \<times> errors) option"
where
  "ReadToken context 0 l = None"
| "ReadToken context (Suc fuel) l = (case open_macros l of
      macro # rest \<Rightarrow> if length (om_tokens macro) \<le> om_index macro then ReadToken context fuel (PopMacro l)
        else Some (om_tokens macro ! om_index macro, l\<lparr>open_macros := macro\<lparr>om_index := om_index macro + 1\<rparr> # rest\<rparr>)
    | [] \<Rightarrow> let (res, l1) = ReadRawToken l in
        if ttype res = TT_IDENTIFIER then
          Option.bind (HandleMacro context (\<lambda>ts errs. PreprocessBuffer context fuel ts errs) (content res) l1) (\<lambda>(handled, l2).
            if handled then ReadToken context fuel l2 else Some (TranslateNameToken context res, l2))
        else Some (res, l1))"
| "read_all context 0 l = None"
| "read_all context (Suc fuel) l = Option.bind (ReadToken context fuel l) (\<lambda>(t, l1).
     if ttype t = TT_ENDOFCODE then Some ([], herr l1)
     else Option.bind (read_all context fuel l1) (\<lambda>(ts, errs). Some (t # ts, errs)))"
| "PreprocessBuffer context 0 tokens errs = None"
| "PreprocessBuffer context (Suc fuel) tokens errs = read_all context fuel (token_lexer context tokens errs)"

text \<open>\<open>Macro::ParseTokens\<close>: the tokens of a macro definition, read with the C++ options.\<close>

definition ParseTokens :: "nat \<Rightarrow> string \<Rightarrow> errors \<Rightarrow> (Token list \<times> errors) option" where
  "ParseTokens fuel raw errs = (let l = new_lexer raw kCppCompatibility errs in
     read_all kEmptyContextCpp fuel (l\<lparr>options := SetAsCpp (options l)\<rparr>))"

end
