(* ===== verification/MacroLaws.thy ===== *)
theory MacroLaws
  imports Macros "HOL-Library.Sublist"
begin

text \<open>
  The expansion of macro functions: a replacement list without \<open>#\<close>, \<open>##\<close> and \<open>__VA_*\<close> is
  substituted token by token, a wrong number of arguments is an error that expansion survives,
  and \<open>__VA_OPT__\<close> has no defined expansion.
\<close>

section \<open>Plain replacement lists\<close>

definition va_name :: "string list \<Rightarrow> Token \<Rightarrow> bool" where
  "va_name params t = (ttype t = TT_IDENTIFIER \<and> params_by_name params (content t) = None \<and>
     (content t = ''__VA_OPT__'' \<or> content t = ''__VA_ARGS__''))"

definition plain :: "string list \<Rightarrow> Token \<Rightarrow> bool" where
  "plain params t = (ttype t \<noteq> TTM_CONCAT \<and> ttype t \<noteq> TTM_STRINGIFY \<and> \<not> va_name params t)"

text \<open>The substitution of the C standard, one token at a time; a parameter without an argument goes away.\<close>

definition subst_token :: "string list \<Rightarrow> Token list list \<Rightarrow> Token \<Rightarrow> Token list" where
  "subst_token params args t = (if ttype t = TT_IDENTIFIER
     then case params_by_name params (content t) of None \<Rightarrow> [t] | Some n \<Rightarrow> if n < length args then args ! n else []
     else [t])"

lemma params_by_name_less: "params_by_name params p = Some n \<Longrightarrow> n < length params"
  by (auto simp: params_by_name_def dest!: map_of_SomeD set_zip_rightD)

lemma append_part_plain: "\<not> u_paste s \<Longrightarrow> append_part errc ts s = s\<lparr>u_res := u_res s @ ts\<rparr>"
  by (simp add: append_part_def AppendOrPaste_def)

lemma unpasted: "\<not> u_paste s \<Longrightarrow> s\<lparr>u_res := r, u_paste := False, u_errs := u_errs s\<rparr> = s\<lparr>u_res := r\<rparr>"
  by (cases s) simp

lemma argument_part_plain:
  assumes "list_all (plain params) tokens" and "PASTE \<notin> set res"
  shows "argument_part tokens i res n = EXPANDED_ARGUMENT n"
proof -
  have "ttype (tokens ! j) \<noteq> TTM_CONCAT" if "j < length tokens" for j
    using assms(1) that by (auto simp: list_all_length plain_def)
  moreover have "res \<noteq> [] \<longrightarrow> last res \<noteq> PASTE" using assms(2) last_in_set by fastforce
  ultimately show ?thesis by (auto simp: argument_part_def Let_def)
qed

lemma span_to_props [simp]: "PASTE \<notin> set (span_to e i)" by (simp add: span_to_def)

text \<open>The components of a plain list: those that are there, and some that unroll to the substitution.\<close>

lemma componentize_plain:
  assumes "list_all (plain params) tokens" and "PASTE \<notin> set res" and "e \<le> i" and "i \<le> length tokens"
    and "m_value m = tokens" and "length args_evald = length args"
  shows "\<exists>ps. componentize_from tokens params i e res errs = (res @ ps, errs) \<and>
    (\<forall>s. \<not> u_paste s \<longrightarrow> for_each ps (unroll_part m params args args_evald errc) s =
      Some (s\<lparr>u_res := u_res s @ take (i - e) (drop e tokens) @ concat (map (subst_token params args_evald) (drop i tokens))\<rparr>))"
  using assms
proof (induction "length tokens - i" arbitrary: i e res)
  case 0
  then show ?case
    by (intro exI[of _ "span_to e (length tokens)"])
       (auto simp: componentize_from.simps[of tokens params i e res errs] span_to_def unroll_part_def span_tokens_def append_part_plain)
next
  case (Suc n)
  have i: "i < length tokens" using Suc by simp
  define t where "t = tokens ! i"
  have p: "plain params t" using Suc.prems(1) i by (auto simp: list_all_length t_def)
  have d: "drop i tokens = t # drop (Suc i) tokens" using i by (simp add: t_def Cons_nth_drop_Suc)
  have n: "n = length tokens - Suc i" using Suc.hyps(2) by simp
  show ?case
  proof (cases "ttype t = TT_IDENTIFIER \<and> params_by_name params (content t) \<noteq> None")
    case True
    then obtain k where k: "params_by_name params (content t) = Some k" by auto
    note kl = params_by_name_less[OF k]
    let ?res = "res @ span_to e i @ [EXPANDED_ARGUMENT k]"
    obtain ps where ps: "componentize_from tokens params (Suc i) (Suc i) ?res errs = (?res @ ps, errs)"
      "\<And>s. \<not> u_paste s \<Longrightarrow> for_each ps (unroll_part m params args args_evald errc) s =
        Some (s\<lparr>u_res := u_res s @ concat (map (subst_token params args_evald) (drop (Suc i) tokens))\<rparr>)"
      using Suc.hyps(1)[of "Suc i" ?res "Suc i"] Suc.prems i n by auto
    have a: "argument_part tokens i (res @ span_to e i) k = EXPANDED_ARGUMENT k"
      by (rule argument_part_plain[OF Suc.prems(1)]) (use Suc.prems(2) in simp)
    have "componentize_from tokens params i e res errs = (res @ (span_to e i @ [EXPANDED_ARGUMENT k] @ ps), errs)"
      using p i True k ps(1) a by (subst componentize_from.simps) (simp add: t_def[symmetric] plain_def Let_def)
    moreover have "for_each (span_to e i @ [EXPANDED_ARGUMENT k] @ ps) (unroll_part m params args args_evald errc) s =
        Some (s\<lparr>u_res := u_res s @ take (i - e) (drop e tokens) @ concat (map (subst_token params args_evald) (drop i tokens))\<rparr>)"
      if "\<not> u_paste s" for s
      using that ps(2) Suc.prems kl True k d i unpasted[OF that]
      by (simp add: for_each_append span_to_def unroll_part_def span_tokens_def append_part_plain subst_token_def arr_get_def)
    ultimately show ?thesis by blast
  next
    case False
    have nv: "\<not> va_name params t" using p by (simp add: plain_def)
    obtain ps where ps: "componentize_from tokens params (Suc i) e res errs = (res @ ps, errs)"
      "\<And>s. \<not> u_paste s \<Longrightarrow> for_each ps (unroll_part m params args args_evald errc) s =
        Some (s\<lparr>u_res := u_res s @ take (Suc i - e) (drop e tokens) @ concat (map (subst_token params args_evald) (drop (Suc i) tokens))\<rparr>)"
      using Suc.hyps(1)[of "Suc i" res e] Suc.prems i n by auto
    have "componentize_from tokens params i e res errs = componentize_from tokens params (Suc i) e res errs"
      using p i False nv by (subst componentize_from.simps) (auto simp: t_def[symmetric] plain_def va_name_def Let_def)
    moreover have "take (Suc i - e) (drop e tokens) = take (i - e) (drop e tokens) @ [t]"
      using Suc.prems(3) i by (simp add: Suc_diff_le take_Suc_conv_app_nth t_def)
    moreover have "subst_token params args_evald t = [t]" using False by (auto simp: subst_token_def)
    ultimately show ?thesis using ps d by auto
  qed
qed

text \<open>C5.  A macro function built from a replacement list without \<open>#\<close>, \<open>##\<close> and \<open>__VA_*\<close>
  expands to the list with every parameter replaced by its expanded argument, and by nothing where there is none; a wrong
  number of arguments is reported as \<open>arity_errors\<close> says, and nothing else is.\<close>

theorem plain_macro_expansion:
  assumes "list_all (plain params) body" and "length args_evald = length args"
    and "function_macro name params variadic body errs = (m, errs1)"
  shows "errs1 = errs \<and> SubstituteAndUnroll m args args_evald errc errs1 =
    Some (concat (map (subst_token params args_evald) body), errs @ arity_errors m params args errc)"
proof -
  define m0 where "m0 = \<lparr>m_name = name, m_value = body, parameters = Some params, is_variadic = variadic, parts = []\<rparr>"
  obtain ps where c: "Componentize body params errs = (ps, errs)" and
    ps: "\<And>s. \<not> u_paste s \<Longrightarrow> for_each ps (unroll_part m0 params args args_evald errc) s =
        Some (s\<lparr>u_res := u_res s @ concat (map (subst_token params args_evald) body)\<rparr>)"
    using componentize_plain[OF assms(1) _ _ _ _ assms(2), of "[]" 0 0 m0 errs errc]
    by (auto simp: Componentize_def m0_def)
  have m: "errs1 = errs" "parts m = ps" "m_value m = body" "parameters m = Some params"
    using assms(3) c by (auto simp: function_macro_def)
  have "unroll_part m params args args_evald errc = unroll_part m0 params args args_evald errc"
    by (intro ext) (simp add: unroll_part_def m m0_def split: FuncComponent.split)
  then show ?thesis using ps by (simp add: m SubstituteAndUnroll_def)
qed

text \<open>A token of the first line, for examples.\<close>

definition sample :: "TokenType \<Rightarrow> string \<Rightarrow> Token" where
  "sample ty s = mk_token ty \<lparr>content = s, line = 1, position = 1\<rparr>"

lemma sample_simps [simp]: "ttype (sample ty s) = ty" "content (sample ty s) = s"
  by (simp_all add: sample_def mk_token_def CodeSnippet.defs)

theorem plain_macro_expansion_witness:
  "SubstituteAndUnroll (fst (function_macro ''F'' [''x''] False [sample TT_IDENTIFIER ''x'', sample TT_PLUS ''+'', sample TT_IDENTIFIER ''x''] []))
     [[sample TT_DECLITERAL ''1'']] [[sample TT_DECLITERAL ''1'']] (snippet_of (sample TT_IDENTIFIER ''F'')) [] =
   Some ([sample TT_DECLITERAL ''1'', sample TT_PLUS ''+'', sample TT_DECLITERAL ''1''], [])"
proof -
  let ?body = "[sample TT_IDENTIFIER ''x'', sample TT_PLUS ''+'', sample TT_IDENTIFIER ''x'']"
  obtain m errs where f: "function_macro ''F'' [''x''] False ?body [] = (m, errs)" by fastforce
  have "arity_errors m [''x''] [[sample TT_DECLITERAL ''1'']] e = []" for e by (simp add: arity_errors_def)
  then show ?thesis
    using plain_macro_expansion[OF _ _ f, where errc = "snippet_of (sample TT_IDENTIFIER ''F'')", of "[[sample TT_DECLITERAL ''1'']]" "[[sample TT_DECLITERAL ''1'']]"] f
    by (auto simp: plain_def va_name_def params_by_name_def subst_token_def)
qed

section \<open>Errors of a call\<close>

lemma error_at_herr: "prefix (herr l) (herr (error_at p msg l))"
  by (auto simp: error_at_def report_def split: prod.split dest: Mark_frame)

lemma token_at_herr [simp]: "herr (snd (token_at ty p n l)) = herr l"
  by (auto simp: token_at_def split: prod.split dest: Mark_frame)

lemma ProcessLiteral_herr: "prefix (herr l) (herr (snd (ProcessLiteral lit p l)))"
  by (auto simp: ProcessLiteral_def error_at_herr split: option.split)

lemma read_quoted_herr: "prefix (herr l) (herr (snd (read_quoted q ty msg p l)))"
proof (cases "find_quote q (use_escapes (options l)) (code l) (pos l)")
  case (Pair r k)
  show ?thesis
  proof (cases r)
    case None
    then show ?thesis using Pair error_at_herr[of "l\<lparr>pos := k\<rparr>" p msg] by (simp add: read_quoted_def)
  next
    case (Some j)
    let ?pl = "ProcessLiteral (substr (code l) p (j - p + 1)) p (l\<lparr>pos := j\<rparr>)"
    have "snd (read_quoted q ty msg p l) = snd (token_at ty p (j + 1 - p) ((snd ?pl)\<lparr>pos := j + 1\<rparr>))"
      using Pair Some by (simp add: read_quoted_def split: prod.split)
    then show ?thesis using ProcessLiteral_herr[of "l\<lparr>pos := j\<rparr>" "substr (code l) p (j - p + 1)" p] by simp
  qed
qed

definition raw_errs :: "errors \<Rightarrow> raw \<Rightarrow> bool" where
  "raw_errs e r = (case r of Again l' \<Rightarrow> prefix e (herr l') | Tok r \<Rightarrow> prefix e (herr (snd r)))"

lemma raw_errs_simps [simp]: "raw_errs e (Again l') = prefix e (herr l')" "raw_errs e (Tok r) = prefix e (herr (snd r))"
  by (simp_all add: raw_errs_def)

lemma raw_errs_if: "(b \<Longrightarrow> raw_errs e r) \<Longrightarrow> (\<not> b \<Longrightarrow> raw_errs e s) \<Longrightarrow> raw_errs e (if b then r else s)"
  by simp

lemma raw_step_herr: "raw_errs (herr l) (raw_step l)"
  unfolding raw_step_def Let_def
  by (intro raw_errs_if)
     (use error_at_herr[of "l\<lparr>pos := Suc (pos l)\<rparr>"] read_quoted_herr[of "l\<lparr>pos := Suc (pos l)\<rparr>"] in
       \<open>simp_all add: read_span_def read_name_def read_number_def read_operator_def Let_def\<close>)

lemma ReadRawToken_herr: "prefix (herr l) (herr (snd (ReadRawToken l)))"
proof (induction l rule: ReadRawToken.induct)
  case (1 l)
  have st: "raw_errs (herr l) (raw_step l)" by (rule raw_step_herr)
  show ?case
  proof (cases "length (code l) \<le> pos l")
    case True
    then show ?thesis by (simp add: ReadRawToken.simps[of l] end_token_def Let_def)
  next
    case False
    then show ?thesis using st "1.IH"[OF False]
      by (cases "raw_step l") (auto simp: ReadRawToken.simps[of l] intro: prefix_order.trans)
  qed
qed

lemma PasteTokens_errs: "prefix errs (snd (PasteTokens a b errc errs))"
proof -
  let ?l = "new_lexer (TokContentCat a b) kCppCompatibility errs"
  have "prefix errs (herr (snd (ReadRawToken (snd (ReadRawToken ?l)))))"
    using prefix_order.trans[OF ReadRawToken_herr[of ?l] ReadRawToken_herr] by (simp add: new_lexer_def)
  then show ?thesis by (auto simp: PasteTokens_def split: prod.split)
qed

lemma append_part_errs: "prefix (u_errs s) (u_errs (append_part errc ts s))"
  using PasteTokens_errs by (auto simp: append_part_def AppendOrPaste_def Let_def split: prod.split) (metis snd_conv)+

lemma unroll_part_errs: "unroll_part m params args args_evald errc part s = Some s' \<Longrightarrow> prefix (u_errs s) (u_errs s')"
  by (auto simp: unroll_part_def append_part_errs split: FuncComponent.splits if_splits)

text \<open>The errors reported before an expansion, its arity errors included, are still there after it.\<close>

lemma SubstituteAndUnroll_errs:
  assumes "SubstituteAndUnroll m args args_evald errc errs = Some (ts, errs1)" and "parameters m = Some params"
  shows "prefix (errs @ arity_errors m params args errc) errs1"
proof -
  obtain s where s: "for_each (parts m) (unroll_part m params args args_evald errc)
    \<lparr>u_res = [], u_paste = False, u_errs = errs @ arity_errors m params args errc\<rparr> = Some s" "errs1 = u_errs s"
    using assms by (auto simp: SubstituteAndUnroll_def)
  have "prefix (errs @ arity_errors m params args errc) (u_errs s)"
    by (rule for_each_pres[OF s(1)]) (auto dest: unroll_part_errs intro: prefix_order.trans)
  then show ?thesis using s by simp
qed

section \<open>\<open>__VA_OPT__\<close>\<close>

definition va_opt_at :: "Token list \<Rightarrow> string list \<Rightarrow> nat \<Rightarrow> bool" where
  "va_opt_at tokens params k = (k < length tokens \<and> ttype (tokens ! k) = TT_IDENTIFIER \<and>
     content (tokens ! k) = ''__VA_OPT__'' \<and> params_by_name params ''__VA_OPT__'' = None)"

lemma next_token_skips: "i < k \<Longrightarrow> k < next_token tokens i \<Longrightarrow> k < length tokens \<Longrightarrow> PreprocessesAway (tokens ! k)"
proof -
  assume k: "i < k" "k < next_token tokens i" "k < length tokens"
  let ?w = "takeWhile PreprocessesAway (drop (Suc i) tokens)"
  have "?w ! (k - Suc i) = tokens ! k" using k by (simp add: next_token_def takeWhile_nth)
  moreover have "k - Suc i < length ?w" using k by (simp add: next_token_def)
  ultimately show ?thesis by (metis nth_mem set_takeWhileD)
qed

text \<open>One pass of the loop: it moves on, keeps the components, and leaves a reversed span for \<open>__VA_OPT__\<close>.\<close>

definition advances :: "Token list \<Rightarrow> string list \<Rightarrow> nat \<Rightarrow> FuncComponent list \<Rightarrow> FuncComponent list \<times> errors \<Rightarrow> bool" where
  "advances tokens params i res r = (\<exists>i' e' res' errs'. r = componentize_from tokens params i' e' res' errs' \<and>
    i < i' \<and> set res \<subseteq> set res' \<and> (\<forall>k. i \<le> k \<and> k < i' \<and> va_opt_at tokens params k \<longrightarrow> TOKEN_SPAN (Suc k) k \<in> set res'))"

lemma advances_far:
  assumes "i < i'" and "set res \<subseteq> set res'" and "\<And>k. i \<le> k \<Longrightarrow> k < i' \<Longrightarrow> va_opt_at tokens params k \<Longrightarrow> TOKEN_SPAN (Suc k) k \<in> set res'"
  shows "advances tokens params i res (componentize_from tokens params i' e' res' errs')"
  unfolding advances_def using assms by blast

lemma advances_one:
  assumes "set res \<subseteq> set res'" and "va_opt_at tokens params i \<Longrightarrow> TOKEN_SPAN (Suc i) i \<in> set res'"
  shows "advances tokens params i res (componentize_from tokens params (Suc i) e' res' errs')"
  by (rule advances_far) (use assms in \<open>auto simp: less_Suc_eq_le dest: le_antisym\<close>)

lemma componentize_step:
  assumes "i < length tokens" and "ttype (tokens ! i) \<noteq> TTM_STRINGIFY"
  shows "advances tokens params i res (componentize_from tokens params i e res errs)"
proof (cases "ttype (tokens ! i) = TTM_CONCAT")
  case True
  have nv: "\<not> va_opt_at tokens params i" using True by (simp add: va_opt_at_def)
  have sk: "\<not> va_opt_at tokens params k" if "i \<le> k" "k < next_token tokens i" for k
    using that nv next_token_skips[of i k tokens] by (cases "i = k") (auto simp: va_opt_at_def PreprocessesAway_def)
  have lt: "i < next_token tokens i" by (simp add: next_token_def)
  show ?thesis
  proof (cases "i = 0")
    case i0: True
    show ?thesis unfolding componentize_from.simps[of tokens params i] using assms True i0 nv
      by (simp add: Let_def) (rule advances_one[of _ _ _ _ 0, simplified], simp_all)
  next
    case False
    show ?thesis unfolding componentize_from.simps[of tokens params i e res errs] using assms True False
      by (simp add: Let_def, intro conjI impI advances_far) (use lt sk in auto)
  qed
next
  case nc: False
  show ?thesis
  proof (cases "ttype (tokens ! i) = TT_IDENTIFIER")
    case True
    show ?thesis
    proof (cases "params_by_name params (content (tokens ! i))")
      case None
      consider (opt) "content (tokens ! i) = ''__VA_OPT__''" | (args) "content (tokens ! i) = ''__VA_ARGS__''"
        | (other) "content (tokens ! i) \<noteq> ''__VA_OPT__''" "content (tokens ! i) \<noteq> ''__VA_ARGS__''" by blast
      then show ?thesis
      proof cases
        case opt
        have "TOKEN_SPAN (Suc i) i \<in> set (span_to (Suc i) i)" by (simp add: span_to_def)
        then show ?thesis unfolding componentize_from.simps[of tokens params i e res errs] using assms nc True None opt
          by (simp add: Let_def, intro advances_one) auto
      next
        case args
        then have "\<not> va_opt_at tokens params i" by (simp add: va_opt_at_def)
        then show ?thesis unfolding componentize_from.simps[of tokens params i e res errs] using assms nc True None args
          by (simp add: Let_def, intro advances_one) auto
      next
        case other
        then have "\<not> va_opt_at tokens params i" by (simp add: va_opt_at_def)
        then show ?thesis unfolding componentize_from.simps[of tokens params i e res errs] using assms nc True None other
          by (simp add: Let_def, intro advances_one) auto
      qed
    next
      case (Some n)
      then have "\<not> va_opt_at tokens params i" by (auto simp: va_opt_at_def)
      then show ?thesis unfolding componentize_from.simps[of tokens params i e res errs] using assms nc True Some
        by (simp add: Let_def, intro advances_one) auto
    qed
  next
    case False
    then have "\<not> va_opt_at tokens params i" by (simp add: va_opt_at_def)
    then show ?thesis unfolding componentize_from.simps[of tokens params i e res errs] using assms nc False
      by (simp add: Let_def, intro advances_one) auto
  qed
qed

lemma componentize_va_opt:
  assumes "\<forall>t \<in> set tokens. ttype t \<noteq> TTM_STRINGIFY"
  shows "set res \<subseteq> set (fst (componentize_from tokens params i e res errs)) \<and>
    (\<forall>k. i \<le> k \<and> va_opt_at tokens params k \<longrightarrow> TOKEN_SPAN (Suc k) k \<in> set (fst (componentize_from tokens params i e res errs)))"
proof (induction "length tokens - i" arbitrary: i e res errs rule: less_induct)
  case less
  show ?case
  proof (cases "i < length tokens")
    case False
    then show ?thesis by (auto simp: componentize_from.simps[of tokens params i e res errs] va_opt_at_def)
  next
    case True
    then have "ttype (tokens ! i) \<noteq> TTM_STRINGIFY" using assms by simp
    from componentize_step[OF True this, of params res e errs]
    obtain i' e' res' errs' where n: "componentize_from tokens params i e res errs = componentize_from tokens params i' e' res' errs'"
      "i < i'" "set res \<subseteq> set res'" "\<And>k. i \<le> k \<Longrightarrow> k < i' \<Longrightarrow> va_opt_at tokens params k \<Longrightarrow> TOKEN_SPAN (Suc k) k \<in> set res'"
      unfolding advances_def by blast
    have ih: "set res' \<subseteq> set (fst (componentize_from tokens params i' e' res' errs'))"
      "\<And>k. i' \<le> k \<Longrightarrow> va_opt_at tokens params k \<Longrightarrow> TOKEN_SPAN (Suc k) k \<in> set (fst (componentize_from tokens params i' e' res' errs'))"
      using less[of i'] n(2) True by auto
    show ?thesis unfolding n(1) using ih n(3,4) by (meson not_le subset_eq)
  qed
qed

lemma for_each_None: "i \<in> set is \<Longrightarrow> (\<And>s. body i s = None) \<Longrightarrow> for_each is body s = None"
  by (induction "is" arbitrary: s) (auto split: bind_splits)

text \<open>A macro function whose replacement list has a \<open>__VA_OPT__\<close> (and no \<open>#\<close>) has no defined
  expansion: the parser of the list leaves a span that ends before it begins.\<close>

theorem va_opt_undefined:
  assumes "function_macro name params variadic body errs = (m, errs1)" and "t \<in> set body"
    and "ttype t = TT_IDENTIFIER" and "content t = ''__VA_OPT__''" and "''__VA_OPT__'' \<notin> set params"
    and "\<forall>t \<in> set body. ttype t \<noteq> TTM_STRINGIFY"
  shows "SubstituteAndUnroll m args args_evald errc errs2 = None"
proof -
  obtain k where k: "k < length body" "body ! k = t" using assms(2) by (auto simp: in_set_conv_nth)
  have "params_by_name params ''__VA_OPT__'' = None"
    using assms(5) by (auto simp: params_by_name_def map_of_eq_None_iff dest: set_zip_leftD)
  then have "va_opt_at body params k" using assms(3,4) k by (simp add: va_opt_at_def)
  then have "TOKEN_SPAN (Suc k) k \<in> set (parts m)"
    using componentize_va_opt[OF assms(6), of "[]" params 0 0 errs] assms(1)
    by (auto simp: function_macro_def Componentize_def split: prod.splits)
  then have "for_each (parts m) (unroll_part m params args args_evald errc) s = None" for s
    by (rule for_each_None) (simp add: unroll_part_def span_tokens_def)
  moreover have "parameters m = Some params" using assms(1) by (auto simp: function_macro_def split: prod.splits)
  ultimately show ?thesis by (simp add: SubstituteAndUnroll_def)
qed

theorem va_opt_undefined_witness:
  "SubstituteAndUnroll (fst (function_macro ''F'' [''x''] True [sample TT_IDENTIFIER ''x'', sample TT_IDENTIFIER ''__VA_OPT__''] []))
     [[], []] [[], []] (snippet_of (sample TT_IDENTIFIER ''F'')) [] = None"
  by (rule va_opt_undefined[OF surjective_pairing, where t = "sample TT_IDENTIFIER ''__VA_OPT__''"]) simp_all

end
