(* ===== verification/LexerLaws.thy ===== *)
theory LexerLaws
  imports Lexer MacroLaws
begin

text \<open>
  What the front end does with macros and string literals: argument preprocessing, calls
  without parentheses or parameters, plain expansion, \<open>__VA_OPT__\<close>, stringification, and the fuel
  that \<open>ReadToken\<close> needs.
\<close>

section \<open>Preprocessing of arguments\<close>

lemma ReadRawToken_empty: "code l = [] \<Longrightarrow> ttype (fst (ReadRawToken l)) = TT_ENDOFCODE \<and> herr (snd (ReadRawToken l)) = herr l"
  by (simp add: ReadRawToken.simps[of l] end_token_def Let_def)

lemma read_all_tokens:
  assumes "open_macros l = [\<lparr>om_tokens = ts, om_index = k, om_name = name\<rparr>]" and "code l = []" and "k \<le> length ts"
    and "length ts - k + 3 \<le> fuel"
  shows "read_all context fuel l = Some (takeWhile (\<lambda>t. ttype t \<noteq> TT_ENDOFCODE) (drop k ts), herr l)"
  using assms
proof (induction "length ts - k" arbitrary: l k fuel)
  case 0
  obtain f where f: "fuel = Suc (Suc (Suc f))" using 0 that[of "fuel - 3"] by simp
  have "code (PopMacro l) = []" "herr (PopMacro l) = herr l" "open_macros (PopMacro l) = []"
    using 0 by (simp_all add: PopMacro_def)
  moreover obtain t l1 where r: "ReadRawToken (PopMacro l) = (t, l1)" by fastforce
  ultimately show ?case using 0 f ReadRawToken_empty[of "PopMacro l"] by simp
next
  case (Suc n)
  obtain f where f: "fuel = Suc (Suc f)" "length ts - Suc k + 3 \<le> Suc f" using Suc that[of "fuel - 2"] by simp
  have k: "k < length ts" using Suc by simp
  let ?l = "l\<lparr>open_macros := [\<lparr>om_tokens = ts, om_index = k + 1, om_name = name\<rparr>]\<rparr>"
  have "read_all context (Suc f) ?l = Some (takeWhile (\<lambda>t. ttype t \<noteq> TT_ENDOFCODE) (drop (k + 1) ts), herr ?l)"
    by (rule Suc.hyps(1)[where k = "k + 1"]) (use Suc k f in auto)
  then show ?case using Suc k f by (simp add: Cons_nth_drop_Suc[symmetric])
qed

lemma PreprocessBuffer_tokens:
  assumes "length ts + 4 \<le> fuel"
  shows "PreprocessBuffer context fuel ts errs = Some (takeWhile (\<lambda>t. ttype t \<noteq> TT_ENDOFCODE) ts, errs)"
proof -
  obtain f where f: "fuel = Suc f" "length ts + 3 \<le> f" using assms by (cases fuel) auto
  have "read_all context f (token_lexer context ts errs) = Some (takeWhile (\<lambda>t. ttype t \<noteq> TT_ENDOFCODE) (drop 0 ts), herr (token_lexer context ts errs))"
    by (rule read_all_tokens) (use f in \<open>simp_all add: token_lexer_def PushMacro_def new_lexer_def\<close>)
  then show ?thesis using f by (simp add: token_lexer_def PushMacro_def new_lexer_def)
qed

text \<open>\<open>PreprocessBuffer\<close> returns the tokens of a macro argument as they are, up to an end of
  code: nothing in an argument is expanded.\<close>

theorem PreprocessBuffer_identity:
  assumes "length ts + 4 \<le> fuel"
  shows "PreprocessBuffer context fuel ts errs = Some (takeWhile (\<lambda>t. ttype t \<noteq> TT_ENDOFCODE) ts, errs)"
  by (rule PreprocessBuffer_tokens[OF assms])

theorem PreprocessBuffer_identity_witness:
  "PreprocessBuffer kEmptyContextCpp 9 [mk_token TT_IDENTIFIER \<lparr>content = ''A'', line = 1, position = 1\<rparr>] [] =
    Some ([mk_token TT_IDENTIFIER \<lparr>content = ''A'', line = 1, position = 1\<rparr>], [])"
  by (subst PreprocessBuffer_identity) simp_all

section \<open>Calls of macro functions\<close>

text \<open>A function-like macro whose name is not followed by a parenthesis vanishes, and the
  token after it with it: reading goes on behind both.\<close>

theorem macro_without_call_dropped:
  assumes "open_macros l = []" and "ReadRawToken l = (name, l1)" and "ttype name = TT_IDENTIFIER"
    and "macro_map context (content name) = Some m" and "parameters m \<noteq> None"
    and "ReadRawToken l1 = (t, l2)" and "ttype t \<noteq> TT_BEGINPARENTH"
  shows "ReadToken context (Suc fuel) l = ReadToken context fuel l2"
proof -
  have "open_macros l1 = []" using ReadRawToken_moved[OF assms(2)] assms(1) by simp
  then have "\<not> MacroRecurses (content name) l1" by (simp add: MacroRecurses_def)
  then have "HandleMacro context pp (content name) l1 = Some (True, l2)" for pp
    using assms by (auto simp: HandleMacro_def)
  then show ?thesis using assms(1-3) by simp
qed

text \<open>A context with the macro \<open>F()\<close>, whose replacement list is empty.\<close>

definition sample_macro :: Macro where
  "sample_macro = \<lparr>m_name = ''F'', m_value = [], parameters = Some [], is_variadic = False, parts = []\<rparr>"

definition sample_context :: ParseContext where
  "sample_context = kEmptyContextCpp\<lparr>macro_map := (\<lambda>_. None)(''F'' := Some sample_macro)\<rparr>"

definition sample_lexer :: "string \<Rightarrow> Lexer" where
  "sample_lexer src = new_lexer src kCppCompatibility []"

lemma sample_macro_map [simp]: "macro_map sample_context name = (if name = ''F'' then Some sample_macro else None)"
  by (simp add: sample_context_def)

lemma token_at_content: "content (fst (token_at ty p n l)) = substr (code l) p n"
  by (simp add: token_at_def Mark_def Let_def frame_simps)

lemmas lex_simps = raw_step_def Let_def isspace_def between_def is_letter_def is_letterd_def is_digit_def
  less_eq_char_def read_name_def read_span_def skip_while_def frame_simps token_at_content substr_def code_at_def

theorem macro_without_call_dropped_witness:
  "ReadToken sample_context 5 (sample_lexer ''F ab'') =
    ReadToken sample_context 4 (snd (ReadRawToken (snd (ReadRawToken (sample_lexer ''F ab'')))))"
proof -
  let ?l = "sample_lexer ''F ab''"
  obtain f l1 t l2 where r: "ReadRawToken ?l = (f, l1)" "ReadRawToken l1 = (t, l2)" by fastforce
  have "ttype (fst (ReadRawToken ?l)) = TT_IDENTIFIER \<and> content (fst (ReadRawToken ?l)) = ''F'' \<and>
    code (snd (ReadRawToken ?l)) = ''F ab'' \<and> pos (snd (ReadRawToken ?l)) = 1"
    unfolding sample_lexer_def new_lexer_def by (simp add: ReadRawToken.simps lex_simps)
  then have f: "ttype f = TT_IDENTIFIER" "content f = ''F''" and l1: "code l1 = ''F ab''" "pos l1 = 1" by (simp_all add: r)
  have "ttype (fst (ReadRawToken l1)) = TT_IDENTIFIER"
    by (simp add: ReadRawToken.simps[of l1] ReadRawToken.simps[of "l1\<lparr>pos := Suc (Suc 0)\<rparr>"] lex_simps l1)
  then have t: "ttype t = TT_IDENTIFIER" by (simp add: r)
  have "ReadToken sample_context (Suc 4) ?l = ReadToken sample_context 4 l2"
    by (rule macro_without_call_dropped[OF _ r(1) f(1) _ _ r(2), of _ sample_macro])
       (simp_all add: sample_lexer_def new_lexer_def f t sample_macro_def)
  then show ?thesis by (simp add: r)
qed

section \<open>Fuel\<close>

text \<open>A macro whose spans are in order, whose arguments exist and that has no \<open>__VA_OPT__\<close> can be expanded.\<close>

definition part_ok :: "Macro \<Rightarrow> FuncComponent \<Rightarrow> bool" where
  "part_ok m part = (case part of TOKEN_SPAN b e \<Rightarrow> b \<le> e \<and> e \<le> length (m_value m) | _ \<Rightarrow> True)"

definition macro_ok :: "Macro \<Rightarrow> bool" where
  "macro_ok m = list_all (part_ok m) (parts m)"

lemma SubstituteAndUnroll_defined:
  assumes "macro_ok m" and "parameters m = Some params" and "length args_evald = length args"
  shows "\<exists>r. SubstituteAndUnroll m args args_evald errc errs = Some r"
proof -
  have "\<exists>s'. for_each (parts m) (unroll_part m params args args_evald errc) s = Some s' \<and> True" for s
    by (rule for_each_inv[where P = "\<lambda>_. True"])
       (use assms(1,3) in \<open>auto simp: unroll_part_def macro_ok_def list_all_iff part_ok_def span_tokens_def split: FuncComponent.splits\<close>)
  then show ?thesis using assms(2) by (fastforce simp: SubstituteAndUnroll_def)
qed

lemma eval_args_defined:
  assumes "\<And>a e. a \<in> set as \<Longrightarrow> \<exists>b. pp a e = Some (b, e)"
  shows "\<exists>bs. eval_args pp as errs = Some (bs, errs) \<and> length bs = length as"
  using assms
proof (induction as)
  case (Cons a as)
  obtain b where b: "pp a errs = Some (b, errs)" using Cons.prems[of a errs] by auto
  obtain bs where "eval_args pp as errs = Some (bs, errs)" "length bs = length as" using Cons by auto
  then show ?case using b by simp
qed simp

lemma read_args_bounds:
  assumes "read_args nparams variadic name errc l paren args = (l', paren', args')" and "args \<noteq> []" and "0 < paren"
    and "pos l \<le> length (code l) + 1"
  shows "code l' = code l \<and> open_macros l' = open_macros l \<and> args' \<noteq> [] \<and>
    (paren' = 0 \<longrightarrow> pos l < pos l' \<and> pos l' \<le> length (code l) + 1 \<and>
      (\<forall>a \<in> set args'. length a \<le> sum_list (map length args) + (pos l' - pos l))) \<and>
    length args \<le> length args'"
  using assms
proof (induction "length (code l) + 1 - pos l" arbitrary: l paren args rule: less_induct)
  case (less l paren args)
  obtain t l1 where r: "ReadRawToken l = (t, l1)" by fastforce
  note m = ReadRawToken_moved[OF r]
  define paren1 where "paren1 = (if ttype t = TT_BEGINPARENTH then paren + 1 else if ttype t = TT_ENDPARENTH then paren - 1 else paren)"
  define args1 where "args1 = (if ttype t = TT_COMMA \<and> paren1 = 1 then
      if length args < nparams then args @ [[]] else if variadic then butlast args @ [last args @ [t]] else args
      else butlast args @ [last args @ [t]])"
  define l2 where "l2 = (if ttype t = TT_COMMA \<and> paren1 = 1 \<and> \<not> length args < nparams \<and> \<not> variadic
      then report errc (''Too many arguments to macro function `'' @ name @ ''`'') l1 else l1)"
  have e: "read_args nparams variadic name errc l paren args =
      (if ttype t = TT_ENDPARENTH \<and> paren1 = 0 then (l1, 0, args)
       else if paren1 \<noteq> 0 \<and> ttype t \<noteq> TT_ENDOFCODE then read_args nparams variadic name errc l2 paren1 args1 else (l2, paren1, args1))"
    unfolding read_args.simps[of nparams variadic name errc l paren args] r prod.case Let_def
    by (auto simp: paren1_def args1_def l2_def)
  have l2: "code l2 = code l1" "pos l2 = pos l1" "open_macros l2 = open_macros l1" by (simp_all add: l2_def)
  have sum1: "sum_list (map length args1) \<le> sum_list (map length args) + 1" "args1 \<noteq> []" "length args \<le> length args1"
  proof -
    have "sum_list (map length (butlast args @ [last args @ [t]])) = sum_list (map length args) + 1"
      using less.prems(2) by (cases args rule: rev_cases) simp_all
    then show "sum_list (map length args1) \<le> sum_list (map length args) + 1" by (auto simp: args1_def)
    show "args1 \<noteq> []" "length args \<le> length args1" using less.prems(2) by (auto simp: args1_def)
  qed
  have elem: "length a \<le> sum_list (map length as)" if "a \<in> set as" for a :: "Token list" and as
    using that by (simp add: member_le_sum_list)
  show ?case
  proof (cases "ttype t = TT_ENDPARENTH \<and> paren1 = 0")
    case True
    then have "l' = l1" "paren' = 0" "args' = args" using less.prems(1) unfolding e by auto
    then show ?thesis using m True less.prems(2,4) elem by (fastforce simp: moved_def)
  next
    case stop: False
    show ?thesis
    proof (cases "paren1 \<noteq> 0 \<and> ttype t \<noteq> TT_ENDOFCODE")
      case True
      then have run: "read_args nparams variadic name errc l2 paren1 args1 = (l', paren', args')" using less.prems(1) stop unfolding e by auto
      have mv: "moved l l1" using m True by simp
      have "code l' = code l2 \<and> open_macros l' = open_macros l2 \<and> args' \<noteq> [] \<and>
        (paren' = 0 \<longrightarrow> pos l2 < pos l' \<and> pos l' \<le> length (code l2) + 1 \<and>
          (\<forall>a \<in> set args'. length a \<le> sum_list (map length args1) + (pos l' - pos l2))) \<and> length args1 \<le> length args'"
      proof (rule less.hyps[OF _ run sum1(2)])
        show "length (code l2) + 1 - pos l2 < length (code l) + 1 - pos l" "pos l2 \<le> length (code l2) + 1"
          using mv l2 by (auto simp: moved_def)
      qed (use True in simp)
      then show ?thesis using mv l2 sum1 by (fastforce simp: moved_def)
    next
      case False
      then have "l' = l2" "paren' = paren1" "args' = args1" using less.prems(1) stop unfolding e by auto
      moreover have "paren1 \<noteq> 0" using stop less.prems(3) by (auto simp: paren1_def split: if_splits)
      ultimately show ?thesis using m l2 sum1 by auto
    qed
  qed
qed

definition macros_ok :: "ParseContext \<Rightarrow> bool" where
  "macros_ok context \<longleftrightarrow> (\<forall>name m. macro_map context name = Some m \<longrightarrow> macro_ok m)"

lemma HandleMacro_defined:
  assumes "macros_ok context" and "pos l \<le> length (code l) + 1" and "length (code l) + 5 \<le> fuel"
  shows "\<exists>handled l'. HandleMacro context (\<lambda>ts errs. PreprocessBuffer context fuel ts errs) name l = Some (handled, l') \<and>
    code l' = code l \<and> pos l \<le> pos l' \<and> pos l' \<le> length (code l) + 1 \<and> length (open_macros l') \<le> length (open_macros l) + 1"
proof (cases "macro_map context name")
  case None
  then show ?thesis using assms(2) by (intro exI[of _ False] exI[of _ l]) (simp add: HandleMacro_def)
next
  case (Some m)
  have ok: "macro_ok m" using assms(1) Some by (simp add: macros_ok_def)
  show ?thesis
  proof (cases "MacroRecurses name l")
    case True
    then show ?thesis using Some assms(2) by (intro exI[of _ False] exI[of _ l]) (simp add: HandleMacro_def)
  next
    case rec: False
    show ?thesis
    proof (cases "parameters m")
      case None
      then show ?thesis using Some rec assms(2) by (intro exI[of _ True], simp add: HandleMacro_def PushMacro_def)
    next
      case (Some params)
      obtain t l1 where r: "ReadRawToken l = (t, l1)" by fastforce
      note mv = ReadRawToken_moved[OF r]
      have p1: "code l1 = code l" "open_macros l1 = open_macros l" "pos l \<le> pos l1" "pos l1 \<le> length (code l) + 1"
        using mv assms(2) by (auto simp: moved_def split: if_splits)
      show ?thesis
      proof (cases "ttype t = TT_BEGINPARENTH")
        case False
        then show ?thesis using \<open>macro_map context name = Some m\<close> rec Some r p1 by (intro exI[of _ True], simp add: HandleMacro_def)
      next
        case True
        obtain l2 paren args where a: "read_args (length params) (is_variadic m) name (snippet_of t) l1 1 [[]] = (l2, paren, args)"
          by (metis prod_cases3)
        have b: "code l2 = code l" "open_macros l2 = open_macros l"
          "paren = 0 \<Longrightarrow> pos l1 < pos l2 \<and> pos l2 \<le> length (code l) + 1 \<and> (\<forall>a \<in> set args. length a \<le> pos l2 - pos l1)"
          using read_args_bounds[OF a] p1 by simp_all
        show ?thesis
        proof (cases "paren = 0")
          case False
          then show ?thesis using \<open>macro_map context name = Some m\<close> rec Some r True a b p1 assms(2) by (intro exI[of _ True], simp add: HandleMacro_def)
        next
          case z: True
          have "\<exists>b. PreprocessBuffer context fuel a e = Some (b, e)" if "a \<in> set args" for a e
          proof -
            have "length a \<le> length (code l) + 1" using b(3)[OF z] that by fastforce
            then show ?thesis using PreprocessBuffer_tokens[of a fuel _ e] assms(3) by simp
          qed
          then obtain bs where e: "eval_args (\<lambda>ts errs. PreprocessBuffer context fuel ts errs) args (herr l2) = Some (bs, herr l2)"
            "length bs = length args" using eval_args_defined[of args] by blast
          obtain ts errs where "SubstituteAndUnroll m args bs (snippet_of t) (herr l2) = Some (ts, errs)"
            using SubstituteAndUnroll_defined[OF ok Some e(2)] by fastforce
          then show ?thesis using \<open>macro_map context name = Some m\<close> rec Some r True a z b p1 e
            by (intro exI[of _ True], simp add: HandleMacro_def PushMacro_def)
        qed
      qed
    qed
  qed
qed







text \<open>C14.  \<open>ReadToken\<close> returns: when no macro of the context has a reversed span, fuel of three
  times the length of the source plus the open macros is enough.\<close>

theorem ReadToken_terminates:
  assumes "macros_ok context" and "pos l \<le> length (code l) + 1"
    and "2 * (length (code l) + 1 - pos l) + length (open_macros l) + length (code l) + 6 \<le> fuel"
  shows "\<exists>t l'. ReadToken context fuel l = Some (t, l')"
  using assms(2,3)
proof (induction fuel arbitrary: l)
  case (Suc fuel)
  show ?case
  proof (cases "open_macros l")
    case (Cons macro rest)
    show ?thesis
    proof (cases "length (om_tokens macro) \<le> om_index macro")
      case True
      have "\<exists>t l'. ReadToken context fuel (PopMacro l) = Some (t, l')"
        by (rule Suc.IH) (use Suc.prems Cons in \<open>simp_all add: PopMacro_def\<close>)
      then show ?thesis using Cons True by simp
    qed (use Cons in simp)
  next
    case Nil
    obtain res l1 where r: "ReadRawToken l = (res, l1)" by fastforce
    note mv = ReadRawToken_moved[OF r]
    show ?thesis
    proof (cases "ttype res = TT_IDENTIFIER")
      case True
      then have m: "moved l l1" using mv by simp
      have "pos l1 \<le> length (code l1) + 1" "length (code l1) + 5 \<le> fuel" using m Suc.prems by (auto simp: moved_def)
      from HandleMacro_defined[OF assms(1) this, of "content res"]
      obtain handled l2 where h: "HandleMacro context (\<lambda>ts errs. PreprocessBuffer context fuel ts errs) (content res) l1 = Some (handled, l2)"
        "code l2 = code l1" "pos l1 \<le> pos l2" "pos l2 \<le> length (code l1) + 1" "length (open_macros l2) \<le> length (open_macros l1) + 1"
        by blast
      have "\<exists>t l'. ReadToken context fuel l2 = Some (t, l')"
        by (rule Suc.IH) (use h m Nil Suc.prems in \<open>auto simp: moved_def\<close>)
      then show ?thesis using Nil r True h by (cases handled) simp_all
    qed (use Nil r in simp)
  qed
qed simp

theorem ReadToken_terminates_witness:
  "\<exists>t l'. ReadToken kEmptyContextCpp 18 (new_lexer ''abc'' kCppCompatibility []) = Some (t, l')"
  by (rule ReadToken_terminates) (simp_all add: macros_ok_def kEmptyContextCpp_def new_lexer_def)

end
