(* ===== verification/LiteralLaws.thy ===== *)
theory LiteralLaws
  imports MacroLaws
begin

text \<open>
  String literals: the literal that \<open>QuoteString\<close> makes of a text is read back as the text when
  the text has no quotes, and is cut at the first quote when it has one.
\<close>

lemma find_quote_step:
  "p < length src \<Longrightarrow> find_quote q True src p = (let p1 = (if src ! p = CHR 0x5C then p + 1 else p) in
     if code_at src p1 = q then (Some p1, p1) else find_quote q True src (p1 + 1))"
  by (simp add: find_quote.simps[of q True src p])

lemma quote_char_cases:
  obtains (special) d where "quote_char c = [CHR 0x5C, d]" "d = CHR 0x22 \<longleftrightarrow> c = CHR 0x22"
      "c \<noteq> CHR 0x22 \<Longrightarrow> c \<noteq> CHR 0x27 \<Longrightarrow> escape d = Some c"
  | (same) "quote_char c = [c]" "c \<noteq> CHR 0x5C" "c \<noteq> CHR 0x22"
  by (cases "c \<in> {CHR 0x0D, CHR 0x0A, CHR 0x5C, CHR 0x22, CHR 0x27}") (auto simp: escape_def)

lemma find_quote_quoted:
  assumes "CHR 0x22 \<notin> set s"
  shows "find_quote (CHR 0x22) True (pre @ concat (map quote_char s) @ rest) (length pre) =
    find_quote (CHR 0x22) True (pre @ concat (map quote_char s) @ rest) (length pre + length (concat (map quote_char s)))"
  using assms
proof (induction s arbitrary: pre)
  case (Cons c s)
  have c: "c \<noteq> CHR 0x22" "CHR 0x22 \<notin> set s" using Cons.prems by auto
  show ?case
  proof (cases c rule: quote_char_cases)
    case (special d)
    then show ?thesis using c Cons.IH[of "pre @ [CHR 0x5C, d]"]
      by (subst find_quote_step) (simp_all add: nth_append code_at_def del: quote_char.simps)
  next
    case same
    then show ?thesis using c Cons.IH[of "pre @ [c]"]
      by (subst find_quote_step) (simp_all add: nth_append code_at_def del: quote_char.simps)
  qed
qed simp

lemma unescape_quoted:
  assumes "CHR 0x22 \<notin> set s" and "CHR 0x27 \<notin> set s" and "rest \<noteq> []"
  shows "unescape (concat (map quote_char s) @ rest) = map_option ((@) s) (unescape rest)"
  using assms(1,2)
proof (induction s)
  case Nil
  then show ?case by (simp add: map_option.id[unfolded id_def] option.map_ident)
next
  case (Cons c s)
  obtain d ds where d: "concat (map quote_char s) @ rest = d # ds" using assms(3) by (cases "concat (map quote_char s) @ rest") auto
  show ?case
  proof (cases c rule: quote_char_cases)
    case (special e)
    then have "escape e = Some c" using Cons.prems by auto
    then show ?thesis using Cons special(1) by (simp add: option.map_comp comp_def del: quote_char.simps)
  next
    case same
    then show ?thesis using Cons d by (simp add: option.map_comp comp_def del: quote_char.simps)
  qed
qed

lemma read_quoted_at:
  assumes "code l = pre @ raw @ rest" and "pos l = Suc (length pre)" and "use_escapes (options l)"
    and "find_quote q True (code l) (pos l) = (Some k, k)" and "Suc k = length pre + length raw" and "length pre \<le> k"
  shows "content (fst (read_quoted q ty msg (length pre) l)) = fst (ProcessLiteral raw (length pre) (l\<lparr>pos := k\<rparr>))"
    and "herr (snd (read_quoted q ty msg (length pre) l)) = herr (snd (ProcessLiteral raw (length pre) (l\<lparr>pos := k\<rparr>)))"
    and "pos (snd (read_quoted q ty msg (length pre) l)) = length pre + length raw"
    and "ttype (fst (read_quoted q ty msg (length pre) l)) = ty"
proof -
  have "k - length pre + 1 = length raw" using assms(5,6) by simp
  then have s: "substr (code l) (length pre) (k - length pre + 1) = raw" using assms(1) by (simp add: substr_def)
  obtain v l1 where p: "ProcessLiteral raw (length pre) (l\<lparr>pos := k\<rparr>) = (v, l1)" by fastforce
  obtain t l2 where t: "token_at ty (length pre) (k + 1 - length pre) (l1\<lparr>pos := k + 1\<rparr>) = (t, l2)" by fastforce
  have r: "read_quoted q ty msg (length pre) l = (t\<lparr>content := v\<rparr>, l2)"
    using assms(3,4) s p t by (simp add: read_quoted_def)
  have "l2 = snd (token_at ty (length pre) (k + 1 - length pre) (l1\<lparr>pos := k + 1\<rparr>))"
    "t = fst (token_at ty (length pre) (k + 1 - length pre) (l1\<lparr>pos := k + 1\<rparr>))" by (simp_all only: t fst_conv snd_conv)
  then have "herr l2 = herr l1" "pos l2 = k + 1" "ttype t = ty" by (simp_all add: frame_simps)
  then show "content (fst (read_quoted q ty msg (length pre) l)) = fst (ProcessLiteral raw (length pre) (l\<lparr>pos := k\<rparr>))"
    "herr (snd (read_quoted q ty msg (length pre) l)) = herr (snd (ProcessLiteral raw (length pre) (l\<lparr>pos := k\<rparr>)))"
    "pos (snd (read_quoted q ty msg (length pre) l)) = length pre + length raw"
    "ttype (fst (read_quoted q ty msg (length pre) l)) = ty"
    using assms(5) by (simp_all add: r p)
qed

lemma ReadRawToken_quote:
  assumes "code l = pre @ CHR 0x22 # rest" and "pos l = length pre"
  shows "ReadRawToken l = read_quoted (CHR 0x22) TT_STRINGLIT ''Unclosed double quote at this point'' (length pre) (l\<lparr>pos := Suc (length pre)\<rparr>)"
  using assms by (simp add: ReadRawToken.simps[of l] raw_step_def Let_def nth_append isspace_def is_letter_def between_def less_eq_char_def)

text \<open>Reading the literal that \<open>QuoteString\<close> writes for a text without quotes gives the text
  back, without errors, and leaves the lexer behind the literal.\<close>

theorem QuoteString_read_back:
  assumes "code l = pre @ QuoteString s @ rest" and "pos l = length pre" and "use_escapes (options l)"
    and "CHR 0x22 \<notin> set s" and "CHR 0x27 \<notin> set s"
  shows "\<exists>t l'. ReadRawToken l = (t, l') \<and> ttype t = TT_STRINGLIT \<and> content t = s \<and>
    pos l' = length pre + length (QuoteString s) \<and> herr l' = herr l"
proof -
  let ?q = "concat (map quote_char s)" and ?l = "l\<lparr>pos := Suc (length pre)\<rparr>"
  let ?k = "length pre + Suc (length ?q)"
  have src: "code l = (pre @ [CHR 0x22]) @ ?q @ CHR 0x22 # rest" using assms(1) by (simp add: QuoteString_def)
  have "find_quote (CHR 0x22) True (code ?l) ?k = (Some ?k, ?k)"
    by (subst find_quote_step) (simp_all add: src nth_append code_at_def)
  then have f: "find_quote (CHR 0x22) True (code ?l) (pos ?l) = (Some ?k, ?k)"
    using find_quote_quoted[OF assms(4), of "pre @ [CHR 0x22]" "CHR 0x22 # rest"] by (simp add: src)
  have k: "Suc ?k = length pre + length (QuoteString s)" by (simp add: QuoteString_def)
  have "ProcessLiteral (QuoteString s) (length pre) (?l\<lparr>pos := ?k\<rparr>) = (s, ?l\<lparr>pos := ?k\<rparr>)"
    using unescape_quoted[OF assms(4,5), of "[CHR 0x22]"] assms(3) by (simp add: ProcessLiteral_def QuoteString_def)
  moreover have "code ?l = pre @ QuoteString s @ rest" "pos ?l = Suc (length pre)" "use_escapes (options ?l)"
    using assms(1,3) by simp_all
  note read_quoted_at[OF this f k le_add1, of TT_STRINGLIT "''Unclosed double quote at this point''"]
  ultimately show ?thesis
    using ReadRawToken_quote[of l pre "?q @ CHR 0x22 # rest"] src assms(2)
    by (intro exI[of _ "fst (ReadRawToken l)"] exI[of _ "snd (ReadRawToken l)"]) simp
qed

theorem QuoteString_read_back_witness:
  "content (fst (ReadRawToken (new_lexer (QuoteString ''a b'') kCppCompatibility []))) = ''a b''"
  using QuoteString_read_back[of "new_lexer (QuoteString ''a b'') kCppCompatibility []" "[]" "''a b''" "[]"]
  by (auto simp: new_lexer_def Options_of_def kCppCompatibility_def)

text \<open>A double quote in the text ends the literal there, although it is escaped: the token is
  the raw literal up to it, both quotes and the backslash included, and an unknown escape is reported.\<close>

theorem escaped_quote_ends_literal:
  assumes "code l = pre @ QuoteString (s @ CHR 0x22 # s') @ rest" and "pos l = length pre" and "use_escapes (options l)"
    and "CHR 0x22 \<notin> set s" and "CHR 0x27 \<notin> set s"
  shows "\<exists>t l' e. ReadRawToken l = (t, l') \<and> ttype t = TT_STRINGLIT \<and>
    content t = CHR 0x22 # concat (map quote_char s) @ [CHR 0x5C, CHR 0x22] \<and>
    pos l' = length pre + length (content t) \<and> herr l' = herr l @ [(e, ''Unkown escape'')]"
proof -
  let ?q = "concat (map quote_char s)" and ?l = "l\<lparr>pos := Suc (length pre)\<rparr>"
  let ?raw = "CHR 0x22 # ?q @ [CHR 0x5C, CHR 0x22]" and ?k = "length pre + Suc (Suc (length ?q))"
  let ?rest = "concat (map quote_char s') @ CHR 0x22 # rest"
  have src: "code l = (pre @ [CHR 0x22]) @ ?q @ [CHR 0x5C, CHR 0x22] @ ?rest" using assms(1) by (simp add: QuoteString_def)
  have "find_quote (CHR 0x22) True (code ?l) (length pre + Suc (length ?q)) = (Some ?k, ?k)"
    by (subst find_quote_step) (simp_all add: src nth_append code_at_def)
  then have f: "find_quote (CHR 0x22) True (code ?l) (pos ?l) = (Some ?k, ?k)"
    using find_quote_quoted[OF assms(4), of "pre @ [CHR 0x22]" "[CHR 0x5C, CHR 0x22] @ ?rest"] by (simp add: src)
  have k: "Suc ?k = length pre + length ?raw" by simp
  have "fst (ProcessLiteral ?raw (length pre) (?l\<lparr>pos := ?k\<rparr>)) = ?raw"
    "\<exists>e. herr (snd (ProcessLiteral ?raw (length pre) (?l\<lparr>pos := ?k\<rparr>))) = herr l @ [(e, ''Unkown escape'')]"
    using unescape_quoted[OF assms(4,5), of "[CHR 0x5C, CHR 0x22]"] assms(3) Mark_frame[of "length pre" 1 "?l\<lparr>pos := ?k\<rparr>"]
    by (auto simp: ProcessLiteral_def escape_def error_at_def report_def split: prod.split)
  moreover have "code ?l = pre @ ?raw @ ?rest" "pos ?l = Suc (length pre)" "use_escapes (options ?l)"
    using src assms(3) by simp_all
  note read_quoted_at[OF this f k le_add1, of TT_STRINGLIT "''Unclosed double quote at this point''"]
  ultimately show ?thesis
    using ReadRawToken_quote[of l pre "?q @ [CHR 0x5C, CHR 0x22] @ ?rest"] src assms(2)
    by (intro exI[of _ "fst (ReadRawToken l)"] exI[of _ "snd (ReadRawToken l)"]) simp
qed

theorem escaped_quote_ends_literal_witness:
  "content (fst (ReadRawToken (new_lexer (QuoteString [CHR ''a'', CHR 0x22, CHR ''b'']) kCppCompatibility []))) =
    [CHR 0x22, CHR ''a'', CHR 0x5C, CHR 0x22]"
  using escaped_quote_ends_literal[of "new_lexer (QuoteString [CHR ''a'', CHR 0x22, CHR ''b'']) kCppCompatibility []" "[]" "''a''" "''b''" "[]"]
  by (auto simp: new_lexer_def Options_of_def kCppCompatibility_def)

end
