(* ===== verification/Ast.thy ===== *)
theory Ast
  imports Tokens
begin

text \<open>
  The syntax trees of EDL (\<open>CompilerSource/parsing/ast.h\<close>) and operator precedence
  (\<open>precedence.h\<close>, \<open>precedence.cpp\<close>).  A \<open>unique_ptr\<close> that may be null is an option; a
  \<open>jdi::definition *\<close> is a number, absent for null.  The nodes of declarations and types are not
  modelled: type specifiers, declarators, initialisers, casts, \<open>new\<close>, \<open>delete\<close>, template arguments.
\<close>

section \<open>Trees\<close>

record Operation =
  op_type :: TokenType
  op_token :: string

definition operation_of :: "Token \<Rightarrow> Operation" where
  "operation_of t = \<lparr>op_type = ttype t, op_token = content t\<rparr>"

datatype SizeofKind = SizeofExpr | SizeofVariadic

datatype WhileKind = WHILE | UNTIL | REPEAT

datatype node =
    SyntaxError Token
  | CodeBlock "node list"
  | BinaryExpression node node Operation
  | FunctionCallExpression node "node list"
  | UnaryPrefixExpression node Operation
  | UnaryPostfixExpression node Operation
  | TernaryExpression node node node
  | LambdaExpression node node
  | SizeofExpression SizeofKind node
  | AlignofExpression node
  | Parenthetical "node option"
  | Array "node list"
  | IdentifierAccess "nat option" Token
  | ScopeAccess "node option" Token "nat option" Token
  | Literal TokenType string
  | IfStatement node "node option" "node option" bool
  | ForLoop "node option" "node option" "node option" "node option"
  | WhileLoop node node WhileKind
  | DoLoop node node bool
  | CaseStatement node "node list"
  | DefaultStatement "node list"
  | SwitchStatement node "node list" "nat option"
  | ReturnStatement "node option" bool
  | BreakStatement "node option"
  | ContinueStatement "node option"
  | WithStatement node node

fun Definition :: "node \<Rightarrow> nat option" where
  "Definition (IdentifierAccess d name) = d"
| "Definition (ScopeAccess lhs name d op1) = d"
| "Definition n = None"

text \<open>\<open>Token()\<close>, the operator of a scope access without one.\<close>

definition no_token :: Token where
  "no_token = mk_token TT_ERROR \<lparr>content = [], line = 0, position = 0\<rparr>"

section \<open>Precedence\<close>

datatype Associativity = LTR | RTL

record OperatorPrecedence =
  precedence :: nat
  associativity :: Associativity

abbreviation (input) kUnaryPostfix :: nat where "kUnaryPostfix \<equiv> 2"
abbreviation (input) kFuncCall :: nat where "kFuncCall \<equiv> kUnaryPostfix"
abbreviation (input) kMemberAccess :: nat where "kMemberAccess \<equiv> kUnaryPostfix"
abbreviation (input) kUnaryPrefix :: nat where "kUnaryPrefix \<equiv> 3"
abbreviation (input) kMemberPointer :: nat where "kMemberPointer \<equiv> 4"
abbreviation (input) kMultiply :: nat where "kMultiply \<equiv> 5"
abbreviation (input) kAdd :: nat where "kAdd \<equiv> 6"
abbreviation (input) kShift :: nat where "kShift \<equiv> 7"
abbreviation (input) kThreeWayComp :: nat where "kThreeWayComp \<equiv> 8"
abbreviation (input) kRelational :: nat where "kRelational \<equiv> 9"
abbreviation (input) kEquality :: nat where "kEquality \<equiv> 10"
abbreviation (input) kBitAnd :: nat where "kBitAnd \<equiv> 11"
abbreviation (input) kBitXOr :: nat where "kBitXOr \<equiv> 12"
abbreviation (input) kBitOr :: nat where "kBitOr \<equiv> 13"
abbreviation (input) kBoolAnd :: nat where "kBoolAnd \<equiv> 14"
abbreviation (input) kBoolXOr :: nat where "kBoolXOr \<equiv> 15"
abbreviation (input) kBoolOr :: nat where "kBoolOr \<equiv> 16"
abbreviation (input) kTernary :: nat where "kTernary \<equiv> 17"
abbreviation (input) kAssign :: nat where "kAssign \<equiv> 17"
abbreviation (input) kComma :: nat where "kComma \<equiv> 18"
abbreviation (input) kAll :: nat where "kAll \<equiv> 100"

definition ltr :: "nat \<Rightarrow> OperatorPrecedence" where
  "ltr p = \<lparr>precedence = p, associativity = LTR\<rparr>"

definition rtl :: "nat \<Rightarrow> OperatorPrecedence" where
  "rtl p = \<lparr>precedence = p, associativity = RTL\<rparr>"

definition kBinaryPrec :: "TokenType \<Rightarrow> OperatorPrecedence option" where
  "kBinaryPrec = map_of [
    (TT_DOT, ltr kMemberAccess), (TT_ARROW, ltr kMemberAccess),
    (TT_DOT_STAR, ltr kMemberPointer), (TT_ARROW_STAR, ltr kMemberPointer),
    (TT_STAR, ltr kMultiply), (TT_SLASH, ltr kMultiply), (TT_DIV, ltr kMultiply),
    (TT_MOD, ltr kMultiply), (TT_PERCENT, ltr kMultiply),
    (TT_PLUS, ltr kAdd), (TT_MINUS, ltr kAdd),
    (TT_LSH, ltr kShift), (TT_RSH, ltr kShift),
    (TT_THREEWAY, ltr kThreeWayComp),
    (TT_LESS, ltr kRelational), (TT_LESSEQUAL, ltr kRelational),
    (TT_GREATER, ltr kRelational), (TT_GREATEREQUAL, ltr kRelational),
    (TT_EQUALTO, ltr kEquality), (TT_NOTEQUAL, ltr kEquality),
    (TT_AMPERSAND, ltr kBitAnd), (TT_CARET, ltr kBitXOr), (TT_PIPE, ltr kBitOr),
    (TT_AND, ltr kBoolAnd), (TT_XOR, ltr kBoolXOr), (TT_OR, ltr kBoolOr),
    (TT_ASSIGN, rtl kAssign), (TT_EQUALS, rtl kAssign), (TT_ASSOP, rtl kAssign),
    (TT_COMMA, ltr kComma)]"

definition kUnaryPostfixPrec :: "TokenType \<Rightarrow> OperatorPrecedence option" where
  "kUnaryPostfixPrec = map_of [(TT_INCREMENT, ltr kUnaryPostfix), (TT_DECREMENT, ltr kUnaryPostfix)]"

definition kTernaryPrec :: "TokenType \<Rightarrow> OperatorPrecedence option" where
  "kTernaryPrec = map_of [(TT_QMARK, rtl kTernary)]"

definition ShouldAcceptPrecedence :: "OperatorPrecedence \<Rightarrow> nat \<Rightarrow> bool" where
  "ShouldAcceptPrecedence prec target_prec = (precedence prec \<le> target_prec \<or>
     target_prec = precedence prec \<and> associativity prec = RTL)"

fun operand_takes_postfix :: "node \<Rightarrow> bool" where
  "operand_takes_postfix (IdentifierAccess d name) = True"
| "operand_takes_postfix (ScopeAccess lhs name d op1) = True"
| "operand_takes_postfix (BinaryExpression left right operation1) = (op_type operation1 \<in> {TT_DOT, TT_ARROW, TT_BEGINBRACKET})"
| "operand_takes_postfix n = False"

end
