(* ===== verification/Parser.thy ===== *)
theory Parser
  imports Lexer Ast
begin

text \<open>
  The parser of EDL (\<open>CompilerSource/parsing/parser.cpp\<close>): expressions and statements.  The
  methods of \<open>AstBuilder\<close> call each other, so each is a definition over the function \<open>prs\<close> that it
  calls the others by, and \<open>prs\<close> is the partial function that dispatches to them: a parse that
  does not return, or that follows a null pointer, is \<open>None\<close>.  A loop is a method that calls itself.

  \<open>LanguageFrontend\<close> and the definitions of JDI are abstract: what the parser asks them is a record
  of functions.  Declarations are not modelled: where the code parses a type, a declarator,
  an initialiser, a cast, \<open>new\<close>, \<open>delete\<close> or template arguments, the result is \<open>Unmodelled\<close>.
  Without them \<open>declarations\<close> stays empty, and \<open>allow_abstract_operand_\<close> and
  \<open>maybe_declarator_group_\<close> change nothing.
\<close>

section \<open>State\<close>

record Frontend =
  fe_look_up :: "string \<Rightarrow> nat option"
  fe_is_type :: "nat \<Rightarrow> bool"
  fe_is_scope :: "nat \<Rightarrow> bool"
  fe_is_template :: "nat \<Rightarrow> bool"
  fe_member :: "nat \<Rightarrow> string \<Rightarrow> nat option"

datatype SyntaxMode = STRICT | QUIRKS | GML

text \<open>The lexer of the parser is the list of the tokens it will return, and the token it returns after them.\<close>

record AstBuilder =
  tok :: Token
  input :: "Token list"
  eof :: Token
  perr :: errors
  pwarn :: errors
  syntax_mode :: SyntaxMode
  frontend :: Frontend

definition read_tok :: "AstBuilder \<Rightarrow> AstBuilder" where
  "read_tok s = (case input s of [] \<Rightarrow> s\<lparr>tok := eof s\<rparr> | t # ts \<Rightarrow> s\<lparr>tok := t, input := ts\<rparr>)"

definition perror :: "Token \<Rightarrow> string \<Rightarrow> AstBuilder \<Rightarrow> AstBuilder" where
  "perror t msg s = s\<lparr>perr := perr s @ [(snippet_of t, msg)]\<rparr>"

definition pwarning :: "Token \<Rightarrow> string \<Rightarrow> AstBuilder \<Rightarrow> AstBuilder" where
  "pwarning t msg s = s\<lparr>pwarn := pwarn s @ [(snippet_of t, msg)]\<rparr>"

abbreviation (input) tt :: "AstBuilder \<Rightarrow> TokenType" where "tt s \<equiv> ttype (tok s)"

definition quoted :: "string \<Rightarrow> string" where
  "quoted s = [CHR 0x27] @ s @ [CHR 0x27]"

definition require_any_of :: "TokenType list \<Rightarrow> string \<Rightarrow> AstBuilder \<Rightarrow> bool \<times> AstBuilder" where
  "require_any_of tts msg s = (if tt s \<in> set tts then (True, read_tok s)
     else (False, perror (tok s) (msg @ '', got: '' @ quoted (content (tok s))) s))"

definition require_token :: "TokenType \<Rightarrow> string \<Rightarrow> AstBuilder \<Rightarrow> bool \<times> AstBuilder" where
  "require_token ty msg s = require_any_of [ty] msg s"

definition MaybeConsumeSemicolon :: "AstBuilder \<Rightarrow> AstBuilder" where
  "MaybeConsumeSemicolon s = (if tt s = TT_SEMICOLON then read_tok s else s)"

section \<open>Token classes\<close>

definition is_class_key :: "TokenType \<Rightarrow> bool" where
  "is_class_key ty = (ty \<in> {TT_CLASS, TT_STRUCT, TT_UNION})"

definition is_type_specifier :: "TokenType \<Rightarrow> bool" where
  "is_type_specifier ty = (ty \<in> {TT_TYPE_NAME, TT_TYPENAME, TT_DECLTYPE, TT_ENUM, TT_DECLSPEC} \<or> is_class_key ty)"

definition is_decl_specifier :: "TokenType \<Rightarrow> bool" where
  "is_decl_specifier ty = (ty \<in> {TT_TYPEDEF, TT_CONSTEXPR, TT_CONSTINIT, TT_CONSTEVAL, TT_MUTABLE, TT_INLINE, TT_STATIC,
     TT_THREAD_LOCAL, TT_EXTERN} \<or> is_type_specifier ty)"

definition is_user_defined_type :: "Frontend \<Rightarrow> Token \<Rightarrow> bool" where
  "is_user_defined_type fe t = (ttype t = TT_IDENTIFIER \<and>
     (case fe_look_up fe (content t) of None \<Rightarrow> False | Some d \<Rightarrow> fe_is_type fe d))"

definition maybe_functional_cast :: "TokenType \<Rightarrow> bool" where
  "maybe_functional_cast ty = (ty \<in> {TT_SCOPEACCESS, TT_TYPENAME, TT_TYPE_NAME, TT_DECLTYPE})"

definition next_maybe_functional_cast :: "AstBuilder \<Rightarrow> bool" where
  "next_maybe_functional_cast s = (maybe_functional_cast (tt s) \<or> is_user_defined_type (frontend s) (tok s))"

section \<open>Results\<close>

datatype outcome = Unmodelled | Done "node option" AstBuilder

datatype entry =
    P_Expression nat "node option"
  | P_Loop nat node
  | P_Operand
  | P_NestedName "node option"
  | P_Binary nat node
  | P_Subscript node
  | P_Call node
  | P_Arguments node "node list"
  | P_Array "node list"
  | P_Statement
  | P_StatementOrBlock
  | P_Code "node list"
  | P_SwitchBody node "node list" "nat option"
  | P_CaseOrDefault bool
  | P_CaseBody bool "node option" "node list"

type_synonym prs = "entry \<times> AstBuilder \<Rightarrow> outcome option"

definition return_node :: "node \<Rightarrow> AstBuilder \<Rightarrow> outcome option" where
  "return_node e s = Some (Done (Some e) s)"

definition nullptr :: "AstBuilder \<Rightarrow> outcome option" where
  "nullptr s = Some (Done None s)"

definition unmodelled :: "outcome option" where
  "unmodelled = Some Unmodelled"

text \<open>\<open>call\<close> hands on the pointer a method returns; \<open>node_of\<close> the node, and a null pointer is followed.\<close>

definition call :: "outcome option \<Rightarrow> (node option \<Rightarrow> AstBuilder \<Rightarrow> outcome option) \<Rightarrow> outcome option" where
  "call m k = Option.bind m (\<lambda>r. case r of Unmodelled \<Rightarrow> Some Unmodelled | Done p s \<Rightarrow> k p s)"

definition node_of :: "outcome option \<Rightarrow> (node \<Rightarrow> AstBuilder \<Rightarrow> outcome option) \<Rightarrow> outcome option" where
  "node_of m k = call m (\<lambda>p s. case p of None \<Rightarrow> None | Some e \<Rightarrow> k e s)"

lemma call_simps [simp]:
  "call None k = None" "call (Some Unmodelled) k = Some Unmodelled" "call (Some (Done p s)) k = k p s"
  by (simp_all add: call_def)

lemma node_of_simps [simp]:
  "node_of None k' = None" "node_of (Some Unmodelled) k' = Some Unmodelled" "node_of (Some (Done None s)) k' = None"
  "node_of (Some (Done (Some e) s)) k' = k' e s"
  by (simp_all add: node_of_def)

lemma call_outcome_mono [partial_function_mono]:
  assumes "mono_option (\<lambda>f. m f)" and "\<And>p s. mono_option (\<lambda>f. k f p s)"
  shows "mono_option (\<lambda>f. call (m f) (k f))"
proof -
  have "mono_option (\<lambda>f. case y of Unmodelled \<Rightarrow> Some Unmodelled | Done p s \<Rightarrow> k f p s)" for y
    using assms(2) by (cases y) (simp_all add: option.const_mono)
  then show ?thesis unfolding call_def by (intro bind_mono assms(1))
qed

lemma case_option_mono [partial_function_mono]:
  assumes "mono_option (\<lambda>f. m f)" and "\<And>x. mono_option (\<lambda>f. k f x)"
  shows "mono_option (\<lambda>f. case y of None \<Rightarrow> m f | Some x \<Rightarrow> k f x)"
  using assms by (cases y) simp_all

lemma node_of_mono [partial_function_mono]:
  assumes "mono_option (\<lambda>f. m f)" and "\<And>e s. mono_option (\<lambda>f. k f e s)"
  shows "mono_option (\<lambda>f. node_of (m f) (k f))"
  unfolding node_of_def by (intro call_outcome_mono case_option_mono assms option.const_mono)

section \<open>Expressions\<close>

text \<open>The early returns of \<open>ParseExpression\<close> are for nodes that are not modelled.\<close>

definition ParseExpression :: "prs \<Rightarrow> nat \<Rightarrow> node option \<Rightarrow> AstBuilder \<Rightarrow> outcome option" where
  "ParseExpression prs prec operand s =
     call (case operand of None \<Rightarrow> prs (P_Operand, s) | Some e \<Rightarrow> return_node e s) (\<lambda>p s1.
     case p of None \<Rightarrow> return_node (SyntaxError (tok s)) s1
     | Some e \<Rightarrow> prs (P_Loop prec e, s1))"

definition TryParseLambdaExpression :: "prs \<Rightarrow> node \<Rightarrow> AstBuilder \<Rightarrow> outcome option" where
  "TryParseLambdaExpression prs operand s =
     node_of (prs (P_StatementOrBlock, read_tok s)) (\<lambda>body. return_node (LambdaExpression operand body))"

definition TryParseUnaryPostfixExpression :: "nat \<Rightarrow> node \<Rightarrow> AstBuilder \<Rightarrow> outcome option" where
  "TryParseUnaryPostfixExpression prec operand s = (case kUnaryPostfixPrec (tt s) of
      Some rule \<Rightarrow> if precedence rule \<le> prec
        then return_node (UnaryPostfixExpression operand (operation_of (tok s))) (read_tok s)
        else (case operand of UnaryPostfixExpression e op1 \<Rightarrow> return_node operand s | _ \<Rightarrow> nullptr s)
    | None \<Rightarrow> (case operand of UnaryPostfixExpression e op1 \<Rightarrow> return_node operand s | _ \<Rightarrow> nullptr s))"

definition TryParseTernaryExpression :: "prs \<Rightarrow> node \<Rightarrow> AstBuilder \<Rightarrow> outcome option" where
  "TryParseTernaryExpression prs operand s =
     node_of (prs (P_Expression kBoolOr None, read_tok s)) (\<lambda>middle s1.
     node_of (prs (P_Expression kTernary None, snd (require_token TT_COLON
       ''Expected colon (':') after expression in conditional operator'' s1))) (\<lambda>right.
     return_node (TernaryExpression operand middle right)))"

text \<open>The loop of \<open>ParseExpression\<close> over the operators after an operand.\<close>

definition ParseLoop :: "prs \<Rightarrow> nat \<Rightarrow> node \<Rightarrow> AstBuilder \<Rightarrow> outcome option" where
  "ParseLoop prs prec operand s = (let next = (\<lambda>e s1. prs (P_Loop prec e, s1)) in
     if tt s = TT_ENDOFCODE then return_node operand s
     else if tt s = TT_JS_ARROW then node_of (TryParseLambdaExpression prs operand s) next
     else case kBinaryPrec (tt s) of
       Some rule \<Rightarrow> if \<not> ShouldAcceptPrecedence rule prec then return_node operand s
         else node_of (prs (P_Binary prec operand, s)) next
     | None \<Rightarrow>
     if kUnaryPostfixPrec (tt s) \<noteq> None then
       if prec < kUnaryPostfix \<or> \<not> operand_takes_postfix operand then return_node operand s
       else node_of (TryParseUnaryPostfixExpression prec operand s) next
     else if kTernaryPrec (tt s) \<noteq> None then
       if prec < kTernary then return_node operand s
       else node_of (TryParseTernaryExpression prs operand s) next
     else if tt s = TT_BEGINBRACKET then
       if prec < kUnaryPostfix then return_node operand s
       else node_of (prs (P_Subscript operand, s)) next
     else if tt s = TT_BEGINPARENTH then
       if prec < kFuncCall then return_node operand s
       else node_of (prs (P_Call operand, s)) next
     else return_node operand s)"

definition binary_operands :: "prs \<Rightarrow> nat \<Rightarrow> node \<Rightarrow> Token \<Rightarrow> OperatorPrecedence \<Rightarrow> AstBuilder \<Rightarrow> outcome option" where
  "binary_operands prs prec operand oper rule s = (
     if ttype oper = TT_DOT then
       let name = tok s; (b, s1) = require_token TT_IDENTIFIER ''Expected identifier after member access'' s in
       prs (P_Binary prec (ScopeAccess (Some operand) name None oper), s1)
     else
       node_of (prs (P_Expression (if associativity rule = LTR then precedence rule - 1 else precedence rule) None, s)) (\<lambda>right s1.
       prs (P_Binary prec (BinaryExpression operand right (operation_of oper)), s1)))"

definition TryParseBinaryExpression :: "prs \<Rightarrow> nat \<Rightarrow> node \<Rightarrow> AstBuilder \<Rightarrow> outcome option" where
  "TryParseBinaryExpression prs prec operand s = (case kBinaryPrec (tt s) of
      None \<Rightarrow> return_node operand s
    | Some rule \<Rightarrow> if \<not> (precedence rule \<le> prec \<and> tt s \<noteq> TT_ENDOFCODE) then return_node operand s
        else let s1 = read_tok s in
          binary_operands prs prec operand (tok s) rule
            (if tt s1 = TT_ENDOFCODE \<or> tt s1 = TT_SEMICOLON then perror (tok s1) ''Uncompleted binary expression'' s1 else s1))"

definition TryParseSubscriptExpression :: "prs \<Rightarrow> node \<Rightarrow> AstBuilder \<Rightarrow> outcome option" where
  "TryParseSubscriptExpression prs operand s = (if tt s \<noteq> TT_BEGINBRACKET then return_node operand s else
     node_of (prs (P_Expression kAll None, read_tok s)) (\<lambda>right s1.
     prs (P_Subscript (BinaryExpression operand right (operation_of (tok s))),
       snd (require_token TT_ENDBRACKET ''Expected closing bracket (']') at the end of array subscript'' s1))))"

text \<open>A type-specifier-led argument of a callee that is not a name is a parameter declaration.\<close>

definition callee_is_named_value :: "node \<Rightarrow> bool" where
  "callee_is_named_value operand = (case operand of IdentifierAccess d name \<Rightarrow> True | ScopeAccess lhs name d op1 \<Rightarrow> True | _ \<Rightarrow> False)"

definition TryParseFunctionCallExpression :: "prs \<Rightarrow> node \<Rightarrow> AstBuilder \<Rightarrow> outcome option" where
  "TryParseFunctionCallExpression prs operand s = (if tt s \<noteq> TT_BEGINPARENTH then return_node operand s
     else prs (P_Arguments operand [], read_tok s))"

definition end_arguments :: "prs \<Rightarrow> node \<Rightarrow> node list \<Rightarrow> AstBuilder \<Rightarrow> outcome option" where
  "end_arguments prs operand arguments s = prs (P_Call (FunctionCallExpression operand arguments),
     snd (require_token TT_ENDPARENTH ''Expected ')' after function call'' s))"

definition ParseArguments :: "prs \<Rightarrow> node \<Rightarrow> node list \<Rightarrow> AstBuilder \<Rightarrow> outcome option" where
  "ParseArguments prs operand arguments s = (
     if tt s = TT_ENDPARENTH \<or> tt s = TT_ENDOFCODE then end_arguments prs operand arguments s
     else if \<not> callee_is_named_value operand \<and> is_decl_specifier (tt s) then unmodelled
     else node_of (prs (P_Expression kTernary None, s)) (\<lambda>e s1.
       let arguments1 = arguments @ [e] in
       if tt s1 \<noteq> TT_COMMA \<and> tt s1 \<noteq> TT_ENDPARENTH then
         end_arguments prs operand arguments1 (perror (tok s1) ''Expected ',' or ')' after function argument'' s1)
       else prs (P_Arguments operand arguments1, if tt s1 = TT_COMMA then read_tok s1 else s1)))"

section \<open>Operands\<close>

text \<open>The loop of \<open>TryParseNestedNameSpecifier\<close>.\<close>

definition segment_definition :: "Frontend \<Rightarrow> node option \<Rightarrow> string \<Rightarrow> nat option" where
  "segment_definition fe current name = (case current of
      None \<Rightarrow> fe_look_up fe name
    | Some e \<Rightarrow> (case Definition e of
        None \<Rightarrow> None
      | Some parent \<Rightarrow> if fe_is_scope fe parent then fe_member fe parent name else None))"

definition is_template_definition :: "Frontend \<Rightarrow> nat option \<Rightarrow> bool" where
  "is_template_definition fe d = (case d of None \<Rightarrow> False | Some n \<Rightarrow> fe_is_template fe n)"

definition ParseNestedName :: "prs \<Rightarrow> node option \<Rightarrow> AstBuilder \<Rightarrow> outcome option" where
  "ParseNestedName prs current s = (if tt s \<noteq> TT_SCOPEACCESS then Some (Done current s) else
     let s1 = read_tok s in
     if tt s1 = TT_IDENTIFIER then
       let s2 = read_tok s1; seg_def = segment_definition (frontend s) current (content (tok s1)) in
       if tt s2 = TT_LESS \<and> is_template_definition (frontend s) seg_def then unmodelled
       else prs (P_NestedName (Some (ScopeAccess current (tok s1) seg_def no_token)), s2)
     else if tt s1 = TT_STAR then Some (Done current s1)
     else Some (Done current (perror (tok s1) ''Expected either identifier or star ('*') after nested name specifier'' s1)))"

definition TryParseIdExpression :: "prs \<Rightarrow> AstBuilder \<Rightarrow> outcome option" where
  "TryParseIdExpression prs s = (
     if tt s = TT_IDENTIFIER then
       let name = tok s; s1 = read_tok s; e = IdentifierAccess (fe_look_up (frontend s) (content name)) name in
       if tt s1 = TT_SCOPEACCESS then prs (P_NestedName (Some e), s1) else return_node e s1
     else if tt s = TT_DECLTYPE then unmodelled
     else nullptr (perror (tok s) (''Given token cannot be used to specify a qualified or unqualified expression: ''
       @ quoted (content (tok s))) s))"

text \<open>A group that is an abstract type-id is a cast, which needs a type.\<close>

definition ParseParenthetical :: "prs \<Rightarrow> AstBuilder \<Rightarrow> outcome option" where
  "ParseParenthetical prs s = (let s1 = read_tok s;
      close = (\<lambda>p s2. return_node (Parenthetical p)
        (snd (require_token TT_ENDPARENTH (''Expected closing parenthesis before '' @ quoted (content (tok s2))) s2))) in
    if tt s1 = TT_ENDPARENTH then close None s1
    else call (prs (P_Expression kAll None, s1)) close)"

definition end_array :: "node list \<Rightarrow> AstBuilder \<Rightarrow> outcome option" where
  "end_array elements s = return_node (Array elements) (snd (require_token TT_ENDBRACKET ''Expected closing `]` for array'' s))"

definition ParseArray :: "prs \<Rightarrow> node list \<Rightarrow> AstBuilder \<Rightarrow> outcome option" where
  "ParseArray prs elements s = (if tt s = TT_ENDBRACKET \<or> tt s = TT_ENDOFCODE then end_array elements s else
     node_of (prs (P_Expression kComma None, s)) (\<lambda>e s1.
       if tt s1 \<noteq> TT_COMMA then end_array (elements @ [e]) s1
       else prs (P_Array (elements @ [e]), read_tok s1)))"

definition ParseSizeof :: "prs \<Rightarrow> AstBuilder \<Rightarrow> outcome option" where
  "ParseSizeof prs s = (let s1 = read_tok s in
     if tt s1 = TT_BEGINPARENTH then
       call (prs (P_Expression kAll None, read_tok s1)) (\<lambda>body s2.
         return_node (SizeofExpression SizeofExpr (Parenthetical body))
           (snd (require_token TT_ENDPARENTH ''Expected closing parenthesis (')') after sizeof-expression'' s2)))
     else if tt s1 = TT_ELLIPSES then
       let s2 = snd (require_token TT_BEGINPARENTH (''Expected opening '(' after '' @ quoted ''sizeof ...'') (read_tok s1));
           arg = tok s2; bs = require_token TT_IDENTIFIER ''Expected identifier as argument to variadic sizeof'' s2 in
       if fst bs then return_node (SizeofExpression SizeofVariadic (IdentifierAccess None arg))
         (snd (require_token TT_ENDPARENTH ''Expected closing ')' after variadic sizeof'' (snd bs)))
       else nullptr (snd bs)
     else node_of (prs (P_Expression kUnaryPrefix None, s1)) (\<lambda>operand. return_node (SizeofExpression SizeofExpr operand)))"

definition ParseAlignof :: "prs \<Rightarrow> AstBuilder \<Rightarrow> outcome option" where
  "ParseAlignof prs s = (let bs = require_token TT_BEGINPARENTH (''Expected opening parenthesis ('(') after '' @ quoted ''alignof'') (read_tok s) in
     if fst bs then node_of (prs (P_Expression kAll None, snd bs)) (\<lambda>body s2. return_node (AlignofExpression body)
       (snd (require_token TT_ENDPARENTH ''Expected closing parenthesis (')') after alignof-expression'' s2)))
     else nullptr (snd bs))"

definition ParseNoexcept :: "prs \<Rightarrow> AstBuilder \<Rightarrow> outcome option" where
  "ParseNoexcept prs s = (let bs = require_token TT_BEGINPARENTH ''Expected opening '(' after noexcept'' (read_tok s) in
     if fst bs then node_of (prs (P_Expression kAll None, read_tok (snd bs))) (\<lambda>expr s2.
       return_node (UnaryPrefixExpression expr (operation_of (tok s)))
         (snd (require_token TT_ENDPARENTH ''Expected closing ')' after noexcept expression'' s2)))
     else nullptr (snd bs))"

definition ParseGlobalScope :: "prs \<Rightarrow> AstBuilder \<Rightarrow> outcome option" where
  "ParseGlobalScope prs s = (let s1 = read_tok s; name = tok s1 in
     if tt s1 = TT_S_NEW \<or> tt s1 = TT_S_DELETE then unmodelled
     else if tt s1 = TT_IDENTIFIER then
       let s2 = read_tok s1; access = ScopeAccess None name (fe_look_up (frontend s) (content name)) no_token in
       if tt s2 = TT_SCOPEACCESS then prs (P_NestedName (Some access), s2) else return_node access s2
     else nullptr (perror name (''Expected qualified-id after '::', got: '' @ quoted (content name)) s1))"

definition ParsePrefix :: "prs \<Rightarrow> AstBuilder \<Rightarrow> outcome option" where
  "ParsePrefix prs s = node_of (prs (P_Expression kUnaryPrefix None, read_tok s)) (\<lambda>e.
     return_node (UnaryPrefixExpression e (operation_of (tok s))))"

text \<open>A token that cannot begin an operand: the message, and the token is read.\<close>

definition reject :: "string \<Rightarrow> AstBuilder \<Rightarrow> outcome option" where
  "reject msg s = nullptr (read_tok (perror (tok s) msg s))"

definition TryParseOperand :: "prs \<Rightarrow> AstBuilder \<Rightarrow> outcome option" where
  "TryParseOperand prs s = (let ty = tt s in
     if ty \<in> {TT_BEGINBRACE, TT_ENDBRACE, TT_ENDPARENTH, TT_ENDBRACKET, TT_ENDOFCODE, TT_SEMICOLON} then
       nullptr (perror (tok s) (if ty = TT_ENDOFCODE then ''Expected an expression before end of code''
         else ''Expected an expression before '' @ quoted (content (tok s))) s)
     else if ty = TT_COLON then reject ''Expected label or ternary expression before colon'' s
     else if ty = TT_COMMA then reject ''Expected expression before comma'' s
     else if ty \<in> {TT_ASSIGN, TT_ASSOP} then reject ''Expected assignable expression before assignment operator'' s
     else if ty \<in> {TT_DOT, TT_ARROW} then reject ''Expected expression before member access'' s
     else if ty \<in> {TT_DOT_STAR, TT_ARROW_STAR} then reject ''Expected expression before pointer-to-member'' s
     else if ty \<in> {TT_PERCENT, TT_PIPE, TT_CARET, TT_AND, TT_OR, TT_XOR, TT_DIV, TT_MOD, TT_EQUALS, TT_SLASH, TT_EQUALTO,
       TT_NOTEQUAL, TT_LESS, TT_GREATER, TT_LESSEQUAL, TT_THREEWAY, TT_GREATEREQUAL, TT_LSH, TT_RSH}
       then reject (''Expected expression before binary operator `'' @ content (tok s) @ ''`'') s
     else if ty = TT_JS_ARROW then reject (''Expected parameter list before '' @ quoted ''=>'') s
     else if ty = TT_QMARK then reject ''Expected expression before ternary operator ?'' s
     else if ty \<in> {TT_NOT, TT_BANG, TT_PLUS, TT_MINUS, TT_STAR, TT_AMPERSAND, TT_INCREMENT, TT_DECREMENT, TT_CO_AWAIT, TT_TILDE}
       then ParsePrefix prs s
     else if ty = TT_BEGINPARENTH then ParseParenthetical prs s
     else if ty = TT_BEGINBRACKET then prs (P_Array [], read_tok s)
     else if ty \<in> {TT_DECLITERAL, TT_BINLITERAL, TT_OCTLITERAL, TT_HEXLITERAL, TT_STRINGLIT, TT_CHARLIT, TT_BOOLLITERAL}
       then return_node (Literal ty (content (tok s))) (read_tok s)
     else if ty = TT_SIZEOF then ParseSizeof prs s
     else if ty = TT_ALIGNOF then ParseAlignof prs s
     else if ty = TT_NOEXCEPT then ParseNoexcept prs s
     else if ty \<in> {TT_DYNAMIC_CAST, TT_STATIC_CAST, TT_REINTERPRET_CAST, TT_CONST_CAST, TT_S_NEW, TT_S_DELETE, TT_TYPE_NAME} then unmodelled
     else if ty = TT_SCOPEACCESS then ParseGlobalScope prs s
     else if ty \<in> {TT_DECLTYPE, TT_IDENTIFIER, TT_GLOBAL, TT_LOCAL} then
       (if is_user_defined_type (frontend s) (tok s) then unmodelled else TryParseIdExpression prs s)
     else if ty = TT_ELLIPSES then reject ''Stray ellipses ('...') in program'' s
     else if ty \<in> {TT_TYPENAME, TT_OPERATOR, TT_CONSTEXPR, TT_CONSTINIT, TT_CONSTEVAL, TT_INLINE, TT_STATIC, TT_THREAD_LOCAL,
       TT_EXTERN, TT_MUTABLE, TT_UNION, TT_DECLSPEC, TT_ENUM, TT_TYPEDEF} then unmodelled
     else nullptr s)"

section \<open>Statements\<close>

definition TryParseControlExpression :: "prs \<Rightarrow> SyntaxMode \<Rightarrow> AstBuilder \<Rightarrow> outcome option" where
  "TryParseControlExpression prs mode s =
     node_of (prs (P_Expression kAll None,
       if mode = STRICT then snd (require_token TT_BEGINPARENTH ''Expected '(' before control expression'' s) else s)) (\<lambda>expr s1.
     return_node expr (if mode = STRICT then snd (require_token TT_ENDPARENTH ''Expected ')' after control expression'' s1) else s1))"

definition ParseCode :: "prs \<Rightarrow> node list \<Rightarrow> AstBuilder \<Rightarrow> outcome option" where
  "ParseCode prs statements s = (if tt s = TT_ENDBRACE \<or> tt s = TT_ENDOFCODE then return_node (CodeBlock statements) s
     else node_of (prs (P_StatementOrBlock, s)) (\<lambda>e s1. prs (P_Code (statements @ [e]), s1)))"

definition ParseCodeBlock :: "prs \<Rightarrow> AstBuilder \<Rightarrow> outcome option" where
  "ParseCodeBlock prs s = node_of (prs (P_Code [],
       snd (require_token TT_BEGINBRACE ''Internal error: Expected opening brace ('{') at the start of code block'' s))) (\<lambda>res s1.
     return_node res (snd (require_token TT_ENDBRACE ''Expected closing brace ('}') at the end of code block'' s1)))"

text \<open>\<open>ParseStatementOrBlock\<close>: a null statement becomes a syntax error, and a token that the statement
  did not move past is read.  The code compares the positions of tokens in their lines.\<close>

definition ParseStatementOrBlock :: "prs \<Rightarrow> AstBuilder \<Rightarrow> outcome option" where
  "ParseStatementOrBlock prs s = (if tt s = TT_BEGINBRACE then ParseCodeBlock prs s
     else call (prs (P_Statement, s)) (\<lambda>p s1. case p of
       Some e \<Rightarrow> return_node e s1
     | None \<Rightarrow> return_node (SyntaxError (tok s)) (if position (tok s1) = position (tok s) then
         read_tok (perror (tok s1) (''Internal parser error: TryParseStatement returned null without advancing past `''
           @ content (tok s1) @ ''`'') s1) else s1)))"

definition strict_warning :: "string \<Rightarrow> AstBuilder \<Rightarrow> AstBuilder" where
  "strict_warning msg s = (if syntax_mode s = STRICT then pwarning (tok s) msg s else s)"

text \<open>The branches of an if statement.  An empty true branch is null.\<close>

definition parse_else :: "prs \<Rightarrow> node \<Rightarrow> bool \<Rightarrow> node option \<Rightarrow> AstBuilder \<Rightarrow> outcome option" where
  "parse_else prs condition not_condition true_branch s = (if tt s = TT_S_ELSE then
       node_of (prs (P_StatementOrBlock, read_tok s)) (\<lambda>e. return_node (IfStatement condition true_branch (Some e) not_condition))
     else return_node (IfStatement condition true_branch None not_condition) s)"

definition parse_then :: "prs \<Rightarrow> node \<Rightarrow> bool \<Rightarrow> AstBuilder \<Rightarrow> outcome option" where
  "parse_then prs condition not_condition s = (if tt s \<noteq> TT_SEMICOLON then
       node_of (prs (P_StatementOrBlock, s)) (\<lambda>e. parse_else prs condition not_condition (Some e))
     else parse_else prs condition not_condition None (read_tok s))"

definition ParseIfStatement :: "prs \<Rightarrow> AstBuilder \<Rightarrow> outcome option" where
  "ParseIfStatement prs s = (let s1 = read_tok s; not_condition = (tt s1 = TT_NOT);
      s2 = (if not_condition then read_tok (strict_warning ''Use of `not` keyword in if statement'' s1) else s1) in
    node_of (TryParseControlExpression prs (syntax_mode s) s2) (\<lambda>condition s3.
    parse_then prs condition not_condition
      (if tt s3 = TT_S_THEN then read_tok (strict_warning ''Use of `then` keyword in if statement'' s3) else s3)))"

definition parse_for_body :: "prs \<Rightarrow> node option \<Rightarrow> node option \<Rightarrow> node option \<Rightarrow> AstBuilder \<Rightarrow> outcome option" where
  "parse_for_body prs init cond incr s = (if tt s = TT_SEMICOLON then return_node (ForLoop init cond incr None) (read_tok s)
     else node_of (prs (P_StatementOrBlock, s)) (\<lambda>body. return_node (ForLoop init cond incr (Some body))))"

text \<open>An optional clause of a for loop: \<open>k\<close> goes on with the clause, or with null at one of the tokens that end it.\<close>

definition parse_clause :: "prs \<Rightarrow> TokenType list \<Rightarrow> AstBuilder \<Rightarrow> (node option \<Rightarrow> AstBuilder \<Rightarrow> outcome option) \<Rightarrow> outcome option" where
  "parse_clause prs ends s k = (if tt s \<in> set ends then k None s else call (prs (P_Expression kAll None, s)) k)"

definition ParseForLoop :: "prs \<Rightarrow> AstBuilder \<Rightarrow> outcome option" where
  "ParseForLoop prs s = (let s1 = snd (require_token TT_S_FOR ''Expected 'for' in for-loop'' s);
      conventional = (tt s1 = TT_BEGINPARENTH); s2 = (if conventional then read_tok s1 else s1) in
    if is_decl_specifier (tt s2) then unmodelled else
    parse_clause prs [TT_SEMICOLON] s2 (\<lambda>init s3.
    let closed = (tt s3 = TT_ENDPARENTH); s4 = (if closed then read_tok s3 else s3);
        s5 = snd (require_token TT_SEMICOLON ''Expected semicolon (';') after for-loop initializer'' s4) in
    parse_clause prs [TT_SEMICOLON, TT_ENDPARENTH] s5 (\<lambda>cond s6.
    parse_clause prs [TT_SEMICOLON, TT_ENDPARENTH]
      (snd (require_token TT_SEMICOLON ''Expected semicolon (';') after for-loop condition'' s6)) (\<lambda>incr s7.
    parse_for_body prs init cond incr (if conventional \<and> \<not> closed
      then snd (require_token TT_ENDPARENTH ''Expected closing parenthesis (')') after for-loop header'' s7) else s7)))))"

text \<open>\<open>while\<close>, \<open>until\<close> and \<open>repeat\<close> differ in the kind only.\<close>

definition ParseWhile :: "prs \<Rightarrow> WhileKind \<Rightarrow> AstBuilder \<Rightarrow> outcome option" where
  "ParseWhile prs kind s = node_of (TryParseControlExpression prs (syntax_mode s) (read_tok s)) (\<lambda>condition s1.
     node_of (prs (P_StatementOrBlock, s1)) (\<lambda>body. return_node (WhileLoop condition body kind)))"

definition ParseDoLoop :: "prs \<Rightarrow> AstBuilder \<Rightarrow> outcome option" where
  "ParseDoLoop prs s = node_of (prs (P_StatementOrBlock, read_tok s)) (\<lambda>body s1.
     node_of (TryParseControlExpression prs (syntax_mode s)
       (snd (require_any_of [TT_S_WHILE, TT_S_UNTIL] ''Expected `while` or `until` after do loop body'' s1))) (\<lambda>condition s2.
     return_node (DoLoop body condition (tt s1 = TT_S_UNTIL)) (MaybeConsumeSemicolon s2)))"

definition ParseWithStatement :: "prs \<Rightarrow> AstBuilder \<Rightarrow> outcome option" where
  "ParseWithStatement prs s = node_of (TryParseControlExpression prs (syntax_mode s) (read_tok s)) (\<lambda>object s1.
     node_of (prs (P_StatementOrBlock, s1)) (\<lambda>body. return_node (WithStatement object body)))"

definition ParseReturnStatement :: "prs \<Rightarrow> AstBuilder \<Rightarrow> outcome option" where
  "ParseReturnStatement prs s = parse_clause prs [TT_SEMICOLON, TT_ENDBRACE, TT_ENDOFCODE] (read_tok s) (\<lambda>value s1.
     return_node (ReturnStatement value False) (MaybeConsumeSemicolon s1))"

text \<open>The count of \<open>break\<close> and \<open>continue\<close>: only a number is read.\<close>

definition ParseJump :: "prs \<Rightarrow> (node option \<Rightarrow> node) \<Rightarrow> AstBuilder \<Rightarrow> outcome option" where
  "ParseJump prs statement s = (let s1 = read_tok s; end_jump = (\<lambda>p s2. return_node (statement p) (MaybeConsumeSemicolon s2)) in
     if tt s1 \<notin> {TT_DECLITERAL, TT_BINLITERAL, TT_OCTLITERAL, TT_HEXLITERAL} then end_jump None s1
     else call (prs (P_Operand, s1)) end_jump)"

definition ParseSwitchStatement :: "prs \<Rightarrow> AstBuilder \<Rightarrow> outcome option" where
  "ParseSwitchStatement prs s =
     node_of (TryParseControlExpression prs (syntax_mode s) (snd (require_token TT_S_SWITCH ''Expected 'switch' in switch-statement'' s))) (\<lambda>e s1.
     prs (P_SwitchBody e [] None, snd (require_token TT_BEGINBRACE ''Expected '{' after switch-statement condition'' s1)))"

definition ParseSwitchBody :: "prs \<Rightarrow> node \<Rightarrow> node list \<Rightarrow> nat option \<Rightarrow> AstBuilder \<Rightarrow> outcome option" where
  "ParseSwitchBody prs e statements default_branch s = (
     if tt s = TT_ENDBRACE then return_node (SwitchStatement e statements default_branch)
       (snd (require_token TT_ENDBRACE ''Expected closing brace ('}') after switch-statement'' s))
     else if tt s = TT_S_CASE then
       node_of (prs (P_CaseOrDefault False, s)) (\<lambda>c s1. prs (P_SwitchBody e (statements @ [c]) default_branch, s1))
     else if tt s = TT_S_DEFAULT then
       if default_branch \<noteq> None then
         node_of (prs (P_CaseOrDefault True, perror (tok s) ''Redefinition of default case of switch'' s)) (\<lambda>c s1.
           prs (P_SwitchBody e statements default_branch, s1))
       else node_of (prs (P_CaseOrDefault True, s)) (\<lambda>c s1.
           prs (P_SwitchBody e (statements @ [c]) (Some (length statements)), s1))
     else prs (P_SwitchBody e statements default_branch, perror (tok s) ''Expected 'case' or 'default' in switch body'' s))"

definition ParseCaseOrDefaultStatement :: "prs \<Rightarrow> bool \<Rightarrow> AstBuilder \<Rightarrow> outcome option" where
  "ParseCaseOrDefaultStatement prs is_default s = (if is_default then
       prs (P_CaseBody is_default None [], snd (require_token TT_COLON (''Expected colon (':') after '' @ quoted ''default'')
         (snd (require_token TT_S_DEFAULT ''Expected 'default' at the start of default statement'' s))))
     else call (prs (P_Expression kAll None, snd (require_token TT_S_CASE ''Expected 'case' at the start of case statement'' s))) (\<lambda>e s1.
       prs (P_CaseBody is_default e [], snd (require_token TT_COLON ''Expected colon (':') after case expression'' s1))))"

definition ParseCaseBody :: "prs \<Rightarrow> bool \<Rightarrow> node option \<Rightarrow> node list \<Rightarrow> AstBuilder \<Rightarrow> outcome option" where
  "ParseCaseBody prs is_default expr statements s = (
     if tt s = TT_S_CASE \<or> tt s = TT_S_DEFAULT \<or> tt s = TT_ENDBRACE then
       (if is_default then return_node (DefaultStatement statements) s
        else case expr of None \<Rightarrow> None | Some e \<Rightarrow> return_node (CaseStatement e statements) s)
     else if tt s = TT_BEGINBRACE then
       node_of (ParseCodeBlock prs s) (\<lambda>b s1. prs (P_CaseBody is_default expr (statements @ [b]), s1))
     else call (prs (P_Statement, s)) (\<lambda>p s1.
       prs (P_CaseBody is_default expr (case p of None \<Rightarrow> statements | Some e \<Rightarrow> statements @ [e]), s1)))"

text \<open>An expression as a statement.  A name that is \<open>global\<close> or \<open>local\<close> starts a declaration unless a dot follows.\<close>

definition expression_statement :: "prs \<Rightarrow> node option \<Rightarrow> AstBuilder \<Rightarrow> outcome option" where
  "expression_statement prs operand s = node_of (prs (P_Expression kAll operand, s)) (\<lambda>e s1. return_node e (MaybeConsumeSemicolon s1))"

definition name_statement :: "prs \<Rightarrow> AstBuilder \<Rightarrow> outcome option" where
  "name_statement prs s = (if content (tok s) = ''global'' \<or> content (tok s) = ''local'' then
       let s1 = read_tok s in
       if is_decl_specifier (tt s1) \<or> next_maybe_functional_cast s1 \<or> tt s1 \<noteq> TT_DOT then unmodelled
       else expression_statement prs (Some (IdentifierAccess None (tok s))) s1
     else expression_statement prs None s)"

definition TryParseStatement :: "prs \<Rightarrow> AstBuilder \<Rightarrow> outcome option" where
  "TryParseStatement prs s = (let ty = tt s in
     if is_decl_specifier ty \<or> next_maybe_functional_cast s then
       (if ty = TT_SCOPEACCESS then expression_statement prs None s else unmodelled)
     else if ty \<in> {TTM_WHITESPACE, TTM_CONCAT, TTM_STRINGIFY} then reject ''Internal error: Unhandled preprocessing token'' s
     else if ty = TT_ERROR then reject ''Internal error: Bad token'' s
     else if ty = TT_COMMA then reject ''Expected expression before comma'' s
     else if ty = TT_ENDPARENTH then reject ''Unmatched closing parenthesis'' s
     else if ty = TT_ENDBRACKET then reject ''Unmatched closing bracket'' s
     else if ty = TT_SEMICOLON then return_node (CodeBlock [])
       (read_tok (pwarning (tok s) ''Statement doesn't do anything (consider using `{}` instead of `;`)'' s))
     else if ty \<in> {TT_COLON, TT_ASSIGN, TT_ASSOP, TT_DOT, TT_ARROW, TT_DOT_STAR, TT_ARROW_STAR, TT_PERCENT, TT_PIPE, TT_CARET,
       TT_AND, TT_OR, TT_XOR, TT_DIV, TT_MOD, TT_SLASH, TT_EQUALS, TT_EQUALTO, TT_NOTEQUAL, TT_THREEWAY, TT_LESS, TT_GREATER,
       TT_LSH, TT_RSH, TT_LESSEQUAL, TT_GREATEREQUAL, TT_QMARK, TT_PLUS, TT_MINUS, TT_STAR, TT_AMPERSAND, TT_NOT, TT_BANG,
       TT_TILDE, TT_INCREMENT, TT_DECREMENT, TT_BEGINPARENTH, TT_BEGINBRACKET, TT_DECLITERAL, TT_BINLITERAL, TT_OCTLITERAL,
       TT_HEXLITERAL, TT_STRINGLIT, TT_CHARLIT, TT_BOOLLITERAL, TT_CO_AWAIT, TT_NOEXCEPT, TT_ALIGNOF, TT_SIZEOF, TT_STATIC_CAST,
       TT_DYNAMIC_CAST, TT_REINTERPRET_CAST, TT_CONST_CAST, TT_S_NEW, TT_S_DELETE} then expression_statement prs None s
     else if ty = TT_ENDBRACE then nullptr s
     else if ty = TT_BEGINBRACE then ParseCodeBlock prs (perror (tok s) ''Internal error: trying to parse <block-stmt> within <stmt>'' s)
     else if ty \<in> {TT_IDENTIFIER, TT_LOCAL, TT_GLOBAL} then name_statement prs s
     else if ty = TT_RETURN then ParseReturnStatement prs s
     else if ty = TT_EXIT then return_node (ReturnStatement None True) (read_tok s)
     else if ty = TT_BREAK then ParseJump prs BreakStatement s
     else if ty = TT_CONTINUE then ParseJump prs ContinueStatement s
     else if ty = TT_S_SWITCH then ParseSwitchStatement prs s
     else if ty = TT_S_REPEAT then ParseWhile prs REPEAT s
     else if ty = TT_S_CASE then prs (P_CaseOrDefault False, s)
     else if ty = TT_S_DEFAULT then prs (P_CaseOrDefault True, s)
     else if ty = TT_S_FOR then ParseForLoop prs s
     else if ty = TT_S_IF then ParseIfStatement prs s
     else if ty = TT_S_DO then ParseDoLoop prs s
     else if ty = TT_S_WHILE then ParseWhile prs WHILE s
     else if ty = TT_S_UNTIL then ParseWhile prs UNTIL s
     else if ty = TT_S_WITH then ParseWithStatement prs s
     else if ty = TT_S_THEN then reject ''`then` statement not paired with an `if`'' s
     else if ty = TT_S_ELSE then reject ''`else` statement not paired with an `if`'' s
     else if ty = TT_JS_ARROW then reject ''`=>` not paired with a lambda expression'' s
     else if ty \<in> {TT_S_TRY, TT_S_CATCH} then nullptr (perror (tok s) ''Unimplemented: try/catch statements'' s)
     else if ty = TT_ELLIPSES then reject ''Stray ellipses ('...') in the program'' s
     else if ty = TT_OPERATOR then nullptr (perror (tok s) ''Trying to read declaration within <stmt>'' s)
     else nullptr s)"

section \<open>The parser\<close>

definition dispatch :: "prs \<Rightarrow> entry \<Rightarrow> AstBuilder \<Rightarrow> outcome option" where
  "dispatch prs m s = (case m of
      P_Expression prec operand \<Rightarrow> ParseExpression prs prec operand s
    | P_Loop prec operand \<Rightarrow> ParseLoop prs prec operand s
    | P_Operand \<Rightarrow> TryParseOperand prs s
    | P_NestedName current \<Rightarrow> ParseNestedName prs current s
    | P_Binary prec operand \<Rightarrow> TryParseBinaryExpression prs prec operand s
    | P_Subscript operand \<Rightarrow> TryParseSubscriptExpression prs operand s
    | P_Call operand \<Rightarrow> TryParseFunctionCallExpression prs operand s
    | P_Arguments operand arguments \<Rightarrow> ParseArguments prs operand arguments s
    | P_Array elements \<Rightarrow> ParseArray prs elements s
    | P_Statement \<Rightarrow> TryParseStatement prs s
    | P_StatementOrBlock \<Rightarrow> ParseStatementOrBlock prs s
    | P_Code statements \<Rightarrow> ParseCode prs statements s
    | P_SwitchBody e statements default_branch \<Rightarrow> ParseSwitchBody prs e statements default_branch s
    | P_CaseOrDefault is_default \<Rightarrow> ParseCaseOrDefaultStatement prs is_default s
    | P_CaseBody is_default expr statements \<Rightarrow> ParseCaseBody prs is_default expr statements s)"

lemma if_option_mono:
  "(b \<Longrightarrow> mono_option (\<lambda>f. m f)) \<Longrightarrow> (\<not> b \<Longrightarrow> mono_option (\<lambda>f. k f)) \<Longrightarrow> mono_option (\<lambda>f. if b then m f else k f)"
  by (cases b) simp_all

lemma case_prod_option_mono:
  "(\<And>a b. mono_option (\<lambda>f. k f a b)) \<Longrightarrow> mono_option (\<lambda>f. case p of (a, b) \<Rightarrow> k f a b)"
  by (cases p) simp

lemmas mono_intros = call_outcome_mono node_of_mono case_option_mono if_option_mono case_prod_option_mono
  Partial_Function.call_mono option.const_mono

text \<open>Every method is monotone in the function it calls the others by.\<close>

lemma ParseExpression_mono: "mono_option (\<lambda>prs. ParseExpression prs prec operand s)"
  unfolding ParseExpression_def Let_def by (intro mono_intros)

lemma ParseLoop_mono: "mono_option (\<lambda>prs. ParseLoop prs prec operand s)"
  unfolding ParseLoop_def TryParseLambdaExpression_def TryParseTernaryExpression_def return_node_def TryParseUnaryPostfixExpression_def nullptr_def Let_def by (intro mono_intros)

lemma ParseNestedName_mono: "mono_option (\<lambda>prs. ParseNestedName prs current s)"
  unfolding ParseNestedName_def unmodelled_def Let_def by (intro mono_intros)

lemma TryParseOperand_mono: "mono_option (\<lambda>prs. TryParseOperand prs s)"
  unfolding TryParseOperand_def ParsePrefix_def ParseParenthetical_def ParseSizeof_def ParseAlignof_def ParseNoexcept_def ParseGlobalScope_def TryParseIdExpression_def nullptr_def return_node_def reject_def unmodelled_def Let_def by (intro mono_intros)

lemma TryParseBinaryExpression_mono: "mono_option (\<lambda>prs. TryParseBinaryExpression prs prec operand s)"
  unfolding TryParseBinaryExpression_def binary_operands_def Let_def by (intro mono_intros)

lemma TryParseSubscriptExpression_mono: "mono_option (\<lambda>prs. TryParseSubscriptExpression prs operand s)"
  unfolding TryParseSubscriptExpression_def Let_def by (intro mono_intros)

lemma TryParseFunctionCallExpression_mono: "mono_option (\<lambda>prs. TryParseFunctionCallExpression prs operand s)"
  unfolding TryParseFunctionCallExpression_def Let_def by (intro mono_intros)

lemma ParseArguments_mono: "mono_option (\<lambda>prs. ParseArguments prs operand arguments s)"
  unfolding ParseArguments_def end_arguments_def Let_def by (intro mono_intros)

lemma ParseArray_mono: "mono_option (\<lambda>prs. ParseArray prs elements s)"
  unfolding ParseArray_def end_array_def Let_def by (intro mono_intros)

lemma TryParseControlExpression_mono: "mono_option (\<lambda>prs. TryParseControlExpression prs mode s)"
  unfolding TryParseControlExpression_def Let_def by (intro mono_intros)

lemma ParseCode_mono: "mono_option (\<lambda>prs. ParseCode prs statements s)"
  unfolding ParseCode_def Let_def by (intro mono_intros)

lemma ParseCodeBlock_mono: "mono_option (\<lambda>prs. ParseCodeBlock prs s)"
  unfolding ParseCodeBlock_def Let_def by (intro mono_intros)

lemma ParseStatementOrBlock_mono: "mono_option (\<lambda>prs. ParseStatementOrBlock prs s)"
  unfolding ParseStatementOrBlock_def Let_def by (intro mono_intros ParseCodeBlock_mono)

lemma parse_for_body_mono: "mono_option (\<lambda>prs. parse_for_body prs init cond incr s)"
  unfolding parse_for_body_def Let_def by (intro mono_intros)

lemma ParseForLoop_mono: "mono_option (\<lambda>prs. ParseForLoop prs s)"
  unfolding ParseForLoop_def parse_clause_def Let_def by (intro mono_intros parse_for_body_mono)

lemma ParseIfStatement_mono: "mono_option (\<lambda>prs. ParseIfStatement prs s)"
  unfolding ParseIfStatement_def parse_then_def parse_else_def Let_def by (intro mono_intros TryParseControlExpression_mono)

lemma ParseWhile_mono: "mono_option (\<lambda>prs. ParseWhile prs kind s)"
  unfolding ParseWhile_def Let_def by (intro mono_intros TryParseControlExpression_mono)

lemma ParseDoLoop_mono: "mono_option (\<lambda>prs. ParseDoLoop prs s)"
  unfolding ParseDoLoop_def Let_def by (intro mono_intros TryParseControlExpression_mono)

lemma ParseWithStatement_mono: "mono_option (\<lambda>prs. ParseWithStatement prs s)"
  unfolding ParseWithStatement_def Let_def by (intro mono_intros TryParseControlExpression_mono)

lemma ParseReturnStatement_mono: "mono_option (\<lambda>prs. ParseReturnStatement prs s)"
  unfolding ParseReturnStatement_def parse_clause_def Let_def by (intro mono_intros)

lemma ParseJump_mono: "mono_option (\<lambda>prs. ParseJump prs statement s)"
  unfolding ParseJump_def Let_def by (intro mono_intros)

lemma ParseSwitchStatement_mono: "mono_option (\<lambda>prs. ParseSwitchStatement prs s)"
  unfolding ParseSwitchStatement_def Let_def by (intro mono_intros TryParseControlExpression_mono)

lemma ParseSwitchBody_mono: "mono_option (\<lambda>prs. ParseSwitchBody prs e statements default_branch s)"
  unfolding ParseSwitchBody_def Let_def by (intro mono_intros)

lemma ParseCaseOrDefaultStatement_mono: "mono_option (\<lambda>prs. ParseCaseOrDefaultStatement prs is_default s)"
  unfolding ParseCaseOrDefaultStatement_def Let_def by (intro mono_intros)

lemma ParseCaseBody_mono: "mono_option (\<lambda>prs. ParseCaseBody prs is_default expr statements s)"
  unfolding ParseCaseBody_def Let_def by (intro mono_intros ParseCodeBlock_mono)

lemma name_statement_mono: "mono_option (\<lambda>prs. name_statement prs s)"
  unfolding name_statement_def expression_statement_def Let_def by (intro mono_intros)

lemmas statement_monos = name_statement_mono ParseCodeBlock_mono ParseReturnStatement_mono ParseJump_mono ParseSwitchStatement_mono
  ParseWhile_mono ParseForLoop_mono ParseIfStatement_mono ParseDoLoop_mono ParseWithStatement_mono

lemma TryParseStatement_mono: "mono_option (\<lambda>prs. TryParseStatement prs s)"
  unfolding TryParseStatement_def expression_statement_def return_node_def nullptr_def reject_def unmodelled_def Let_def
  by (intro mono_intros statement_monos)

lemma dispatch_mono [partial_function_mono]: "mono_option (\<lambda>prs. dispatch prs m s)"
  unfolding dispatch_def
  by (cases m) (simp_all add: ParseExpression_mono ParseLoop_mono TryParseOperand_mono ParseNestedName_mono TryParseBinaryExpression_mono
    TryParseSubscriptExpression_mono TryParseFunctionCallExpression_mono ParseArguments_mono ParseArray_mono TryParseStatement_mono
    ParseStatementOrBlock_mono ParseCode_mono ParseSwitchBody_mono ParseCaseOrDefaultStatement_mono ParseCaseBody_mono)

partial_function (option) parse :: "entry \<times> AstBuilder \<Rightarrow> outcome option" where
  "parse ms = dispatch parse (fst ms) (snd ms)"

declare parse.simps [code]

lemma parse_eqs:
  "parse (P_Expression prec operand, s) = ParseExpression parse prec operand s"
  "parse (P_Loop prec e, s) = ParseLoop parse prec e s"
  "parse (P_Operand, s) = TryParseOperand parse s"
  "parse (P_NestedName current, s) = ParseNestedName parse current s"
  "parse (P_Binary prec e, s) = TryParseBinaryExpression parse prec e s"
  "parse (P_Subscript e, s) = TryParseSubscriptExpression parse e s"
  "parse (P_Call e, s) = TryParseFunctionCallExpression parse e s"
  "parse (P_Arguments e arguments, s) = ParseArguments parse e arguments s"
  "parse (P_Array elements, s) = ParseArray parse elements s"
  "parse (P_Statement, s) = TryParseStatement parse s"
  "parse (P_StatementOrBlock, s) = ParseStatementOrBlock parse s"
  "parse (P_Code statements, s) = ParseCode parse statements s"
  "parse (P_SwitchBody e statements d, s) = ParseSwitchBody parse e statements d s"
  "parse (P_CaseOrDefault b, s) = ParseCaseOrDefaultStatement parse b s"
  "parse (P_CaseBody b expr statements, s) = ParseCaseBody parse b expr statements s"
  by (subst parse.simps, simp add: dispatch_def)+

section \<open>\<open>SyntaxChecker\<close>\<close>

text \<open>The visitor turns a \<open>=\<close> that is the condition of an if statement into \<open>==\<close>, also in one pair of
  parentheses; it reads the type of the expression in the parentheses, which may be null.  The
  children of a node are visited after it; the change is made to their results here.\<close>

definition as_equality :: "Operation \<Rightarrow> Operation" where
  "as_equality op1 = (if op_type op1 = TT_EQUALS then \<lparr>op_type = TT_EQUALTO, op_token = ''==''\<rparr> else op1)"

definition check_condition :: "node \<Rightarrow> node option" where
  "check_condition condition = (case condition of
      BinaryExpression left right op1 \<Rightarrow> Some (BinaryExpression left right (as_equality op1))
    | Parenthetical p \<Rightarrow> (case p of
        None \<Rightarrow> None
      | Some (BinaryExpression left right op1) \<Rightarrow> Some (Parenthetical (Some (BinaryExpression left right (as_equality op1))))
      | Some e \<Rightarrow> Some condition)
    | _ \<Rightarrow> Some condition)"

fun syntax_check :: "node \<Rightarrow> node option"
  and check_opt :: "node option \<Rightarrow> node option option"
  and check_list :: "node list \<Rightarrow> node list option" where
  "syntax_check (SyntaxError origin) = Some (SyntaxError origin)"
| "syntax_check (CodeBlock xs) = map_option CodeBlock (check_list xs)"
| "syntax_check (BinaryExpression a b op1) = Option.bind (syntax_check a) (\<lambda>a. map_option (\<lambda>b. BinaryExpression a b op1) (syntax_check b))"
| "syntax_check (FunctionCallExpression f xs) = Option.bind (syntax_check f) (\<lambda>f. map_option (FunctionCallExpression f) (check_list xs))"
| "syntax_check (UnaryPrefixExpression e op1) = map_option (\<lambda>e. UnaryPrefixExpression e op1) (syntax_check e)"
| "syntax_check (UnaryPostfixExpression e op1) = map_option (\<lambda>e. UnaryPostfixExpression e op1) (syntax_check e)"
| "syntax_check (TernaryExpression a b c) = Option.bind (syntax_check a) (\<lambda>a. Option.bind (syntax_check b) (\<lambda>b.
    map_option (TernaryExpression a b) (syntax_check c)))"
| "syntax_check (LambdaExpression a b) = Option.bind (syntax_check a) (\<lambda>a. map_option (LambdaExpression a) (syntax_check b))"
| "syntax_check (SizeofExpression k e) = map_option (SizeofExpression k) (syntax_check e)"
| "syntax_check (AlignofExpression e) = map_option AlignofExpression (syntax_check e)"
| "syntax_check (Parenthetical p) = map_option Parenthetical (check_opt p)"
| "syntax_check (Array xs) = map_option Array (check_list xs)"
| "syntax_check (IdentifierAccess d name) = Some (IdentifierAccess d name)"
| "syntax_check (ScopeAccess p name d op1) = map_option (\<lambda>p. ScopeAccess p name d op1) (check_opt p)"
| "syntax_check (Literal ty text1) = Some (Literal ty text1)"
| "syntax_check (IfStatement c t f n) = Option.bind (syntax_check c) (\<lambda>c. Option.bind (check_condition c) (\<lambda>c.
    Option.bind (check_opt t) (\<lambda>t. map_option (\<lambda>f. IfStatement c t f n) (check_opt f))))"
| "syntax_check (ForLoop a b c d) = Option.bind (check_opt a) (\<lambda>a. Option.bind (check_opt b) (\<lambda>b. Option.bind (check_opt c) (\<lambda>c.
    map_option (ForLoop a b c) (check_opt d))))"
| "syntax_check (WhileLoop c b k) = Option.bind (syntax_check c) (\<lambda>c. map_option (\<lambda>b. WhileLoop c b k) (syntax_check b))"
| "syntax_check (DoLoop b c u) = Option.bind (syntax_check b) (\<lambda>b. map_option (\<lambda>c. DoLoop b c u) (syntax_check c))"
| "syntax_check (CaseStatement e xs) = Option.bind (syntax_check e) (\<lambda>e. map_option (CaseStatement e) (check_list xs))"
| "syntax_check (DefaultStatement xs) = map_option DefaultStatement (check_list xs)"
| "syntax_check (SwitchStatement e xs d) = Option.bind (syntax_check e) (\<lambda>e. map_option (\<lambda>xs. SwitchStatement e xs d) (check_list xs))"
| "syntax_check (ReturnStatement p x) = map_option (\<lambda>p. ReturnStatement p x) (check_opt p)"
| "syntax_check (BreakStatement p) = map_option BreakStatement (check_opt p)"
| "syntax_check (ContinueStatement p) = map_option ContinueStatement (check_opt p)"
| "syntax_check (WithStatement a b) = Option.bind (syntax_check a) (\<lambda>a. map_option (WithStatement a) (syntax_check b))"
| "check_opt None = Some None"
| "check_opt (Some e) = map_option Some (syntax_check e)"
| "check_list [] = Some []"
| "check_list (x # xs) = Option.bind (syntax_check x) (\<lambda>x. map_option (Cons x) (check_list xs))"

section \<open>\<open>Parse\<close>\<close>

definition initialize :: "Frontend \<Rightarrow> SyntaxMode \<Rightarrow> Token \<Rightarrow> Token list \<Rightarrow> errors \<Rightarrow> AstBuilder" where
  "initialize fe mode end_tok ts errs = read_tok \<lparr>tok = no_token, input = ts, eof = end_tok, perr = errs, pwarn = [],
     syntax_mode = mode, frontend = fe\<rparr>"

definition Parse :: "AstBuilder \<Rightarrow> outcome option" where
  "Parse s = node_of (parse (P_Code [], s)) (\<lambda>root s1.
     case syntax_check root of None \<Rightarrow> None | Some e \<Rightarrow> return_node e s1)"

text \<open>Lexer and parser together: the tokens of a source text, then the tree.  The messages of the
  lexer come first here; in the code both report as they go.\<close>

definition ParseSource :: "ParseContext \<Rightarrow> Frontend \<Rightarrow> SyntaxMode \<Rightarrow> nat \<Rightarrow> string \<Rightarrow> outcome option" where
  "ParseSource context fe mode fuel src =
     Option.bind (read_all context fuel (new_lexer src (compatibility_opts context) [])) (\<lambda>(ts, errs).
     Parse (initialize fe mode (fst (end_token ((new_lexer src (compatibility_opts context) [])\<lparr>pos := length src\<rparr>))) ts errs))"

end
