(* ===== verification/ExprLaws.thy ===== *)
theory ExprLaws
  imports Parser
begin

text \<open>
  The expression grammar of EDL, and that the parser implements it: \<open>spells\<close> relates a tree to the
  tokens it is written with, \<open>fits\<close> says that the operands of every operator respect the precedence
  table, and a tree that fits is what the parser returns for its tokens.
\<close>

section \<open>Grammar\<close>

definition literal_types :: "TokenType set" where
  "literal_types = {TT_DECLITERAL, TT_BINLITERAL, TT_OCTLITERAL, TT_HEXLITERAL, TT_STRINGLIT, TT_CHARLIT, TT_BOOLLITERAL}"

definition prefix_types :: "TokenType set" where
  "prefix_types = {TT_NOT, TT_BANG, TT_PLUS, TT_MINUS, TT_STAR, TT_AMPERSAND, TT_INCREMENT, TT_DECREMENT, TT_CO_AWAIT, TT_TILDE}"

text \<open>Every token between the parts of a tree is one of these.\<close>

inductive spells :: "Frontend \<Rightarrow> node \<Rightarrow> Token list \<Rightarrow> bool"
  and spells_args :: "Frontend \<Rightarrow> node list \<Rightarrow> Token list \<Rightarrow> bool" for fe where
  literal: "ttype t \<in> literal_types \<Longrightarrow> spells fe (Literal (ttype t) (content t)) [t]"
| name: "ttype t = TT_IDENTIFIER \<Longrightarrow> \<not> is_user_defined_type fe t \<Longrightarrow>
    spells fe (IdentifierAccess (fe_look_up fe (content t)) t) [t]"
| unit: "ttype l = TT_BEGINPARENTH \<Longrightarrow> ttype r = TT_ENDPARENTH \<Longrightarrow> spells fe (Parenthetical None) [l, r]"
| group: "spells fe e ts \<Longrightarrow> ttype l = TT_BEGINPARENTH \<Longrightarrow> ttype r = TT_ENDPARENTH \<Longrightarrow>
    spells fe (Parenthetical (Some e)) (l # ts @ [r])"
| empty_array: "ttype l = TT_BEGINBRACKET \<Longrightarrow> ttype r = TT_ENDBRACKET \<Longrightarrow> spells fe (Array []) [l, r]"
| array: "spells fe e ts \<Longrightarrow> ttype l = TT_BEGINBRACKET \<Longrightarrow> ttype r = TT_ENDBRACKET \<Longrightarrow> spells fe (Array [e]) (l # ts @ [r])"
| prefix: "spells fe e ts \<Longrightarrow> ttype t \<in> prefix_types \<Longrightarrow> spells fe (UnaryPrefixExpression e (operation_of t)) (t # ts)"
| postfix: "spells fe e ts \<Longrightarrow> ttype t \<in> {TT_INCREMENT, TT_DECREMENT} \<Longrightarrow>
    spells fe (UnaryPostfixExpression e (operation_of t)) (ts @ [t])"
| binary: "spells fe a ts \<Longrightarrow> spells fe b us \<Longrightarrow> kBinaryPrec (ttype t) \<noteq> None \<Longrightarrow> ttype t \<noteq> TT_DOT \<Longrightarrow>
    spells fe (BinaryExpression a b (operation_of t)) (ts @ t # us)"
| member: "spells fe a ts \<Longrightarrow> ttype t = TT_DOT \<Longrightarrow> ttype n = TT_IDENTIFIER \<Longrightarrow>
    spells fe (ScopeAccess (Some a) n None t) (ts @ [t, n])"
| ternary: "spells fe a ts \<Longrightarrow> spells fe b us \<Longrightarrow> spells fe c vs \<Longrightarrow> ttype q = TT_QMARK \<Longrightarrow> ttype d = TT_COLON \<Longrightarrow>
    spells fe (TernaryExpression a b c) (ts @ q # us @ d # vs)"
| subscript: "spells fe a ts \<Longrightarrow> spells fe b us \<Longrightarrow> ttype l = TT_BEGINBRACKET \<Longrightarrow> ttype r = TT_ENDBRACKET \<Longrightarrow>
    spells fe (BinaryExpression a b (operation_of l)) (ts @ l # us @ [r])"
| call: "spells fe f ts \<Longrightarrow> spells_args fe es us \<Longrightarrow> ttype l = TT_BEGINPARENTH \<Longrightarrow> ttype r = TT_ENDPARENTH \<Longrightarrow>
    spells fe (FunctionCallExpression f es) (ts @ l # us @ [r])"
| no_args: "spells_args fe [] []"
| one_arg: "spells fe e ts \<Longrightarrow> spells_args fe [e] ts"
| more_args: "spells fe e ts \<Longrightarrow> spells_args fe (e' # es) us \<Longrightarrow> ttype t = TT_COMMA \<Longrightarrow> spells_args fe (e # e' # es) (ts @ t # us)"

text \<open>The precedence of the outermost operator; a primary expression has 0.\<close>

fun level :: "node \<Rightarrow> nat" where
  "level (BinaryExpression a b op1) = (case kBinaryPrec (op_type op1) of Some rule \<Rightarrow> precedence rule | None \<Rightarrow> kUnaryPostfix)"
| "level (UnaryPrefixExpression e op1) = kUnaryPrefix"
| "level (UnaryPostfixExpression e op1) = kUnaryPostfix"
| "level (ScopeAccess lhs name d op1) = kMemberAccess"
| "level (FunctionCallExpression f es) = kFuncCall"
| "level (TernaryExpression a b c) = kTernary"
| "level n = 0"

definition right_precedence :: "OperatorPrecedence \<Rightarrow> nat" where
  "right_precedence rule = (if associativity rule = LTR then precedence rule - 1 else precedence rule)"

definition left_precedence :: "OperatorPrecedence \<Rightarrow> nat" where
  "left_precedence rule = (if associativity rule = LTR then precedence rule else precedence rule - 1)"

fun fits :: "node \<Rightarrow> bool" where
  "fits (BinaryExpression a b op1) = (fits a \<and> fits b \<and> (case kBinaryPrec (op_type op1) of
      Some rule \<Rightarrow> level a \<le> left_precedence rule \<and> level b \<le> right_precedence rule
    | None \<Rightarrow> level a \<le> kUnaryPostfix))"
| "fits (UnaryPrefixExpression e op1) = (fits e \<and> level e \<le> kUnaryPrefix)"
| "fits (UnaryPostfixExpression e op1) = (fits e \<and> level e \<le> kUnaryPostfix \<and> operand_takes_postfix e)"
| "fits (ScopeAccess (Some lhs) name d op1) = (fits lhs \<and> level lhs \<le> kMemberAccess)"
| "fits (FunctionCallExpression f es) = (fits f \<and> level f \<le> kFuncCall \<and> list_all (\<lambda>e. fits e \<and> level e \<le> kTernary) es)"
| "fits (TernaryExpression a b c) = (fits a \<and> level a \<le> kBoolOr \<and> fits b \<and> level b \<le> kBoolOr \<and> fits c \<and> level c \<le> kTernary)"
| "fits (Parenthetical (Some e)) = fits e"
| "fits (Array es) = list_all (\<lambda>e. fits e \<and> level e \<le> kComma) es"
| "fits n = True"

section \<open>What an expression takes from the tokens after it\<close>

text \<open>\<open>accepts p e ty\<close>: the loop over operators at precedence \<open>p\<close> goes on with a token of type \<open>ty\<close> after \<open>e\<close>;
  \<open>absorbs e ty\<close>: such a loop that is open at the right edge of \<open>e\<close> does.\<close>

definition accepts :: "nat \<Rightarrow> node \<Rightarrow> TokenType \<Rightarrow> bool" where
  "accepts p e ty = (ty = TT_JS_ARROW \<or> (case kBinaryPrec ty of Some rule \<Rightarrow> precedence rule \<le> p | None \<Rightarrow> False) \<or>
     ty \<in> {TT_INCREMENT, TT_DECREMENT} \<and> kUnaryPostfix \<le> p \<and> operand_takes_postfix e \<or>
     ty = TT_QMARK \<and> kTernary \<le> p \<or> ty \<in> {TT_BEGINBRACKET, TT_BEGINPARENTH} \<and> kUnaryPostfix \<le> p)"

fun absorbs :: "node \<Rightarrow> TokenType \<Rightarrow> bool" where
  "absorbs (BinaryExpression a b op1) ty = (case kBinaryPrec (op_type op1) of
      Some rule \<Rightarrow> accepts (right_precedence rule) b ty \<or> absorbs b ty | None \<Rightarrow> False)"
| "absorbs (UnaryPrefixExpression e op1) ty = (accepts kUnaryPrefix e ty \<or> absorbs e ty)"
| "absorbs (TernaryExpression a b c) ty = (accepts kTernary c ty \<or> absorbs c ty)"
| "absorbs n ty = False"

lemma kBinaryPrec_facts:
  assumes "kBinaryPrec ty = Some rule"
  shows "2 \<le> precedence rule" "precedence rule \<le> 18" "precedence rule \<noteq> 3" "associativity rule = RTL \<longleftrightarrow> precedence rule = 17"
    "ty \<notin> {TT_ENDOFCODE, TT_JS_ARROW, TT_INCREMENT, TT_DECREMENT, TT_QMARK, TT_BEGINBRACKET, TT_BEGINPARENTH, TT_SCOPEACCESS}"
    "ty \<notin> {TT_ENDPARENTH, TT_ENDBRACKET, TT_COLON, TT_SEMICOLON, TT_IDENTIFIER}"
proof -
  have "(ty, rule) \<in> set [
    (TT_DOT, ltr kMemberAccess), (TT_ARROW, ltr kMemberAccess), (TT_DOT_STAR, ltr kMemberPointer), (TT_ARROW_STAR, ltr kMemberPointer),
    (TT_STAR, ltr kMultiply), (TT_SLASH, ltr kMultiply), (TT_DIV, ltr kMultiply), (TT_MOD, ltr kMultiply), (TT_PERCENT, ltr kMultiply),
    (TT_PLUS, ltr kAdd), (TT_MINUS, ltr kAdd), (TT_LSH, ltr kShift), (TT_RSH, ltr kShift), (TT_THREEWAY, ltr kThreeWayComp),
    (TT_LESS, ltr kRelational), (TT_LESSEQUAL, ltr kRelational), (TT_GREATER, ltr kRelational), (TT_GREATEREQUAL, ltr kRelational),
    (TT_EQUALTO, ltr kEquality), (TT_NOTEQUAL, ltr kEquality), (TT_AMPERSAND, ltr kBitAnd), (TT_CARET, ltr kBitXOr), (TT_PIPE, ltr kBitOr),
    (TT_AND, ltr kBoolAnd), (TT_XOR, ltr kBoolXOr), (TT_OR, ltr kBoolOr),
    (TT_ASSIGN, rtl kAssign), (TT_EQUALS, rtl kAssign), (TT_ASSOP, rtl kAssign), (TT_COMMA, ltr kComma)]" (is "_ \<in> set ?table")
    using assms unfolding kBinaryPrec_def by (rule map_of_SomeD)
  moreover have "list_all (\<lambda>(ty, rule). 2 \<le> precedence rule \<and> precedence rule \<le> 18 \<and> precedence rule \<noteq> 3 \<and>
    (associativity rule = RTL \<longleftrightarrow> precedence rule = 17) \<and>
    ty \<notin> {TT_ENDOFCODE, TT_JS_ARROW, TT_INCREMENT, TT_DECREMENT, TT_QMARK, TT_BEGINBRACKET, TT_BEGINPARENTH, TT_SCOPEACCESS} \<and>
    ty \<notin> {TT_ENDPARENTH, TT_ENDBRACKET, TT_COLON, TT_SEMICOLON, TT_IDENTIFIER}) ?table"
    by (simp add: ltr_def rtl_def)
  ultimately have "2 \<le> precedence rule \<and> precedence rule \<le> 18 \<and> precedence rule \<noteq> 3 \<and>
    (associativity rule = RTL \<longleftrightarrow> precedence rule = 17) \<and>
    ty \<notin> {TT_ENDOFCODE, TT_JS_ARROW, TT_INCREMENT, TT_DECREMENT, TT_QMARK, TT_BEGINBRACKET, TT_BEGINPARENTH, TT_SCOPEACCESS} \<and>
    ty \<notin> {TT_ENDPARENTH, TT_ENDBRACKET, TT_COLON, TT_SEMICOLON, TT_IDENTIFIER}" unfolding list_all_iff by fast
  then show "2 \<le> precedence rule" "precedence rule \<le> 18" "precedence rule \<noteq> 3" "associativity rule = RTL \<longleftrightarrow> precedence rule = 17"
    "ty \<notin> {TT_ENDOFCODE, TT_JS_ARROW, TT_INCREMENT, TT_DECREMENT, TT_QMARK, TT_BEGINBRACKET, TT_BEGINPARENTH, TT_SCOPEACCESS}"
    "ty \<notin> {TT_ENDPARENTH, TT_ENDBRACKET, TT_COLON, TT_SEMICOLON, TT_IDENTIFIER}" by blast+
qed

lemma kBinaryPrec_None [simp]:
  "kBinaryPrec TT_ENDOFCODE = None" "kBinaryPrec TT_JS_ARROW = None" "kBinaryPrec TT_INCREMENT = None" "kBinaryPrec TT_DECREMENT = None"
  "kBinaryPrec TT_QMARK = None" "kBinaryPrec TT_BEGINBRACKET = None" "kBinaryPrec TT_BEGINPARENTH = None"
  "kBinaryPrec TT_ENDPARENTH = None" "kBinaryPrec TT_ENDBRACKET = None" "kBinaryPrec TT_COLON = None"
  by (simp_all add: kBinaryPrec_def)

lemma kBinaryPrec_Some [simp]: "kBinaryPrec TT_COMMA = Some (ltr kComma)" "kBinaryPrec TT_DOT = Some (ltr kMemberAccess)"
  by (simp_all add: kBinaryPrec_def)

lemma ltr_simps [simp]: "precedence (ltr p) = p" "associativity (ltr p) = LTR"
  by (simp_all add: ltr_def)

lemma operand_precedences:
  assumes "kBinaryPrec ty = Some rule"
  shows "right_precedence rule \<le> precedence rule" "left_precedence rule \<le> precedence rule"
    "left_precedence rule = precedence rule \<Longrightarrow> right_precedence rule < precedence rule"
  using kBinaryPrec_facts[OF assms] by (auto simp: right_precedence_def left_precedence_def split: if_splits)

section \<open>Trees that fit take nothing\<close>

lemma binary_not_absorbed:
  assumes "fits e" and "kBinaryPrec ty = Some rule" and "level e \<le> left_precedence rule"
  shows "\<not> absorbs e ty"
  using assms
proof (induction e ty rule: absorbs.induct)
  case (1 a b op1 ty)
  note ty = kBinaryPrec_facts[OF 1(3)]
  show ?case
  proof (cases "kBinaryPrec (op_type op1)")
    case (Some r1)
    note op = kBinaryPrec_facts[OF Some]
    have lt: "right_precedence r1 < precedence rule"
    proof (cases "precedence r1 = precedence rule")
      case True
      then have "left_precedence rule = precedence rule" using 1(4) Some operand_precedences(2)[OF 1(3)] by simp
      then have "associativity r1 = LTR" using True ty(4) op(4) 1(3) ty(1)
        by (cases "associativity rule"; cases "associativity r1") (auto simp: left_precedence_def)
      then show ?thesis using True ty(1) by (simp add: right_precedence_def)
    next
      case False
      then show ?thesis using 1(4) Some operand_precedences(1)[OF Some] operand_precedences(2)[OF 1(3)] by simp
    qed
    have "level b \<le> right_precedence r1" using 1(2) Some by simp
    then have "level b \<le> left_precedence rule" using lt by (auto simp: left_precedence_def)
    then have "\<not> absorbs b ty" using 1(1)[OF Some] 1(2,3) by simp
    then show ?thesis using Some lt 1(3) ty(5) by (auto simp: accepts_def)
  qed simp
next
  case (2 e op1 ty)
  note ty = kBinaryPrec_facts[OF 2(3)]
  have "3 < precedence rule" using 2(4) ty(3) operand_precedences(2)[OF 2(3)] by auto
  moreover have "\<not> absorbs e ty" using 2 by auto
  ultimately show ?case using 2(3) ty(5) by (auto simp: accepts_def)
next
  case (3 a b c ty)
  note ty = kBinaryPrec_facts[OF 3(3)]
  have "17 \<le> left_precedence rule" using 3(4) by simp
  then have "17 < precedence rule" using ty(4) by (auto simp: left_precedence_def split: if_splits intro: le_neq_implies_less)
  moreover have "\<not> absorbs c ty" using 3 by auto
  ultimately show ?case using 3(3) ty(5) by (auto simp: accepts_def)
qed simp_all

lemma postfix_not_absorbed:
  assumes "fits e" and "level e \<le> kUnaryPostfix" and "ty \<in> {TT_INCREMENT, TT_DECREMENT, TT_BEGINBRACKET, TT_BEGINPARENTH}"
  shows "\<not> absorbs e ty"
  using assms
proof (induction e ty rule: absorbs.induct)
  case (1 a b op1 ty)
  show ?case
  proof (cases "kBinaryPrec (op_type op1)")
    case (Some r1)
    note op = kBinaryPrec_facts[OF Some]
    have "precedence r1 = 2" using 1(3) op(1) Some by simp
    then have r: "right_precedence r1 = 1" using op(4) by (cases "associativity r1") (auto simp: right_precedence_def)
    have "level b \<le> 1" using 1(2) Some r by simp
    then have "\<not> absorbs b ty" using 1(1)[OF Some] 1(2,4) by simp
    then show ?thesis using Some r 1(4) by (auto simp: accepts_def)
  qed simp
qed simp_all

lemma qmark_not_absorbed: "fits e \<Longrightarrow> level e \<le> kBoolOr \<Longrightarrow> \<not> absorbs e TT_QMARK"
proof (induction e "TT_QMARK" rule: absorbs.induct)
  case (1 a b op1)
  show ?case
  proof (cases "kBinaryPrec (op_type op1)")
    case (Some r1)
    have "right_precedence r1 \<le> 16" using 1 Some operand_precedences(1)[OF Some] by simp
    then show ?thesis using 1 Some by (auto simp: accepts_def)
  qed simp
qed (auto simp: accepts_def)

definition neutral :: "TokenType \<Rightarrow> bool" where
  "neutral ty = (kBinaryPrec ty = None \<and> ty \<notin> {TT_JS_ARROW, TT_INCREMENT, TT_DECREMENT, TT_QMARK, TT_BEGINBRACKET, TT_BEGINPARENTH, TT_SCOPEACCESS})"

lemma neutral_not_accepted: "neutral ty \<Longrightarrow> \<not> accepts p e ty"
  by (auto simp: neutral_def accepts_def)

lemma neutral_not_absorbed: "neutral ty \<Longrightarrow> \<not> absorbs e ty"
  by (induction e ty rule: absorbs.induct) (auto simp: neutral_not_accepted split: option.split)

lemma neutral_simps [simp]: "neutral TT_ENDPARENTH" "neutral TT_ENDBRACKET" "neutral TT_COLON" "neutral TT_ENDOFCODE"
  by (simp_all add: neutral_def)

section \<open>Tokens to be read\<close>

definition feed :: "Token list \<Rightarrow> AstBuilder \<Rightarrow> AstBuilder" where
  "feed ts s = s\<lparr>tok := hd ts, input := tl ts\<rparr>"

lemma feed_simps [simp]:
  "tok (feed (t # ts) s) = t" "frontend (feed ts s) = frontend s" "perr (feed ts s) = perr s"
  "ts \<noteq> [] \<Longrightarrow> read_tok (feed (t # ts) s) = feed ts s"
  by (auto simp: feed_def read_tok_def neq_Nil_conv)

lemma require_feed [simp]:
  "ts \<noteq> [] \<Longrightarrow> ttype t = ty \<Longrightarrow> require_token ty msg (feed (t # ts) s) = (True, feed ts s)"
  by (simp add: require_token_def require_any_of_def)

lemma unary_tables [simp]:
  "kUnaryPostfixPrec ty \<noteq> None \<longleftrightarrow> ty \<in> {TT_INCREMENT, TT_DECREMENT}"
  "kUnaryPostfixPrec ty = None \<longleftrightarrow> ty \<notin> {TT_INCREMENT, TT_DECREMENT}"
  "kTernaryPrec ty \<noteq> None \<longleftrightarrow> ty = TT_QMARK" "kTernaryPrec ty = None \<longleftrightarrow> ty \<noteq> TT_QMARK"
  by (auto simp: kUnaryPostfixPrec_def kTernaryPrec_def)

lemma ShouldAccept [simp]: "ShouldAcceptPrecedence rule p \<longleftrightarrow> precedence rule \<le> p"
  by (auto simp: ShouldAcceptPrecedence_def)

lemma loop_stop: "\<not> accepts p e (tt s) \<Longrightarrow> parse (P_Loop p e, s) = return_node e s"
  by (auto simp: parse_eqs(2)[of p e s] ParseLoop_def accepts_def Let_def split: option.splits)

text \<open>The loops over binary operators, subscripts and calls are part of the loop over all operators.\<close>

lemma loop_binary: "node_of (parse (P_Binary p e, s)) (\<lambda>e s. parse (P_Loop p e, s)) = parse (P_Loop p e, s)"
proof (cases "\<exists>rule. kBinaryPrec (tt s) = Some rule \<and> precedence rule \<le> p")
  case True
  then obtain rule where rule: "kBinaryPrec (tt s) = Some rule" "precedence rule \<le> p" by blast
  show ?thesis
    using kBinaryPrec_facts(5)[OF rule(1)] rule by (simp add: parse_eqs(2)[of p e s] ParseLoop_def)
next
  case False
  then have "parse (P_Binary p e, s) = return_node e s"
    by (auto simp: parse_eqs(5) TryParseBinaryExpression_def split: option.split)
  then show ?thesis by (simp add: return_node_def)
qed

lemma loop_subscript: "kUnaryPostfix \<le> p \<Longrightarrow> node_of (parse (P_Subscript e, s)) (\<lambda>e s. parse (P_Loop p e, s)) = parse (P_Loop p e, s)"
proof (cases "tt s = TT_BEGINBRACKET")
  case True
  then show "kUnaryPostfix \<le> p \<Longrightarrow> ?thesis" by (simp add: parse_eqs(2)[of p e s] ParseLoop_def)
next
  case False
  then show ?thesis by (simp add: parse_eqs(6) TryParseSubscriptExpression_def return_node_def)
qed

lemma loop_call: "kFuncCall \<le> p \<Longrightarrow> node_of (parse (P_Call e, s)) (\<lambda>e s. parse (P_Loop p e, s)) = parse (P_Loop p e, s)"
proof (cases "tt s = TT_BEGINPARENTH")
  case True
  then show "kFuncCall \<le> p \<Longrightarrow> ?thesis" by (simp add: parse_eqs(2)[of p e s] ParseLoop_def)
next
  case False
  then show ?thesis by (simp add: parse_eqs(7) TryParseFunctionCallExpression_def return_node_def)
qed

lemma parse_operand:
  assumes "parse (P_Operand, s) = return_node e s1"
  shows "parse (P_Expression p None, s) = parse (P_Loop p e, s1)"
  using assms by (simp add: parse_eqs(1) ParseExpression_def return_node_def)

section \<open>The parser\<close>

lemma spells_first:
  "spells fe e ts \<Longrightarrow> ts \<noteq> [] \<and> ttype (hd ts) \<in> literal_types \<union> prefix_types \<union> {TT_IDENTIFIER, TT_BEGINPARENTH, TT_BEGINBRACKET}"
  "spells_args fe es us \<Longrightarrow> es \<noteq> [] \<longrightarrow>
    us \<noteq> [] \<and> ttype (hd us) \<in> literal_types \<union> prefix_types \<union> {TT_IDENTIFIER, TT_BEGINPARENTH, TT_BEGINBRACKET}"
  by (induction rule: spells_spells_args.inducts) auto

lemma expression_start:
  assumes "ty \<in> literal_types \<union> prefix_types \<union> {TT_IDENTIFIER, TT_BEGINPARENTH, TT_BEGINBRACKET}"
  shows "ty \<notin> {TT_ENDPARENTH, TT_ENDBRACKET, TT_ENDOFCODE, TT_SEMICOLON}" "\<not> is_decl_specifier ty"
  using assms by (auto simp: literal_types_def prefix_types_def is_decl_specifier_def is_type_specifier_def is_class_key_def)

lemma literal_cases:
  assumes "ty \<in> literal_types"
  obtains "ty = TT_DECLITERAL" | "ty = TT_BINLITERAL" | "ty = TT_OCTLITERAL" | "ty = TT_HEXLITERAL" | "ty = TT_STRINGLIT"
    | "ty = TT_CHARLIT" | "ty = TT_BOOLLITERAL"
  using assms unfolding literal_types_def by blast

lemma prefix_cases:
  assumes "ty \<in> prefix_types"
  obtains "ty = TT_NOT" | "ty = TT_BANG" | "ty = TT_PLUS" | "ty = TT_MINUS" | "ty = TT_STAR" | "ty = TT_AMPERSAND"
    | "ty = TT_INCREMENT" | "ty = TT_DECREMENT" | "ty = TT_CO_AWAIT" | "ty = TT_TILDE"
  using assms unfolding prefix_types_def by blast

lemma operand_literal:
  assumes "ttype t \<in> literal_types" and "ts \<noteq> []"
  shows "parse (P_Operand, feed (t # ts) s) = return_node (Literal (ttype t) (content t)) (feed ts s)"
  unfolding parse_eqs(3) TryParseOperand_def Let_def using assms
  by (elim literal_cases) simp_all

lemma operand_prefix:
  assumes "ttype t \<in> prefix_types"
  shows "parse (P_Operand, feed (t # ts) s) = ParsePrefix parse (feed (t # ts) s)"
  unfolding parse_eqs(3) TryParseOperand_def Let_def using assms
  by (elim prefix_cases) simp_all

lemma operand_name:
  assumes "ttype t = TT_IDENTIFIER" and "\<not> is_user_defined_type (frontend s) t" and "ttype r \<noteq> TT_SCOPEACCESS"
  shows "parse (P_Operand, feed (t # r # ts) s) = return_node (IdentifierAccess (fe_look_up (frontend s) (content t)) t) (feed (r # ts) s)"
  using assms by (simp add: parse_eqs(3) TryParseOperand_def TryParseIdExpression_def Let_def)

lemma operand_group:
  "ttype t = TT_BEGINPARENTH \<Longrightarrow> parse (P_Operand, feed (t # ts) s) = ParseParenthetical parse (feed (t # ts) s)"
  by (simp add: parse_eqs(3) TryParseOperand_def Let_def)

lemma operand_array:
  "ttype t = TT_BEGINBRACKET \<Longrightarrow> ts \<noteq> [] \<Longrightarrow> parse (P_Operand, feed (t # ts) s) = parse (P_Array [], feed ts s)"
  by (simp add: parse_eqs(3) TryParseOperand_def Let_def)

text \<open>What the loop does with each kind of operator, when the operands after it parse.\<close>

lemma loop_at_binary:
  assumes "kBinaryPrec (ttype t) = Some rule" and "precedence rule \<le> p" and "ttype t \<noteq> TT_DOT"
    and "us \<noteq> []" and "ttype (hd us) \<notin> {TT_ENDOFCODE, TT_SEMICOLON}"
    and "parse (P_Expression (right_precedence rule) None, feed us s) = return_node b s'"
  shows "parse (P_Loop p a, feed (t # us) s) = parse (P_Loop p (BinaryExpression a b (operation_of t)), s')"
proof -
  have t: "ttype t \<notin> {TT_ENDOFCODE, TT_JS_ARROW}" using kBinaryPrec_facts(5)[OF assms(1)] by simp
  obtain u us' where us: "us = u # us'" using assms(4) by (cases us) auto
  have "parse (P_Binary p a, feed (t # us) s) = binary_operands parse p a t rule (feed us s)"
    unfolding parse_eqs(5) TryParseBinaryExpression_def using assms(1,2,5) t us by simp
  also have "\<dots> = parse (P_Binary p (BinaryExpression a b (operation_of t)), s')"
    unfolding binary_operands_def using assms(3,6) by (simp add: right_precedence_def return_node_def)
  finally have "parse (P_Binary p a, feed (t # us) s) = parse (P_Binary p (BinaryExpression a b (operation_of t)), s')" .
  then have "node_of (parse (P_Binary p a, feed (t # us) s)) (\<lambda>e s. parse (P_Loop p e, s)) =
    parse (P_Loop p (BinaryExpression a b (operation_of t)), s')" by (simp add: loop_binary)
  then show ?thesis by (simp add: loop_binary)
qed

lemma loop_at_member:
  assumes "ttype t = TT_DOT" and "kMemberAccess \<le> p" and "ttype n = TT_IDENTIFIER" and "us \<noteq> []"
  shows "parse (P_Loop p a, feed (t # n # us) s) = parse (P_Loop p (ScopeAccess (Some a) n None t), feed us s)"
proof -
  have "parse (P_Binary p a, feed (t # n # us) s) = binary_operands parse p a t (ltr kMemberAccess) (feed (n # us) s)"
    unfolding parse_eqs(5) TryParseBinaryExpression_def using assms by simp
  also have "\<dots> = parse (P_Binary p (ScopeAccess (Some a) n None t), feed us s)"
    unfolding binary_operands_def using assms by (simp add: Let_def)
  finally have "node_of (parse (P_Binary p a, feed (t # n # us) s)) (\<lambda>e s. parse (P_Loop p e, s)) =
    parse (P_Loop p (ScopeAccess (Some a) n None t), feed us s)" by (simp add: loop_binary)
  then show ?thesis by (simp add: loop_binary)
qed

lemma loop_at_postfix:
  assumes "ttype t \<in> {TT_INCREMENT, TT_DECREMENT}" and "kUnaryPostfix \<le> p" and "operand_takes_postfix a" and "us \<noteq> []"
  shows "parse (P_Loop p a, feed (t # us) s) = parse (P_Loop p (UnaryPostfixExpression a (operation_of t)), feed us s)"
proof -
  have "TryParseUnaryPostfixExpression p a (feed (t # us) s) = return_node (UnaryPostfixExpression a (operation_of t)) (feed us s)"
    using assms by (auto simp: TryParseUnaryPostfixExpression_def kUnaryPostfixPrec_def)
  then show ?thesis unfolding parse_eqs(2)[of p a] ParseLoop_def using assms by (auto simp: Let_def return_node_def)
qed

lemma loop_at_ternary:
  assumes "ttype q = TT_QMARK" and "kTernary \<le> p" and "ttype d = TT_COLON" and "us \<noteq> []" and "vs \<noteq> []"
    and "parse (P_Expression kBoolOr None, feed us s) = return_node b (feed (d # vs) s)"
    and "parse (P_Expression kTernary None, feed vs s) = return_node c s'"
  shows "parse (P_Loop p a, feed (q # us) s) = parse (P_Loop p (TernaryExpression a b c), s')"
proof -
  have "TryParseTernaryExpression parse a (feed (q # us) s) = return_node (TernaryExpression a b c) s'"
    using assms by (simp add: TryParseTernaryExpression_def return_node_def)
  then show ?thesis unfolding parse_eqs(2)[of p a] ParseLoop_def using assms(1,2) by (simp add: Let_def return_node_def)
qed

lemma loop_at_subscript:
  assumes "ttype l = TT_BEGINBRACKET" and "kUnaryPostfix \<le> p" and "ttype r = TT_ENDBRACKET" and "us \<noteq> []" and "vs \<noteq> []"
    and "parse (P_Expression kAll None, feed us s) = return_node b (feed (r # vs) s)"
  shows "parse (P_Loop p a, feed (l # us) s) = parse (P_Loop p (BinaryExpression a b (operation_of l)), feed vs s)"
proof -
  have "parse (P_Subscript a, feed (l # us) s) = parse (P_Subscript (BinaryExpression a b (operation_of l)), feed vs s)"
    unfolding parse_eqs(6)[of a] TryParseSubscriptExpression_def using assms by (simp add: return_node_def)
  then show ?thesis using loop_subscript[OF assms(2)] by metis
qed

lemma loop_at_call:
  assumes "ttype l = TT_BEGINPARENTH" and "kFuncCall \<le> p" and "ttype r = TT_ENDPARENTH" and "us \<noteq> []" and "vs \<noteq> []"
    and "parse (P_Arguments a [], feed us s) = end_arguments parse a es (feed (r # vs) s)"
  shows "parse (P_Loop p a, feed (l # us) s) = parse (P_Loop p (FunctionCallExpression a es), feed vs s)"
proof -
  have "parse (P_Call a, feed (l # us) s) = parse (P_Call (FunctionCallExpression a es), feed vs s)"
    unfolding parse_eqs(7)[of a] TryParseFunctionCallExpression_def using assms by (simp add: end_arguments_def)
  then show ?thesis using loop_call[OF assms(2)] by metis
qed

lemma level_le: "level e \<le> 18"
proof (cases e)
  case (BinaryExpression a b op1)
  then show ?thesis using kBinaryPrec_facts(2) by (auto split: option.split)
qed auto

text \<open>The tokens of a tree that fits are read and the loop goes on with the tree.\<close>

definition reads :: "Frontend \<Rightarrow> node \<Rightarrow> Token list \<Rightarrow> bool" where
  "reads fe e ts = (\<forall>p r rest s. level e \<le> p \<longrightarrow> \<not> absorbs e (ttype r) \<longrightarrow> ttype r \<noteq> TT_SCOPEACCESS \<longrightarrow> frontend s = fe \<longrightarrow>
     parse (P_Expression p None, feed (ts @ r # rest) s) = parse (P_Loop p e, feed (r # rest) s))"

lemma readsD:
  "reads fe e ts \<Longrightarrow> level e \<le> p \<Longrightarrow> \<not> absorbs e (ttype r) \<Longrightarrow> ttype r \<noteq> TT_SCOPEACCESS \<Longrightarrow> frontend s = fe \<Longrightarrow>
    parse (P_Expression p None, feed (ts @ r # rest) s) = parse (P_Loop p e, feed (r # rest) s)"
  by (simp add: reads_def)

lemma reads_stop:
  assumes "reads fe e ts" and "level e \<le> p" and "\<not> absorbs e (ttype r)" and "ttype r \<noteq> TT_SCOPEACCESS" and "frontend s = fe"
    and "\<not> accepts p e (ttype r)"
  shows "parse (P_Expression p None, feed (ts @ r # rest) s) = return_node e (feed (r # rest) s)"
  using readsD[OF assms(1-5)] loop_stop[of p e "feed (r # rest) s"] assms(6) by simp

lemma reads_neutral:
  assumes "reads fe e ts" and "level e \<le> p" and "neutral (ttype r)" and "frontend s = fe"
  shows "parse (P_Expression p None, feed (ts @ r # rest) s) = return_node e (feed (r # rest) s)"
proof (rule reads_stop[OF assms(1,2)])
  show "ttype r \<noteq> TT_SCOPEACCESS" using assms(3) by (simp add: neutral_def)
qed (simp_all add: assms neutral_not_absorbed neutral_not_accepted)

lemma reads_operand:
  assumes "\<And>r rest s. ttype r \<noteq> TT_SCOPEACCESS \<Longrightarrow> \<not> absorbs e (ttype r) \<Longrightarrow> frontend s = fe \<Longrightarrow>
    parse (P_Operand, feed (ts @ r # rest) s) = return_node e (feed (r # rest) s)"
  shows "reads fe e ts"
  unfolding reads_def using parse_operand assms by blast

definition reads_args :: "Frontend \<Rightarrow> node list \<Rightarrow> Token list \<Rightarrow> bool" where
  "reads_args fe es us = (\<forall>f args r rest s. ttype r = TT_ENDPARENTH \<longrightarrow> frontend s = fe \<longrightarrow>
     parse (P_Arguments f args, feed (us @ r # rest) s) = end_arguments parse f (args @ es) (feed (r # rest) s))"

lemma arguments_step:
  assumes "ts \<noteq> []" and "ttype (hd ts) \<in> literal_types \<union> prefix_types \<union> {TT_IDENTIFIER, TT_BEGINPARENTH, TT_BEGINBRACKET}"
    and "parse (P_Expression kTernary None, feed ts s) = return_node e (feed (r # rest) s)"
  shows "ttype r = TT_ENDPARENTH \<Longrightarrow> parse (P_Arguments f args, feed ts s) = end_arguments parse f (args @ [e]) (feed (r # rest) s)"
    and "ttype r = TT_COMMA \<Longrightarrow> rest \<noteq> [] \<Longrightarrow> parse (P_Arguments f args, feed ts s) = parse (P_Arguments f (args @ [e]), feed rest s)"
proof -
  obtain t ts' where ts: "ts = t # ts'" using assms(1) by (cases ts) auto
  note start = expression_start[OF assms(2)]
  have step: "parse (P_Arguments f args, feed ts s) = (let s1 = feed (r # rest) s; arguments1 = args @ [e] in
       if tt s1 \<noteq> TT_COMMA \<and> tt s1 \<noteq> TT_ENDPARENTH then
         end_arguments parse f arguments1 (perror (tok s1) ''Expected ',' or ')' after function argument'' s1)
       else parse (P_Arguments f arguments1, if tt s1 = TT_COMMA then read_tok s1 else s1))"
    unfolding parse_eqs(8)[of f args] ParseArguments_def using assms(3) start ts by (simp add: return_node_def Let_def)
  show "ttype r = TT_ENDPARENTH \<Longrightarrow> parse (P_Arguments f args, feed ts s) = end_arguments parse f (args @ [e]) (feed (r # rest) s)"
    using step by (simp add: parse_eqs(8)[of f "args @ [e]"] ParseArguments_def)
  show "ttype r = TT_COMMA \<Longrightarrow> rest \<noteq> [] \<Longrightarrow> parse (P_Arguments f args, feed ts s) = parse (P_Arguments f (args @ [e]), feed rest s)"
    using step by simp
qed

lemma array_end:
  "ttype r = TT_ENDBRACKET \<Longrightarrow> rest \<noteq> [] \<Longrightarrow> parse (P_Array es, feed (r # rest) s) = return_node (Array es) (feed rest s)"
  by (simp add: parse_eqs(9)[of es] ParseArray_def end_array_def)

lemma array_single:
  assumes "ts \<noteq> []" and "ttype (hd ts) \<notin> {TT_ENDBRACKET, TT_ENDOFCODE}" and "ttype r = TT_ENDBRACKET" and "rest \<noteq> []"
    and "parse (P_Expression kComma None, feed ts s) = return_node e (feed (r # rest) s)"
  shows "parse (P_Array [], feed ts s) = return_node (Array [e]) (feed rest s)"
proof -
  obtain t ts' where ts: "ts = t # ts'" using assms(1) by (cases ts) auto
  show ?thesis unfolding parse_eqs(9)[of "[]"] ParseArray_def end_array_def using assms ts by (simp add: return_node_def)
qed

lemma paren_close:
  assumes "ttype l = TT_BEGINPARENTH" and "ttype r = TT_ENDPARENTH" and "rest \<noteq> []" and "ts \<noteq> []" and "ttype (hd ts) \<noteq> TT_ENDPARENTH"
    and "parse (P_Expression kAll None, feed ts s) = return_node e (feed (r # rest) s)"
  shows "parse (P_Operand, feed (l # ts) s) = return_node (Parenthetical (Some e)) (feed rest s)"
proof -
  obtain t ts' where ts: "ts = t # ts'" using assms(4) by (cases ts) auto
  show ?thesis unfolding operand_group[OF assms(1)] ParseParenthetical_def using assms ts by (simp add: return_node_def Let_def)
qed

lemma reads_prefix:
  assumes "reads fe e ts" and "level e \<le> kUnaryPrefix" and "ttype t \<in> prefix_types" and "ts \<noteq> []"
  shows "reads fe (UnaryPrefixExpression e (operation_of t)) (t # ts)"
proof (rule reads_operand)
  fix r :: Token and rest and s :: AstBuilder
  assume r: "ttype r \<noteq> TT_SCOPEACCESS" "\<not> absorbs (UnaryPrefixExpression e (operation_of t)) (ttype r)" "frontend s = fe"
  have "parse (P_Expression kUnaryPrefix None, feed (ts @ r # rest) s) = return_node e (feed (r # rest) s)"
    by (rule reads_stop) (use assms r in auto)
  then show "parse (P_Operand, feed ((t # ts) @ r # rest) s) =
      return_node (UnaryPrefixExpression e (operation_of t)) (feed (r # rest) s)"
    using assms(4) by (simp add: operand_prefix[OF assms(3)] ParsePrefix_def return_node_def)
qed

lemma reads_binary:
  assumes "reads fe a ts" and "reads fe b us" and "fits a" and "kBinaryPrec (ttype t) = Some rule" and "ttype t \<noteq> TT_DOT"
    and "level a \<le> left_precedence rule" and "level b \<le> right_precedence rule"
    and "us \<noteq> []" and "ttype (hd us) \<notin> {TT_ENDOFCODE, TT_SEMICOLON}"
  shows "reads fe (BinaryExpression a b (operation_of t)) (ts @ t # us)"
  unfolding reads_def
proof (intro allI impI)
  fix p and r :: Token and rest and s :: AstBuilder
  let ?e = "BinaryExpression a b (operation_of t)"
  have op: "op_type (operation_of t) = ttype t" by (simp add: operation_of_def)
  assume r: "level ?e \<le> p" "\<not> absorbs ?e (ttype r)" "ttype r \<noteq> TT_SCOPEACCESS" "frontend s = fe"
  have p: "precedence rule \<le> p" using r(1) assms(4) op by simp
  have "parse (P_Expression p None, feed (ts @ t # us @ r # rest) s) = parse (P_Loop p a, feed (t # us @ r # rest) s)"
    by (rule readsD[OF assms(1)])
      (use p assms(3,4,6) operand_precedences(2)[OF assms(4)] binary_not_absorbed[OF assms(3,4,6)] kBinaryPrec_facts(5)[OF assms(4)] r in auto)
  moreover have "parse (P_Expression (right_precedence rule) None, feed (us @ r # rest) s) = return_node b (feed (r # rest) s)"
    by (rule reads_stop[OF assms(2)]) (use assms(4,7) r op in auto)
  ultimately show "parse (P_Expression p None, feed ((ts @ t # us) @ r # rest) s) = parse (P_Loop p ?e, feed (r # rest) s)"
    using loop_at_binary[OF assms(4) p assms(5), of "us @ r # rest" s b "feed (r # rest) s" a] assms(8,9) by simp
qed

lemma reads_ternary:
  assumes "reads fe a ts" and "reads fe b us" and "reads fe c vs" and "fits (TernaryExpression a b c)"
    and "ttype q = TT_QMARK" and "ttype d = TT_COLON"
  shows "reads fe (TernaryExpression a b c) (ts @ q # us @ d # vs)"
  unfolding reads_def
proof (intro allI impI)
  fix p and r :: Token and rest and s :: AstBuilder
  assume r: "level (TernaryExpression a b c) \<le> p" "\<not> absorbs (TernaryExpression a b c) (ttype r)" "ttype r \<noteq> TT_SCOPEACCESS" "frontend s = fe"
  have "parse (P_Expression p None, feed (ts @ q # us @ d # vs @ r # rest) s) = parse (P_Loop p a, feed (q # us @ d # vs @ r # rest) s)"
    by (rule readsD[OF assms(1)]) (use assms(4,5) qmark_not_absorbed[of a] r in auto)
  moreover have "parse (P_Expression kBoolOr None, feed (us @ d # vs @ r # rest) s) = return_node b (feed (d # vs @ r # rest) s)"
    by (rule reads_neutral[OF assms(2)]) (use assms(4,6) r in auto)
  moreover have "parse (P_Expression kTernary None, feed (vs @ r # rest) s) = return_node c (feed (r # rest) s)"
    by (rule reads_stop[OF assms(3)]) (use assms(4) r in auto)
  ultimately show "parse (P_Expression p None, feed ((ts @ q # us @ d # vs) @ r # rest) s) =
      parse (P_Loop p (TernaryExpression a b c), feed (r # rest) s)"
    using loop_at_ternary[OF assms(5) _ assms(6), of p "us @ d # vs @ r # rest" "vs @ r # rest" s b c "feed (r # rest) s" a] r(1) by simp
qed

lemma reads_subscript:
  assumes "reads fe a ts" and "reads fe b us" and "fits a" and "level a \<le> kUnaryPostfix"
    and "ttype l = TT_BEGINBRACKET" and "ttype c = TT_ENDBRACKET"
  shows "reads fe (BinaryExpression a b (operation_of l)) (ts @ l # us @ [c])"
  unfolding reads_def
proof (intro allI impI)
  fix p and r :: Token and rest and s :: AstBuilder
  let ?e = "BinaryExpression a b (operation_of l)"
  assume r: "level ?e \<le> p" "\<not> absorbs ?e (ttype r)" "ttype r \<noteq> TT_SCOPEACCESS" "frontend s = fe"
  have p: "kUnaryPostfix \<le> p" using r(1) assms(5) by (simp add: operation_of_def)
  have "parse (P_Expression p None, feed (ts @ l # us @ c # r # rest) s) = parse (P_Loop p a, feed (l # us @ c # r # rest) s)"
    by (rule readsD[OF assms(1)]) (use p assms(3-5) postfix_not_absorbed[OF assms(3,4), of "ttype l"] r in auto)
  moreover have "parse (P_Expression kAll None, feed (us @ c # r # rest) s) = return_node b (feed (c # r # rest) s)"
    by (rule reads_neutral[OF assms(2)]) (use assms(6) level_le[of b] r in auto)
  ultimately show "parse (P_Expression p None, feed ((ts @ l # us @ [c]) @ r # rest) s) = parse (P_Loop p ?e, feed (r # rest) s)"
    using loop_at_subscript[OF assms(5) p assms(6), of "us @ c # r # rest" "r # rest" s b a] by simp
qed

lemma reads_call:
  assumes "reads fe f ts" and "reads_args fe es us" and "fits f" and "level f \<le> kFuncCall"
    and "ttype l = TT_BEGINPARENTH" and "ttype c = TT_ENDPARENTH"
  shows "reads fe (FunctionCallExpression f es) (ts @ l # us @ [c])"
  unfolding reads_def
proof (intro allI impI)
  fix p and r :: Token and rest and s :: AstBuilder
  let ?e = "FunctionCallExpression f es"
  assume r: "level ?e \<le> p" "\<not> absorbs ?e (ttype r)" "ttype r \<noteq> TT_SCOPEACCESS" "frontend s = fe"
  have p: "kFuncCall \<le> p" using r(1) by simp
  have "parse (P_Expression p None, feed (ts @ l # us @ c # r # rest) s) = parse (P_Loop p f, feed (l # us @ c # r # rest) s)"
    by (rule readsD[OF assms(1)]) (use p assms(3-5) postfix_not_absorbed[OF assms(3,4), of "ttype l"] r in auto)
  moreover have "parse (P_Arguments f [], feed (us @ c # r # rest) s) = end_arguments parse f es (feed (c # r # rest) s)"
    using assms(2,6) r unfolding reads_args_def by simp
  ultimately show "parse (P_Expression p None, feed ((ts @ l # us @ [c]) @ r # rest) s) = parse (P_Loop p ?e, feed (r # rest) s)"
    using loop_at_call[OF assms(5) p assms(6), of "us @ c # r # rest" "r # rest" f s es] by simp
qed

lemma spelled_reads:
  "spells fe e ts \<Longrightarrow> fits e \<longrightarrow> reads fe e ts"
  "spells_args fe es us \<Longrightarrow> list_all (\<lambda>e. fits e \<and> level e \<le> kTernary) es \<longrightarrow> reads_args fe es us"
proof (induction rule: spells_spells_args.inducts)
  case (literal t)
  show ?case by (intro impI reads_operand) (simp add: operand_literal[OF literal])
next
  case (name t)
  show ?case by (intro impI reads_operand) (use name operand_name in auto)
next
  case (unit l c)
  show ?case by (intro impI reads_operand) (simp add: operand_group[OF unit(1)] ParseParenthetical_def unit)
next
  case (group e ts l c)
  show ?case
  proof (intro impI reads_operand)
    fix r :: Token and rest and s :: AstBuilder
    assume "fits (Parenthetical (Some e))" and "frontend s = fe"
    then have "parse (P_Expression kAll None, feed (ts @ c # r # rest) s) = return_node e (feed (c # r # rest) s)"
      using group level_le[of e] by (intro reads_neutral) auto
    then show "parse (P_Operand, feed ((l # ts @ [c]) @ r # rest) s) = return_node (Parenthetical (Some e)) (feed (r # rest) s)"
      using paren_close[OF group(3,4), of "r # rest" "ts @ c # r # rest" s e] spells_first(1)[OF group(1)]
        expression_start(1)[of "ttype (hd ts)"] by auto
  qed
next
  case (empty_array l c)
  show ?case by (intro impI reads_operand) (simp add: operand_array[OF empty_array(1)] array_end[OF empty_array(2)])
next
  case (array e ts l c)
  show ?case
  proof (intro impI reads_operand)
    fix r :: Token and rest and s :: AstBuilder
    assume "fits (Array [e])" and "frontend s = fe"
    then have "parse (P_Expression kComma None, feed (ts @ c # r # rest) s) = return_node e (feed (c # r # rest) s)"
      using array by (intro reads_neutral) auto
    then show "parse (P_Operand, feed ((l # ts @ [c]) @ r # rest) s) = return_node (Array [e]) (feed (r # rest) s)"
      using operand_array[OF array(3), of "ts @ c # r # rest" s] array_single[of "ts @ c # r # rest" c "r # rest" s e] array(4)
        spells_first(1)[OF array(1)] expression_start(1)[of "ttype (hd ts)"] by auto
  qed
next
  case (prefix e ts t)
  then show ?case using reads_prefix spells_first(1)[OF prefix(1)] by auto
next
  case (postfix e ts t)
  show ?case
  proof (intro impI)
    assume fits: "fits (UnaryPostfixExpression e (operation_of t))"
    then have "reads fe e ts" "\<not> absorbs e (ttype t)" using postfix postfix_not_absorbed[of e "ttype t"] by auto
    then show "reads fe (UnaryPostfixExpression e (operation_of t)) (ts @ [t])"
      unfolding reads_def using fits postfix(3) by (fastforce simp: loop_at_postfix)
  qed
next
  case (binary a ts b us t)
  obtain rule where rule: "kBinaryPrec (ttype t) = Some rule" using binary(5) by blast
  show ?case
  proof (intro impI)
    assume "fits (BinaryExpression a b (operation_of t))"
    then have "fits a" "fits b" "level a \<le> left_precedence rule" "level b \<le> right_precedence rule"
      using rule by (auto simp: operation_of_def)
    then show "reads fe (BinaryExpression a b (operation_of t)) (ts @ t # us)"
      using reads_binary[OF _ _ _ rule binary(6)] binary(2,4) spells_first(1)[OF binary(3)] expression_start(1)[of "ttype (hd us)"] by auto
  qed
next
  case (member a ts t n)
  show ?case
  proof (intro impI)
    assume fits: "fits (ScopeAccess (Some a) n None t)"
    then have "reads fe a ts" "\<not> absorbs a (ttype t)"
      using member binary_not_absorbed[of a TT_DOT "ltr kMemberAccess"] by (auto simp: left_precedence_def)
    then show "reads fe (ScopeAccess (Some a) n None t) (ts @ [t, n])"
      unfolding reads_def using fits member(3,4) by (fastforce simp: loop_at_member)
  qed
next
  case (ternary a ts b us c vs q d)
  then show ?case using reads_ternary by auto
next
  case (subscript a ts b us l c)
  then show ?case using reads_subscript by (auto simp: operation_of_def)
next
  case (call f ts es us l c)
  then show ?case using reads_call by auto
next
  case no_args
  show ?case by (simp add: reads_args_def parse_eqs(8) ParseArguments_def)
next
  case (one_arg e ts)
  show ?case
  proof (intro impI)
    assume "list_all (\<lambda>e. fits e \<and> level e \<le> kTernary) [e]"
    then have e: "reads fe e ts" "level e \<le> kTernary" using one_arg by auto
    show "reads_args fe [e] ts" unfolding reads_args_def
    proof (intro allI impI)
      fix f args and r :: Token and rest and s :: AstBuilder
      assume r: "ttype r = TT_ENDPARENTH" "frontend s = fe"
      show "parse (P_Arguments f args, feed (ts @ r # rest) s) = end_arguments parse f (args @ [e]) (feed (r # rest) s)"
        by (rule arguments_step(1)) (use spells_first(1)[OF one_arg(1)] r in \<open>auto simp: reads_neutral[OF e]\<close>)
    qed
  qed
next
  case (more_args e ts e' es us t)
  show ?case
  proof (intro impI)
    assume "list_all (\<lambda>e. fits e \<and> level e \<le> kTernary) (e # e' # es)"
    then have e: "reads fe e ts" "level e \<le> kTernary" and es: "reads_args fe (e' # es) us" and fit: "fits e" using more_args by auto
    show "reads_args fe (e # e' # es) (ts @ t # us)" unfolding reads_args_def
    proof (intro allI impI)
      fix f args and r :: Token and rest and s :: AstBuilder
      assume r: "ttype r = TT_ENDPARENTH" "frontend s = fe"
      have "\<not> absorbs e (ttype t) \<and> \<not> accepts kTernary e (ttype t)"
        using binary_not_absorbed[of e TT_COMMA "ltr kComma"] more_args e fit by (simp add: accepts_def left_precedence_def)
      then have "parse (P_Expression kTernary None, feed (ts @ t # us @ r # rest) s) = return_node e (feed (t # us @ r # rest) s)"
        using reads_stop[OF e] more_args r by simp
      then have "parse (P_Arguments f args, feed (ts @ t # us @ r # rest) s) = parse (P_Arguments f (args @ [e]), feed (us @ r # rest) s)"
        using arguments_step(2)[of "ts @ t # us @ r # rest" s e t "us @ r # rest" f args] spells_first(1)[OF more_args(1)] more_args by auto
      then show "parse (P_Arguments f args, feed ((ts @ t # us) @ r # rest) s) =
          end_arguments parse f (args @ e # e' # es) (feed (r # rest) s)"
        using es r unfolding reads_args_def by simp
    qed
  qed
qed

section \<open>The properties\<close>

text \<open>C1. \<open>ParseExpression\<close> reads the grammar: a tree in which the operands of every operator respect the
  precedence table is what it returns for the tokens of the tree, with no message, and it stops at the token after them.\<close>

theorem ParseExpression_reads_tree:
  assumes "spells (frontend s) e ts" and "fits e" and "neutral (ttype r)"
  shows "parse (P_Expression kAll None, feed (ts @ r # rest) s) = Some (Done (Some e) (feed (r # rest) s))"
  using reads_neutral[of "frontend s" e ts kAll r s] spelled_reads(1)[OF assms(1)] assms(2,3) level_le[of e]
  by (simp add: return_node_def)

definition mk :: "TokenType \<Rightarrow> string \<Rightarrow> Token" where
  "mk ty text1 = mk_token ty \<lparr>content = text1, line = 0, position = 0\<rparr>"

definition no_names :: Frontend where
  "no_names = \<lparr>fe_look_up = (\<lambda>x. None), fe_is_type = (\<lambda>d. False), fe_is_scope = (\<lambda>d. False), fe_is_template = (\<lambda>d. False),
     fe_member = (\<lambda>d x. None)\<rparr>"

text \<open>The tokens of \<open>a = b - 1 - f(2)\<close>, and its tree.\<close>

abbreviation (input) name_of :: "string \<Rightarrow> node" where "name_of x \<equiv> IdentifierAccess None (mk TT_IDENTIFIER x)"

abbreviation (input) minus_op :: Operation where "minus_op \<equiv> \<lparr>op_type = TT_MINUS, op_token = ''-''\<rparr>"

definition sample_tokens :: "Token list" where
  "sample_tokens = [mk TT_IDENTIFIER ''a'', mk TT_EQUALS ''='', mk TT_IDENTIFIER ''b'', mk TT_MINUS ''-'', mk TT_DECLITERAL ''1'',
     mk TT_MINUS ''-'', mk TT_IDENTIFIER ''f'', mk TT_BEGINPARENTH ''('', mk TT_DECLITERAL ''2'', mk TT_ENDPARENTH '')'']"

definition sample_tree :: node where
  "sample_tree = BinaryExpression (name_of ''a'')
     (BinaryExpression (BinaryExpression (name_of ''b'') (Literal TT_DECLITERAL ''1'') minus_op)
       (FunctionCallExpression (name_of ''f'') [Literal TT_DECLITERAL ''2'']) minus_op) \<lparr>op_type = TT_EQUALS, op_token = ''=''\<rparr>"

lemma mk_simps [simp]: "ttype (mk ty x) = ty" "content (mk ty x) = x" "operation_of (mk ty x) = \<lparr>op_type = ty, op_token = x\<rparr>"
  by (simp_all add: mk_def mk_token_def operation_of_def)

lemma sample_spelled: "spells no_names sample_tree sample_tokens"
proof -
  have name: "spells no_names (name_of x) [mk TT_IDENTIFIER x]" for x
    using name[of "mk TT_IDENTIFIER x" no_names] by (simp add: is_user_defined_type_def no_names_def)
  have num: "spells no_names (Literal TT_DECLITERAL x) [mk TT_DECLITERAL x]" for x
    using literal[of "mk TT_DECLITERAL x" no_names] by (simp add: literal_types_def)
  have binary: "spells no_names a ts \<Longrightarrow> spells no_names b us \<Longrightarrow> ty \<in> {TT_MINUS, TT_EQUALS} \<Longrightarrow>
      spells no_names (BinaryExpression a b \<lparr>op_type = ty, op_token = x\<rparr>) (ts @ mk ty x # us)" for a b ts us ty x
    using spells_spells_args.binary[of no_names a ts b us "mk ty x"] by (auto simp: kBinaryPrec_def)
  have "spells no_names (FunctionCallExpression (name_of ''f'') [Literal TT_DECLITERAL ''2''])
      ([mk TT_IDENTIFIER ''f''] @ mk TT_BEGINPARENTH ''('' # [mk TT_DECLITERAL ''2''] @ [mk TT_ENDPARENTH '')''])"
    by (rule call[OF name one_arg[OF num]]) simp_all
  from binary[OF binary[OF name num] this, of TT_MINUS TT_MINUS]
  have "spells no_names (BinaryExpression (BinaryExpression (name_of ''b'') (Literal TT_DECLITERAL ''1'') minus_op)
      (FunctionCallExpression (name_of ''f'') [Literal TT_DECLITERAL ''2'']) minus_op) (tl (tl sample_tokens))"
    by (simp add: sample_tokens_def)
  from binary[OF name this, of TT_EQUALS] show ?thesis by (simp add: sample_tree_def sample_tokens_def)
qed

lemma sample_fits: "fits sample_tree"
  by (simp add: sample_tree_def kBinaryPrec_def ltr_def rtl_def left_precedence_def right_precedence_def)

lemma ParseExpression_reads_tree_witness:
  "\<forall>s. parse (P_Expression kAll None, feed (sample_tokens @ mk TT_SEMICOLON '';'' # []) (s\<lparr>frontend := no_names\<rparr>)) =
     Some (Done (Some sample_tree) (feed [mk TT_SEMICOLON '';''] (s\<lparr>frontend := no_names\<rparr>)))"
  by (intro allI ParseExpression_reads_tree) (simp_all add: sample_spelled sample_fits neutral_def kBinaryPrec_def)

text \<open>C23. The precedence table makes the grammar unambiguous: tokens have at most one tree that fits.\<close>

theorem fitting_trees_unique:
  assumes "spells fe e ts" and "spells fe e' ts" and "fits e" and "fits e'"
  shows "e = e'"
proof -
  obtain s :: AstBuilder where fe: "frontend s = fe" by (rule that[of "undefined\<lparr>frontend := fe\<rparr>"]) simp
  let ?r = "mk TT_ENDPARENTH '')''"
  have "parse (P_Expression kAll None, feed (ts @ ?r # []) s) = return_node d (feed [?r] s)" if "spells fe d ts" "fits d" for d
    using reads_neutral[of fe d ts kAll ?r s "[]"] spelled_reads(1)[OF that(1)] that(2) fe level_le[of d] by simp
  from this[OF assms(1,3)] this[OF assms(2,4)] show ?thesis by (simp add: return_node_def)
qed

lemma fitting_trees_unique_witness:
  "\<not> fits (BinaryExpression (Literal TT_DECLITERAL ''3'')
     (BinaryExpression (Literal TT_DECLITERAL ''2'') (Literal TT_DECLITERAL ''1'') minus_op) minus_op)"
proof
  let ?n = "\<lambda>x. Literal TT_DECLITERAL x" and ?t = "\<lambda>x. [mk TT_DECLITERAL x]" and ?m = "mk TT_MINUS ''-''"
  have num: "spells no_names (?n x) (?t x)" for x using literal[of "mk TT_DECLITERAL x" no_names] by (simp add: literal_types_def)
  have minus: "spells no_names a ts \<Longrightarrow> spells no_names b us \<Longrightarrow> spells no_names (BinaryExpression a b minus_op) (ts @ ?m # us)" for a b ts us
    using spells_spells_args.binary[of no_names a ts b us ?m] by (simp add: kBinaryPrec_def)
  have left: "spells no_names (BinaryExpression (BinaryExpression (?n ''3'') (?n ''2'') minus_op) (?n ''1'') minus_op)
      (?t ''3'' @ ?m # ?t ''2'' @ ?m # ?t ''1'')"
    using minus[OF minus[OF num num] num] by simp
  have right: "spells no_names (BinaryExpression (?n ''3'') (BinaryExpression (?n ''2'') (?n ''1'') minus_op) minus_op)
      (?t ''3'' @ ?m # ?t ''2'' @ ?m # ?t ''1'')"
    using minus[OF num minus[OF num num]] by simp
  have "fits (BinaryExpression (BinaryExpression (?n ''3'') (?n ''2'') minus_op) (?n ''1'') minus_op)"
    by (simp add: kBinaryPrec_def ltr_def left_precedence_def right_precedence_def)
  moreover assume "fits (BinaryExpression (?n ''3'') (BinaryExpression (?n ''2'') (?n ''1'') minus_op) minus_op)"
  ultimately show False using fitting_trees_unique[OF left right] by simp
qed

end
