(* ===== verification/ParserReturns.thy ===== *)
theory ParserReturns
  imports Parser
begin

text \<open>
  That the parser returns.  A method gets as many tokens as are left and a rank among the methods it can
  call without reading; every call has fewer tokens or a smaller rank.  A switch body is left out: its
  loop does not always read a token.
\<close>

section \<open>What is claimed of the methods\<close>

text \<open>A token that no construct outside the model begins with; where names of templates are known, a \<open><\<close> may begin one.\<close>

definition plain_token :: "Frontend \<Rightarrow> Token \<Rightarrow> bool" where
  "plain_token fe t = (\<not> is_decl_specifier (ttype t) \<and> \<not> is_user_defined_type fe t \<and>
     ttype t \<notin> {TT_DYNAMIC_CAST, TT_STATIC_CAST, TT_REINTERPRET_CAST, TT_CONST_CAST, TT_S_NEW, TT_S_DELETE, TT_OPERATOR} \<and>
     \<not> (ttype t = TT_IDENTIFIER \<and> (content t = ''global'' \<or> content t = ''local'')) \<and>
     (ttype t = TT_LESS \<longrightarrow> (\<forall>d. \<not> fe_is_template fe d)))"


lemma plain_end [simp]: "ttype t = TT_ENDOFCODE \<Longrightarrow> plain_token fe t"
  by (simp add: plain_token_def is_decl_specifier_def is_type_specifier_def is_class_key_def is_user_defined_type_def)















section \<open>Tokens left\<close>




section \<open>The properties\<close>





end
