(* ===== verification/ParserLaws.thy ===== *)
theory ParserLaws
  imports Parser
begin

text \<open>
  Where the parser does not return, and what \<open>SyntaxChecker\<close> makes of a tree.
\<close>

section \<open>Loops that do not end\<close>

lemma statement_at_end: "tt s = TT_ENDOFCODE \<Longrightarrow> TryParseStatement prs s = Some (Done None s)"
  by (simp add: TryParseStatement_def Let_def is_decl_specifier_def is_type_specifier_def is_class_key_def
    next_maybe_functional_cast_def maybe_functional_cast_def is_user_defined_type_def nullptr_def)

text \<open>C25. The loop over the body of a switch statement reports a token that is none of \<open>case\<close>, \<open>default\<close> and \<open>}\<close> and does
  not read it: it never ends, whatever the tokens after it, and at the end of the code too.\<close>

theorem switch_body_never_ends:
  assumes "tt s \<notin> {TT_ENDBRACE, TT_S_CASE, TT_S_DEFAULT}"
  shows "parse (P_SwitchBody e statements default_branch, s) = None"
proof -
  have "\<forall>e es d s. ms = (P_SwitchBody e es d, s) \<longrightarrow> tt s \<in> {TT_ENDBRACE, TT_S_CASE, TT_S_DEFAULT}" if "parse ms = Some y" for ms y
  proof (rule parse.raw_induct[OF _ that])
    fix prs :: prs and ms y
    assume IH: "\<And>x y. prs x = Some y \<Longrightarrow> \<forall>e es d s. x = (P_SwitchBody e es d, s) \<longrightarrow> tt s \<in> {TT_ENDBRACE, TT_S_CASE, TT_S_DEFAULT}"
      and step: "dispatch prs (fst ms) (snd ms) = Some y"
    show "\<forall>e es d s. ms = (P_SwitchBody e es d, s) \<longrightarrow> tt s \<in> {TT_ENDBRACE, TT_S_CASE, TT_S_DEFAULT}"
    proof (intro allI impI)
      fix e es d s
      assume ms: "ms = (P_SwitchBody e es d, s)"
      show "tt s \<in> {TT_ENDBRACE, TT_S_CASE, TT_S_DEFAULT}"
      proof (rule ccontr)
        assume other: "tt s \<notin> {TT_ENDBRACE, TT_S_CASE, TT_S_DEFAULT}"
        then have "prs (P_SwitchBody e es d, perror (tok s) ''Expected 'case' or 'default' in switch body'' s) = Some y"
          using step ms by (simp add: dispatch_def ParseSwitchBody_def)
        from IH[OF this] other show False by (auto simp: perror_def)
      qed
    qed
  qed
  then show ?thesis using assms by (cases "parse (P_SwitchBody e statements default_branch, s)") auto
qed

lemma switch_body_never_ends_witness:
  "\<forall>e s. parse (P_SwitchBody e [] None, s\<lparr>tok := mk_token TT_SEMICOLON \<lparr>content = '';'', line = 0, position = 0\<rparr>\<rparr>) = None"
  by (intro allI switch_body_never_ends) (simp add: mk_token_def)

text \<open>The statements of a case are read up to the next \<open>case\<close>, \<open>default\<close> or \<open>}\<close>, which the end of the code is not:
  there a statement is null, no token is read, and the loop never ends.\<close>

theorem case_body_never_ends:
  assumes "tt s = TT_ENDOFCODE"
  shows "parse (P_CaseBody is_default expr statements, s) = None"
proof -
  have "\<forall>s. tt s = TT_ENDOFCODE \<longrightarrow> (ms = (P_Statement, s) \<longrightarrow> y = Done None s) \<and>
      (\<forall>b expr es. ms \<noteq> (P_CaseBody b expr es, s))" if "parse ms = Some y" for ms y
  proof (rule parse.raw_induct[OF _ that])
    fix prs :: prs and ms y
    assume IH: "\<And>x y. prs x = Some y \<Longrightarrow> \<forall>s. tt s = TT_ENDOFCODE \<longrightarrow> (x = (P_Statement, s) \<longrightarrow> y = Done None s) \<and>
        (\<forall>b expr es. x \<noteq> (P_CaseBody b expr es, s))"
      and step: "dispatch prs (fst ms) (snd ms) = Some y"
    show "\<forall>s. tt s = TT_ENDOFCODE \<longrightarrow> (ms = (P_Statement, s) \<longrightarrow> y = Done None s) \<and> (\<forall>b expr es. ms \<noteq> (P_CaseBody b expr es, s))"
    proof (intro allI impI conjI notI)
      fix s
      assume "tt s = TT_ENDOFCODE" "ms = (P_Statement, s)"
      then show "y = Done None s" using step by (simp add: dispatch_def statement_at_end)
    next
      fix s b expr es
      assume s: "tt s = TT_ENDOFCODE" and ms: "ms = (P_CaseBody b expr es, s)"
      then have call: "call (prs (P_Statement, s)) (\<lambda>p s1. prs (P_CaseBody b expr (case p of None \<Rightarrow> es | Some e \<Rightarrow> es @ [e]), s1)) = Some y"
        using step by (simp add: dispatch_def ParseCaseBody_def)
      then obtain x where x: "prs (P_Statement, s) = Some x" by (cases "prs (P_Statement, s)") auto
      from IH[OF this] s have "x = Done None s" by simp
      then have "prs (P_CaseBody b expr es, s) = Some y" using call x by simp
      from IH[OF this] s show False by blast
    qed
  qed
  with assms show ?thesis by (cases "parse (P_CaseBody is_default expr statements, s)") blast+
qed

lemma case_body_never_ends_witness:
  "\<forall>s. parse (P_CaseBody True None [], s\<lparr>tok := mk_token TT_ENDOFCODE \<lparr>content = [], line = 0, position = 0\<rparr>\<rparr>) = None"
  by (intro allI case_body_never_ends) (simp add: mk_token_def)

section \<open>\<open>SyntaxChecker\<close>\<close>

text \<open>Every condition of an if statement in a tree satisfies \<open>P\<close>.\<close>

fun conditions :: "(node \<Rightarrow> bool) \<Rightarrow> node \<Rightarrow> bool"
  and conditions_opt :: "(node \<Rightarrow> bool) \<Rightarrow> node option \<Rightarrow> bool"
  and conditions_list :: "(node \<Rightarrow> bool) \<Rightarrow> node list \<Rightarrow> bool" where
  "conditions P (CodeBlock xs) = conditions_list P xs"
| "conditions P (BinaryExpression a b op1) = (conditions P a \<and> conditions P b)"
| "conditions P (FunctionCallExpression f xs) = (conditions P f \<and> conditions_list P xs)"
| "conditions P (UnaryPrefixExpression e op1) = conditions P e"
| "conditions P (UnaryPostfixExpression e op1) = conditions P e"
| "conditions P (TernaryExpression a b c) = (conditions P a \<and> conditions P b \<and> conditions P c)"
| "conditions P (LambdaExpression a b) = (conditions P a \<and> conditions P b)"
| "conditions P (SizeofExpression k e) = conditions P e"
| "conditions P (AlignofExpression e) = conditions P e"
| "conditions P (Parenthetical p) = conditions_opt P p"
| "conditions P (Array xs) = conditions_list P xs"
| "conditions P (ScopeAccess p name d op1) = conditions_opt P p"
| "conditions P (IfStatement c t f n) = (P c \<and> conditions P c \<and> conditions_opt P t \<and> conditions_opt P f)"
| "conditions P (ForLoop a b c d) = (conditions_opt P a \<and> conditions_opt P b \<and> conditions_opt P c \<and> conditions_opt P d)"
| "conditions P (WhileLoop c b k) = (conditions P c \<and> conditions P b)"
| "conditions P (DoLoop b c u) = (conditions P b \<and> conditions P c)"
| "conditions P (CaseStatement e xs) = (conditions P e \<and> conditions_list P xs)"
| "conditions P (DefaultStatement xs) = conditions_list P xs"
| "conditions P (SwitchStatement e xs d) = (conditions P e \<and> conditions_list P xs)"
| "conditions P (ReturnStatement p x) = conditions_opt P p"
| "conditions P (BreakStatement p) = conditions_opt P p"
| "conditions P (ContinueStatement p) = conditions_opt P p"
| "conditions P (WithStatement a b) = (conditions P a \<and> conditions P b)"
| "conditions P n = True"
| "conditions_opt P None = True"
| "conditions_opt P (Some e) = conditions P e"
| "conditions_list P [] = True"
| "conditions_list P (x # xs) = (conditions P x \<and> conditions_list P xs)"

definition assigns :: "node \<Rightarrow> bool" where
  "assigns c = (case c of BinaryExpression a b op1 \<Rightarrow> op_type op1 = TT_EQUALS
     | Parenthetical (Some (BinaryExpression a b op1)) \<Rightarrow> op_type op1 = TT_EQUALS | _ \<Rightarrow> False)"

lemma map_bind_None [simp]: "Option.bind x f = None \<longleftrightarrow> x = None \<or> (\<exists>y. x = Some y \<and> f y = None)"
  by (cases x) auto

lemma check_condition_None: "check_condition c = None \<longleftrightarrow> c = Parenthetical None"
  by (auto simp: check_condition_def split: node.splits option.splits)

lemma checked_group: "syntax_check c = Some c' \<Longrightarrow> c' = Parenthetical None \<longleftrightarrow> c = Parenthetical None"
  by (cases c; cases "c = Parenthetical None") (auto split: bind_splits)

lemma check_null:
  "syntax_check e = None \<longleftrightarrow> \<not> conditions (\<lambda>c. c \<noteq> Parenthetical None) e"
  "check_opt p = None \<longleftrightarrow> \<not> conditions_opt (\<lambda>c. c \<noteq> Parenthetical None) p"
  "check_list xs = None \<longleftrightarrow> \<not> conditions_list (\<lambda>c. c \<noteq> Parenthetical None) xs"
proof (induction e and p and xs rule: syntax_check_check_opt_check_list.induct)
  case (16 c t f n)
  show ?case
  proof (cases "syntax_check c")
    case (Some c')
    then show ?thesis using 16 checked_group[OF Some] check_condition_None[of c'] by (cases "check_condition c'"; cases "check_opt t") auto
  qed (use 16 in simp)
next
  case (17 a b c d)
  then show ?case by (cases "check_opt a"; cases "check_opt b"; cases "check_opt c") auto
qed auto


lemma check_changes:
  "\<forall>e'. syntax_check e = Some e' \<longrightarrow> conditions (\<lambda>c. c \<noteq> Parenthetical None \<and> \<not> assigns c) e'"
  "\<forall>p'. check_opt p = Some p' \<longrightarrow> conditions_opt (\<lambda>c. c \<noteq> Parenthetical None \<and> \<not> assigns c) p'"
  "\<forall>xs'. check_list xs = Some xs' \<longrightarrow> conditions_list (\<lambda>c. c \<noteq> Parenthetical None \<and> \<not> assigns c) xs'"
proof (induction e and p and xs rule: syntax_check_check_opt_check_list.induct)
  case (16 c t f n)
  have checked: "c'' \<noteq> Parenthetical None \<and> \<not> assigns c'' \<and> conditions P c'' = conditions P c'" if "check_condition c' = Some c''" for P c' c''
    using that by (auto simp: check_condition_def as_equality_def assigns_def split: node.splits option.splits if_splits)
  show ?case
    using 16 checked by (fastforce simp: bind_eq_Some_conv)
qed (fastforce simp: bind_eq_Some_conv)+

lemma check_fixed:
  "conditions (\<lambda>c. c \<noteq> Parenthetical None \<and> \<not> assigns c) e \<Longrightarrow> syntax_check e = Some e"
  "conditions_opt (\<lambda>c. c \<noteq> Parenthetical None \<and> \<not> assigns c) p \<Longrightarrow> check_opt p = Some p"
  "conditions_list (\<lambda>c. c \<noteq> Parenthetical None \<and> \<not> assigns c) xs \<Longrightarrow> check_list xs = Some xs"
proof (induction e and p and xs rule: syntax_check_check_opt_check_list.induct)
  case (16 c t f n)
  then have "check_condition c = Some c"
    by (auto simp: check_condition_def as_equality_def assigns_def split: node.splits option.splits if_splits)
  with 16 show ?case by simp
qed simp_all

lemma conditions_weaken:
  "\<forall>c. P c \<longrightarrow> Q c \<Longrightarrow> conditions P e \<Longrightarrow> conditions Q e"
  "\<forall>c. P c \<longrightarrow> Q c \<Longrightarrow> conditions_opt P p \<Longrightarrow> conditions_opt Q p"
  "\<forall>c. P c \<longrightarrow> Q c \<Longrightarrow> conditions_list P xs \<Longrightarrow> conditions_list Q xs"
  by (induction P e and P p and P xs rule: conditions_conditions_opt_conditions_list.induct) simp_all

text \<open>\<open>SyntaxChecker\<close> follows a null pointer exactly when the condition of some if statement is an empty pair of
  parentheses.\<close>

theorem syntax_check_null: "syntax_check e = None \<longleftrightarrow> \<not> conditions (\<lambda>c. c \<noteq> Parenthetical None) e"
  by (rule check_null)

text \<open>After \<open>SyntaxChecker\<close> no condition of an if statement is an assignment, and checking again changes nothing.\<close>

theorem syntax_check_idempotent:
  assumes "syntax_check e = Some e'"
  shows "conditions (\<lambda>c. \<not> assigns c) e' \<and> syntax_check e' = Some e'"
proof -
  have all: "conditions (\<lambda>c. c \<noteq> Parenthetical None \<and> \<not> assigns c) e'" using check_changes(1) assms by blast
  show ?thesis using conditions_weaken(1)[OF _ all, of "\<lambda>c. \<not> assigns c"] check_fixed(1)[OF all] by simp
qed

lemma syntax_check_idempotent_witness:
  "conditions (\<lambda>c. \<not> assigns c) (IfStatement (BinaryExpression (Literal TT_DECLITERAL ''1'') (Literal TT_DECLITERAL ''2'')
      \<lparr>op_type = TT_EQUALTO, op_token = ''==''\<rparr>) None None False) \<and>
   syntax_check (IfStatement (BinaryExpression (Literal TT_DECLITERAL ''1'') (Literal TT_DECLITERAL ''2'')
      \<lparr>op_type = TT_EQUALTO, op_token = ''==''\<rparr>) None None False) =
   Some (IfStatement (BinaryExpression (Literal TT_DECLITERAL ''1'') (Literal TT_DECLITERAL ''2'')
      \<lparr>op_type = TT_EQUALTO, op_token = ''==''\<rparr>) None None False)"
  by (rule syntax_check_idempotent[of "IfStatement (BinaryExpression (Literal TT_DECLITERAL ''1'') (Literal TT_DECLITERAL ''2'')
    \<lparr>op_type = TT_EQUALS, op_token = ''=''\<rparr>) None None False"]) (simp add: check_condition_def as_equality_def)

end
