(* ===== verification/Printer.thy ===== *)
theory Printer
  imports Ast
begin

text \<open>
  The C++ printer of syntax trees (\<open>CompilerSource/parsing/pretty_printer.cpp\<close>, used by
  \<open>AST::WriteCppToStream\<close>), on the nodes of \<open>Ast\<close>.  The file it writes to is the text it returns.  The
  printer is made with a language front end, whose answers are a record of functions.  The marks the
  semantic annotator leaves on a tree (\<open>access_kind\<close>, \<open>lower_gml_equals\<close>, \<open>lower_real_division\<close>)
  have the values they start with; without declarations \<open>in_declarator_\<close> stays false.
\<close>

section \<open>State\<close>

record Printer =
  is_script :: bool
  declared_names :: "string set"
  is_shared_local :: "string \<Rightarrow> bool"
  global_exists :: "string \<Rightarrow> bool"
  is_variadic_function :: "nat \<Rightarrow> bool"
  function_variadic_after :: "nat \<Rightarrow> nat"

text \<open>What is printed depends on the flag \<open>print_type\<close> and may change it.\<close>

type_synonym printed = "bool \<Rightarrow> string \<times> bool"

definition out :: "string \<Rightarrow> printed" where
  "out code = (\<lambda>print_type. (code, print_type))"

definition set_print_type :: "bool \<Rightarrow> printed" where
  "set_print_type b = (\<lambda>print_type. ([], b))"

primrec in_order :: "printed list \<Rightarrow> printed" where
  "in_order [] = (\<lambda>print_type. ([], print_type))"
| "in_order (p # ps) = (\<lambda>print_type. let (code, pt) = p print_type; (rest, pt') = in_order ps pt in (code @ rest, pt'))"

definition semicolon_after :: "node \<Rightarrow> bool" where
  "semicolon_after n = (case n of CodeBlock xs \<Rightarrow> False | IfStatement c t f b \<Rightarrow> False | ForLoop a b c d \<Rightarrow> False
     | CaseStatement e xs \<Rightarrow> False | DefaultStatement xs \<Rightarrow> False | SwitchStatement e xs d \<Rightarrow> False
     | WhileLoop c b k \<Rightarrow> False | DoLoop b c u \<Rightarrow> False | WithStatement a b \<Rightarrow> False | _ \<Rightarrow> True)"

definition PrintSemiColon :: "node \<Rightarrow> printed" where
  "PrintSemiColon n = out (if semicolon_after n then ''; '' else [])"

section \<open>Leaves\<close>

definition VisitIdentifierAccess :: "Printer \<Rightarrow> nat option \<Rightarrow> Token \<Rightarrow> printed" where
  "VisitIdentifierAccess pr d nm = (\<lambda>print_type. let name = content nm in
     ((if print_type then ''auto '' else []) @
      (if name \<in> declared_names pr then name
       else if is_script pr \<and> name \<noteq> ''self'' then
         (if is_shared_local pr name then ''enigma::glaccess(int(self))->'' @ name
          else if global_exists pr name then name
          else if d \<noteq> None then name
          else if take 8 name = ''argument'' then name
          else ''enigma::varaccess_'' @ name @ ''(int(self))'')
       else name), print_type))"

definition octal_digit :: "nat \<Rightarrow> char" where
  "octal_digit n = char_of (48 + n mod 8)"

definition octal_escape :: "char \<Rightarrow> string" where
  "octal_escape c = (let n = of_char c :: nat in [CHR 0x5C, octal_digit (n div 64), octal_digit (n div 8), octal_digit n])"

definition escape_char :: "char \<Rightarrow> string" where
  "escape_char c = (
     if c = CHR 0x5C then [CHR 0x5C, CHR 0x5C]
     else if c = CHR 0x22 \<or> c = CHR 0x27 then [CHR 0x5C, c]
     else if (of_char c :: nat) \<ge> 0x20 \<and> (of_char c :: nat) \<le> 0x7E then [c]
     else if c = CHR 0x0A then [CHR 0x5C, CHR ''n'']
     else if c = CHR 0x09 then [CHR 0x5C, CHR ''t'']
     else if c = CHR 0x0B then [CHR 0x5C, CHR ''v'']
     else if c = CHR 0x08 then [CHR 0x5C, CHR ''b'']
     else if c = CHR 0x0D then [CHR 0x5C, CHR ''r'']
     else if c = CHR 0x0C then [CHR 0x5C, CHR ''f'']
     else if c = CHR 0x07 then [CHR 0x5C, CHR ''a'']
     else if c = CHR ''?'' then [CHR 0x5C, CHR ''?'']
     else octal_escape c)"

definition quote_of :: "TokenType \<Rightarrow> string \<Rightarrow> char" where
  "quote_of ty value = (if ty = TT_CHARLIT \<and> \<not> length value > 1 then CHR 0x27 else CHR 0x22)"

definition VisitLiteral :: "TokenType \<Rightarrow> string \<Rightarrow> printed" where
  "VisitLiteral ty value = out (
     if ty \<noteq> TT_CHARLIT \<and> ty \<noteq> TT_STRINGLIT then
       (if ty = TT_HEXLITERAL then ''0x'' else if ty = TT_BINLITERAL then ''0b'' else if ty = TT_OCTLITERAL then ''0'' else []) @ value
     else [quote_of ty value] @ concat (map escape_char value) @ [quote_of ty value])"

definition is_parenthetical :: "node \<Rightarrow> bool" where
  "is_parenthetical n = (case n of Parenthetical p \<Rightarrow> True | _ \<Rightarrow> False)"

definition is_block :: "node \<Rightarrow> bool" where
  "is_block n = (case n of CodeBlock xs \<Rightarrow> True | _ \<Rightarrow> False)"

text \<open>The operator of a binary expression as it is printed; a subscript by a comma expression is a call.\<close>

definition is_multi_dim :: "node \<Rightarrow> Operation \<Rightarrow> bool" where
  "is_multi_dim right op1 = (op_type op1 = TT_BEGINBRACKET \<and>
     (case right of BinaryExpression a b op2 \<Rightarrow> op_type op2 = TT_COMMA | _ \<Rightarrow> False))"

definition printed_operator :: "node \<Rightarrow> Operation \<Rightarrow> string" where
  "printed_operator right op1 = (let operation = (if is_multi_dim right op1 then ''('' else op_token op1) in
     if operation = '':='' then ''='' else operation)"

definition variadic_index :: "Printer \<Rightarrow> node \<Rightarrow> nat option" where
  "variadic_index pr f = (case f of
      IdentifierAccess (Some d) name \<Rightarrow> if is_variadic_function pr d then Some (function_variadic_after pr d) else None
    | _ \<Rightarrow> None)"

text \<open>\<open>std::to_string\<close>.\<close>

definition repeat_counter :: "nat \<Rightarrow> string" where
  "repeat_counter depth = ''strange_name'' @ (if depth > 0 then decimal depth else [])"

section \<open>The visitors\<close>

text \<open>Each takes what is printed for the children of its node.\<close>

definition VisitParenthetical :: "printed \<Rightarrow> printed" where
  "VisitParenthetical p = in_order [out ''('', p, out '')'']"

definition VisitUnaryPostfixExpression :: "printed \<Rightarrow> Operation \<Rightarrow> printed" where
  "VisitUnaryPostfixExpression e op1 = in_order [e, out (op_token op1)]"

definition VisitUnaryPrefixExpression :: "printed \<Rightarrow> Operation \<Rightarrow> printed" where
  "VisitUnaryPrefixExpression e op1 = in_order [out (op_token op1), e]"

definition VisitBinaryExpression :: "node \<Rightarrow> Operation \<Rightarrow> printed \<Rightarrow> printed \<Rightarrow> printed" where
  "VisitBinaryExpression right op1 a b = in_order [a, out ('' '' @ printed_operator right op1 @ '' ''), b,
     out (if is_multi_dim right op1 then '')'' else if op_type op1 = TT_BEGINBRACKET then '']'' else [])]"

definition VisitScopeAccess :: "node option \<Rightarrow> Token \<Rightarrow> Token \<Rightarrow> printed \<Rightarrow> printed" where
  "VisitScopeAccess lhs nm op1 l = (
     if ttype op1 = TT_DOT then
       (case lhs of
          Some (IdentifierAccess d left) \<Rightarrow> out (
            if content left = ''local'' then content nm
            else if content left = ''global'' then ''enigma::varaccess_'' @ content nm @ ''(int(global))''
            else ''enigma::varaccess_'' @ content nm @ ''('' @ content left @ '')'')
        | _ \<Rightarrow> in_order [out (''enigma::varaccess_'' @ content nm @ ''(''), l, out '')''])
     else in_order [l, out ''::'', out (content nm)])"

text \<open>\<open>k\<close> is the first variadic argument of \<open>n\<close> arguments; the wrapper closes if it was opened.\<close>

definition VisitFunctionCallExpression :: "nat option \<Rightarrow> nat \<Rightarrow> printed \<Rightarrow> printed \<Rightarrow> printed" where
  "VisitFunctionCallExpression k n f es = in_order [f, out ''('', es,
     out (case k of None \<Rightarrow> [] | Some i \<Rightarrow> if i < n then '')'' else []), out '')'']"

definition VisitTernaryExpression :: "printed \<Rightarrow> printed \<Rightarrow> printed \<Rightarrow> printed" where
  "VisitTernaryExpression a b c = in_order [a, out '' ? '', b, out '' : '', c]"

definition VisitLambdaExpression :: "node \<Rightarrow> node \<Rightarrow> printed \<Rightarrow> printed \<Rightarrow> printed" where
  "VisitLambdaExpression params body p b = (let name = (case params of IdentifierAccess d nm \<Rightarrow> True | _ \<Rightarrow> False) in
     in_order [out ''[&]'', out (if name then ''('' else []), set_print_type True, p, set_print_type False,
       out (if name then '')'' else []), out (if is_block body then [] else ''{''), b, PrintSemiColon body,
       out (if is_block body then [] else ''}'')])"

definition VisitSizeofExpression :: "SizeofKind \<Rightarrow> printed \<Rightarrow> printed" where
  "VisitSizeofExpression k e = (case k of
     SizeofExpr \<Rightarrow> in_order [out ''sizeof'', out '' '', e]
   | SizeofVariadic \<Rightarrow> in_order [out ''sizeof'', out ''...('', e, out '')''])"

definition VisitAlignofExpression :: "printed \<Rightarrow> printed" where
  "VisitAlignofExpression e = in_order [out ''alignof('', e, out '')'']"

definition VisitArray :: "printed \<Rightarrow> printed" where
  "VisitArray es = in_order [out ''['', es, out '']'']"

definition VisitCodeBlock :: "printed \<Rightarrow> printed" where
  "VisitCodeBlock xs = in_order [out ''{\<newline>'', xs, out ''}'']"

text \<open>A condition gets parentheses unless it has some; \<open>negated\<close> is for \<open>until\<close>.\<close>

definition condition_of :: "bool \<Rightarrow> node \<Rightarrow> printed \<Rightarrow> printed list" where
  "condition_of negated n c = [out (if is_parenthetical n then [] else ''(''),
     out (if negated then (if is_parenthetical n then ''(!'' else ''!('') else []), c,
     out (if negated then '')'' else []), out (if is_parenthetical n then [] else '')'')]"

definition VisitIfStatement :: "node \<Rightarrow> node option \<Rightarrow> node option \<Rightarrow> bool \<Rightarrow> printed \<Rightarrow> printed \<Rightarrow> printed \<Rightarrow> printed" where
  "VisitIfStatement cond tb fb not_condition c t f = in_order [out ''if'', out (if not_condition then ''(!'' else []),
     in_order (condition_of False cond c), out (if not_condition then '')'' else []), out '' '',
     (case tb of Some e \<Rightarrow> in_order [t, PrintSemiColon e] | None \<Rightarrow> out '';''), out '' '',
     (case fb of Some e \<Rightarrow> in_order [out ''else '', f, PrintSemiColon e, out '' ''] | None \<Rightarrow> out [])]"

definition VisitForLoop :: "node option \<Rightarrow> printed \<Rightarrow> printed \<Rightarrow> printed \<Rightarrow> printed \<Rightarrow> printed" where
  "VisitForLoop body a c i b = in_order [out ''for('', a, out ''; '', c, out ''; '', i, out '') '',
     (case body of Some e \<Rightarrow> in_order [b, PrintSemiColon e] | None \<Rightarrow> out '';''), out '' '']"

definition VisitWhileLoop :: "nat \<Rightarrow> WhileKind \<Rightarrow> node \<Rightarrow> node \<Rightarrow> printed \<Rightarrow> printed \<Rightarrow> printed" where
  "VisitWhileLoop depth k cond body c b = (if k = REPEAT then
       in_order [out (''{ int '' @ repeat_counter depth @ '' = ''), c, out (''; while('' @ repeat_counter depth @ ''--) ''),
         b, PrintSemiColon body, out '' }'']
     else in_order [out ''while'', in_order (condition_of (k = UNTIL) cond c), out '' '', b, PrintSemiColon body])"

definition VisitDoLoop :: "node \<Rightarrow> node \<Rightarrow> bool \<Rightarrow> printed \<Rightarrow> printed \<Rightarrow> printed" where
  "VisitDoLoop body cond is_until b c = in_order [out ''do'', out (if is_block body then [] else ''{''), b, PrintSemiColon body,
     out (if is_block body then [] else ''}''), out ''while'', in_order (condition_of is_until cond c), out '';'']"

definition VisitCaseStatement :: "printed \<Rightarrow> printed \<Rightarrow> printed" where
  "VisitCaseStatement e xs = in_order [out ''case '', e, out '': '', VisitCodeBlock xs, out '' '']"

definition VisitDefaultStatement :: "printed \<Rightarrow> printed" where
  "VisitDefaultStatement xs = in_order [out ''default: '', VisitCodeBlock xs, out '' '']"

definition VisitSwitchStatement :: "printed \<Rightarrow> printed \<Rightarrow> printed" where
  "VisitSwitchStatement e xs = in_order [out ''switch(int('', e, out '')) '', VisitCodeBlock xs, out '' '']"

definition VisitReturnStatement :: "bool \<Rightarrow> printed \<Rightarrow> printed" where
  "VisitReturnStatement is_exit e = in_order [out ''return '', e, out (if is_exit then ''0'' else [])]"

definition VisitJump :: "string \<Rightarrow> node option \<Rightarrow> printed \<Rightarrow> printed" where
  "VisitJump keyword levels c = in_order [out keyword, out (if levels = None then [] else '' ''), c]"

definition VisitWithStatement :: "node \<Rightarrow> node \<Rightarrow> printed \<Rightarrow> printed \<Rightarrow> printed" where
  "VisitWithStatement object body a b = in_order [out ''with'', in_order (condition_of False object a), b, PrintSemiColon body]"

lemmas visitors = VisitParenthetical_def VisitUnaryPostfixExpression_def VisitUnaryPrefixExpression_def VisitBinaryExpression_def
  VisitFunctionCallExpression_def VisitTernaryExpression_def VisitArray_def

section \<open>Trees\<close>

text \<open>\<open>depth\<close> is \<open>repeat_depth_\<close>, which is restored after every loop.\<close>

fun Visit :: "Printer \<Rightarrow> nat \<Rightarrow> node \<Rightarrow> printed"
  and VisitOpt :: "Printer \<Rightarrow> nat \<Rightarrow> node option \<Rightarrow> printed"
  and VisitSep :: "Printer \<Rightarrow> nat \<Rightarrow> node list \<Rightarrow> printed"
  and VisitArguments :: "Printer \<Rightarrow> nat \<Rightarrow> nat option \<Rightarrow> node list \<Rightarrow> printed"
  and VisitCode :: "Printer \<Rightarrow> nat \<Rightarrow> node list \<Rightarrow> printed" where
  "Visit pr depth (SyntaxError origin) = out []"
| "Visit pr depth (IdentifierAccess d nm) = VisitIdentifierAccess pr d nm"
| "Visit pr depth (Literal ty value) = VisitLiteral ty value"
| "Visit pr depth (Parenthetical p) = VisitParenthetical (VisitOpt pr depth p)"
| "Visit pr depth (UnaryPostfixExpression e op1) = VisitUnaryPostfixExpression (Visit pr depth e) op1"
| "Visit pr depth (UnaryPrefixExpression e op1) = VisitUnaryPrefixExpression (Visit pr depth e) op1"
| "Visit pr depth (BinaryExpression a b op1) = VisitBinaryExpression b op1 (Visit pr depth a) (Visit pr depth b)"
| "Visit pr depth (ScopeAccess lhs nm d op1) = VisitScopeAccess lhs nm op1 (VisitOpt pr depth lhs)"
| "Visit pr depth (FunctionCallExpression f es) = VisitFunctionCallExpression (variadic_index pr f) (length es)
     (Visit pr depth f) (VisitArguments pr depth (variadic_index pr f) es)"
| "Visit pr depth (TernaryExpression a b c) = VisitTernaryExpression (Visit pr depth a) (Visit pr depth b) (Visit pr depth c)"
| "Visit pr depth (LambdaExpression a b) = VisitLambdaExpression a b (Visit pr depth a) (Visit pr depth b)"
| "Visit pr depth (SizeofExpression k e) = VisitSizeofExpression k (Visit pr depth e)"
| "Visit pr depth (AlignofExpression e) = VisitAlignofExpression (Visit pr depth e)"
| "Visit pr depth (Array es) = VisitArray (VisitSep pr depth es)"
| "Visit pr depth (CodeBlock xs) = VisitCodeBlock (VisitCode pr depth xs)"
| "Visit pr depth (IfStatement c t f n) = VisitIfStatement c t f n (Visit pr depth c) (VisitOpt pr depth t) (VisitOpt pr depth f)"
| "Visit pr depth (ForLoop a b c d) = VisitForLoop d (VisitOpt pr depth a) (VisitOpt pr depth b) (VisitOpt pr depth c) (VisitOpt pr depth d)"
| "Visit pr depth (WhileLoop c b k) = (let inner = (if k = REPEAT then depth + 1 else depth) in
     VisitWhileLoop depth k c b (Visit pr inner c) (Visit pr inner b))"
| "Visit pr depth (DoLoop b c u) = VisitDoLoop b c u (Visit pr depth b) (Visit pr depth c)"
| "Visit pr depth (CaseStatement e xs) = VisitCaseStatement (Visit pr depth e) (VisitCode pr depth xs)"
| "Visit pr depth (DefaultStatement xs) = VisitDefaultStatement (VisitCode pr depth xs)"
| "Visit pr depth (SwitchStatement e xs d) = VisitSwitchStatement (Visit pr depth e) (VisitCode pr depth xs)"
| "Visit pr depth (ReturnStatement p x) = VisitReturnStatement x (VisitOpt pr depth p)"
| "Visit pr depth (BreakStatement p) = VisitJump ''break'' p (VisitOpt pr depth p)"
| "Visit pr depth (ContinueStatement p) = VisitJump ''continue'' p (VisitOpt pr depth p)"
| "Visit pr depth (WithStatement a b) = VisitWithStatement a b (Visit pr depth a) (Visit pr depth b)"
| "VisitOpt pr depth None = out []"
| "VisitOpt pr depth (Some e) = Visit pr depth e"
| "VisitSep pr depth [] = out []"
| "VisitSep pr depth (e # es) = in_order [Visit pr depth e, (if es = [] then out [] else in_order [out '', '', VisitSep pr depth es])]"
| "VisitArguments pr depth k [] = out []"
| "VisitArguments pr depth k (e # es) = in_order [out (if k = Some 0 then ''(enigma::varargs(),'' else []), Visit pr depth e,
     (if es = [] then out [] else in_order [out '', '',
       VisitArguments pr depth (case k of Some (Suc i) \<Rightarrow> Some i | _ \<Rightarrow> None) es])]"
| "VisitCode pr depth [] = out []"
| "VisitCode pr depth (e # es) = in_order [out ''    '', Visit pr depth e, PrintSemiColon e, out ''\<newline>'', VisitCode pr depth es]"

text \<open>\<open>AST::WriteCppToStream\<close> without an instance to apply the code to.\<close>

definition WriteCppToStream :: "Printer \<Rightarrow> node \<Rightarrow> string" where
  "WriteCppToStream pr tree = fst (Visit pr 0 tree False)"

end
