(* ===== verification/PrinterLaws.thy ===== *)
theory PrinterLaws
  imports Printer ExprLaws
begin

text \<open>
  What the C++ compiler reads from the printed text: literals have their value, the text of an expression
  is made of those of its tokens.
\<close>

section \<open>Literals\<close>

text \<open>How C++ reads the characters of a literal after its opening quote up to the closing one: the value, and the text after the literal.\<close>

definition octal_char :: "char \<Rightarrow> bool" where
  "octal_char c = (CHR ''0'' \<le> c \<and> c \<le> CHR ''7'')"

fun octal_value :: "nat \<Rightarrow> nat \<Rightarrow> string \<Rightarrow> nat \<times> string" where
  "octal_value (Suc k) n (c # s) = (if octal_char c then octal_value k (8 * n + (of_char c - 48)) s else (n, c # s))"
| "octal_value k n s = (n, s)"

lemma octal_value_length: "length (snd (octal_value k n s)) \<le> length s"
  by (induction k n s rule: octal_value.induct) auto

definition simple_escape :: "char \<Rightarrow> char option" where
  "simple_escape = map_of [(CHR 0x5C, CHR 0x5C), (CHR 0x22, CHR 0x22), (CHR 0x27, CHR 0x27), (CHR ''n'', CHR 0x0A), (CHR ''t'', CHR 0x09),
     (CHR ''v'', CHR 0x0B), (CHR ''b'', CHR 0x08), (CHR ''r'', CHR 0x0D), (CHR ''f'', CHR 0x0C), (CHR ''a'', CHR 0x07), (CHR ''?'', CHR ''?'')]"

function cpp_chars :: "char \<Rightarrow> string \<Rightarrow> (string \<times> string) option" where
  "cpp_chars q [] = None"
| "cpp_chars q (c # s) = (
     if c = q then Some ([], s)
     else if c = CHR 0x0A then None
     else if c \<noteq> CHR 0x5C then map_option (apfst (Cons c)) (cpp_chars q s)
     else case s of [] \<Rightarrow> None
       | e # r \<Rightarrow> if octal_char e then let (n, r') = octal_value 3 0 s in map_option (apfst (Cons (char_of n))) (cpp_chars q r')
           else case simple_escape e of None \<Rightarrow> None | Some v \<Rightarrow> map_option (apfst (Cons v)) (cpp_chars q r))"
  by pat_completeness auto
termination
proof (relation "measure (length \<circ> snd)", goal_cases)
  case (3 q c s e r p n r')
  then show ?case using octal_value_length[of 3 0 s] by (metis comp_apply in_measure le_imp_less_Suc length_Cons snd_conv)
qed auto

lemma of_char_bound: "(of_char c :: nat) < 256"
  by (metis of_char_mod_256 mod_less_divisor zero_less_numeral)

lemma octal_digit: "octal_char (octal_digit n)" "(of_char (octal_digit n) :: nat) - 48 = n mod 8"
  by (simp_all add: octal_digit_def octal_char_def less_eq_char_def)

lemma octal_digits: "n < 256 \<Longrightarrow> 8 * (8 * (n div 64 mod 8) + n div 8 mod 8) + n mod 8 = (n :: nat)"
proof -
  assume "n < 256"
  then have "n div 64 mod 8 = n div 8 div 8" by (simp add: div_mult2_eq [symmetric])
  then show ?thesis by (metis mult_div_mod_eq)
qed

lemma escape_octal: "octal_value 3 0 (tl (octal_escape c) @ s) = (of_char c, s)"
proof -
  have "(of_char c :: nat) < 4 * 64" using of_char_bound[of c] by simp
  then have "(of_char c :: nat) div 64 < 4" by (rule less_mult_imp_div_less)
  then have "(of_char c :: nat) div 64 mod 8 = of_char c div 64" by simp
  then have "64 * ((of_char c :: nat) div 64) + 8 * (of_char c div 8 mod 8) + of_char c mod 8 = of_char c"
    using octal_digits[OF of_char_bound, of c] by simp
  then show ?thesis using octal_digits[OF of_char_bound, of c] by (simp add: octal_escape_def Let_def octal_digit numeral_3_eq_3)
qed

lemma cpp_chars_plain: "c \<noteq> q \<Longrightarrow> c \<noteq> CHR 0x0A \<Longrightarrow> c \<noteq> CHR 0x5C \<Longrightarrow> cpp_chars q (c # s) = map_option (apfst (Cons c)) (cpp_chars q s)"
  by simp

lemma cpp_chars_simple:
  assumes "q \<noteq> CHR 0x5C" and "\<not> octal_char e" and "simple_escape e = Some v"
  shows "cpp_chars q (CHR 0x5C # e # s) = map_option (apfst (Cons v)) (cpp_chars q s)"
  using assms by simp

lemma cpp_chars_octal:
  assumes "q \<noteq> CHR 0x5C"
  shows "cpp_chars q (octal_escape c @ s) = map_option (apfst (Cons c)) (cpp_chars q s)"
  using assms escape_octal[of c s] octal_digit(1) by (simp add: octal_escape_def Let_def)

lemma simple_escapes [simp]:
  "simple_escape (CHR 0x5C) = Some (CHR 0x5C)" "simple_escape (CHR 0x22) = Some (CHR 0x22)" "simple_escape (CHR 0x27) = Some (CHR 0x27)"
  "simple_escape (CHR ''n'') = Some (CHR 0x0A)" "simple_escape (CHR ''t'') = Some (CHR 0x09)" "simple_escape (CHR ''v'') = Some (CHR 0x0B)"
  "simple_escape (CHR ''b'') = Some (CHR 0x08)" "simple_escape (CHR ''r'') = Some (CHR 0x0D)" "simple_escape (CHR ''f'') = Some (CHR 0x0C)"
  "simple_escape (CHR ''a'') = Some (CHR 0x07)" "simple_escape (CHR ''?'') = Some (CHR ''?'')"
  by (simp_all add: simple_escape_def)

lemma not_octal [simp]:
  "\<not> octal_char (CHR 0x5C)" "\<not> octal_char (CHR 0x22)" "\<not> octal_char (CHR 0x27)" "\<not> octal_char (CHR ''n'')" "\<not> octal_char (CHR ''t'')"
  "\<not> octal_char (CHR ''v'')" "\<not> octal_char (CHR ''b'')" "\<not> octal_char (CHR ''r'')" "\<not> octal_char (CHR ''f'')" "\<not> octal_char (CHR ''a'')"
  "\<not> octal_char (CHR ''?'')"
  by (simp_all add: octal_char_def less_eq_char_def)

declare cpp_chars.simps(2) [simp del]

lemma escaped_char:
  assumes "q = CHR 0x22 \<or> q = CHR 0x27"
  shows "cpp_chars q (escape_char c @ s) = map_option (apfst (Cons c)) (cpp_chars q s)"
proof -
  have q: "q \<noteq> CHR 0x5C" using assms by auto
  let ?S = "{CHR 0x0A, CHR 0x09, CHR 0x0B, CHR 0x08, CHR 0x0D, CHR 0x0C, CHR 0x07}"
    and ?P = "(of_char c :: nat) \<ge> 0x20 \<and> (of_char c :: nat) \<le> 0x7E"
  consider "c = CHR 0x5C" | "c = CHR 0x22 \<or> c = CHR 0x27" | "c \<noteq> CHR 0x5C" "\<not> (c = CHR 0x22 \<or> c = CHR 0x27)" "?P"
    | "c \<in> ?S" | "c \<noteq> CHR 0x5C" "\<not> (c = CHR 0x22 \<or> c = CHR 0x27)" "\<not> ?P" "c \<notin> ?S"
    by satx
  then show ?thesis
  proof cases
    case 1
    then show ?thesis using q by (simp add: escape_char_def cpp_chars_simple)
  next
    case 2
    then show ?thesis by (elim disjE) (simp_all add: escape_char_def cpp_chars_simple[OF q])
  next
    case 3
    then have "escape_char c = [c]" by (simp add: escape_char_def)
    moreover have "c \<noteq> CHR 0x0A" "c \<noteq> q" using 3 assms by auto
    ultimately show ?thesis using 3(1) by (simp add: cpp_chars_plain)
  next
    case 4
    then have "c = CHR 0x0A \<or> c = CHR 0x09 \<or> c = CHR 0x0B \<or> c = CHR 0x08 \<or> c = CHR 0x0D \<or> c = CHR 0x0C \<or> c = CHR 0x07" by blast
    then show ?thesis by (elim disjE) (simp_all add: escape_char_def cpp_chars_simple[OF q])
  next
    case 5
    have no_mark: "c \<noteq> CHR ''?''" using 5(3) by (rule contrapos_nn) simp
    have "escape_char c = octal_escape c" unfolding escape_char_def using 5(1,2,4) no_mark by (simp only: 5(3) if_False) simp
    then show ?thesis by (simp add: cpp_chars_octal[OF q])
  qed
qed

text \<open>A literal in apostrophes has one character.\<close>

definition cpp_literal :: "char \<Rightarrow> string \<Rightarrow> (string \<times> string) option" where
  "cpp_literal q s = Option.bind (cpp_chars q s) (\<lambda>(v, r). if q = CHR 0x27 \<and> length v \<noteq> 1 then None else Some (v, r))"

text \<open>C17. A printed string literal, and a printed literal in apostrophes that is not empty, is one C++ literal with the value of
  the node: no character of the value ends it, none needs more than its own escape, and what is printed after it is not part of it.\<close>

theorem printed_literal_read:
  assumes "ty = TT_STRINGLIT \<or> ty = TT_CHARLIT \<and> value \<noteq> []"
  shows "\<exists>q body. fst (VisitLiteral ty value print_type) = q # body \<and> cpp_literal q (body @ rest) = Some (value, rest)"
proof -
  let ?q = "quote_of ty value"
  have q: "?q = CHR 0x22 \<or> ?q = CHR 0x27" by (simp add: quote_of_def)
  have "cpp_chars ?q (concat (map escape_char v) @ ?q # rest) = Some (v, rest)" for v
    by (induction v) (simp_all add: escaped_char[OF q] cpp_chars.simps(2))
  moreover have "?q = CHR 0x27 \<Longrightarrow> length value = 1" using assms by (cases "value") (auto simp: quote_of_def split: if_splits)
  ultimately have "cpp_literal ?q (concat (map escape_char value) @ ?q # rest) = Some (value, rest)" by (simp add: cpp_literal_def)
  then show ?thesis using assms by (auto simp: VisitLiteral_def out_def)
qed

lemma printed_literal_read_witness:
  "\<exists>q body. fst (VisitLiteral TT_CHARLIT ''a'' False) = q # body \<and> cpp_literal q (body @ ''b'') = Some (''a'', ''b'')"
  by (rule printed_literal_read) simp

section \<open>The text of a printed expression\<close>

text \<open>A text that is made of the given ones, in order, with only blanks before, between and after them.\<close>

definition spaces_only :: "string \<Rightarrow> bool" where
  "spaces_only s \<longleftrightarrow> set s \<subseteq> {CHR '' ''}"

inductive spaced :: "string list \<Rightarrow> string \<Rightarrow> bool" where
  blanks: "spaces_only b \<Longrightarrow> spaced [] b"
| spaced_text: "spaces_only b \<Longrightarrow> spaced ts s \<Longrightarrow> spaced (t # ts) (b @ t @ s)"

text \<open>How a token is spelled in C++.\<close>

definition cpp_text :: "Token \<Rightarrow> string" where
  "cpp_text t = (if ttype t \<in> literal_types then fst (VisitLiteral (ttype t) (content t) False)
     else if content t = '':='' then ''='' else content t)"




definition prints :: "printed \<Rightarrow> Token list \<Rightarrow> bool" where
  "prints p ts = (\<exists>s. p False = (s, False) \<and> spaced (map cpp_text ts) s)"

lemma spaces_only_simps [simp]: "spaces_only []" "spaces_only (c # s) \<longleftrightarrow> c = CHR '' '' \<and> spaces_only s" "spaces_only (s @ t) \<longleftrightarrow> spaces_only s \<and> spaces_only t"
  by (auto simp: spaces_only_def)

lemma spaced_nil [simp]: "spaced [] s \<longleftrightarrow> spaces_only s"
  by (auto elim: spaced.cases intro: spaced.blanks)



lemma spaced_one: "spaces_only b \<Longrightarrow> spaces_only c \<Longrightarrow> spaced [t] (b @ t @ c)"
  by (simp add: spaced.spaced_text)

text \<open>The separators that the printer writes.\<close>

lemma spaced_texts [simp]:
  "spaced [t] t" "spaced ['',''] '', ''" "spaced [''?''] '' ? ''" "spaced ['':''] '' : ''" "spaced [''[''] '' [ ''"
  "spaced [t] (CHR '' '' # t @ '' '')"
  using spaced_one[of "[]" "[]" t] spaced_one[of "[]" "'' ''" "'',''"] spaced_one[of "'' ''" "'' ''" "''?''"]
    spaced_one[of "'' ''" "'' ''" "'':''"] spaced_one[of "'' ''" "'' ''" "''[''"] spaced_one[of "'' ''" "'' ''" t] by simp_all

lemma prints_out [simp]: "prints (out txt) ts \<longleftrightarrow> spaced (map cpp_text ts) txt"
  by (simp add: prints_def out_def)













end
