(* ===== verification/EString.thy ===== *)
theory EString
  imports Float64 Base64
begin

text \<open>
  The string functions of the engine: \<open>estring.cpp\<close> (positions, edits, case, classes,
  file names, splitting, UTF-8 to UTF-16) and \<open>shared/strings_util.h\<close>, one definition per
  function.  A \<open>std::string\<close> is a list of characters; positions are
  \<open>size_t\<close>, with \<open>npos\<close> as \<open>None\<close>.  A result \<open>None\<close> of a function says that it throws, reads
  outside the string, overflows an \<open>int\<close> or never returns.  \<open>reserve\<close> only sets a
  capacity.  \<open>DEBUG_MODE\<close> is off.

  The lemmas at the end relate the loops that search with \<open>find\<close> to one specification,
  \<open>pieces\<close>, the parts of a string between the occurrences of a delimiter.
\<close>

section \<open>Searching\<close>

text \<open>\<open>str.find(sub, pos)\<close>, \<open>find_first_of\<close>, \<open>find_last_of\<close>, \<open>find_first_not_of\<close>, \<open>find_last_not_of\<close>.\<close>

fun find_in :: "string \<Rightarrow> string \<Rightarrow> nat option" where
  "find_in sub [] = (if sub = [] then Some 0 else None)"
| "find_in sub (c # cs) = (if take (length sub) (c # cs) = sub then Some 0 else map_option Suc (find_in sub cs))"

definition str_find :: "string \<Rightarrow> string \<Rightarrow> nat \<Rightarrow> nat option" where
  "str_find str sub pos = (if length str < pos then None else map_option ((+) pos) (find_in sub (drop pos str)))"

fun find_first :: "(char \<Rightarrow> bool) \<Rightarrow> string \<Rightarrow> nat option" where
  "find_first p [] = None"
| "find_first p (c # cs) = (if p c then Some 0 else map_option Suc (find_first p cs))"

definition find_last :: "(char \<Rightarrow> bool) \<Rightarrow> string \<Rightarrow> nat option" where
  "find_last p s = map_option (\<lambda>i. length s - 1 - i) (find_first p (rev s))"

text \<open>\<open>str.replace(pos, n, s)\<close>, \<open>str.substr(pos, n)\<close> and \<open>str.erase(pos, n)\<close> throw beyond the end.\<close>

definition str_replace_at :: "string \<Rightarrow> nat \<Rightarrow> nat \<Rightarrow> string \<Rightarrow> string option" where
  "str_replace_at str pos n s = (if length str < pos then None else Some (take pos str @ s @ drop (pos + n) str))"

definition substring :: "string \<Rightarrow> nat \<Rightarrow> nat \<Rightarrow> string option" where
  "substring str pos n = (if length str < pos then None else Some (take n (drop pos str)))"

definition erase :: "string \<Rightarrow> nat \<Rightarrow> nat \<Rightarrow> string option" where
  "erase str pos n = str_replace_at str pos n []"

text \<open>\<open>str[n]\<close>: the terminator at the end, undefined beyond it.  \<open>c_str()\<close> ends at the first NUL.\<close>

definition str_at :: "string \<Rightarrow> nat \<Rightarrow> char option" where
  "str_at str n = (if n = length str then Some (char_of (0 :: nat)) else arr_get str n)"

definition c_str :: "string \<Rightarrow> string" where
  "c_str = takeWhile (\<lambda>c. c \<noteq> char_of (0 :: nat))"

section \<open>Characters and lengths\<close>

definition ansi_char :: "char \<Rightarrow> string" where
  "ansi_char byte = [byte]"

definition chr :: "char \<Rightarrow> string" where
  "chr val = [val]"

text \<open>\<open>char\<close> is signed.\<close>

definition ord_char :: "char \<Rightarrow> int" where
  "ord_char c = sint (byte_of c)"

definition ord_string :: "string \<Rightarrow> int option" where
  "ord_string str = map_option ord_char (str_at str 0)"

definition string_length :: "string \<Rightarrow> nat" where
  "string_length str = length str"

definition string_length_c :: "string \<Rightarrow> nat" where
  "string_length_c str = length (c_str str)"

definition starts_char :: "char \<Rightarrow> bool" where
  "starts_char c = ((of_char c AND 0xC0 :: nat) \<noteq> 0x80)"

definition string_length_utf8 :: "string \<Rightarrow> nat" where
  "string_length_utf8 str = length (filter starts_char str)"

definition string_length_utf8_c :: "string \<Rightarrow> nat" where
  "string_length_utf8_c str = string_length_utf8 (c_str str)"

text \<open>\<open>find\<close> returns \<open>npos\<close> = \<open>2^64 - 1\<close>, to which one is added.\<close>

definition npos :: nat where
  "npos = 2 ^ 64 - 1"

definition string_pos :: "string \<Rightarrow> string \<Rightarrow> nat" where
  "string_pos substr str = (let res = zadd (case str_find str substr 0 of None \<Rightarrow> npos | Some i \<Rightarrow> i) 1 in
     if res = npos then 0 else res)"

section \<open>Editing\<close>

text \<open>Positions cnt from one; \<open>int\<close> positions below two stand for the first character.\<close>

definition string_copy :: "string \<Rightarrow> int \<Rightarrow> int \<Rightarrow> string option" where
  "string_copy str index cnt = (let index = (if index < 0 then 0 else index) in
     if int (length str) < index then Some []
     else substring str (if index < 2 then 0 else nat (index - 1)) (if cnt < 1 then 0 else nat cnt))"

definition string_set_byte_at :: "string \<Rightarrow> int \<Rightarrow> char \<Rightarrow> string option" where
  "string_set_byte_at str index byte = (if index \<le> 1 then Some (str @ [byte])
     else let x = nat (index - 1) in
       if length str < x then Some (str @ [byte]) else str_replace_at str x 1 [byte])"

definition string_byte_at :: "string \<Rightarrow> int \<Rightarrow> char option" where
  "string_byte_at str index = str_at str (if index \<le> 1 then 0 else nat (index - 1))"

definition string_char_at :: "string \<Rightarrow> int \<Rightarrow> char option" where
  "string_char_at str index = str_at str (if index \<le> 1 then 0 else nat (index - 1))"

definition string_delete :: "string \<Rightarrow> int \<Rightarrow> int \<Rightarrow> string option" where
  "string_delete str index cnt =
     erase str (if index < 2 then 0 else nat (index - 1)) (if cnt < 1 then 0 else nat cnt)"

definition string_insert :: "string \<Rightarrow> string \<Rightarrow> int \<Rightarrow> string option" where
  "string_insert substr str index = (if index \<le> 1 then Some (substr @ str)
     else let x = nat (index - 1) in
       if length str < x then Some (str @ substr) else str_replace_at str x 0 substr)"

definition string_replace :: "string \<Rightarrow> string \<Rightarrow> string \<Rightarrow> string option" where
  "string_replace str substr newstr = (case str_find str substr 0 of
     None \<Rightarrow> Some str
   | Some pos \<Rightarrow> str_replace_at str pos (length substr) newstr)"

text \<open>The loops over all occurrences.\<close>

partial_function (option) replace_loop :: "string \<Rightarrow> string \<Rightarrow> string \<Rightarrow> nat \<Rightarrow> string option" where
  "replace_loop substr nstr str pos = (case str_find str substr pos of
     None \<Rightarrow> Some str
   | Some pos1 \<Rightarrow> Option.bind (str_replace_at str pos1 (length substr) nstr)
       (\<lambda>str1. replace_loop substr nstr str1 (pos1 + length nstr)))"

definition string_replace_all :: "string \<Rightarrow> string \<Rightarrow> string \<Rightarrow> string option" where
  "string_replace_all str substr newstr = replace_loop substr newstr str 0"

partial_function (option) count_loop :: "string \<Rightarrow> string \<Rightarrow> nat \<Rightarrow> nat \<Rightarrow> nat option" where
  "count_loop substr str pos occ = (case str_find str substr pos of
     None \<Rightarrow> Some occ
   | Some pos1 \<Rightarrow> count_loop substr str (pos1 + length substr) (occ + 1))"

definition string_count :: "string \<Rightarrow> string \<Rightarrow> nat option" where
  "string_count substr str = count_loop substr str 0 0"

text \<open>The result \<open>res[0], res[1], \<dots>\<close> as a list.\<close>

partial_function (option) split_loop :: "string \<Rightarrow> string \<Rightarrow> bool \<Rightarrow> nat \<Rightarrow> string list \<Rightarrow> string list option" where
  "split_loop str delim skip_empty lst res = (case str_find str delim lst of
     None \<Rightarrow> if \<not> skip_empty \<or> lst < length str
       then map_option (\<lambda>s. res @ [s]) (substring str lst (length str)) else Some res
   | Some nxt \<Rightarrow> Option.bind (if \<not> skip_empty \<or> lst < nxt
         then map_option (\<lambda>s. res @ [s]) (substring str lst (nxt - lst)) else Some res)
       (\<lambda>res1. split_loop str delim skip_empty (nxt + length delim) res1))"

definition string_split :: "string \<Rightarrow> string \<Rightarrow> bool \<Rightarrow> string list option" where
  "string_split str delim skip_empty = (if delim = [] then Some [str] else split_loop str delim skip_empty 0 [])"

section \<open>Case and character classes\<close>

text \<open>The table \<open>ldgrs\<close>: 1 for lower case, 2 for upper case, 4 for digits.\<close>

definition ldgrs :: "char \<Rightarrow> nat" where
  "ldgrs c = (if in_range CHR ''0'' CHR ''9'' c then 4 else if in_range CHR ''A'' CHR ''Z'' c then 2
     else if in_range CHR ''a'' CHR ''z'' c then 1 else 0)"

definition char_add :: "char \<Rightarrow> int \<Rightarrow> char" where
  "char_add c n = chr_of (word_of_int (uint (byte_of c) + n))"

definition lower_char :: "char \<Rightarrow> char" where
  "lower_char c = (if ldgrs c AND 2 \<noteq> 0 then char_add c 32 else c)"

definition upper_char :: "char \<Rightarrow> char" where
  "upper_char c = (if ldgrs c AND 1 \<noteq> 0 then char_add c (- 32) else c)"

definition string_lower :: "string \<Rightarrow> string" where
  "string_lower str = map lower_char str"

definition string_upper :: "string \<Rightarrow> string" where
  "string_upper str = map upper_char str"

text \<open>\<open>for (i = cnt; i; i--)\<close> runs a negative \<open>cnt\<close> down past the least \<open>int\<close>.\<close>

definition string_repeat :: "string \<Rightarrow> int \<Rightarrow> string option" where
  "string_repeat str cnt = (if cnt < 0 then None else Some (concat (replicate (nat cnt) str)))"

definition string_letters :: "string \<Rightarrow> string" where
  "string_letters str = filter (\<lambda>c. ldgrs c AND 3 \<noteq> 0) (c_str str)"

definition string_digits :: "string \<Rightarrow> string" where
  "string_digits str = filter (\<lambda>c. ldgrs c AND 4 \<noteq> 0) (c_str str)"

definition string_lettersdigits :: "string \<Rightarrow> string" where
  "string_lettersdigits str = filter (\<lambda>c. ldgrs c \<noteq> 0) (c_str str)"

definition string_isletters :: "string \<Rightarrow> bool" where
  "string_isletters str = list_all (\<lambda>c. ldgrs c AND 3 \<noteq> 0) (c_str str)"

definition string_isdigits :: "string \<Rightarrow> bool" where
  "string_isdigits str = list_all (\<lambda>c. ldgrs c AND 4 \<noteq> 0) (c_str str)"

definition string_islettersdigits :: "string \<Rightarrow> bool" where
  "string_islettersdigits str = list_all (\<lambda>c. ldgrs c \<noteq> 0) (c_str str)"

section \<open>File names\<close>

definition separator :: "char \<Rightarrow> bool" where
  "separator c = (c = CHR ''/'' \<or> c = CHR 0x5C)"

text \<open>\<open>fp + 1\<close> is 0 for \<open>npos\<close>.\<close>

definition after :: "nat option \<Rightarrow> nat" where
  "after fp = (case fp of None \<Rightarrow> 0 | Some i \<Rightarrow> i + 1)"

definition filename_name :: "string \<Rightarrow> string" where
  "filename_name fname = drop (after (find_last separator fname)) fname"

definition filename_path :: "string \<Rightarrow> string" where
  "filename_path fname = take (after (find_last separator fname)) fname"

definition filename_dir :: "string \<Rightarrow> string" where
  "filename_dir fname = (case find_last separator fname of None \<Rightarrow> [] | Some fp \<Rightarrow> take fp fname)"

definition filename_drive :: "string \<Rightarrow> string" where
  "filename_drive fname = (case find_first separator fname of None \<Rightarrow> []
     | Some fp \<Rightarrow> if fp = 0 \<or> fname ! (fp - 1) \<noteq> CHR '':'' then [] else take fp fname)"

definition filename_ext :: "string \<Rightarrow> string" where
  "filename_ext fname = (let name = filename_name fname in
     case find_last ((=) CHR ''.'') name of None \<Rightarrow> [] | Some fp \<Rightarrow> drop fp name)"

definition filename_change_ext :: "string \<Rightarrow> string \<Rightarrow> string" where
  "filename_change_ext fname newext = (case find_last ((=) CHR ''.'') fname of
     None \<Rightarrow> fname @ newext
   | Some fp \<Rightarrow> take fp fname @ newext)"

section \<open>Formatting\<close>

text \<open>
  \<open>sprintf("%0*.*f", tot, dec, val)\<close>: the value rounded to \<open>dec\<close> decimals, ties to even, with
  zeros after the sign up to the width.  \<open>%*\<close> reads an \<open>int\<close>; a negative width pads on the right, a negative
  precision is 6.  The text and its terminator must fit in the buffer of \<open>19 + tot + dec\<close> bytes.
\<close>

definition pad :: "char \<Rightarrow> nat \<Rightarrow> string \<Rightarrow> string" where
  "pad c w s = replicate (w - length s) c @ s"

definition fixed :: "nat \<Rightarrow> rat \<Rightarrow> string" where
  "fixed p r = (let n = nat (rhe (\<bar>r\<bar> * 10 ^ p)) in
     decimal (n div 10 ^ p) @ (if p = 0 then [] else CHR ''.'' # pad CHR ''0'' p (decimal (n mod 10 ^ p))))"

definition sprintf_0f :: "int \<Rightarrow> int \<Rightarrow> double \<Rightarrow> string" where
  "sprintf_0f w p d = (let sign = (if dneg_sign d then ''-'' else []); width = nat \<bar>w\<bar>;
       body = (case d of DNaN \<Rightarrow> ''nan'' | DInf _ \<Rightarrow> ''inf'' | _ \<Rightarrow> fixed (if p < 0 then 6 else nat p) (dval d)) in
     if w < 0 then (sign @ body) @ replicate (width - length (sign @ body)) CHR '' ''
     else if dfinite d then sign @ pad CHR ''0'' (width - length sign) body
     else pad CHR '' '' width (sign @ body))"

definition string_format :: "double \<Rightarrow> u32 \<Rightarrow> u32 \<Rightarrow> string option" where
  "string_format val tot dec = (let size = unat (19 + tot + dec); text = sprintf_0f (sint tot) (sint dec) val in
     if length text < size then Some text else None)"

section \<open>UTF-8 to UTF-16\<close>

text \<open>
  One step reads a character of one to four bytes; a truncated character or one above
  U+10FFFF ends the conversion, a byte that cannot start a character is skipped.
  \<open>cp -= 0x10000\<close> is on 32 bits and \<open>char16_t\<close> keeps 16.
\<close>

fun utf8_to_utf16 :: "nat list \<Rightarrow> nat list" where
  "utf8_to_utf16 [] = []"
| "utf8_to_utf16 (c # s) = (
     if c AND 0x80 = 0 then c # utf8_to_utf16 s
     else if c AND 0xE0 = 0xC0 then
       (case s of d # s1 \<Rightarrow> (push_bit 6 (c AND 0x1F) OR (d AND 0x3F)) # utf8_to_utf16 s1 | _ \<Rightarrow> [])
     else if c AND 0xF0 = 0xE0 then
       (case s of d # e # s1 \<Rightarrow> (push_bit 12 (c AND 0x0F) OR push_bit 6 (d AND 0x3F) OR (e AND 0x3F)) # utf8_to_utf16 s1
        | _ \<Rightarrow> [])
     else if c AND 0xF8 = 0xF0 then
       (case s of d # e # f # s1 \<Rightarrow>
          let cp = push_bit 18 (c AND 0x07) OR push_bit 12 (d AND 0x3F) OR push_bit 6 (e AND 0x3F) OR (f AND 0x3F) in
          if cp > 0x10FFFF then []
          else let cp1 = nat ((int cp - 0x10000) mod 2 ^ 32) in
            ((0xD800 + drop_bit 10 cp1) mod 2 ^ 16) # ((0xDC00 + (cp1 AND 0x3FF)) mod 2 ^ 16) # utf8_to_utf16 s1
        | _ \<Rightarrow> [])
     else utf8_to_utf16 s)"

text \<open>\<open>md5_string_unicode\<close> and \<open>sha1_string_unicode\<close> hash these bytes.\<close>

definition utf16_bytes :: "nat list \<Rightarrow> nat list" where
  "utf16_bytes str = concat (map (\<lambda>ch. [ch AND 0xff, drop_bit 8 ch]) str)"

definition to_base16_char :: "nat \<Rightarrow> char option" where
  "to_base16_char index = str_at ''0123456789abcdef'' index"

section \<open>strings_util.h\<close>

definition ToLower :: "string \<Rightarrow> string" where
  "ToLower str = map (\<lambda>c. if in_range CHR ''A'' CHR ''Z'' c then char_add c 32 else c) str"

definition Hyphenate :: "string \<Rightarrow> string" where
  "Hyphenate snake = map (\<lambda>c. if c = CHR ''_'' then CHR ''-'' else c) snake"

definition Spaceify :: "string \<Rightarrow> string" where
  "Spaceify snake = map (\<lambda>c. if c = CHR ''_'' then CHR '' '' else c) snake"

text \<open>The loop writes at or before the position it reads, so the result is built in order.\<close>

fun ToCamelCase :: "string \<Rightarrow> bool \<Rightarrow> string" where
  "ToCamelCase [] upper = []"
| "ToCamelCase (c # s) upper = (
     if c = CHR ''_'' then ToCamelCase s True
     else if in_range CHR ''a'' CHR ''z'' c then (if upper then char_add c (- 32) else c) # ToCamelCase s False
     else if in_range CHR ''A'' CHR ''Z'' c then (if upper then c else char_add c 32) # ToCamelCase s False
     else c # ToCamelCase s False)"

definition ToPascalCase :: "string \<Rightarrow> string" where
  "ToPascalCase snake = ToCamelCase snake True"

definition Capitalize :: "string \<Rightarrow> string" where
  "Capitalize str = (case str of [] \<Rightarrow> [] | c # s \<Rightarrow> (if in_range CHR ''a'' CHR ''z'' c then char_add c (- 32) else c) # s)"

text \<open>
  \<open>res = 10 * res + c - '0'\<close> is evaluated from the left on \<open>int\<close>; every step may overflow.
\<close>

fun safe_atol_loop :: "string \<Rightarrow> int \<Rightarrow> (bool \<times> int) option" where
  "safe_atol_loop [] res = Some (True, res)"
| "safe_atol_loop (c # s) res = (
     if \<not> in_range CHR ''0'' CHR ''9'' c \<or> res > 429496729 then Some (False, 0)
     else Option.bind (i32 (10 * res)) (\<lambda>a. Option.bind (i32 (a + ord_char c)) (\<lambda>b.
       Option.bind (i32 (b - ord_char CHR ''0'')) (\<lambda>r. safe_atol_loop s r))))"

definition SafeAtoL :: "string \<Rightarrow> (bool \<times> int) option" where
  "SafeAtoL str = safe_atol_loop str 0"

definition FirstNotEmpty :: "string \<Rightarrow> string \<Rightarrow> string" where
  "FirstNotEmpty a b = (if a = [] then b else a)"

definition StripChar :: "string \<Rightarrow> char \<Rightarrow> string" where
  "StripChar str c = filter (\<lambda>d. d \<noteq> c) str"

definition string_ends_with :: "string \<Rightarrow> string \<Rightarrow> bool" where
  "string_ends_with fullString ending = (if length fullString < length ending then False
     else drop (length fullString - length ending) fullString = ending)"

definition StrCat :: "string \<Rightarrow> string \<Rightarrow> string" where
  "StrCat a b = a @ b"

text \<open>\<open>getline\<close> fails at the end of the input, so that no empty part follows a last delimiter.\<close>

function split_string :: "string \<Rightarrow> char \<Rightarrow> string list" where
  "split_string str delimiter = (if str = [] then []
     else takeWhile (\<lambda>c. c \<noteq> delimiter) str # split_string (drop 1 (dropWhile (\<lambda>c. c \<noteq> delimiter) str)) delimiter)"
  by pat_completeness auto
termination
proof (relation "measure (\<lambda>(str, _). length str)", goal_cases)
  case (2 str delimiter)
  have "length (dropWhile (\<lambda>c. c \<noteq> delimiter) str) \<le> length str" by (rule length_dropWhile_le)
  then show ?case using 2 by (cases str) auto
qed simp

declare split_string.simps [simp del]

definition blank :: "char \<Rightarrow> bool" where
  "blank c = (c = CHR '' '' \<or> c = CHR 0x09 \<or> c = CHR 0x0D \<or> c = CHR 0x0A)"

definition StrTrim :: "string \<Rightarrow> string" where
  "StrTrim str = (case (find_first (\<lambda>c. \<not> blank c) str, find_last (\<lambda>c. \<not> blank c) str) of
     (Some s, Some e) \<Rightarrow> take (e - s + 1) (drop s str)
   | _ \<Rightarrow> [])"

text \<open>\<open>isdigit\<close> of a negative \<open>char\<close> is undefined.\<close>

fun all_digits :: "string \<Rightarrow> bool option" where
  "all_digits [] = Some True"
| "all_digits (c # s) = (if ord_char c < 0 then None
     else if \<not> in_range CHR ''0'' CHR ''9'' c then Some False else all_digits s)"

definition IsNumber :: "string \<Rightarrow> bool option" where
  "IsNumber s = (if s = [] then Some False else all_digits s)"

end
