(* ===== verification/EStringLaws.thy ===== *)
theory EStringLaws
  imports EString
begin

text \<open>
  The properties of the string functions.  \<open>pieces\<close> is the specification of the loops that
  search for a delimiter; \<open>utf8\<close> and \<open>utf16\<close> encode a code point as the Unicode
  standard says, \<open>digit_value\<close> is the number a string of digits stands for.
\<close>

section \<open>Splitting at a delimiter\<close>

lemma find_in_SomeD: "find_in d s = Some i \<Longrightarrow> i + length d \<le> length s \<and> take (length d) (drop i s) = d"
proof (induction d s arbitrary: i rule: find_in.induct)
  case (2 d c cs)
  show ?case
  proof (cases "take (length d) (c # cs) = d")
    case True
    then have "length d \<le> length (c # cs)" by (metis length_take min.cobounded1)
    then show ?thesis using 2 True by simp
  next
    case False
    then show ?thesis using 2 by auto
  qed
qed (simp split: if_splits)

lemma find_in_least: "find_in d s = Some i \<Longrightarrow> j < i \<Longrightarrow> take (length d) (drop j s) \<noteq> d"
proof (induction d s arbitrary: i j rule: find_in.induct)
  case (2 d c cs)
  then show ?case by (cases j) (auto split: if_splits)
qed (simp split: if_splits)

lemma find_in_NoneD: "find_in d s = None \<Longrightarrow> take (length d) (drop j s) \<noteq> d"
proof (induction d s arbitrary: j rule: find_in.induct)
  case (2 d c cs)
  then show ?case by (cases j) (auto split: if_splits)
qed (simp split: if_splits)

lemma find_in_NoneI: "(\<And>j. take (length d) (drop j s) \<noteq> d) \<Longrightarrow> find_in d s = None"
  by (metis find_in_SomeD not_None_eq)

lemma find_in_prefix: "d \<noteq> [] \<Longrightarrow> find_in d s = Some i \<Longrightarrow> find_in d (take i s) = None"
proof (rule find_in_NoneI)
  fix j assume d: "d \<noteq> []" and i: "find_in d s = Some i"
  show "take (length d) (drop j (take i s)) \<noteq> d"
  proof
    assume eq: "take (length d) (drop j (take i s)) = d"
    from eq have "length (take (length d) (drop j (take i s))) = length d" by (rule arg_cong)
    then have "length d \<le> i - j" by (simp add: min_def split: if_splits)
    moreover from d have "0 < length d" by simp
    ultimately have "j < i" by linarith
    moreover have "take (length d) (drop j (take i s)) = take (length d) (drop j s)"
      using \<open>length d \<le> i - j\<close> by (simp add: drop_take min_absorb1)
    ultimately show False using find_in_least[OF i, of j] eq by metis
  qed
qed

lemma find_in_Nil [simp]: "find_in [] s = Some 0"
  by (cases s) simp_all

function pieces :: "string \<Rightarrow> string \<Rightarrow> string list" where
  "pieces d s = (if d = [] then [s] else case find_in d s of None \<Rightarrow> [s]
     | Some i \<Rightarrow> take i s # pieces d (drop (i + length d) s))"
  by pat_completeness auto
termination
proof (relation "measure (\<lambda>(d, s). length s)", goal_cases)
  case (2 d s i)
  then have "0 < length d" "i + length d \<le> length s" using find_in_SomeD[of d s i] by simp_all
  then have "length s - (i + length d) < length s" by linarith
  then show ?case by simp
qed simp

declare pieces.simps [simp del]

lemma pieces_not_Nil [simp]: "pieces d s \<noteq> []"
  by (subst pieces.simps) (simp split: option.split)

fun join :: "string \<Rightarrow> string list \<Rightarrow> string" where
  "join d [] = []"
| "join d [p] = p"
| "join d (p # q # ps) = p @ d @ join d (q # ps)"

lemma join_Cons: "ps \<noteq> [] \<Longrightarrow> join d (p # ps) = p @ d @ join d ps"
  by (cases ps) simp_all

lemma pieces_found: "d \<noteq> [] \<Longrightarrow> find_in d s = Some i \<Longrightarrow> pieces d s = take i s # pieces d (drop (i + length d) s)"
  by (subst pieces.simps) simp

lemma pieces_none: "find_in d s = None \<Longrightarrow> pieces d s = [s]"
  by (subst pieces.simps) simp

text \<open>Every loop below follows the recursion of \<open>pieces\<close>.\<close>

lemma pieces_induct [consumes 1, case_names last more]:
  assumes "d \<noteq> []" and "\<And>s. find_in d s = None \<Longrightarrow> P s"
    and "\<And>s i. find_in d s = Some i \<Longrightarrow> i + length d \<le> length s \<Longrightarrow> s = take i s @ d @ drop (i + length d) s \<Longrightarrow>
      P (drop (i + length d) s) \<Longrightarrow> P s"
  shows "P s"
proof (induction s rule: length_induct)
  case (1 s)
  show ?case
  proof (cases "find_in d s")
    case (Some i)
    note found = find_in_SomeD[OF Some]
    have "s = take i s @ take (length d) (drop i s) @ drop (length d) (drop i s)" by (simp only: append_take_drop_id)
    then have "s = take i s @ d @ drop (i + length d) s" using found by (simp add: add.commute)
    moreover have "length (drop (i + length d) s) < length s"
      unfolding length_drop using found assms(1) by (metis diff_less length_greater_0_conv trans_le_add2 less_le_trans add_gr_0)
    then have "P (drop (i + length d) s)" using 1 by blast
    ultimately show ?thesis using assms(3) Some found by simp
  qed (rule assms(2))
qed

lemma join_pieces:
  assumes "d \<noteq> []"
  shows "join d (pieces d s) = s"
  using assms
proof (induction s rule: pieces_induct)
  case (more s i)
  then show ?case using assms by (simp add: pieces_found join_Cons)
qed (simp add: pieces_none)

lemma pieces_free:
  assumes "d \<noteq> []"
  shows "\<forall>p \<in> set (pieces d s). find_in d p = None"
  using assms
proof (induction s rule: pieces_induct)
  case (more s i)
  then show ?case using assms by (simp add: pieces_found find_in_prefix)
qed (simp add: pieces_none)

lemma str_find_after [simp]: "str_find (pre @ s) d (length pre) = map_option ((+) (length pre)) (find_in d s)"
  by (simp add: str_find_def)

lemma replace_at_after [simp]:
  "i \<le> length s \<Longrightarrow> str_replace_at (pre @ s) (length pre + i) n t = Some ((pre @ take i s @ t) @ drop (i + n) s)"
  by (simp add: str_replace_at_def ac_simps)

lemma substring_after [simp]: "substring (pre @ s) (length pre) n = Some (take n s)"
  by (simp add: substring_def)

lemma replace_loop_pieces:
  assumes "d \<noteq> []"
  shows "replace_loop d n (pre @ s) (length pre) = Some (pre @ join n (pieces d s))"
  using assms
proof (induction s arbitrary: pre rule: pieces_induct)
  case (last s)
  then show ?case by (subst replace_loop.simps) (simp add: pieces_none)
next
  case (more s i)
  have "replace_loop d n (pre @ s) (length pre) =
    replace_loop d n ((pre @ take i s @ n) @ drop (i + length d) s) (length (pre @ take i s @ n))"
    using more(1,2) by (subst replace_loop.simps) (simp add: add.assoc)
  then show ?case using more assms by (simp only: more.IH) (simp add: pieces_found join_Cons)
qed

lemma count_loop_pieces:
  assumes "d \<noteq> []"
  shows "count_loop d (pre @ s) (length pre) occ = Some (occ + (length (pieces d s) - 1))"
  using assms
proof (induction s arbitrary: pre occ rule: pieces_induct)
  case (last s)
  then show ?case by (subst count_loop.simps) (simp add: pieces_none)
next
  case (more s i)
  have s: "pre @ s = (pre @ take i s @ d) @ drop (i + length d) s" using arg_cong[OF more(3), of "(@) pre"] unfolding append_assoc .
  have "count_loop d (pre @ s) (length pre) occ = count_loop d (pre @ s) (length (pre @ take i s @ d)) (occ + 1)"
    using more(1,2) by (subst count_loop.simps) (simp add: add.assoc)
  also have "\<dots> = Some (occ + 1 + (length (pieces d (drop (i + length d) s)) - 1))"
    unfolding s by (rule more.IH)
  finally show ?case using more(1) assms
    by (cases "pieces d (drop (i + length d) s)") (simp_all add: pieces_found)
qed

definition kept :: "bool \<Rightarrow> string list \<Rightarrow> string list" where
  "kept skip_empty ps = (if skip_empty then filter (\<lambda>p. p \<noteq> []) ps else ps)"

lemma split_loop_pieces:
  assumes "d \<noteq> []"
  shows "split_loop (pre @ s) d skip (length pre) res = Some (res @ kept skip (pieces d s))"
  using assms
proof (induction s arbitrary: pre res rule: pieces_induct)
  case (last s)
  then show ?case by (subst split_loop.simps) (auto simp: pieces_none kept_def)
next
  case (more s i)
  have s: "pre @ s = (pre @ take i s @ d) @ drop (i + length d) s" using arg_cong[OF more(3), of "(@) pre"] unfolding append_assoc .
  have "split_loop (pre @ s) d skip (length pre) res =
    split_loop (pre @ s) d skip (length (pre @ take i s @ d)) (res @ kept skip [take i s])"
    using more(1,2) by (subst split_loop.simps) (auto simp: kept_def add.assoc)
  also have "\<dots> = Some ((res @ kept skip [take i s]) @ kept skip (pieces d (drop (i + length d) s)))"
    unfolding s by (rule more.IH)
  finally show ?case using more(1) assms by (simp add: pieces_found kept_def)
qed

lemma string_split_pieces: "d \<noteq> [] \<Longrightarrow> string_split s d skip = Some (kept skip (pieces d s))"
  using split_loop_pieces[of d "[]"] by (simp add: string_split_def)

text \<open>With an empty search string the loops do not end.\<close>

lemma count_loop_empty: "pos \<le> length s \<Longrightarrow> count_loop [] s pos occ = None"
proof -
  have "\<not> pos \<le> length s" if "count_loop [] s pos occ = Some r" for r
  proof -
    have "substr = [] \<longrightarrow> \<not> pos \<le> length s" if "count_loop substr s pos occ = Some r" for substr
    proof (rule count_loop.raw_induct[OF _ that], goal_cases)
      case (1 f substr str pos occ y)
      then show ?case by (auto simp: str_find_def)
    qed
    then show ?thesis using that by blast
  qed
  then show "pos \<le> length s \<Longrightarrow> ?thesis" by (cases "count_loop [] s pos occ") auto
qed

lemma replace_loop_empty: "pos \<le> length s \<Longrightarrow> replace_loop [] n s pos = None"
proof -
  have "\<not> pos \<le> length s" if "replace_loop [] n s pos = Some r" for r
  proof -
    have "substr = [] \<longrightarrow> \<not> pos \<le> length s" if "replace_loop substr n s pos = Some r" for substr
    proof (rule replace_loop.raw_induct[OF _ that], goal_cases)
      case (1 f substr nstr str pos y)
      from 1(2) show ?case by (auto simp: str_find_def str_replace_at_def dest!: 1(1))
    qed
    then show ?thesis using that by blast
  qed
  then show "pos \<le> length s \<Longrightarrow> ?thesis" by (cases "replace_loop [] n s pos") auto
qed

text \<open>
  C27. Splitting a string at a delimiter that is not empty returns, its parts do not contain the
  delimiter, and the delimiter between them gives back the string; leaving out empty parts is
  filtering them.
\<close>

theorem string_split_join:
  assumes "d \<noteq> []"
  shows "\<exists>ps. string_split s d False = Some ps \<and> join d ps = s \<and> (\<forall>p \<in> set ps. str_find p d 0 = None) \<and>
    string_split s d True = Some (filter (\<lambda>p. p \<noteq> []) ps)"
  using assms join_pieces[OF assms] pieces_free[OF assms]
  by (auto simp: string_split_pieces kept_def str_find_def)

theorem string_split_join_witness:
  "\<exists>ps. string_split ''a,b,,c'' '','' False = Some ps \<and> join '','' ps = ''a,b,,c'' \<and>
    list_all (\<lambda>p. str_find p '','' 0 = None) ps \<and> string_split ''a,b,,c'' '','' True = Some (filter (\<lambda>p. p \<noteq> []) ps)"
  using string_split_join[of "'',''" "''a,b,,c''"] unfolding list_all_iff by simp

text \<open>
  Replacing all occurrences of a string that is not empty is splitting at it and joining with
  the replacement, and counting them is counting the parts; for the empty string neither returns.
\<close>

theorem replace_all_and_count:
  "string_replace_all s d n = (if d = [] then None else map_option (join n) (string_split s d False)) \<and>
   string_count d s = (if d = [] then None else map_option (\<lambda>ps. length ps - 1) (string_split s d False))"
  using replace_loop_pieces[of d n "[]" s] count_loop_pieces[of d "[]" s 0] replace_loop_empty[of 0 s n] count_loop_empty[of 0 s 0]
  by (auto simp: string_replace_all_def string_count_def string_split_pieces kept_def)

section \<open>Editing\<close>

text \<open>Deleting at a position what was inserted there gives back the string.\<close>

theorem string_insert_delete:
  assumes "1 \<le> index" "index \<le> int (length str) + 1"
  shows "Option.bind (string_insert t str index) (\<lambda>r. string_delete r index (int (length t))) = Some str"
proof (cases "index = 1")
  case False
  then have "nat (index - 1) \<le> length str" "\<not> index \<le> 1" "\<not> index < 2" using assms by simp_all
  then show ?thesis
    by (simp add: string_insert_def string_delete_def erase_def str_replace_at_def Let_def not_less)
qed (simp add: string_insert_def string_delete_def erase_def str_replace_at_def)

theorem string_insert_delete_witness:
  "Option.bind (string_insert ''xy'' ''abc'' 3) (\<lambda>r. string_delete r 3 2) = Some ''abc''"
  using string_insert_delete[of 3 "''abc''" "''xy''"] by simp

text \<open>Position 1 is the first character everywhere but in \<open>string_set_byte_at\<close>, which appends there.\<close>

theorem set_first_byte_appends:
  "string_set_byte_at (c # s) 1 b = Some (c # s @ [b])" "string_byte_at (c # s) 1 = Some c"
  by (simp_all add: string_set_byte_at_def string_byte_at_def str_at_def)

section \<open>Case\<close>

lemma of_char_char_add:
  assumes "0 \<le> int (of_char c) + k" "int (of_char c) + k < 256"
  shows "of_char (char_add c k) = nat (int (of_char c) + k)"
proof -
  have "unat (byte_of c) = of_char c"
    by (simp add: byte_of_def unat_of_nat take_bit_nat_eq_self)
  then have "uint (byte_of c) = int (of_char c)" by (metis uint_nat)
  moreover have "uint (word_of_int (int (of_char c) + k) :: u8) = int (of_char c) + k"
    using assms by (subst uint_word_of_int_eq) (simp add: take_bit_int_eq_self)
  then have "unat (word_of_int (int (of_char c) + k) :: u8) = nat (int (of_char c) + k)"
    by (simp only: unat_eq_nat_uint)
  ultimately have "unat (word_of_int (uint (byte_of c) + k) :: u8) = nat (int (of_char c) + k)" by simp
  moreover have "nat (int (of_char c) + k) < 256" using assms by simp
  ultimately show ?thesis by (simp add: char_add_def chr_of_def)
qed

lemma ldgrs_iff:
  "ldgrs c AND 2 \<noteq> 0 \<longleftrightarrow> 65 \<le> (of_char c :: nat) \<and> (of_char c :: nat) \<le> 90"
  "ldgrs c AND 1 \<noteq> 0 \<longleftrightarrow> 97 \<le> (of_char c :: nat) \<and> (of_char c :: nat) \<le> 122"
  "in_range CHR ''A'' CHR ''Z'' c \<longleftrightarrow> 65 \<le> (of_char c :: nat) \<and> (of_char c :: nat) \<le> 90"
  by (simp_all add: ldgrs_def in_range_def)

lemma of_char_lower:
  "(of_char (lower_char c) :: nat) = (if 65 \<le> (of_char c :: nat) \<and> (of_char c :: nat) \<le> 90 then of_char c + 32 else of_char c)"
  using of_char_char_add[of c 32] unfolding lower_char_def ldgrs_iff by (simp add: nat_add_distrib)

lemma of_char_upper:
  "(of_char (upper_char c) :: nat) = (if 97 \<le> (of_char c :: nat) \<and> (of_char c :: nat) \<le> 122 then of_char c - 32 else of_char c)"
  using of_char_char_add[of c "- 32"] unfolding upper_char_def ldgrs_iff by (simp add: nat_diff_distrib)

lemma char_eqI: "of_char c = (of_char d :: nat) \<Longrightarrow> c = d"
  by (metis char_of_char)

lemma lower_char_idem: "lower_char (lower_char c) = lower_char c"
  by (rule char_eqI) (simp add: of_char_lower)

lemma lower_upper_char: "lower_char (upper_char c) = lower_char c"
  by (rule char_eqI) (auto simp: of_char_lower of_char_upper)

lemma string_lower_idem: "string_lower (string_lower s) = string_lower s"
  by (simp add: string_lower_def lower_char_idem)

lemma string_lower_upper: "string_lower (string_upper s) = string_lower s"
  by (simp add: string_lower_def string_upper_def lower_upper_char)

lemma ToLower_eq: "ToLower s = string_lower s"
  by (simp only: ToLower_def string_lower_def lower_char_def[abs_def] ldgrs_iff)

section \<open>File names\<close>

lemma find_first_Some: "find_first p s = Some i \<Longrightarrow> i < length s \<and> p (s ! i) \<and> (\<forall>j < i. \<not> p (s ! j))"
proof (induction s arbitrary: i)
  case (Cons c s)
  then show ?case by (auto simp: less_Suc_eq_0_disj split: if_splits)
qed simp

lemma find_first_None: "find_first p s = None \<longleftrightarrow> (\<forall>c \<in> set s. \<not> p c)"
  by (induction s) auto

lemma find_last_None: "find_last p s = None \<longleftrightarrow> (\<forall>c \<in> set s. \<not> p c)"
  by (simp add: find_last_def find_first_None)

lemma find_last_Some: "find_last p s = Some i \<Longrightarrow> i < length s \<and> p (s ! i) \<and> (\<forall>c \<in> set (drop (Suc i) s). \<not> p c)"
proof -
  assume "find_last p s = Some i"
  then obtain j where j: "find_first p (rev s) = Some j" "i = length s - 1 - j" by (auto simp: find_last_def)
  note f = find_first_Some[OF j(1)]
  have "\<not> p (drop (Suc i) s ! k)" if "k < length (drop (Suc i) s)" for k
  proof -
    have "length s - Suc (Suc i + k) < j" "length s - Suc (length s - Suc (Suc i + k)) = Suc i + k" using that f j(2) by auto
    moreover have "rev s ! (length s - Suc (Suc i + k)) = s ! (Suc i + k)" using that calculation by (subst rev_nth) auto
    ultimately show ?thesis using f that by fastforce
  qed
  then have "\<forall>c \<in> set (drop (Suc i) s). \<not> p c" by (metis in_set_conv_nth)
  moreover have "rev s ! j = s ! i" using f j(2) by (simp add: rev_nth)
  ultimately show ?thesis using f j(2) by auto
qed

lemma find_last_append: "find_last p s = Some i \<Longrightarrow> find_last p (t @ s) = Some (length t + i)"
proof -
  assume i: "find_last p s = Some i"
  have "find_first p (u @ v) = Some j" if "find_first p u = Some j" for u v j
    using that by (induction u arbitrary: j) (auto split: if_splits)
  moreover obtain z where z: "find_first p (rev s) = Some z" "i = length s - 1 - z"
    using i by (auto simp: find_last_def)
  ultimately have "find_first p (rev s @ rev t) = Some z" by simp
  then show ?thesis using z find_first_Some[OF z(1)] by (auto simp: find_last_def)
qed

text \<open>
  A file name is its path followed by its name, the name has no separator and ends with the
  extension; changing the extension of a name to the one it has changes nothing.
\<close>

theorem filename_parts:
  "filename_path f @ filename_name f = f" "\<forall>c \<in> set (filename_name f). \<not> separator c"
  "\<exists>stem. filename_name f = stem @ filename_ext f"
  "filename_ext f = [] \<or> filename_change_ext f (filename_ext f) = f"
proof -
  show f: "filename_path f @ filename_name f = f" by (simp add: filename_path_def filename_name_def)
  show "\<forall>c \<in> set (filename_name f). \<not> separator c"
    using find_last_None[of separator f] find_last_Some[of separator f]
    by (auto simp: filename_name_def after_def split: option.split)
  show "\<exists>stem. filename_name f = stem @ filename_ext f"
  proof (cases "find_last ((=) CHR ''.'') (filename_name f)")
    case (Some i)
    then show ?thesis by (intro exI[of _ "take i (filename_name f)"]) (simp add: filename_ext_def)
  qed (simp add: filename_ext_def)
  show "filename_ext f = [] \<or> filename_change_ext f (filename_ext f) = f"
  proof (cases "find_last ((=) CHR ''.'') (filename_name f)")
    case (Some i)
    then have "find_last ((=) CHR ''.'') f = Some (length (filename_path f) + i)"
      using find_last_append[OF Some, of "filename_path f"] f by simp
    then have "filename_change_ext f (filename_ext f) =
      take (length (filename_path f) + i) (filename_path f @ filename_name f) @ filename_ext f"
      using f by (simp add: filename_change_ext_def)
    also have "\<dots> = filename_path f @ take i (filename_name f) @ drop i (filename_name f)"
      using Some by (simp add: filename_ext_def)
    also have "\<dots> = f" using f by simp
    finally show ?thesis ..
  qed (simp add: filename_ext_def)
qed

section \<open>Unicode\<close>

definition utf8 :: "nat \<Rightarrow> nat list" where
  "utf8 cp = (if cp < 0x80 then [cp]
     else if cp < 0x800 then [0xC0 + cp div 64, 0x80 + cp mod 64]
     else if cp < 0x10000 then [0xE0 + cp div 4096, 0x80 + cp div 64 mod 64, 0x80 + cp mod 64]
     else [0xF0 + cp div 262144, 0x80 + cp div 4096 mod 64, 0x80 + cp div 64 mod 64, 0x80 + cp mod 64])"

definition utf16 :: "nat \<Rightarrow> nat list" where
  "utf16 cp = (if cp < 0x10000 then [cp] else [0xD800 + (cp - 0x10000) div 1024, 0xDC00 + (cp - 0x10000) mod 1024])"

lemma and_high: "n AND (m * 2 ^ k) = (n div 2 ^ k AND m) * (2 ^ k :: nat)"
proof -
  have "n AND push_bit k m = push_bit k (drop_bit k n AND m)"
    by (rule bit_eqI) (auto simp: bit_and_iff bit_push_bit_iff bit_drop_bit_eq)
  then show ?thesis by (simp add: push_bit_eq_mult drop_bit_eq_div)
qed

lemma masks_and_shifts:
  "n AND 7 = n mod (8 :: nat)" "n AND 1023 = n mod (1024 :: nat)"
  "b < 64 \<Longrightarrow> push_bit 6 a OR b = a * 64 + (b :: nat)" "b < 4096 \<Longrightarrow> push_bit 12 a OR b = a * 4096 + b"
  "b < 262144 \<Longrightarrow> push_bit 18 a OR b = a * 262144 + b"
proof -
  have m: "n AND (2 ^ k - 1) = n mod (2 ^ k :: nat)" for k
    by (simp only: take_bit_eq_mod[symmetric] take_bit_eq_mask mask_eq_exp_minus_1)
  show "n AND 7 = n mod (8 :: nat)" "n AND 1023 = n mod (1024 :: nat)" using m[of 3] m[of 10] by simp_all
qed (use nat_or_shift[of b 6 a] nat_or_shift[of b 12 a] nat_or_shift[of b 18 a] in simp_all)

lemma div_block: "0 < k \<Longrightarrow> (c div k * k = m * k) = (m * k \<le> c \<and> c < m * k + (k :: nat))"
proof -
  assume k: "0 < k"
  have "c div k * k + c mod k = c" "c mod k < k" using k by simp_all
  moreover have "c div k = m" if "m * k \<le> c" "c < m * k + k"
    using that by (intro div_nat_eqI) (simp_all add: mult.commute)
  ultimately show ?thesis by (metis le_add1 nat_add_left_cancel_less)
qed

lemma lead_byte:
  assumes "c < (256 :: nat)"
  shows "(c AND 0x80 = 0) = (c < 0x80)" "(c AND 0xE0 = 0xC0) = (0xC0 \<le> c \<and> c < 0xE0)"
    "(c AND 0xF0 = 0xE0) = (0xE0 \<le> c \<and> c < 0xF0)" "(c AND 0xF8 = 0xF0) = (0xF0 \<le> c \<and> c < 0xF8)"
    "(c AND 0xC0 = 0x80) = (0x80 \<le> c \<and> c < 0xC0)"
proof -
  have d: "c div 128 < 2" "c div 32 < 8" "c div 16 < 16" "c div 8 < 32" "c div 64 < 4"
    using assms by (simp_all add: div_less_iff_less_mult)
  have "c AND 0x80 = c div 128 * 128" "c AND 0xE0 = c div 32 * 32" "c AND 0xF0 = c div 16 * 16"
    "c AND 0xF8 = c div 8 * 8" "c AND 0xC0 = c div 64 * 64"
    using d and_high[of c 1 7] and_high[of c 7 5] and_high[of c 15 4] and_high[of c 31 3] and_high[of c 3 6]
    by (simp_all add: nat_and_masks masks_and_shifts(1))
  moreover have "(c div 128 * 128 = 0) = (c < 0x80)" "(c div 32 * 32 = 0xC0) = (0xC0 \<le> c \<and> c < 0xE0)"
    "(c div 16 * 16 = 0xE0) = (0xE0 \<le> c \<and> c < 0xF0)" "(c div 8 * 8 = 0xF0) = (0xF0 \<le> c \<and> c < 0xF8)"
    "(c div 64 * 64 = 0x80) = (0x80 \<le> c \<and> c < 0xC0)"
    using div_block[of 128 c 0] div_block[of 32 c 6] div_block[of 16 c 14] div_block[of 8 c 30] div_block[of 64 c 2]
    by simp_all
  ultimately show "(c AND 0x80 = 0) = (c < 0x80)" "(c AND 0xE0 = 0xC0) = (0xC0 \<le> c \<and> c < 0xE0)"
    "(c AND 0xF0 = 0xE0) = (0xE0 \<le> c \<and> c < 0xF0)" "(c AND 0xF8 = 0xF0) = (0xF0 \<le> c \<and> c < 0xF8)"
    "(c AND 0xC0 = 0x80) = (0x80 \<le> c \<and> c < 0xC0)"
    by simp_all
qed

lemma low_bits: "(0x80 + a) mod 64 = (a mod 64 :: nat)" "(0xC0 + a) mod 32 = (a mod 32 :: nat)"
  "(0xE0 + a) mod 16 = (a mod 16 :: nat)" "(0xF0 + a) mod 8 = (a mod 8 :: nat)"
  using mod_mult_self2[of a 64 2] mod_mult_self2[of a 32 6] mod_mult_self2[of a 16 14] mod_mult_self2[of a 8 30]
  by (simp_all add: add.commute)

lemmas decode_byte = lead_byte nat_and_masks masks_and_shifts low_bits

lemma decode1: "c < 0x80 \<Longrightarrow> utf8_to_utf16 (c # s) = c # utf8_to_utf16 s"
  by (simp add: lead_byte(1))

lemma decode2: "q < 32 \<Longrightarrow> a < 64 \<Longrightarrow> utf8_to_utf16 ((0xC0 + q) # (0x80 + a) # s) = (q * 64 + a) # utf8_to_utf16 s"
  by (simp add: decode_byte)

lemma decode3:
  "q < 16 \<Longrightarrow> a < 64 \<Longrightarrow> b < 64 \<Longrightarrow>
    utf8_to_utf16 ((0xE0 + q) # (0x80 + a) # (0x80 + b) # s) = (q * 4096 + (a * 64 + b)) # utf8_to_utf16 s"
  by (simp add: decode_byte)

lemma decode4:
  assumes "q < 8" "a < 64" "b < 64" "c < 64" and n: "n = q * 262144 + (a * 4096 + (b * 64 + c))" "0x10000 \<le> n" "n < 0x110000"
  shows "utf8_to_utf16 ((0xF0 + q) # (0x80 + a) # (0x80 + b) # (0x80 + c) # s) =
    (0xD800 + (n - 0x10000) div 1024) # (0xDC00 + (n - 0x10000) mod 1024) # utf8_to_utf16 s"
proof -
  have "nat ((int n - 0x10000) mod 2 ^ 32) = n - 0x10000" using n(2,3) by (simp add: nat_diff_distrib)
  moreover have "(n - 0x10000) div 1024 < 1024" using n(3) by (simp add: div_less_iff_less_mult)
  ultimately show ?thesis using assms(1-4) n(3)
    by (simp add: decode_byte Let_def drop_bit_eq_div n(1)[symmetric])
qed

lemma in_base64: "n = n div 64 * 64 + n mod 64" "n = n div 4096 * 4096 + ((n div 64 mod 64) * 64 + n mod 64)"
  "n = n div 262144 * 262144 + ((n div 4096 mod 64) * 4096 + ((n div 64 mod 64) * 64 + n mod (64 :: nat)))"
proof -
  have d: "n div 4096 = n div 64 div 64" "n div 262144 = n div 64 div 64 div 64" by (simp_all add: div_mult2_eq[symmetric])
  have s: "m = m div 64 * 64 + m mod 64" for m :: nat by simp
  show "n = n div 64 * 64 + n mod 64" by (rule s)
  show "n = n div 4096 * 4096 + ((n div 64 mod 64) * 64 + n mod 64)"
    using s[of n] s[of "n div 64"] unfolding d by linarith
  show "n = n div 262144 * 262144 + ((n div 4096 mod 64) * 4096 + ((n div 64 mod 64) * 64 + n mod 64))"
    using s[of n] s[of "n div 64"] s[of "n div 64 div 64"] unfolding d by linarith
qed

lemma utf8_to_utf16_step:
  assumes "cp < 0x110000"
  shows "utf8_to_utf16 (utf8 cp @ s) = utf16 cp @ utf8_to_utf16 s"
proof -
  consider "cp < 0x80" | "0x80 \<le> cp" "cp < 0x800" | "0x800 \<le> cp" "cp < 0x10000" | "0x10000 \<le> cp" by linarith
  then show ?thesis
  proof cases
    case 1
    then show ?thesis using decode1 by (simp add: utf8_def utf16_def del: utf8_to_utf16.simps)
  next
    case 2
    then have "cp div 64 < 32" by (simp add: div_less_iff_less_mult)
    then show ?thesis using 2 decode2[of "cp div 64" "cp mod 64" s] in_base64(1)[of cp]
      by (simp add: utf8_def utf16_def del: utf8_to_utf16.simps)
  next
    case 3
    then have "cp div 4096 < 16" by (simp add: div_less_iff_less_mult)
    then show ?thesis using 3 decode3[of "cp div 4096" "cp div 64 mod 64" "cp mod 64" s] in_base64(2)[of cp]
      by (simp add: utf8_def utf16_def del: utf8_to_utf16.simps)
  next
    case 4
    then have "cp div 262144 < 8" using assms by (simp add: div_less_iff_less_mult)
    then show ?thesis using 4 assms
        decode4[of "cp div 262144" "cp div 4096 mod 64" "cp div 64 mod 64" "cp mod 64" cp s, OF _ _ _ _ in_base64(3)]
      by (simp add: utf8_def utf16_def del: utf8_to_utf16.simps)
  qed
qed

text \<open>C28. The conversion takes the UTF-8 code of a text to its UTF-16 code.\<close>

theorem utf8_to_utf16_encodes:
  assumes "\<forall>cp \<in> set cps. cp < 0x110000"
  shows "utf8_to_utf16 (concat (map utf8 cps)) = concat (map utf16 cps)"
  using assms by (induction cps) (simp_all add: utf8_to_utf16_step)

theorem utf8_to_utf16_encodes_witness:
  "utf8_to_utf16 (concat (map utf8 [0x41, 0xE9, 0x20AC, 0x1F600])) = [0x41, 0xE9, 0x20AC, 0xD83D, 0xDE00]"
  using utf8_to_utf16_encodes[of "[0x41, 0xE9, 0x20AC, 0x1F600]"] by (simp add: utf16_def)

lemma utf8_bytes: "cp < 0x110000 \<Longrightarrow> c \<in> set (utf8 cp) \<Longrightarrow> c < 256"
  using div_le_dividend[of cp 262144]
  by (auto simp: utf8_def div_less_iff_less_mult less_Suc_eq_le split: if_splits)

section \<open>Numbers\<close>

definition digit_value :: "int \<Rightarrow> string \<Rightarrow> int" where
  "digit_value = foldl (\<lambda>a c. 10 * a + (int (of_char c) - 48))"

definition all_digit :: "string \<Rightarrow> bool" where
  "all_digit s = (\<forall>c \<in> set s. 48 \<le> (of_char c :: nat) \<and> (of_char c :: nat) \<le> 57)"

lemma digit_range: "in_range CHR ''0'' CHR ''9'' c \<longleftrightarrow> 48 \<le> (of_char c :: nat) \<and> (of_char c :: nat) \<le> 57"
  by (simp add: in_range_def)

lemma ord_char_small: "(of_char c :: nat) < 128 \<Longrightarrow> ord_char c = int (of_char c)"
proof -
  assume c: "(of_char c :: nat) < 128"
  have "unat (byte_of c) = of_char c"
    by (simp add: byte_of_def unat_of_nat take_bit_nat_eq_self)
  then have "uint (byte_of c) = int (of_char c)" by (metis uint_nat)
  then show ?thesis using c by (simp add: ord_char_def sint_uint signed_take_bit_int_eq_self)
qed

lemma digit_value_ge: "0 \<le> res \<Longrightarrow> all_digit s \<Longrightarrow> res \<le> digit_value res s"
proof (induction s arbitrary: res)
  case (Cons c s)
  then have "0 \<le> 10 * res + (int (of_char c) - 48)" "res \<le> 10 * res + (int (of_char c) - 48)" by (auto simp: all_digit_def)
  then show ?case using Cons.IH[of "10 * res + (int (of_char c) - 48)"] Cons.prems
    by (auto simp: digit_value_def all_digit_def)
qed (simp add: digit_value_def)

lemma safe_atol_step:
  assumes "48 \<le> (of_char c :: nat)" "(of_char c :: nat) \<le> 57" "0 \<le> res" "res \<le> 429496729"
  shows "safe_atol_loop (c # s) res = (if 10 * res + int (of_char c) \<le> 2147483647
    then safe_atol_loop s (10 * res + (int (of_char c) - 48)) else None)"
proof -
  have "ord_char CHR ''0'' = 48" by (subst ord_char_small) simp_all
  moreover have "ord_char c = int (of_char c)" using assms by (intro ord_char_small) simp
  ultimately show ?thesis using assms by (auto simp: digit_range i32_def algebra_simps)
qed

lemma safe_atol_in_range:
  "0 \<le> res \<Longrightarrow> all_digit s \<Longrightarrow> digit_value res s \<le> 2147483599 \<Longrightarrow> safe_atol_loop s res = Some (True, digit_value res s)"
proof (induction s arbitrary: res)
  case (Cons c s)
  let ?r = "10 * res + (int (of_char c) - 48)"
  have c: "48 \<le> (of_char c :: nat)" "(of_char c :: nat) \<le> 57" "all_digit s" "digit_value res (c # s) = digit_value ?r s"
    using Cons.prems by (auto simp: all_digit_def digit_value_def)
  then have r: "0 \<le> ?r" "?r \<le> 2147483599" using Cons.prems digit_value_ge[of ?r s] by auto
  then have "safe_atol_loop (c # s) res = safe_atol_loop s ?r" using c Cons.prems by (subst safe_atol_step) auto
  then show ?case using Cons.IH[OF r(1) c(3)] Cons.prems(3) c(4) by simp
qed (simp add: digit_value_def)

lemma safe_atol_overflow:
  "0 \<le> res \<Longrightarrow> res \<le> 2147483599 \<Longrightarrow> all_digit s \<Longrightarrow> 2147483599 < digit_value res s \<Longrightarrow> digit_value res s \<le> 4294967299 \<Longrightarrow>
    safe_atol_loop s res = None"
proof (induction s arbitrary: res)
  case (Cons c s)
  let ?r = "10 * res + (int (of_char c) - 48)"
  have c: "48 \<le> (of_char c :: nat)" "(of_char c :: nat) \<le> 57" "all_digit s" "digit_value res (c # s) = digit_value ?r s"
    using Cons.prems by (auto simp: all_digit_def digit_value_def)
  then have r: "0 \<le> ?r" "?r \<le> 4294967299" using Cons.prems digit_value_ge[of ?r s] by auto
  then have "safe_atol_loop (c # s) res = (if 10 * res + int (of_char c) \<le> 2147483647 then safe_atol_loop s ?r else None)"
    using c Cons.prems by (intro safe_atol_step) auto
  then show ?case using Cons.IH[OF r(1) _ c(3)] Cons.prems(4,5) c(4) by auto
qed (simp add: digit_value_def)

text \<open>
  A string of digits is read as its value up to 2147483599; from there to 4294967299, which
  includes the last 48 values of \<open>int\<close>, the sum overflows.
\<close>

theorem SafeAtoL_digits:
  assumes "all_digit s" "digit_value 0 s \<le> 4294967299"
  shows "SafeAtoL s = (if digit_value 0 s \<le> 2147483599 then Some (True, digit_value 0 s) else None)"
  using safe_atol_in_range[of 0 s] safe_atol_overflow[of 0 s] assms by (auto simp: SafeAtoL_def)

theorem SafeAtoL_digits_witness:
  "SafeAtoL ''2147483599'' = Some (True, 2147483599) \<and> SafeAtoL ''2147483600'' = None"
  using SafeAtoL_digits[of "''2147483599''"] SafeAtoL_digits[of "''2147483600''"]
  by (simp add: all_digit_def digit_value_def)

section \<open>The buffer of string_format\<close>

definition int_digits :: "nat \<Rightarrow> double \<Rightarrow> nat" where
  "int_digits p d = length (decimal (nat (rhe (\<bar>dval d\<bar> * 10 ^ p)) div 10 ^ p))"

lemma pad_length: "length (pad c w s) = max w (length s)"
  by (simp add: pad_def)

lemma fixed_length: "length (fixed p (dval d)) = int_digits p d + (if p = 0 then 0 else Suc p)"
proof -
  have "length (pad CHR ''0'' p (decimal (n mod 10 ^ p))) = p" if "0 < p" for n
  proof -
    have "n mod 10 ^ p < 10 ^ p" by simp
    then show ?thesis using decimal_length[of "n mod 10 ^ p" "p - 1"] that by (simp add: pad_length)
  qed
  then show ?thesis by (simp add: fixed_def int_digits_def Let_def)
qed

lemma sprintf_length:
  assumes "dfinite d"
  shows "length (sprintf_0f (int w) (int p) d) =
    max w ((if dneg_sign d then 1 else 0) + int_digits p d + (if p = 0 then 0 else Suc p))"
proof -
  have "Suc (max (w - Suc 0) k) = max w (Suc k)" for k by arith
  moreover have "(case d of DNaN \<Rightarrow> ''nan'' | DInf _ \<Rightarrow> ''inf'' | _ \<Rightarrow> fixed (if int p < 0 then 6 else nat (int p)) (dval d)) = fixed p (dval d)"
    using assms by (cases d) simp_all
  ultimately show ?thesis using assms unfolding sprintf_0f_def Let_def by (simp add: pad_length fixed_length)
qed

text \<open>
  The text of a finite number overruns the buffer of \<open>string_format\<close> exactly when its sign, its
  integer digits and the point are more than \<open>18 + tot\<close> characters.
\<close>

theorem string_format_overflow_iff:
  assumes "dfinite val" "19 + unat tot + unat dec < 2 ^ 31"
  shows "string_format val tot dec = None \<longleftrightarrow>
    18 + unat tot < (if dneg_sign val then 1 else 0) + int_digits (unat dec) val + (if dec = 0 then 0 else 1)"
proof -
  have s: "sint tot = int (unat tot)" "sint dec = int (unat dec)"
    using assms(2) by (simp_all add: sint_small uint_nat del: of_nat_unat)
  have "unat (19 + tot + dec) = 19 + unat tot + unat dec"
    using assms(2) by (simp add: unat_word_ariths)
  moreover have "dec = 0 \<longleftrightarrow> unat dec = 0" by (simp add: unat_eq_0)
  ultimately show ?thesis
    unfolding string_format_def s sprintf_length[OF assms(1)] Let_def by auto
qed

theorem string_format_overflow_iff_witness: "string_format (DFin (10 ^ 20)) 0 2 = None"
  using string_format_overflow_iff[of "DFin (10 ^ 20)" 0 2] decimal_length[of "10 ^ 20" 19]
  by (simp add: int_digits_def rhe_def)

end
