(* ===== verification/Instances.thy ===== *)
theory Instances
  imports Prelude "HOL-Library.AList"
begin

text \<open>
  The instance system of the engine
  (\<open>Universal_System/Instances/instance_system.cpp\<close>, \<open>instance.cpp\<close>, and the parts of every
  object that the compiler writes, \<open>write_object_data.cpp\<close> and \<open>write_defragged_events.cpp\<close>):
  the linked lists of instances of the events, the objects and the whole game, the
  iterators that survive removals, deactivation and destruction.

  An address stands for an \<open>inst_iter\<close>; the nodes are in \<open>heap\<close>, a null pointer is
  \<open>None\<close>, and \<open>new\<close> takes an address not used before.  An instance is a number.  The
  result \<open>None\<close> of an operation says that it follows a null or a dangling pointer or leaves the
  array of objects.
\<close>

section \<open>State\<close>

record inst_iter =
  inst :: "nat option"
  nxt :: "nat option"
  prv :: "nat option"

text \<open>
  What an instance records of itself: its id, the object it is an instance of, and for each class
  from the root of the hierarchy down the object's index, the node in the list of that object, and the nodes in the lists
  of the events (\<open>ENOBJ_ITER_myobj\<close>, \<open>ENOBJ_ITER_myevent\<close>).
\<close>

record object_basic =
  id_of :: int
  object_index :: int
  levels :: "(nat \<times> nat \<times> (nat \<times> nat) list) list"

text \<open>\<open>objectid_base\<close> is a node and a counter.  \<open>cache\<close> holds every live \<open>iterator\<close> with its \<open>it\<close>.\<close>

record world =
  heap :: "nat \<Rightarrow> inst_iter option"
  brk :: nat
  cache :: "(nat \<times> nat option) list"
  objects :: "(nat \<times> nat) list"
  instance_list :: "(int \<times> nat) list"
  deactivated :: "(int \<times> nat) list"
  cleanups :: "nat list"
  instance_count :: int
  instance_id :: "int list"
  instances :: "nat \<Rightarrow> object_basic option"
  event_it :: "nat option"
  instance_other :: "nat option"
  global_instance :: nat
  global_it :: nat
  maxid :: int
  room_switching_id :: int
  room_switching_restartgame :: bool

section \<open>Pointers\<close>

definition set_next :: "nat \<Rightarrow> nat option \<Rightarrow> world \<Rightarrow> world option" where
  "set_next a p w = map_option (\<lambda>n. w\<lparr>heap := (heap w)(a \<mapsto> n\<lparr>nxt := p\<rparr>)\<rparr>) (heap w a)"

definition set_prev :: "nat \<Rightarrow> nat option \<Rightarrow> world \<Rightarrow> world option" where
  "set_prev a p w = map_option (\<lambda>n. w\<lparr>heap := (heap w)(a \<mapsto> n\<lparr>prv := p\<rparr>)\<rparr>) (heap w a)"

definition new_inst_iter :: "nat option \<Rightarrow> nat option \<Rightarrow> nat option \<Rightarrow> world \<Rightarrow> nat \<times> world" where
  "new_inst_iter i n p w = (brk w, w\<lparr>heap := (heap w)(brk w \<mapsto> \<lparr>inst = i, nxt = n, prv = p\<rparr>), brk := brk w + 1\<rparr>)"

text \<open>The constructor of \<open>event_iter\<close> and of \<open>objectid_base\<close>: \<open>prev\<close> is the node itself.\<close>

definition new_list :: "world \<Rightarrow> nat \<times> world" where
  "new_list w = new_inst_iter None None (Some (brk w)) w"

section \<open>Iterators\<close>

definition handle_unlink :: "nat option \<Rightarrow> nat \<Rightarrow> world \<Rightarrow> world option" where
  "handle_unlink it dead w = (case it of None \<Rightarrow> Some w
    | Some x \<Rightarrow> Option.bind (heap w x) (\<lambda>n.
        if nxt n = Some dead then Option.bind (heap w dead) (\<lambda>d. set_next x (nxt d) w)
        else if prv n = Some dead then Option.bind (heap w dead) (\<lambda>d. set_prev x (prv d) w)
        else Some w))"

definition update_iterators_for_destroy :: "nat \<Rightarrow> world \<Rightarrow> world option" where
  "update_iterators_for_destroy dd w = for_each (map snd (cache w)) (\<lambda>it. handle_unlink it dd) w"

text \<open>An \<open>iterator\<close> is made with a name that no live one has, and erased by its destructor.\<close>

definition new_iterator :: "nat option \<Rightarrow> world \<Rightarrow> nat \<times> world" where
  "new_iterator it w = (let k = Suc (fold max (map fst (cache w)) 0) in (k, w\<lparr>cache := (k, it) # cache w\<rparr>))"

definition delete_iterator :: "nat \<Rightarrow> world \<Rightarrow> world" where
  "delete_iterator k w = w\<lparr>cache := filter (\<lambda>(k', _). k' \<noteq> k) (cache w)\<rparr>"

definition iterator_at :: "nat \<Rightarrow> world \<Rightarrow> nat option option" where
  "iterator_at k w = map_of (cache w) k"

text \<open>\<open>operator++\<close>.\<close>

definition iterator_incr :: "nat \<Rightarrow> world \<Rightarrow> world option" where
  "iterator_incr k w = (case iterator_at k w of Some (Some x) \<Rightarrow>
      map_option (\<lambda>n. w\<lparr>cache := AList.update k (nxt n) (cache w)\<rparr>) (heap w x)
    | _ \<Rightarrow> None)"

section \<open>Lists\<close>

text \<open>\<open>event_iter::add_inst\<close> and \<open>objectid_base::add_inst\<close> are the same code.\<close>

definition add_inst :: "nat \<Rightarrow> nat \<Rightarrow> world \<Rightarrow> (nat \<times> world) option" where
  "add_inst e ninst w = Option.bind (heap w e) (\<lambda>n.
     let (a, w1) = new_inst_iter (Some ninst) None (prv n) w in
     Option.bind (set_next (case prv n of Some p \<Rightarrow> p | None \<Rightarrow> e) (Some a) w1) (\<lambda>w2.
     map_option (\<lambda>w3. (a, w3)) (set_prev e (Some a) w2)))"

text \<open>The two lines that every unlinking function starts with.\<close>

definition bypass :: "nat \<Rightarrow> world \<Rightarrow> world option" where
  "bypass which w = Option.bind (heap w which) (\<lambda>n.
     Option.bind (case prv n of None \<Rightarrow> Some w | Some p \<Rightarrow> set_next p (nxt n) w) (\<lambda>w1.
     Option.bind (heap w1 which) (\<lambda>n1. case nxt n1 of None \<Rightarrow> Some w1 | Some q \<Rightarrow> set_prev q (prv n1) w1)))"

text \<open>\<open>if (prev == which) prev = which->prev;\<close>\<close>

definition retract_prev :: "nat \<Rightarrow> nat \<Rightarrow> world \<Rightarrow> world option" where
  "retract_prev e which w = Option.bind (heap w e) (\<lambda>m. if prv m = Some which
     then Option.bind (heap w which) (\<lambda>n. set_prev e (prv n) w) else Some w)"

definition event_unlink :: "nat \<Rightarrow> nat \<Rightarrow> world \<Rightarrow> world option" where
  "event_unlink e which w = Option.bind (bypass which w) (\<lambda>w1.
     Option.bind (retract_prev e which w1) (\<lambda>w2.
     Option.bind (heap w2 e) (\<lambda>m.
     Option.bind (if nxt m = Some which then set_next e None w2 else Some w2) (\<lambda>w3.
     update_iterators_for_destroy which w3))))"

definition unlink_object_id_iter :: "nat \<Rightarrow> nat \<Rightarrow> world \<Rightarrow> world option" where
  "unlink_object_id_iter which oid w = Option.bind (bypass which w) (\<lambda>w1.
     Option.bind (arr_get (objects w1) oid) (\<lambda>(a, n).
     Option.bind (retract_prev a which w1) (\<lambda>w2.
     update_iterators_for_destroy which (w2\<lparr>objects := (objects w2)[oid := (a, zsub n 1)]\<rparr>))))"

definition link_obj_instance :: "nat \<Rightarrow> nat \<Rightarrow> world \<Rightarrow> (nat \<times> world) option" where
  "link_obj_instance who oid w = Option.bind (arr_get (objects w) oid) (\<lambda>(a, n).
     add_inst a who (w\<lparr>objects := (objects w)[oid := (a, zadd n 1)]\<rparr>))"

section \<open>The list of all instances\<close>

text \<open>\<open>std::map\<close> with \<open>int\<close> keys: the pairs in the order of the keys.\<close>

fun map_insert :: "int \<Rightarrow> 'a \<Rightarrow> (int \<times> 'a) list \<Rightarrow> (int \<times> 'a) list" where
  "map_insert k v [] = [(k, v)]"
| "map_insert k v ((k', v') # m) = (if k < k' then (k, v) # (k', v') # m else if k = k' then (k', v') # m
     else (k', v') # map_insert k v m)"

definition map_erase :: "int \<Rightarrow> (int \<times> 'a) list \<Rightarrow> (int \<times> 'a) list" where
  "map_erase k m = filter (\<lambda>(k', _). k' \<noteq> k) m"

text \<open>The neighbours of a key: the last entry below it and the first above it.\<close>

definition entry_before :: "int \<Rightarrow> (int \<times> 'a) list \<Rightarrow> 'a option" where
  "entry_before k m = (let b = takeWhile (\<lambda>(k', _). k' < k) m in if b = [] then None else Some (snd (last b)))"

definition entry_after :: "int \<Rightarrow> (int \<times> 'a) list \<Rightarrow> 'a option" where
  "entry_after k m = (case dropWhile (\<lambda>(k', _). k' \<le> k) m of [] \<Rightarrow> None | (_, v) # _ \<Rightarrow> Some v)"

text \<open>
  \<open>link_instance\<close>: with an id in use the new node is deleted and the entry of the other instance is
  returned, otherwise the node is linked between its neighbours.
\<close>

definition link_instance :: "nat \<Rightarrow> world \<Rightarrow> world option" where
  "link_instance who w = Option.bind (instances w who) (\<lambda>ob.
     let k = id_of ob; (ins, w1) = new_inst_iter (Some who) None None w;
         w2 = w1\<lparr>instance_id := instance_id w1 @ [k]\<rparr> in
     if map_of (instance_list w2) k \<noteq> None then Some (w2\<lparr>heap := (heap w2)(ins := None)\<rparr>)
     else let w3 = w2\<lparr>instance_list := map_insert k ins (instance_list w2)\<rparr> in
       Option.bind (case entry_before k (instance_list w3) of
           Some ib \<Rightarrow> Option.bind (set_prev ins (Some ib) w3) (set_next ib (Some ins))
         | None \<Rightarrow> set_prev ins None w3) (\<lambda>w4.
       case entry_after k (instance_list w4) of
           Some ia \<Rightarrow> Option.bind (set_next ins (Some ia) w4) (set_prev ia (Some ins))
         | None \<Rightarrow> set_next ins None w4))"

text \<open>The parameter is the key of the entry that the iterator of the map points to.\<close>

definition unlink_main :: "int \<Rightarrow> world \<Rightarrow> world option" where
  "unlink_main k w = Option.bind (map_of (instance_list w) k) (\<lambda>a. Option.bind (bypass a w) (\<lambda>w1.
     update_iterators_for_destroy a (w1\<lparr>instance_list := map_erase k (instance_list w1)\<rparr>)))"

section \<open>Looking up instances\<close>

text \<open>The enumeration of \<open>object.h\<close>.\<close>

definition self :: int where "self = -1"
definition other :: int where "other = -2"
definition all_instances :: int where "all_instances = -3"
definition noone :: int where "noone = -4"
definition global :: int where "global = -5"
definition local :: int where "local = -7"

text \<open>\<open>p->inst\<close> and \<open>p->next\<close> for a pointer that may be null.\<close>

definition inst_of :: "nat option \<Rightarrow> world \<Rightarrow> nat option option" where
  "inst_of p w = Option.bind p (\<lambda>a. map_option inst (heap w a))"

definition next_of :: "nat option \<Rightarrow> world \<Rightarrow> nat option option" where
  "next_of p w = Option.bind p (\<lambda>a. map_option nxt (heap w a))"

definition instance_list_first :: "world \<Rightarrow> nat option" where
  "instance_list_first w = (case instance_list w of [] \<Rightarrow> None | (_, a) # _ \<Rightarrow> Some a)"

text \<open>An \<open>iterator\<close> made from an \<open>object_basic*\<close> points to a node of its own.\<close>

definition temp_iter :: "nat option \<Rightarrow> world \<Rightarrow> nat \<times> world" where
  "temp_iter ob w = new_inst_iter ob None None w"

definition fetch_instance_by_int :: "int \<Rightarrow> world \<Rightarrow> nat option option" where
  "fetch_instance_by_int x w = (if x < 0 then
      if x = self \<or> x = local then (if event_it w = None then Some None else inst_of (event_it w) w)
      else if x = other then Some (instance_other w)
      else if x = all_instances then (if instance_list_first w = None then Some None else inst_of (instance_list_first w) w)
      else if x = global then Some (Some (global_instance w))
      else Some None
    else if x < 100000 then
      if nat x < length (objects w) then Option.bind (heap w (fst (objects w ! nat x))) (\<lambda>n.
        if nxt n = None then Some None else inst_of (nxt n) w) else Some None
    else case map_of (instance_list w) x of None \<Rightarrow> Some None | Some a \<Rightarrow> inst_of (Some a) w)"

text \<open>
  The \<open>it\<close> of the iterator that is returned.  A null \<open>object_basic*\<close> that is passed to the
  constructor still gives an iterator with a node.
\<close>

definition fetch_inst_iter_by_int :: "int \<Rightarrow> world \<Rightarrow> (nat option \<times> world) option" where
  "fetch_inst_iter_by_int x w = (if x < 0 then
      if x = self \<or> x = local then map_option (\<lambda>ob. let (a, w1) = temp_iter ob w in (Some a, w1)) (inst_of (event_it w) w)
      else if x = other then Some (if instance_other w = None then (None, w)
        else let (a, w1) = temp_iter (instance_other w) w in (Some a, w1))
      else if x = all_instances then Some (instance_list_first w, w)
      else if x = global then Some (Some (global_it w), w)
      else Some (None, w)
    else if x < 100000 then
      Option.bind (arr_get (objects w) (nat x)) (\<lambda>(a, _). map_option (\<lambda>n. (nxt n, w)) (heap w a))
    else case map_of (instance_list w) x of None \<Rightarrow> Some (None, w)
      | Some a \<Rightarrow> map_option (\<lambda>ob. let (t, w1) = temp_iter ob w in (Some t, w1)) (inst_of (Some a) w))"

definition instance_exists :: "int \<Rightarrow> world \<Rightarrow> bool option" where
  "instance_exists obj w = map_option (\<lambda>p. p \<noteq> None) (fetch_instance_by_int obj w)"

text \<open>\<open>(bool) iterator\<close> tells whether \<open>it\<close> is null.\<close>

definition instance_number :: "int \<Rightarrow> world \<Rightarrow> int option" where
  "instance_number obj w = (if obj = self \<or> obj = other then
      map_option (\<lambda>(it, _). if it \<noteq> None then 1 else 0) (fetch_inst_iter_by_int obj w)
    else if obj = all_instances then Some (int (length (instance_list w)))
    else if obj < 0 then Some 0
    else map_option (\<lambda>(_, n). int n) (arr_get (objects w) (nat obj)))"

definition instance_last :: "int \<Rightarrow> world \<Rightarrow> int option" where
  "instance_last obj w = (if obj < 0 then None else Option.bind (arr_get (objects w) (nat obj)) (\<lambda>(a, n).
     if n > 0 then Option.bind (heap w a) (\<lambda>h. Option.bind (inst_of (prv h) w) (\<lambda>i.
       Option.bind i (\<lambda>i. map_option id_of (instances w i)))) else Some noone))"

section \<open>Activation and destruction\<close>

text \<open>
  What the compiler writes for a class, level after level from the root: unlinking from and
  linking to the list of the object and the lists of the events.  The graphics depth of an instance is left out.
\<close>

definition deactivate_level :: "(nat \<times> nat \<times> (nat \<times> nat) list) \<Rightarrow> world \<Rightarrow> world option" where
  "deactivate_level = (\<lambda>(oid, a, evs) w. Option.bind (unlink_object_id_iter a oid w) (for_each evs (\<lambda>(e, b). event_unlink e b)))"

definition deactivate :: "nat \<Rightarrow> world \<Rightarrow> world option" where
  "deactivate i w = Option.bind (instances w i) (\<lambda>ob.
     Option.bind (unlink_main (id_of ob) w) (for_each (levels ob) deactivate_level))"

fun add_events :: "nat \<Rightarrow> nat list \<Rightarrow> world \<Rightarrow> ((nat \<times> nat) list \<times> world) option" where
  "add_events i [] w = Some ([], w)"
| "add_events i (e # es) w = Option.bind (add_inst e i w) (\<lambda>(a, w1).
     map_option (\<lambda>(evs, w2). ((e, a) # evs, w2)) (add_events i es w1))"

fun activate_levels :: "nat \<Rightarrow> (nat \<times> nat \<times> (nat \<times> nat) list) list \<Rightarrow> world \<Rightarrow>
    ((nat \<times> nat \<times> (nat \<times> nat) list) list \<times> world) option" where
  "activate_levels i [] w = Some ([], w)"
| "activate_levels i ((oid, _, evs) # ls) w = Option.bind (link_obj_instance i oid w) (\<lambda>(a, w1).
     Option.bind (add_events i (map fst evs) w1) (\<lambda>(evs', w2).
     map_option (\<lambda>(ls', w3). ((oid, a, evs') # ls', w3)) (activate_levels i ls w2)))"

definition activate :: "nat \<Rightarrow> world \<Rightarrow> world option" where
  "activate i w = Option.bind (instances w i) (\<lambda>ob. Option.bind (link_instance i w) (\<lambda>w1.
     map_option (\<lambda>(ls, w2). w2\<lparr>instances := (instances w2)(i \<mapsto> ob\<lparr>levels := ls\<rparr>)\<rparr>) (activate_levels i (levels ob) w1)))"

definition instance_iter_queue_for_destroy :: "nat \<Rightarrow> world \<Rightarrow> world" where
  "instance_iter_queue_for_destroy i w = w\<lparr>cleanups := List.insert i (cleanups w), instance_count := instance_count w - 1\<rparr>"

definition unlink :: "nat \<Rightarrow> world \<Rightarrow> world option" where
  "unlink i w = Option.bind (instances w i) (\<lambda>ob. let w1 = instance_iter_queue_for_destroy i w in
     if map_of (deactivated w1) (id_of ob) = None then deactivate i w1
     else Some (w1\<lparr>deactivated := map_erase (id_of ob) (deactivated w1)\<rparr>))"

text \<open>The destructor of an instance deletes its nodes but the one of the list of all instances.\<close>

definition delete_instance :: "nat \<Rightarrow> world \<Rightarrow> world option" where
  "delete_instance i w = map_option (\<lambda>ob. w\<lparr>instances := (instances w)(i := None),
     heap := (\<lambda>a. if a \<in> set (concat (map (\<lambda>(_, b, evs). b # map snd evs) (levels ob))) then None else heap w a)\<rparr>) (instances w i)"

definition dispose_destroyed_instances :: "world \<Rightarrow> world option" where
  "dispose_destroyed_instances w = map_option (\<lambda>w1. w1\<lparr>cleanups := []\<rparr>) (for_each (cleanups w) delete_instance w)"

text \<open>The loop \<open>for (iterator it = \<dots>; it; ++it)\<close> with a body that is given the instance.\<close>

partial_function (option) iterator_loop :: "nat \<Rightarrow> (nat \<Rightarrow> world \<Rightarrow> world option) \<Rightarrow> world \<Rightarrow> world option" where
  "iterator_loop k body w = Option.bind (iterator_at k w) (\<lambda>it. if it = None then Some w
     else Option.bind (inst_of it w) (\<lambda>i. Option.bind i (\<lambda>i. Option.bind (body i w) (\<lambda>w1.
       Option.bind (iterator_incr k w1) (iterator_loop k body)))))"

definition for_iterator :: "nat option \<times> world \<Rightarrow> (nat \<Rightarrow> world \<Rightarrow> world option) \<Rightarrow> world option" where
  "for_iterator start body = (let (k, w1) = new_iterator (fst start) (snd start) in
     map_option (delete_iterator k) (iterator_loop k body w1))"

text \<open>\<open>myevent_destroy\<close> is the parameter \<open>ev\<close>.\<close>

definition destroy_one :: "(nat \<Rightarrow> world \<Rightarrow> world option) \<Rightarrow> bool \<Rightarrow> nat \<Rightarrow> world \<Rightarrow> world option" where
  "destroy_one ev dest_ev who w = (if who \<in> set (cleanups w) then Some w
     else Option.bind (if dest_ev then ev who w else Some w)
       (\<lambda>w1. if who \<in> set (cleanups w1) then Some w1 else unlink who w1))"

definition instance_destroy_id :: "(nat \<Rightarrow> world \<Rightarrow> world option) \<Rightarrow> int \<Rightarrow> bool \<Rightarrow> world \<Rightarrow> world option" where
  "instance_destroy_id ev x dest_ev w = Option.bind (fetch_inst_iter_by_int x w) (\<lambda>start.
     for_iterator start (destroy_one ev dest_ev))"

definition instance_destroy :: "(nat \<Rightarrow> world \<Rightarrow> world option) \<Rightarrow> world \<Rightarrow> world option" where
  "instance_destroy ev w = Option.bind (inst_of (event_it w) w) (\<lambda>a. Option.bind a (\<lambda>a.
     if a \<in> set (cleanups w) then Some w
     else Option.bind (ev a w) (\<lambda>w1. if a \<in> set (cleanups w1) then Some w1
       else Option.bind (inst_of (event_it w1) w1) (\<lambda>b. Option.bind b (\<lambda>b. unlink b w1)))))"

definition deactivate_one :: "nat \<Rightarrow> world \<Rightarrow> world option" where
  "deactivate_one i w = Option.bind (deactivate i w) (\<lambda>w1.
     map_option (\<lambda>ob. w1\<lparr>deactivated := map_insert (id_of ob) i (deactivated w1)\<rparr>) (instances w1 i))"

definition instance_deactivate_all :: "bool \<Rightarrow> world \<Rightarrow> world option" where
  "instance_deactivate_all notme w = for_iterator (instance_list_first w, w) (\<lambda>i w1.
     Option.bind (instances w1 i) (\<lambda>ob. Option.bind (if notme then Option.bind (inst_of (event_it w1) w1)
         (\<lambda>m. Option.bind m (\<lambda>m. map_option (\<lambda>me. id_of ob = id_of me) (instances w1 m))) else Some False) (\<lambda>skip.
       if skip then Some w1 else deactivate_one i w1)))"

definition instance_deactivate_object :: "int \<Rightarrow> world \<Rightarrow> world option" where
  "instance_deactivate_object obj w = Option.bind (fetch_inst_iter_by_int obj w) (\<lambda>start. for_iterator start deactivate_one)"

definition activate_entry :: "(int \<times> nat) \<Rightarrow> world \<Rightarrow> world option" where
  "activate_entry = (\<lambda>(k, i) w. map_option (\<lambda>w1. w1\<lparr>deactivated := map_erase k (deactivated w1)\<rparr>) (activate i w))"

definition instance_activate_all :: "world \<Rightarrow> world option" where
  "instance_activate_all w = for_each (deactivated w) activate_entry w"

text \<open>\<open>can_cast\<close> tells whether the object is an ancestor; the ancestors are the levels.\<close>

definition instance_activate_object :: "int \<Rightarrow> world \<Rightarrow> world option" where
  "instance_activate_object obj w = for_each (deactivated w) (\<lambda>(k, i) w1. Option.bind (instances w1 i) (\<lambda>ob.
     if obj = all_instances \<or> (if obj < 100000 then object_index ob = obj \<or> obj \<in> set (map (int \<circ> fst) (levels ob)) else id_of ob = obj)
     then activate_entry (k, i) w1 else Some w1)) w"

section \<open>Creation\<close>

text \<open>
  The generated constructor of an object; \<open>classes\<close> gives its levels with the events of each, without nodes.
  The creation event is the parameter \<open>ev\<close>.
\<close>

definition construct :: "(int \<Rightarrow> (nat \<times> nat list) list option) \<Rightarrow> int \<Rightarrow> int \<Rightarrow> nat \<Rightarrow> world \<Rightarrow> world option" where
  "construct classes obj idn i w = Option.bind (classes obj) (\<lambda>cls.
     activate i (w\<lparr>instances := (instances w)(i \<mapsto> \<lparr>id_of = idn, object_index = obj,
       levels = map (\<lambda>(oid, es). (oid, 0, map (\<lambda>e. (e, 0)) es)) cls\<rparr>),
       instance_count := instance_count w + 1\<rparr>))"

definition instance_create :: "(int \<Rightarrow> (nat \<times> nat list) list option) \<Rightarrow> (nat \<Rightarrow> world \<Rightarrow> world option) \<Rightarrow>
    int \<Rightarrow> nat \<Rightarrow> world \<Rightarrow> (int \<times> world) option" where
  "instance_create classes ev obj i w = (let idn = maxid w; w1 = w\<lparr>maxid := maxid w + 1\<rparr> in
     if classes obj = None then Some (-1, w1)
     else map_option (\<lambda>w3. (idn, w3)) (Option.bind (construct classes obj idn i w1) (ev i)))"

definition instance_create_id :: "(int \<Rightarrow> (nat \<times> nat list) list option) \<Rightarrow> int \<Rightarrow> int \<Rightarrow> nat \<Rightarrow> world \<Rightarrow> world option" where
  "instance_create_id classes obj idn i w = (let w1 = (if maxid w < idn then w\<lparr>maxid := idn\<rparr> else w) in
     if classes obj = None then Some w1 else construct classes obj idn i w1)"

section \<open>Performing an event\<close>

text \<open>Built without \<open>DEBUG_MODE\<close>, which checks the index.\<close>

definition room_goto :: "int \<Rightarrow> world \<Rightarrow> world" where
  "room_goto indx w = w\<lparr>room_switching_id := indx, room_switching_restartgame := False\<rparr>"

text \<open>
  The loop the compiler writes for an event: \<open>instance_event_iterator\<close> is a plain pointer that the code of the event may
  change and that no \<open>iterator\<close> registers, and a room that is to be changed ends the loop.  The parameter is what the loop does
  for an instance, the check of the event, if it has one, and its code.  The result includes the instances it was done for.
\<close>

partial_function (option) event_loop :: "(nat \<Rightarrow> world \<Rightarrow> world option) \<Rightarrow> world \<Rightarrow> nat list \<Rightarrow> (nat list \<times> world) option" where
  "event_loop ev w done = (case event_it w of None \<Rightarrow> Some (done, w)
    | Some a \<Rightarrow> Option.bind (inst_of (Some a) w) (\<lambda>i. Option.bind i (\<lambda>i. Option.bind (ev i w) (\<lambda>w1.
        if room_switching_id w1 \<noteq> -1 then Some (done @ [i], w1)
        else Option.bind (next_of (event_it w1) w1) (\<lambda>p. event_loop ev (w1\<lparr>event_it := p\<rparr>) (done @ [i]))))))"

definition perform_event :: "(nat \<Rightarrow> world \<Rightarrow> world option) \<Rightarrow> nat \<Rightarrow> world \<Rightarrow> (nat list \<times> world) option" where
  "perform_event ev e w = Option.bind (heap w e) (\<lambda>n. event_loop ev (w\<lparr>event_it := nxt n\<rparr>) [])"

end
