(* ===== verification/InstanceLaws.thy ===== *)
theory InstanceLaws
  imports Instances
begin

text \<open>
  The properties of the instance system.  \<open>lst h e xs\<close> says that in the heap \<open>h\<close> the list with the
  head node \<open>e\<close> has the nodes \<open>xs\<close>; \<open>path h x r\<close> that a loop that stands at node \<open>x\<close> goes on to the nodes \<open>r\<close>.
\<close>

section \<open>Linked segments\<close>

fun first_or :: "nat list \<Rightarrow> nat option \<Rightarrow> nat option" where
  "first_or [] q = q"
| "first_or (x # xs) q = Some x"

definition last_or :: "nat option \<Rightarrow> nat list \<Rightarrow> nat option" where
  "last_or p xs = (if xs = [] then p else Some (last xs))"

lemma last_or_simps [simp]: "last_or p [] = p" "last_or p (xs @ [x]) = Some x" "last_or (Some x) xs = last_or p (x # xs)"
  by (simp_all add: last_or_def)

fun seg :: "(nat \<Rightarrow> inst_iter option) \<Rightarrow> nat option \<Rightarrow> nat list \<Rightarrow> nat option \<Rightarrow> bool" where
  "seg h p [] q = True"
| "seg h p (x # xs) q = ((\<exists>n. h x = Some n \<and> prv n = p \<and> nxt n = first_or xs q) \<and> seg h (Some x) xs q)"

lemma seg_append: "seg h p (xs @ ys) q = (seg h p xs (first_or ys q) \<and> seg h (last_or p xs) ys q)"
proof (induction xs arbitrary: p)
  case (Cons x xs)
  have "first_or (xs @ ys) q = first_or xs (first_or ys q)" by (cases xs) simp_all
  then show ?case using Cons[of "Some x"] by (simp add: last_or_def)
qed simp

lemma seg_cong: "(\<And>a. a \<in> set xs \<Longrightarrow> h a = h' a) \<Longrightarrow> seg h p xs q = seg h' p xs q"
  by (induction xs arbitrary: p) auto

lemma seg_frame: "a \<notin> set xs \<Longrightarrow> seg (h(a := v)) p xs q = seg h p xs q"
  by (rule seg_cong) auto

lemma seg_set_last:
  "seg h p (xs @ [l]) q \<Longrightarrow> l \<notin> set xs \<Longrightarrow> h l = Some n \<Longrightarrow> seg (h(l \<mapsto> n\<lparr>nxt := q'\<rparr>)) p (xs @ [l]) q'"
  by (simp add: seg_append seg_frame)

lemma seg_set_first: "seg h p (f # ys) q \<Longrightarrow> f \<notin> set ys \<Longrightarrow> h f = Some n \<Longrightarrow> seg (h(f \<mapsto> n\<lparr>prv := p'\<rparr>)) p' (f # ys) q"
  by (simp add: seg_frame)

lemma seg_nodes: "seg h p xs q \<Longrightarrow> a \<in> set xs \<Longrightarrow> \<exists>n. h a = Some n \<and> (prv n = p \<or> prv n \<in> Some ` set xs) \<and> (nxt n = q \<or> nxt n \<in> Some ` set xs)"
proof (induction xs arbitrary: p)
  case (Cons x xs)
  have "first_or xs q = q \<or> first_or xs q \<in> Some ` set xs" by (cases xs) simp_all
  then show ?case using Cons by (cases "a = x") fastforce+
qed simp

section \<open>What the statements do to the heap\<close>

definition heap_next :: "nat option \<Rightarrow> nat option \<Rightarrow> (nat \<Rightarrow> inst_iter option) \<Rightarrow> nat \<Rightarrow> inst_iter option" where
  "heap_next p v h = (case p of None \<Rightarrow> h | Some a \<Rightarrow> h(a := map_option (\<lambda>n. n\<lparr>nxt := v\<rparr>) (h a)))"

definition heap_prev :: "nat option \<Rightarrow> nat option \<Rightarrow> (nat \<Rightarrow> inst_iter option) \<Rightarrow> nat \<Rightarrow> inst_iter option" where
  "heap_prev p v h = (case p of None \<Rightarrow> h | Some a \<Rightarrow> h(a := map_option (\<lambda>n. n\<lparr>prv := v\<rparr>) (h a)))"

definition valid :: "(nat \<Rightarrow> inst_iter option) \<Rightarrow> nat option \<Rightarrow> bool" where
  "valid h p = (case p of None \<Rightarrow> True | Some a \<Rightarrow> h a \<noteq> None)"

lemma valid_simps [simp]: "valid h None" "valid h (Some a) = (\<exists>n. h a = Some n)"
  by (auto simp: valid_def)

lemma valid_heap [simp]: "valid (heap_next p v h) q = valid h q" "valid (heap_prev p v h) q = valid h q"
  by (auto simp: valid_def heap_next_def heap_prev_def split: option.splits)

lemma set_next_eq: "valid (heap w) (Some a) \<Longrightarrow> set_next a v w = Some (w\<lparr>heap := heap_next (Some a) v (heap w)\<rparr>)"
  by (auto simp: set_next_def heap_next_def)

lemma set_prev_eq: "valid (heap w) (Some a) \<Longrightarrow> set_prev a v w = Some (w\<lparr>heap := heap_prev (Some a) v (heap w)\<rparr>)"
  by (auto simp: set_prev_def heap_prev_def)

definition bypassed :: "nat \<Rightarrow> (nat \<Rightarrow> inst_iter option) \<Rightarrow> nat \<Rightarrow> inst_iter option" where
  "bypassed d h = (case h d of None \<Rightarrow> h | Some n \<Rightarrow> heap_prev (nxt n) (prv n) (heap_next (prv n) (nxt n) h))"

lemma bypass_eq:
  assumes "heap w d = Some n" "valid (heap w) (prv n)" "valid (heap w) (nxt n)" "prv n \<noteq> Some d"
  shows "bypass d w = Some (w\<lparr>heap := bypassed d (heap w)\<rparr>)"
proof (cases "prv n")
  case None
  then show ?thesis using assms by (cases "nxt n") (auto simp: bypass_def bypassed_def heap_next_def heap_prev_def set_prev_def)
next
  case (Some p)
  then show ?thesis using assms
    by (cases "nxt n") (auto simp: bypass_def bypassed_def heap_next_def heap_prev_def set_prev_def set_next_def)
qed

lemma seg_heap [simp]:
  "p \<notin> Some ` set xs \<Longrightarrow> seg (heap_next p v h) p' xs q = seg h p' xs q"
  "p \<notin> Some ` set xs \<Longrightarrow> seg (heap_prev p v h) p' xs q = seg h p' xs q"
  by (rule seg_cong; auto simp: heap_next_def heap_prev_def split: option.splits)+

lemma last_or_in: "last_or p xs = p \<or> last_or p xs \<in> Some ` set xs"
  by (simp add: last_or_def)

lemma first_or_in: "first_or xs q = q \<or> first_or xs q \<in> Some ` set xs"
  by (cases xs) simp_all

lemma seg_next_last:
  "seg h p xs q \<Longrightarrow> distinct xs \<Longrightarrow> p \<notin> Some ` set xs \<Longrightarrow> seg (heap_next (last_or p xs) q' h) p xs q'"
proof (cases xs rule: rev_cases)
  case (snoc ys l)
  assume a: "seg h p xs q" "distinct xs"
  then obtain n where "h l = Some n" using snoc by (auto simp: seg_append)
  then show ?thesis using a snoc seg_set_last[of h p ys l q n q'] by (simp add: heap_next_def)
qed simp

lemma seg_prev_first:
  "seg h p xs None \<Longrightarrow> distinct xs \<Longrightarrow> seg (heap_prev (first_or xs None) p' h) p' xs None"
proof (cases xs)
  case (Cons f ys)
  assume a: "seg h p xs None" "distinct xs"
  then obtain n where "h f = Some n" using Cons by auto
  then show ?thesis using a Cons seg_set_first[of h p f ys None n p'] by (simp add: heap_prev_def)
qed simp

lemma seg_bypassed:
  assumes s: "seg h p (xs @ d # ys) None" and dist: "distinct (xs @ d # ys)" and p: "p \<notin> Some ` set (xs @ d # ys)"
  shows "seg (bypassed d h) p (xs @ ys) None"
proof -
  have parts: "seg h p xs (Some d)" "seg h (Some d) ys None" using s by (auto simp: seg_append)
  obtain n where n: "h d = Some n" "prv n = last_or p xs" "nxt n = first_or ys None" using s by (auto simp: seg_append)
  have out: "last_or p xs \<notin> Some ` set ys" "first_or ys None \<notin> Some ` set xs"
    using last_or_in[of p xs] first_or_in[of ys None] p dist by auto
  let ?h1 = "heap_next (last_or p xs) (first_or ys None) h"
  have "seg ?h1 p xs (first_or ys None)" using parts(1) dist p by (intro seg_next_last) auto
  moreover have "seg (heap_prev (first_or ys None) (last_or p xs) ?h1) (last_or p xs) ys None"
    using parts(2) out dist by (intro seg_prev_first[of _ "Some d"]) auto
  ultimately show ?thesis using out by (simp add: bypassed_def n seg_append)
qed

section \<open>Lists with a head node\<close>

definition lst :: "(nat \<Rightarrow> inst_iter option) \<Rightarrow> nat \<Rightarrow> nat list \<Rightarrow> bool" where
  "lst h e xs \<longleftrightarrow> e \<notin> set xs \<and> distinct xs \<and> (\<exists>m. h e = Some m \<and> nxt m = first_or xs None \<and> prv m = last_or (Some e) xs) \<and>
    seg h (Some e) xs None"

lemma lst_cong: "(\<And>a. a \<in> insert e (set xs) \<Longrightarrow> h a = h' a) \<Longrightarrow> lst h e xs = lst h' e xs"
  using seg_cong[of xs h h' "Some e" None] by (auto simp: lst_def)

lemma lst_nodes:
  assumes "lst h e xs" "a \<in> insert e (set xs)"
  shows "\<exists>n. h a = Some n \<and> prv n \<in> Some ` insert e (set xs) \<and> (nxt n = None \<or> nxt n \<in> Some ` set xs)"
  using assms seg_nodes[of h "Some e" xs None a] last_or_in[of "Some e" xs] first_or_in[of xs None] by (auto simp: lst_def)

lemma lst_split:
  assumes "lst h e (xs @ d # ys)"
  shows "\<exists>n. h d = Some n \<and> prv n = last_or (Some e) xs \<and> nxt n = first_or ys None \<and> prv n \<noteq> Some d \<and> nxt n \<noteq> Some d"
  using assms last_or_in[of "Some e" xs] first_or_in[of ys None] by (auto simp: lst_def seg_append)

definition retracted :: "nat \<Rightarrow> nat \<Rightarrow> (nat \<Rightarrow> inst_iter option) \<Rightarrow> nat \<Rightarrow> inst_iter option" where
  "retracted e d h = (if map_option prv (h e) = Some (Some d) then heap_prev (Some e) (Option.bind (h d) prv) h else h)"

lemma retract_prev_eq:
  "valid (heap w) (Some e) \<Longrightarrow> valid (heap w) (Some d) \<Longrightarrow> retract_prev e d w = Some (w\<lparr>heap := retracted e d (heap w)\<rparr>)"
  by (auto simp: retract_prev_def retracted_def set_prev_eq)

lemma lst_unlinked:
  assumes l: "lst h e (xs @ d # ys)"
  shows "lst (retracted e d (bypassed d h)) e (xs @ ys)"
proof -
  obtain m where m: "h e = Some m" "nxt m = first_or (xs @ d # ys) None" "prv m = last_or (Some e) (xs @ d # ys)"
    using l by (auto simp: lst_def)
  obtain n where n: "h d = Some n" "prv n = last_or (Some e) xs" "nxt n = first_or ys None" "prv n \<noteq> Some d" "nxt n \<noteq> Some d"
    using lst_split[OF l] by auto
  have ne: "e \<noteq> d" "e \<notin> set xs" "e \<notin> set ys" "distinct (xs @ d # ys)" using l by (auto simp: lst_def)
  let ?h = "bypassed d h"
  have e: "?h e = Some (if xs = [] then m\<lparr>nxt := first_or ys None\<rparr> else m)"
    using ne m n first_or_in[of ys None] last_in_set[of xs]
    by (auto simp: bypassed_def heap_next_def heap_prev_def last_or_def split: option.split)
  have d: "?h d = Some n" using n by (auto simp: bypassed_def heap_next_def heap_prev_def split: option.split)
  have "seg ?h (Some e) (xs @ ys) None" using l by (intro seg_bypassed) (auto simp: lst_def)
  then have s: "seg (retracted e d ?h) (Some e) (xs @ ys) None" using ne by (simp add: retracted_def image_iff)
  have f: "first_or (xs @ ys) None = (if xs = [] then first_or ys None else first_or (xs @ d # ys) None)" by (cases xs) simp_all
  have "\<exists>m'. retracted e d ?h e = Some m' \<and> nxt m' = first_or (xs @ ys) None \<and> prv m' = last_or (Some e) (xs @ ys)"
  proof (cases "ys = []")
    case True
    then show ?thesis using e d m n f by (auto simp: retracted_def heap_prev_def last_or_def)
  next
    case False
    then have "prv m = Some (last ys)" "last ys \<noteq> d" using m ne by (auto simp: last_or_def)
    then show ?thesis using e m f False by (auto simp: retracted_def last_or_def)
  qed
  then show ?thesis using s ne by (auto simp: lst_def)
qed

section \<open>What is done for the iterators\<close>

definition cache_ok :: "world \<Rightarrow> bool" where
  "cache_ok w \<longleftrightarrow> (\<forall>it \<in> snd ` set (cache w). valid (heap w) it)"

definition registered :: "nat \<Rightarrow> world \<Rightarrow> bool" where
  "registered x w \<longleftrightarrow> Some x \<in> snd ` set (cache w)"

definition passed :: "nat \<Rightarrow> inst_iter \<Rightarrow> inst_iter \<Rightarrow> inst_iter" where
  "passed d dn n = (if nxt n = Some d then n\<lparr>nxt := nxt dn\<rparr> else if prv n = Some d then n\<lparr>prv := prv dn\<rparr> else n)"

lemma handle_unlink_eq:
  assumes "valid (heap w) it" "heap w d = Some dn"
  shows "handle_unlink it d w = Some (case it of None \<Rightarrow> w
    | Some x \<Rightarrow> w\<lparr>heap := (heap w)(x := map_option (passed d dn) (heap w x))\<rparr>)"
  using assms by (auto simp: handle_unlink_def passed_def set_next_def set_prev_def fun_upd_idem split: option.split)

lemma passed_inst [simp]: "inst (passed d dn n) = inst n"
  by (simp add: passed_def)

lemma for_each_handle:
  assumes "\<forall>it \<in> set its. valid (heap w) it" "heap w d = Some dn" "nxt dn \<noteq> Some d" "prv dn \<noteq> Some d"
  shows "\<exists>h. for_each its (\<lambda>it. handle_unlink it d) w = Some (w\<lparr>heap := h\<rparr>) \<and>
    (\<forall>a. h a = map_option (passed d dn ^^ length (filter ((=) (Some a)) its)) (heap w a))"
  using assms
proof (induction its arbitrary: w)
  case Nil
  then show ?case by (intro exI[of _ "heap w"]) (simp add: option.map_ident)
next
  case (Cons it its)
  let ?w = "case it of None \<Rightarrow> w | Some x \<Rightarrow> w\<lparr>heap := (heap w)(x := map_option (passed d dn) (heap w x))\<rparr>"
  have d: "passed d dn dn = dn" using Cons.prems by (simp add: passed_def)
  have "heap ?w d = Some dn" "\<forall>it \<in> set its. valid (heap ?w) it"
    using Cons.prems d by (auto simp: valid_def split: option.splits)
  then obtain h where h: "for_each its (\<lambda>it. handle_unlink it d) ?w = Some (?w\<lparr>heap := h\<rparr>)"
    "\<And>a. h a = map_option (passed d dn ^^ length (filter ((=) (Some a)) its)) (heap ?w a)"
    using Cons.IH[of ?w] Cons.prems(3,4) by blast
  have "?w\<lparr>heap := h\<rparr> = w\<lparr>heap := h\<rparr>" by (simp split: option.split)
  moreover have "h a = map_option (passed d dn ^^ length (filter ((=) (Some a)) (it # its))) (heap w a)" for a
    unfolding h(2) by (cases it) (auto simp: option.map_comp funpow_Suc_right simp del: funpow.simps(2) split: option.split)
  moreover have "handle_unlink it d w = Some ?w" using Cons.prems(1,2) by (intro handle_unlink_eq) simp_all
  then have "for_each (it # its) (\<lambda>it. handle_unlink it d) w = Some (?w\<lparr>heap := h\<rparr>)" using h(1) by simp
  ultimately show ?case by metis
qed

lemma passed_power:
  assumes "nxt dn \<noteq> Some d"
  shows "inst ((passed d dn ^^ k) n) = inst n"
    "nxt ((passed d dn ^^ k) n) = (if k > 0 \<and> nxt n = Some d then nxt dn else nxt n)"
    "nxt n \<noteq> Some d \<Longrightarrow> prv n \<noteq> Some d \<Longrightarrow> (passed d dn ^^ k) n = n"
proof -
  show "inst ((passed d dn ^^ k) n) = inst n" by (induction k) simp_all
  show "nxt ((passed d dn ^^ k) n) = (if k > 0 \<and> nxt n = Some d then nxt dn else nxt n)"
    using assms by (induction k) (auto simp: passed_def)
  show "(passed d dn ^^ k) n = n" if "nxt n \<noteq> Some d" "prv n \<noteq> Some d"
    using that by (induction k) (simp_all add: passed_def)
qed

text \<open>The effect on a heap \<open>h\<close> with the removed node \<open>d\<close>.\<close>

definition iterators_pass :: "world \<Rightarrow> nat \<Rightarrow> (nat \<Rightarrow> inst_iter option) \<Rightarrow> (nat \<Rightarrow> inst_iter option) \<Rightarrow> bool" where
  "iterators_pass w d h h' \<longleftrightarrow> (\<forall>a. (h a = None \<longrightarrow> h' a = None) \<and> (\<forall>n. h a = Some n \<longrightarrow> (\<exists>n'. h' a = Some n' \<and> inst n' = inst n \<and>
      nxt n' = (if registered a w \<and> nxt n = Some d then Option.bind (h d) nxt else nxt n) \<and>
      (nxt n \<noteq> Some d \<and> prv n \<noteq> Some d \<longrightarrow> n' = n))))"

lemma iterators_passD:
  "iterators_pass w d h h' \<Longrightarrow> h a = Some n \<Longrightarrow> \<exists>n'. h' a = Some n' \<and> inst n' = inst n \<and>
      nxt n' = (if registered a w \<and> nxt n = Some d then Option.bind (h d) nxt else nxt n) \<and>
      (nxt n \<noteq> Some d \<and> prv n \<noteq> Some d \<longrightarrow> n' = n)"
  unfolding iterators_pass_def by blast

lemma update_iterators_eq:
  assumes "cache_ok w" "heap w d = Some dn" "nxt dn \<noteq> Some d" "prv dn \<noteq> Some d"
  shows "\<exists>h. update_iterators_for_destroy d w = Some (w\<lparr>heap := h\<rparr>) \<and> iterators_pass w d (heap w) h"
proof -
  obtain h where h: "update_iterators_for_destroy d w = Some (w\<lparr>heap := h\<rparr>)"
    "\<And>a. h a = map_option (passed d dn ^^ length (filter ((=) (Some a)) (map snd (cache w)))) (heap w a)"
    using for_each_handle[of "map snd (cache w)" w d dn] assms by (auto simp: cache_ok_def update_iterators_for_destroy_def)
  have "0 < length (filter ((=) (Some a)) (map snd (cache w))) \<longleftrightarrow> registered a w" for a
    by (force simp: registered_def filter_empty_conv)
  then have "iterators_pass w d (heap w) h"
    unfolding iterators_pass_def h(2) using assms passed_power[OF assms(3)] by (simp add: option.map_sel)
  then show ?thesis using h(1) by blast
qed

section \<open>Removal from a list\<close>

lemma valid_bypassed [simp]: "valid (bypassed d h) q = valid h q" "valid (retracted e d h) q = valid h q"
  by (simp_all add: bypassed_def retracted_def split: option.split)

text \<open>Node \<open>d\<close> is out: the nodes that led to it lead on, and so do those where a registered iterator stands.\<close>

definition removes :: "nat \<Rightarrow> world \<Rightarrow> (nat \<Rightarrow> inst_iter option) \<Rightarrow> bool" where
  "removes d w h' \<longleftrightarrow> (\<forall>q. valid h' q = valid (heap w) q) \<and> (\<forall>x n. heap w x = Some n \<longrightarrow> (\<exists>n'. h' x = Some n' \<and> inst n' = inst n \<and>
     (nxt n' = nxt n \<or> nxt n = Some d \<and> nxt n' = Option.bind (heap w d) nxt) \<and>
     (registered x w \<and> nxt n = Some d \<longrightarrow> nxt n' = Option.bind (heap w d) nxt)))"

lemma removesD:
  "removes d w h' \<Longrightarrow> heap w x = Some n \<Longrightarrow> \<exists>n'. h' x = Some n' \<and> inst n' = inst n \<and>
     (nxt n' = nxt n \<or> nxt n = Some d \<and> nxt n' = Option.bind (heap w d) nxt)"
  unfolding removes_def by blast

lemma bypassed_node:
  assumes d: "h d = Some dn" "prv dn \<noteq> Some d" "nxt dn \<noteq> Some d" and p: "\<And>l m. prv dn = Some l \<Longrightarrow> h l = Some m \<Longrightarrow> nxt m = Some d"
    and x: "h x = Some n"
  shows "\<exists>n'. bypassed d h x = Some n' \<and> inst n' = inst n \<and> (nxt n' = nxt n \<or> nxt n = Some d \<and> nxt n' = nxt dn)"
  using assms by (auto simp: bypassed_def heap_next_def heap_prev_def split: option.split)

lemma bypassed_self: "h d = Some dn \<Longrightarrow> prv dn \<noteq> Some d \<Longrightarrow> nxt dn \<noteq> Some d \<Longrightarrow> bypassed d h d = Some dn"
  by (auto simp: bypassed_def heap_next_def heap_prev_def split: option.split)

lemma retracted_node: "h x = Some n \<Longrightarrow> \<exists>n'. retracted e d h x = Some n' \<and> inst n' = inst n \<and> nxt n' = nxt n \<and> (x \<noteq> e \<longrightarrow> n' = n)"
  by (auto simp: retracted_def heap_prev_def)

text \<open>Both kinds of lists end with the same step for the iterators.\<close>

lemma removes_by_pass:
  assumes pass: "iterators_pass w d h1 h'" and d: "heap w d = Some dn" "h1 d = Some dn" "nxt dn \<noteq> Some d"
    and v: "\<And>q. valid h1 q = valid (heap w) q"
    and n: "\<And>x n. heap w x = Some n \<Longrightarrow> \<exists>n'. h1 x = Some n' \<and> inst n' = inst n \<and> (nxt n' = nxt n \<or> nxt n = Some d \<and> nxt n' = nxt dn)"
  shows "removes d w h'"
proof -
  have "(h' a = None) = (h1 a = None)" for a
    using pass unfolding iterators_pass_def by (metis option.exhaust option.distinct(1))
  then have "valid h' q = valid (heap w) q" for q
    unfolding v[symmetric] by (auto simp: valid_def simp del: not_None_eq split: option.split)
  moreover have "\<exists>n'. h' x = Some n' \<and> inst n' = inst n \<and> (nxt n' = nxt n \<or> nxt n = Some d \<and> nxt n' = nxt dn) \<and>
     (registered x w \<and> nxt n = Some d \<longrightarrow> nxt n' = nxt dn)" if x: "heap w x = Some n" for x n
  proof -
    obtain n1 where n1: "h1 x = Some n1" "inst n1 = inst n" "nxt n1 = nxt n \<or> nxt n = Some d \<and> nxt n1 = nxt dn"
      using n[OF x] by auto
    obtain n' where "h' x = Some n'" "inst n' = inst n1" "nxt n' = (if registered x w \<and> nxt n1 = Some d then nxt dn else nxt n1)"
      using iterators_passD[OF pass n1(1)] unfolding d(2) bind.bind_lunit by blast
    then show ?thesis using n1 d(3) by auto
  qed
  ultimately show ?thesis using d(1) by (simp add: removes_def)
qed

lemma lst_iterators_pass:
  assumes "iterators_pass w d h h'" "lst h e xs" "d \<notin> insert e (set xs)"
  shows "lst h' e xs"
proof -
  have "h a = h' a" if a: "a \<in> insert e (set xs)" for a
  proof -
    obtain n where n: "h a = Some n" "prv n \<in> Some ` insert e (set xs)" "nxt n = None \<or> nxt n \<in> Some ` set xs"
      using lst_nodes[OF assms(2) a] by auto
    then have "nxt n \<noteq> Some d" "prv n \<noteq> Some d" using assms(3) by auto
    then show ?thesis using iterators_passD[OF assms(1) n(1)] n(1) by auto
  qed
  then show ?thesis using lst_cong assms(2) by blast
qed

lemma event_unlink_effect:
  assumes l: "lst (heap w) e (xs @ d # ys)" and c: "cache_ok w"
  shows "\<exists>h'. event_unlink e d w = Some (w\<lparr>heap := h'\<rparr>) \<and> lst h' e (xs @ ys) \<and> removes d w h' \<and>
    (\<forall>a n. heap w a = Some n \<and> a \<notin> insert e (set (xs @ d # ys)) \<and> nxt n \<noteq> Some d \<and> prv n \<noteq> Some d \<longrightarrow> h' a = Some n)"
proof -
  let ?h1 = "bypassed d (heap w)" let ?h2 = "retracted e d ?h1"
  obtain dn where dn: "heap w d = Some dn" "prv dn = last_or (Some e) xs" "nxt dn = first_or ys None" "prv dn \<noteq> Some d" "nxt dn \<noteq> Some d"
    using lst_split[OF l] by auto
  have out: "d \<notin> insert e (set (xs @ ys))" using l by (auto simp: lst_def)
  obtain m where "heap w e = Some m" using l by (auto simp: lst_def)
  moreover have v: "valid (heap w) (prv dn)" "valid (heap w) (nxt dn)"
    using lst_nodes[OF l, of "the (prv dn)"] lst_nodes[OF l, of "the (nxt dn)"] last_or_in[of "Some e" xs] first_or_in[of ys None] dn(2,3)
    by (auto simp: valid_def split: option.split)
  ultimately have "bypass d w = Some (w\<lparr>heap := ?h1\<rparr>)" "valid (heap w) (Some e)" "valid (heap w) (Some d)"
    using bypass_eq[OF dn(1) _ _ dn(4)] dn(1) by simp_all
  then have b: "bypass d w = Some (w\<lparr>heap := ?h1\<rparr>)" "valid ?h1 (Some e)" "valid ?h1 (Some d)"
    by (simp_all only: valid_bypassed)
  have l2: "lst ?h2 e (xs @ ys)" by (rule lst_unlinked[OF l])
  then obtain m2 where "?h2 e = Some m2" "nxt m2 = first_or (xs @ ys) None" unfolding lst_def by blast
  then have m2: "?h2 e = Some m2" "nxt m2 \<noteq> Some d" using first_or_in[of "xs @ ys" None] out by auto
  have "?h1 d = Some dn" using bypassed_self[of "heap w" d dn] dn by simp
  then have d2: "?h2 d = Some dn" using retracted_node[of ?h1 d dn e d] out by auto
  have "cache_ok (w\<lparr>heap := ?h2\<rparr>)" using c by (simp add: cache_ok_def)
  then obtain h' where h': "update_iterators_for_destroy d (w\<lparr>heap := ?h2\<rparr>) = Some (w\<lparr>heap := h'\<rparr>)"
    "iterators_pass w d ?h2 h'"
    using update_iterators_eq[of "w\<lparr>heap := ?h2\<rparr>" d dn] d2 dn(4,5) by (auto simp: iterators_pass_def registered_def)
  have "event_unlink e d w = Some (w\<lparr>heap := h'\<rparr>)"
    using b m2 h'(1) retract_prev_eq[of "w\<lparr>heap := ?h1\<rparr>" e d] by (simp add: event_unlink_def)
  moreover have "lst h' e (xs @ ys)" using lst_iterators_pass[OF h'(2) l2 out] .
  moreover have "removes d w h'"
  proof (rule removes_by_pass[OF h'(2) dn(1) d2 dn(5)])
    fix x n assume x: "heap w x = Some n"
    have "nxt q = Some d" if "prv dn = Some p" "heap w p = Some q" for p q
      using that dn(2) l by (cases xs rule: rev_cases) (auto simp: lst_def seg_append)
    then obtain n1 where n1: "?h1 x = Some n1" "inst n1 = inst n" "nxt n1 = nxt n \<or> nxt n = Some d \<and> nxt n1 = nxt dn"
      using bypassed_node[OF dn(1,4,5) _ x] by blast
    show "\<exists>n'. ?h2 x = Some n' \<and> inst n' = inst n \<and> (nxt n' = nxt n \<or> nxt n = Some d \<and> nxt n' = nxt dn)"
      using retracted_node[of ?h1 x n1 e d] n1 by auto
  qed simp
  moreover have "h' a = Some n" if o: "heap w a = Some n" "a \<notin> insert e (set (xs @ d # ys))" "nxt n \<noteq> Some d" "prv n \<noteq> Some d" for a n
  proof -
    have "a \<noteq> e" "prv dn \<noteq> Some a" "nxt dn \<noteq> Some a"
      using o(2) dn(2,3) last_or_in[of "Some e" xs] first_or_in[of ys None] by auto
    then have "?h2 a = heap w a" by (auto simp: retracted_def heap_prev_def bypassed_def heap_next_def dn(1) split: option.split)
    then show ?thesis using iterators_passD[OF h'(2), of a n] o by auto
  qed
  ultimately show ?thesis by blast
qed

lemma event_unlink_list:
  assumes l: "lst (heap w) e (xs @ d # ys)" and c: "cache_ok w"
  shows "\<exists>h'. event_unlink e d w = Some (w\<lparr>heap := h'\<rparr>) \<and> lst h' e (xs @ ys) \<and> removes d w h' \<and>
    (\<forall>e2 zs. lst (heap w) e2 zs \<and> insert e2 (set zs) \<inter> insert e (set (xs @ d # ys)) = {} \<longrightarrow> lst h' e2 zs)"
proof -
  obtain h' where h': "event_unlink e d w = Some (w\<lparr>heap := h'\<rparr>)" "lst h' e (xs @ ys)" "removes d w h'"
    "\<And>a n. heap w a = Some n \<Longrightarrow> a \<notin> insert e (set (xs @ d # ys)) \<Longrightarrow> nxt n \<noteq> Some d \<Longrightarrow> prv n \<noteq> Some d \<Longrightarrow> h' a = Some n"
    using event_unlink_effect[OF l c] by blast
  have "lst h' e2 zs" if o: "lst (heap w) e2 zs" "insert e2 (set zs) \<inter> insert e (set (xs @ d # ys)) = {}" for e2 zs
  proof -
    have "h' a = heap w a" if a: "a \<in> insert e2 (set zs)" for a
    proof -
      obtain n where n: "heap w a = Some n" "prv n \<in> Some ` insert e2 (set zs)" "nxt n = None \<or> nxt n \<in> Some ` set zs"
        using lst_nodes[OF o(1) a] by auto
      moreover have "a \<notin> insert e (set (xs @ d # ys))" "d \<notin> insert e2 (set zs)" using a o(2) by auto
      ultimately have "nxt n \<noteq> Some d" "prv n \<noteq> Some d" by auto
      then show ?thesis using h'(4)[OF n(1)] \<open>a \<notin> _\<close> n(1) by simp
    qed
    then show ?thesis using lst_cong[of e2 zs h' "heap w"] o(1) by simp
  qed
  then show ?thesis using h'(1-3) by blast
qed

section \<open>Loops over a list whose nodes are removed\<close>

fun path :: "(nat \<Rightarrow> inst_iter option) \<Rightarrow> nat \<Rightarrow> nat list \<Rightarrow> bool" where
  "path h x [] = (\<exists>n. h x = Some n \<and> nxt n = None)"
| "path h x (a # r) = ((\<exists>n. h x = Some n \<and> nxt n = Some a) \<and> path h a r)"

lemma path_first: "path h x r \<Longrightarrow> \<exists>n. h x = Some n \<and> nxt n = first_or r None"
  by (cases r) auto

lemma path_seg: "seg h p (x # r) None \<Longrightarrow> path h x r"
  by (induction r arbitrary: x p) auto

lemma path_suffix: "lst h e (pre @ x # r) \<Longrightarrow> path h x r"
  using path_seg[of h "last_or (Some e) pre" x r] by (simp add: lst_def seg_append)

lemma path_head: "lst h e xs \<Longrightarrow> path h e xs"
proof (cases xs)
  case (Cons x r)
  assume l: "lst h e xs"
  then have "path h x r" using path_suffix[of h e "[]" x r] Cons by simp
  then show ?thesis using l Cons by (auto simp: lst_def)
qed (auto simp: lst_def)

lemma path_build: "h x = Some n \<Longrightarrow> nxt n = first_or r None \<Longrightarrow> lst h e (pre @ r) \<Longrightarrow> path h x r"
  by (cases r) (auto dest: path_suffix)

text \<open>A loop that stands at \<open>x\<close> has the nodes \<open>r\<close>, a suffix of the list, before it.\<close>

definition ahead :: "world \<Rightarrow> nat \<Rightarrow> nat list \<Rightarrow> nat \<Rightarrow> nat list \<Rightarrow> bool" where
  "ahead w e xs x r \<longleftrightarrow> lst (heap w) e xs \<and> cache_ok w \<and> (\<exists>pre. xs = pre @ r) \<and> path (heap w) x r"

lemma ahead_unlink:
  assumes a: "ahead w e xs x r" and d: "d \<in> set xs" and x: "registered x w"
  shows "\<exists>h'. event_unlink e d w = Some (w\<lparr>heap := h'\<rparr>) \<and> ahead (w\<lparr>heap := h'\<rparr>) e (remove1 d xs) x (remove1 d r)"
proof -
  obtain us vs where xs: "xs = us @ d # vs" "d \<notin> set us" using d by (meson split_list_first)
  have rem: "remove1 d xs = us @ vs" using xs by (simp add: remove1_append)
  have l: "lst (heap w) e (us @ d # vs)" "cache_ok w" using a xs(1) by (simp_all add: ahead_def)
  obtain h' where h': "event_unlink e d w = Some (w\<lparr>heap := h'\<rparr>)" "lst h' e (us @ vs)" "removes d w h'"
    using event_unlink_list[OF l] by blast
  obtain n where n: "heap w x = Some n" "nxt n = first_or r None" using a path_first unfolding ahead_def by blast
  obtain n' where n': "h' x = Some n'" "nxt n' = nxt n \<or> nxt n = Some d \<and> nxt n' = Option.bind (heap w d) nxt"
    "nxt n = Some d \<longrightarrow> nxt n' = Option.bind (heap w d) nxt"
    using h'(3) n(1) x unfolding removes_def by blast
  obtain pre where pre: "xs = pre @ r" using a unfolding ahead_def by blast
  have "distinct xs" using a by (simp add: ahead_def lst_def)
  then have dist: "distinct (pre @ r)" using pre by simp
  have "\<exists>pre'. us @ vs = pre' @ remove1 d r"
  proof (cases "d \<in> set pre")
    case True
    then have "remove1 d (pre @ r) = remove1 d pre @ r" "d \<notin> set r" using dist by (auto simp: remove1_append)
    then have "us @ vs = remove1 d pre @ remove1 d r" using rem pre by (simp add: remove1_idem)
    then show ?thesis by blast
  next
    case False
    then have "remove1 d (pre @ r) = pre @ remove1 d r" by (simp add: remove1_append)
    then have "us @ vs = pre @ remove1 d r" using rem pre by simp
    then show ?thesis by blast
  qed
  then obtain pre' where pre': "us @ vs = pre' @ remove1 d r" by blast
  have "nxt n' = first_or (remove1 d r) None"
  proof (cases "nxt n = Some d")
    case True
    then obtain t where t: "r = d # t" using n(2) by (cases r) auto
    then have "path (heap w) d t" using a by (simp add: ahead_def)
    then obtain m where "heap w d = Some m" "nxt m = first_or t None" using path_first by blast
    then show ?thesis using n'(3) True t by simp
  next
    case False
    then have "first_or (remove1 d r) None = first_or r None" using n(2) by (cases r) auto
    then show ?thesis using n'(2) False n(2) by simp
  qed
  then have "path h' x (remove1 d r)" using path_build[of h' x n'] n'(1) h'(2) pre' by metis
  moreover have "cache_ok (w\<lparr>heap := h'\<rparr>)" using l(2) h'(3) by (simp add: cache_ok_def removes_def)
  ultimately show ?thesis using h'(1,2) pre' rem unfolding ahead_def by auto
qed

lemma registered_heap [simp]: "registered x (w\<lparr>heap := h\<rparr>) = registered x w"
  by (simp add: registered_def)

text \<open>
  C6. An iterator stays right while nodes are removed: whatever nodes of a list are unlinked, in whatever order, the
  list keeps the others in their order, and a loop at a node, removed itself or not, that a
  live iterator points to goes on through exactly the nodes that were ahead of it and are still in the list.
\<close>

theorem iterator_survives_unlinks:
  assumes "lst (heap w) e xs" and "cache_ok w" and "registered x w" and "xs = pre @ r" and "path (heap w) x r"
    and "set ds \<subseteq> set xs" and "distinct ds"
  shows "\<exists>h'. for_each ds (event_unlink e) w = Some (w\<lparr>heap := h'\<rparr>) \<and>
    lst h' e (filter (\<lambda>a. a \<notin> set ds) xs) \<and> path h' x (filter (\<lambda>a. a \<notin> set ds) r)"
proof -
  have "\<exists>h'. for_each ds (event_unlink e) w = Some (w\<lparr>heap := h'\<rparr>) \<and>
      ahead (w\<lparr>heap := h'\<rparr>) e (filter (\<lambda>a. a \<notin> set ds) xs) x (filter (\<lambda>a. a \<notin> set ds) r)"
    if "ahead w e xs x r" "registered x w" "set ds \<subseteq> set xs" "distinct ds" for w xs r ds
    using that
  proof (induction ds arbitrary: w xs r)
    case Nil
    then show ?case by (intro exI[of _ "heap w"]) simp
  next
    case (Cons d ds)
    obtain h1 where h1: "event_unlink e d w = Some (w\<lparr>heap := h1\<rparr>)" "ahead (w\<lparr>heap := h1\<rparr>) e (remove1 d xs) x (remove1 d r)"
      using ahead_unlink[OF Cons.prems(1) _ Cons.prems(2), of d] Cons.prems(3) by auto
    have dist: "distinct xs" "distinct r" using Cons.prems(1) by (auto simp: ahead_def lst_def)
    then have sub: "set ds \<subseteq> set (remove1 d xs)" "distinct ds" using Cons.prems(3,4) by auto
    obtain h' where h': "for_each ds (event_unlink e) (w\<lparr>heap := h1\<rparr>) = Some (w\<lparr>heap := h'\<rparr>)"
      "ahead (w\<lparr>heap := h'\<rparr>) e (filter (\<lambda>a. a \<notin> set ds) (remove1 d xs)) x (filter (\<lambda>a. a \<notin> set ds) (remove1 d r))"
      using Cons.IH[OF h1(2) _ sub] Cons.prems(2) by auto
    have "filter (\<lambda>a. a \<notin> set ds) (remove1 d ys) = filter (\<lambda>a. a \<notin> set (d # ds)) ys" if "distinct ys" for ys
    proof -
      have "filter (\<lambda>a. a \<notin> set ds) (remove1 d ys) = filter (\<lambda>a. a \<notin> set ds) (filter (\<lambda>a. d \<noteq> a) ys)"
        using that by (simp only: distinct_remove1_removeAll removeAll_filter_not_eq)
      also have "\<dots> = filter (\<lambda>a. a \<notin> set (d # ds)) ys" unfolding filter_filter by (rule filter_cong) auto
      finally show ?thesis .
    qed
    then show ?case using h' h1(1) dist by (intro exI[of _ h']) simp
  qed
  moreover have "ahead w e xs x r" using assms by (auto simp: ahead_def)
  ultimately obtain h' where "for_each ds (event_unlink e) w = Some (w\<lparr>heap := h'\<rparr>)"
      "ahead (w\<lparr>heap := h'\<rparr>) e (filter (\<lambda>a. a \<notin> set ds) xs) x (filter (\<lambda>a. a \<notin> set ds) r)"
    using assms(3,6,7) by blast
  then show ?thesis unfolding ahead_def by auto
qed

section \<open>Adding to a list\<close>

text \<open>The address that \<open>new\<close> returns is not in use.\<close>

definition fresh :: "world \<Rightarrow> bool" where
  "fresh w \<longleftrightarrow> (\<forall>a \<ge> brk w. heap w a = None)"

lemma new_list_empty: "fresh w \<Longrightarrow> new_list w = (e, w') \<Longrightarrow> lst (heap w') e [] \<and> fresh w'"
  by (auto simp: new_list_def new_inst_iter_def lst_def last_or_def fresh_def)

lemma lst_domain: "lst h e xs \<Longrightarrow> a \<in> insert e (set xs) \<Longrightarrow> h a \<noteq> None"
  using lst_nodes by fastforce

lemma add_inst_list:
  assumes l: "lst (heap w) e xs" and f: "fresh w"
  shows "\<exists>w'. add_inst e i w = Some (brk w, w') \<and> lst (heap w') e (xs @ [brk w]) \<and> map_option inst (heap w' (brk w)) = Some (Some i) \<and> fresh w' \<and>
    (\<forall>a. a \<noteq> brk w \<longrightarrow> map_option inst (heap w' a) = map_option inst (heap w a)) \<and>
    (\<forall>e2 zs. lst (heap w) e2 zs \<and> insert e2 (set zs) \<inter> insert e (set xs) = {} \<longrightarrow> lst (heap w') e2 zs)"
proof -
  let ?a = "brk w"
  obtain m where m: "heap w e = Some m" "nxt m = first_or xs None" "prv m = last_or (Some e) xs" using l by (auto simp: lst_def)
  have na: "heap w ?a = None" using f by (simp add: fresh_def)
  then have out: "?a \<notin> insert e (set xs)" using lst_domain[OF l] by blast
  define p where "p = last (e # xs)"
  have p: "prv m = Some p" "p \<in> insert e (set xs)" using m(3) by (auto simp: p_def last_or_def)
  then obtain n where n: "heap w p = Some n" using lst_domain[OF l] by blast
  let ?h1 = "(heap w)(?a \<mapsto> \<lparr>inst = Some i, nxt = None, prv = Some p\<rparr>)"
  let ?h2 = "heap_next (Some p) (Some ?a) ?h1" let ?h3 = "heap_prev (Some e) (Some ?a) ?h2"
  let ?w = "w\<lparr>heap := ?h3, brk := Suc ?a\<rparr>"
  have "add_inst e i w = Some (?a, ?w)"
  proof -
    have "?h1 p = Some n" "?h1 e = Some m" using n m(1) p(2) out by auto
    then show ?thesis using m(1) p(1) valid_heap(1)[of "Some p" "Some ?a" ?h1 "Some e"]
      by (simp add: add_inst_def new_inst_iter_def set_next_eq set_prev_eq del: fun_upd_apply valid_heap)
  qed
  moreover have "lst ?h3 e (xs @ [?a])"
  proof -
    have "seg (heap w) (Some e) xs None" using l by (simp add: lst_def)
    then have "seg ?h1 (Some e) xs None" using out by (simp add: seg_frame)
    moreover have lo: "last_or (Some e) xs = Some p" by (simp add: p_def last_or_def)
    moreover have "distinct xs" "Some e \<notin> Some ` set xs" using l by (auto simp: lst_def)
    ultimately have "seg ?h2 (Some e) xs (Some ?a)" using seg_next_last[of ?h1 "Some e" xs None "Some ?a"] by (simp only: lo simp_thms)
    moreover have "?h2 ?a = ?h1 ?a" using p(2) out by (auto simp: heap_next_def)
    ultimately have "seg ?h2 (Some e) (xs @ [?a]) None" using lo by (simp add: seg_append)
    then have "seg ?h3 (Some e) (xs @ [?a]) None" using l out by (subst seg_heap) (auto simp: lst_def)
    moreover have "?h2 e = Some (if xs = [] then m\<lparr>nxt := Some ?a\<rparr> else m)"
    proof (cases "xs = []")
      case False
      then have "p \<noteq> e" using l by (auto simp: p_def lst_def)
      then show ?thesis using False m(1) out by (simp add: heap_next_def)
    qed (use m(1) out in \<open>simp add: heap_next_def p_def\<close>)
    then have "\<exists>m'. ?h3 e = Some m' \<and> nxt m' = first_or (xs @ [?a]) None \<and> prv m' = Some ?a"
      using m(2) by (cases xs) (simp_all add: heap_prev_def)
    ultimately show ?thesis using l out by (auto simp: lst_def)
  qed
  moreover have "map_option inst (?h3 ?a) = Some (Some i)" "\<And>b. b \<noteq> ?a \<Longrightarrow> map_option inst (?h3 b) = map_option inst (heap w b)"
    using out p(2) by (auto simp: heap_next_def heap_prev_def option.map_comp comp_def)
  moreover have "fresh ?w" using f out p(2) m(1) n by (auto simp: fresh_def heap_next_def heap_prev_def)
  moreover have "lst ?h3 e2 zs" if o: "lst (heap w) e2 zs" "insert e2 (set zs) \<inter> insert e (set xs) = {}" for e2 zs
  proof -
    have "?a \<notin> insert e2 (set zs)" using lst_domain[OF o(1)] na by blast
    then have "?h3 a = heap w a" if "a \<in> insert e2 (set zs)" for a
      using that o(2) p(2) by (auto simp: heap_next_def heap_prev_def)
    then show ?thesis using lst_cong[of e2 zs ?h3 "heap w"] o(1) by simp
  qed
  ultimately show ?thesis by (intro exI[of _ ?w]) simp
qed

end
