(* ===== verification/InstanceEvents.thy ===== *)
theory InstanceEvents
  imports InstanceLaws
begin

text \<open>
  The list of all instances, the identifiers and the lists of the objects: the
  operations of the instance system on top of the removal of a node, proved in \<open>InstanceLaws\<close>.
\<close>

section \<open>A small world\<close>

definition empty_world :: world where
  "empty_world = \<lparr>heap = (\<lambda>_. None), brk = 1, cache = [], objects = [], instance_list = [], deactivated = [], cleanups = [],
     instance_count = 0, instance_id = [], instances = (\<lambda>_. None), event_it = None, instance_other = None,
     global_instance = 0, global_it = 0, maxid = 100001,
     room_switching_id = -1, room_switching_restartgame = False\<rparr>"

text \<open>An event list, node 1, with the instances 10, 20 and 30 at the nodes 2, 3 and 4.\<close>

definition event_world :: world where
  "event_world = snd (the (add_inst 1 30 (snd (the (add_inst 1 20 (snd (the (add_inst 1 10 (snd (new_list empty_world))))))))))"

definition node_at :: "nat option \<Rightarrow> nat option \<Rightarrow> nat option \<Rightarrow> inst_iter option" where
  "node_at i n p = Some \<lparr>inst = i, nxt = n, prv = p\<rparr>"

lemma event_world_heap: "heap event_world = (\<lambda>_. None)(1 := node_at None (Some 2) (Some 4), 2 := node_at (Some 10) (Some 3) (Some 1),
    3 := node_at (Some 20) (Some 4) (Some 2), 4 := node_at (Some 30) None (Some 3))" "cache event_world = []"
  by (auto simp: event_world_def empty_world_def new_list_def new_inst_iter_def add_inst_def set_next_def set_prev_def node_at_def)

lemma event_world_lst: "lst (heap event_world) 1 [2, 3, 4]"
  by (simp add: lst_def event_world_heap node_at_def last_or_def)

theorem iterator_survives_unlinks_witness:
  "\<exists>h'. for_each [2, 3] (event_unlink 1) (event_world\<lparr>cache := [(7, Some 2)]\<rparr>) = Some (event_world\<lparr>cache := [(7, Some 2)], heap := h'\<rparr>) \<and>
    lst h' 1 (filter (\<lambda>a. a \<notin> set [2, 3]) [2, 3, 4]) \<and> path h' 2 (filter (\<lambda>a. a \<notin> set [2, 3]) [3, 4])"
proof -
  let ?w = "event_world\<lparr>cache := [(7, Some 2)]\<rparr>"
  have 1: "lst (heap ?w) 1 [2, 3, 4]" using event_world_lst by simp
  have 2: "cache_ok ?w" "registered 2 ?w" by (simp_all add: cache_ok_def registered_def event_world_heap node_at_def)
  have 3: "path (heap ?w) 2 [3, 4]" by (rule path_suffix[of _ 1 "[]"]) (use 1 in simp)
  show ?thesis by (rule iterator_survives_unlinks[OF 1 2 _ 3, of "[2]"]) simp_all
qed

section \<open>The list of all instances\<close>

definition il_ok :: "world \<Rightarrow> bool" where
  "il_ok w \<longleftrightarrow> sorted_wrt (<) (map fst (instance_list w)) \<and> distinct (map snd (instance_list w)) \<and>
     seg (heap w) None (map snd (instance_list w)) None"

lemma map_insert_split:
  assumes "\<forall>x \<in> set lo. fst x < k" "\<forall>x \<in> set hi. k < fst x"
  shows "map_insert k v (lo @ hi) = lo @ (k, v) # hi"
    "entry_before k (lo @ (k, v) # hi) = last_or None (map snd lo)" "entry_after k (lo @ (k, v) # hi) = first_or (map snd hi) None"
proof -
  show "map_insert k v (lo @ hi) = lo @ (k, v) # hi"
    using assms by (induction lo) (auto simp: neq_Nil_conv intro: list.exhaust[of hi])
  have "takeWhile (\<lambda>(k', _). k' < k) (lo @ (k, v) # hi) = lo" using assms by (subst takeWhile_append2) auto
  then show "entry_before k (lo @ (k, v) # hi) = last_or None (map snd lo)" by (simp add: entry_before_def last_or_def last_map)
  have "dropWhile (\<lambda>(k', _). k' \<le> k) (lo @ (k, v) # hi) = dropWhile (\<lambda>(k', _). k' \<le> k) hi" using assms by (subst dropWhile_append2) auto
  also have "\<dots> = hi" using assms by (cases hi) auto
  finally show "entry_after k (lo @ (k, v) # hi) = first_or (map snd hi) None"
    by (auto simp: entry_after_def split: list.split prod.split)
qed

lemma split_at_key:
  "sorted_wrt (<) (map fst m) \<Longrightarrow> map_of m (k :: int) = None \<Longrightarrow>
    \<exists>lo hi. m = lo @ hi \<and> (\<forall>x \<in> set lo. fst x < k) \<and> (\<forall>x \<in> set hi. k < fst x)"
proof (induction m)
  case (Cons x m)
  have k: "fst x \<noteq> k" "map_of m k = None" using Cons.prems(2) by (auto split: if_splits)
  show ?case
  proof (cases "fst x < k")
    case True
    obtain lo hi where "m = lo @ hi" "\<forall>x \<in> set lo. fst x < k" "\<forall>x \<in> set hi. k < fst x"
      using Cons.IH k(2) Cons.prems(1) by auto
    then show ?thesis using True by (intro exI[of _ "x # lo"] exI[of _ hi]) simp
  next
    case False
    then show ?thesis using k(1) Cons.prems(1) by (intro exI[of _ "[]"] exI[of _ "x # m"]) fastforce
  qed
qed simp

lemma set_next_list:
  "set_next a p w = (if heap w a = None then None else Some (w\<lparr>heap := heap_next (Some a) p (heap w)\<rparr>))"
  "set_prev a p w = (if heap w a = None then None else Some (w\<lparr>heap := heap_prev (Some a) p (heap w)\<rparr>))"
  by (auto simp: set_next_def set_prev_def heap_next_def heap_prev_def)

lemma link_instance_list:
  assumes w: "il_ok w" "fresh w" and ob: "instances w i = Some ob" and k: "map_of (instance_list w) (id_of ob) = None"
  shows "\<exists>w' lo hi. link_instance i w = Some w' \<and> instance_list w = lo @ hi \<and>
    instance_list w' = lo @ (id_of ob, brk w) # hi \<and> il_ok w' \<and> fresh w'"
proof -
  let ?k = "id_of ob" and ?a = "brk w"
  obtain lo hi where m: "instance_list w = lo @ hi" "\<forall>x \<in> set lo. fst x < ?k" "\<forall>x \<in> set hi. ?k < fst x"
    using split_at_key w(1) k unfolding il_ok_def by blast
  define A where "A = map snd lo"
  define B where "B = map snd hi"
  have AB: "distinct (A @ B)" "seg (heap w) None A (first_or B None)" "seg (heap w) (last_or None A) B None"
    using w(1) m(1) by (auto simp: il_ok_def A_def B_def seg_append)
  have dom: "heap w x \<noteq> None" if "x \<in> set (A @ B)" for x
    using seg_nodes[of "heap w" None "A @ B" None x] AB(2,3) that by (auto simp: seg_append)
  then have a: "?a \<notin> set A" "?a \<notin> set B" using w(2) dom[of ?a] by (auto simp: fresh_def)
  let ?n = "\<lparr>inst = Some i, nxt = None, prv = None\<rparr>"
  let ?h1 = "heap_prev (Some ?a) (last_or None A) ((heap w)(?a \<mapsto> ?n))"
  let ?h2 = "heap_next (last_or None A) (Some ?a) ?h1"
  let ?h3 = "heap_next (Some ?a) (first_or B None) ?h2"
  let ?h4 = "heap_prev (first_or B None) (Some ?a) ?h3"
  let ?w = "w\<lparr>heap := ?h4, brk := Suc ?a, instance_id := instance_id w @ [?k], instance_list := lo @ (?k, ?a) # hi\<rparr>"
  have "link_instance i w = Some ?w"
  proof (cases A rule: rev_cases)
    case Nil
    then show ?thesis using ob k m(1) map_insert_split[OF m(2,3), of ?a] a dom
      by (cases B) (auto simp: link_instance_def new_inst_iter_def set_next_list A_def[symmetric] B_def[symmetric] heap_prev_def heap_next_def Let_def)
  next
    case (snoc A' l)
    then show ?thesis using ob k m(1) map_insert_split[OF m(2,3), of ?a] a dom
      by (cases B) (auto simp: link_instance_def new_inst_iter_def set_next_list A_def[symmetric] B_def[symmetric] heap_prev_def heap_next_def Let_def)
  qed
  moreover have "seg ?h4 None (A @ ?a # B) None"
  proof -
    have out: "last_or None A \<notin> Some ` set B" "first_or B None \<notin> Some ` set A" "last_or None A \<noteq> Some ?a" "first_or B None \<noteq> Some ?a"
      using last_or_in[of None A] first_or_in[of B None] AB(1) a by auto
    have "seg ?h1 None A (first_or B None)" using AB(2) a by (simp add: seg_frame image_iff)
    then have "seg ?h2 None A (Some ?a)" using AB(1) by (intro seg_next_last) auto
    then have A: "seg ?h4 None A (Some ?a)" using a out by (simp add: image_iff)
    have "seg ?h3 (last_or None A) B None" using AB(3) a out by (simp add: seg_frame image_iff)
    then have B: "seg ?h4 (Some ?a) B None" using AB(1) by (intro seg_prev_first) auto
    have "?h4 ?a = Some \<lparr>inst = Some i, nxt = first_or B None, prv = last_or None A\<rparr>"
      using out(3,4) by (auto simp: heap_next_def heap_prev_def split: option.split)
    then show ?thesis using A B by (simp add: seg_append)
  qed
  moreover have "?h4 b = None" if "Suc ?a \<le> b" for b
  proof -
    have "heap w b = None" "b \<noteq> ?a" using w(2) that by (auto simp: fresh_def)
    then show ?thesis by (auto simp: heap_next_def heap_prev_def split: option.split)
  qed
  then have "fresh ?w" by (simp add: fresh_def)
  moreover have "sorted_wrt (<) (map fst (lo @ (?k, ?a) # hi))"
    using w(1) m by (auto simp: il_ok_def sorted_wrt_append)
  moreover have "distinct (A @ ?a # B)" using AB(1) a by auto
  ultimately show ?thesis using m(1) by (intro exI[of _ ?w] exI[of _ lo] exI[of _ hi]) (simp add: il_ok_def A_def B_def)
qed

lemma map_erase_split:
  assumes "sorted_wrt (<) (map fst (lo @ (k :: int, a) # hi))"
  shows "map_erase k (lo @ (k, a) # hi) = lo @ hi"
proof -
  have "\<forall>x \<in> set lo. fst x \<noteq> k" "\<forall>x \<in> set hi. fst x \<noteq> k" using assms by (auto simp: sorted_wrt_append)
  then show ?thesis by (simp add: map_erase_def split_def filter_id_conv)
qed

lemma unlink_main_list:
  assumes w: "il_ok w" "cache_ok w" and k: "map_of (instance_list w) k = Some a"
  shows "\<exists>h'. unlink_main k w = Some (w\<lparr>instance_list := map_erase k (instance_list w), heap := h'\<rparr>) \<and>
    il_ok (w\<lparr>instance_list := map_erase k (instance_list w), heap := h'\<rparr>) \<and> removes a w h' \<and>
    (\<forall>x n. heap w x = Some n \<and> x \<notin> snd ` set (instance_list w) \<and> nxt n \<noteq> Some a \<and> prv n \<noteq> Some a \<longrightarrow> h' x = Some n)"
proof -
  obtain lo hi where m: "instance_list w = lo @ (k, a) # hi" by (metis k map_of_SomeD split_list)
  define A where "A = map snd lo"
  define B where "B = map snd hi"
  have srt: "sorted_wrt (<) (map fst (lo @ (k, a) # hi))" using w(1) m by (simp add: il_ok_def)
  have AB: "distinct (A @ a # B)" "seg (heap w) None (A @ a # B) None" using w(1) m by (simp_all add: il_ok_def A_def B_def)
  obtain dn where dn: "heap w a = Some dn" "prv dn = last_or None A" "nxt dn = first_or B None" using AB(2) by (auto simp: seg_append)
  have ne: "prv dn \<noteq> Some a" "nxt dn \<noteq> Some a" using dn(2,3) last_or_in[of None A] first_or_in[of B None] AB(1) by auto
  have v: "valid (heap w) (prv dn)" "valid (heap w) (nxt dn)"
    using seg_nodes[OF AB(2), of "the (prv dn)"] seg_nodes[OF AB(2), of "the (nxt dn)"] last_or_in[of None A] first_or_in[of B None] dn(2,3)
    by (auto simp: valid_def split: option.split)
  let ?h1 = "bypassed a (heap w)" let ?il = "map_erase k (instance_list w)"
  have b: "bypass a w = Some (w\<lparr>heap := ?h1\<rparr>)" using bypass_eq[OF dn(1) v ne(1)] .
  have d1: "?h1 a = Some dn" using bypassed_self[of "heap w" a dn] dn(1) ne by simp
  have "cache_ok (w\<lparr>instance_list := ?il, heap := ?h1\<rparr>)" using w(2) by (simp add: cache_ok_def)
  then obtain h' where h': "update_iterators_for_destroy a (w\<lparr>instance_list := ?il, heap := ?h1\<rparr>) = Some (w\<lparr>instance_list := ?il, heap := h'\<rparr>)"
    "iterators_pass w a ?h1 h'"
    using update_iterators_eq[of "w\<lparr>instance_list := ?il, heap := ?h1\<rparr>" a dn] d1 ne by (auto simp: iterators_pass_def registered_def)
  have "unlink_main k w = Some (w\<lparr>instance_list := ?il, heap := h'\<rparr>)" 
  proof -
    have "w\<lparr>heap := ?h1, instance_list := map_erase k (instance_list (w\<lparr>heap := ?h1\<rparr>))\<rparr> = w\<lparr>instance_list := ?il, heap := ?h1\<rparr>"
      by simp
    then show ?thesis using h'(1) by (simp only: unlink_main_def bind.bind_lunit k b)
  qed
  moreover have "seg h' None (A @ B) None"
  proof -
    have s: "seg ?h1 None (A @ B) None" using AB by (intro seg_bypassed) auto
    have "?h1 x = h' x" if x: "x \<in> set (A @ B)" for x
    proof -
      obtain n where n: "?h1 x = Some n" "prv n = None \<or> prv n \<in> Some ` set (A @ B)" "nxt n = None \<or> nxt n \<in> Some ` set (A @ B)"
        using seg_nodes[OF s x] by auto
      then have "nxt n \<noteq> Some a" "prv n \<noteq> Some a" using AB(1) by auto
      then show ?thesis using iterators_passD[OF h'(2) n(1)] n(1) by auto
    qed
    then show ?thesis using seg_cong[of "A @ B" ?h1 h' None None] s by blast
  qed
  then have "il_ok (w\<lparr>instance_list := ?il, heap := h'\<rparr>)"
    using srt AB(1) by (simp add: il_ok_def m map_erase_split[OF srt] A_def B_def sorted_wrt_append)
  moreover have "removes a w h'"
  proof (rule removes_by_pass[OF h'(2) dn(1) d1 ne(2)])
    fix x n assume x: "heap w x = Some n"
    have "nxt q = Some a" if "prv dn = Some p" "heap w p = Some q" for p q
      using that dn(2) AB(2) by (cases A rule: rev_cases) (auto simp: seg_append)
    then show "\<exists>n'. ?h1 x = Some n' \<and> inst n' = inst n \<and> (nxt n' = nxt n \<or> nxt n = Some a \<and> nxt n' = nxt dn)"
      using bypassed_node[of "heap w" a dn x n] dn(1) ne x by blast
  qed simp
  moreover have "h' x = Some n" if x: "heap w x = Some n" "x \<notin> snd ` set (instance_list w)" "nxt n \<noteq> Some a" "prv n \<noteq> Some a" for x n
  proof -
    have "prv dn \<noteq> Some x" "nxt dn \<noteq> Some x"
      using x(2) dn(2,3) last_or_in[of None A] first_or_in[of B None] by (force simp: m A_def B_def image_iff)+
    then have "?h1 x = heap w x" by (auto simp: bypassed_def heap_next_def heap_prev_def dn(1) split: option.split)
    then show ?thesis using iterators_passD[OF h'(2), of x n] x by auto
  qed
  ultimately show ?thesis by blast
qed

text \<open>
  C30. The list of all instances: its nodes are linked in the order of the ids, adding an instance with an id not in
  use puts its node at the place of the id, and removing an id takes its node out.
\<close>

theorem instance_list_linked:
  assumes "il_ok w" "fresh w" "cache_ok w"
  shows "(\<forall>i ob. instances w i = Some ob \<and> map_of (instance_list w) (id_of ob) = None \<longrightarrow>
      (\<exists>w'. link_instance i w = Some w' \<and> il_ok w' \<and> instance_list w' = map_insert (id_of ob) (brk w) (instance_list w))) \<and>
    (\<forall>k. map_of (instance_list w) k \<noteq> None \<longrightarrow>
      (\<exists>w'. unlink_main k w = Some w' \<and> il_ok w' \<and> instance_list w' = map_erase k (instance_list w)))"
proof (intro conjI allI impI)
  fix i ob assume "instances w i = Some ob \<and> map_of (instance_list w) (id_of ob) = None"
  then have a: "instances w i = Some ob" "map_of (instance_list w) (id_of ob) = None" by simp_all
  obtain w' where w': "link_instance i w = Some w'" "il_ok w'" "fresh w'"
    using link_instance_list[OF assms(1,2) a] by blast
  have "instance_list w' = map_insert (id_of ob) (brk w) (instance_list w)"
    using w'(1) a by (auto simp: link_instance_def new_inst_iter_def set_next_def set_prev_def Let_def split: option.splits bind_splits)
  then show "\<exists>w'. link_instance i w = Some w' \<and> il_ok w' \<and> instance_list w' = map_insert (id_of ob) (brk w) (instance_list w)"
    using w' by blast
next
  fix k assume "map_of (instance_list w) k \<noteq> None"
  then show "\<exists>w'. unlink_main k w = Some w' \<and> il_ok w' \<and> instance_list w' = map_erase k (instance_list w)"
    using unlink_main_list[OF assms(1,3)] by fastforce
qed

theorem instance_list_linked_witness:
  "\<exists>w'. link_instance 10 (empty_world\<lparr>instances := (\<lambda>_. None)(10 \<mapsto> \<lparr>id_of = 100001, object_index = 0, levels = []\<rparr>)\<rparr>) = Some w' \<and>
    il_ok w' \<and> instance_list w' = [(100001, 1)]"
proof -
  let ?ob = "\<lparr>id_of = 100001, object_index = 0, levels = []\<rparr>"
  let ?w = "empty_world\<lparr>instances := (\<lambda>_. None)(10 \<mapsto> ?ob)\<rparr>"
  have "il_ok ?w" "fresh ?w" "cache_ok ?w" by (simp_all add: il_ok_def fresh_def cache_ok_def empty_world_def)
  from instance_list_linked[OF this, THEN conjunct1, rule_format, of 10 ?ob] show ?thesis by (simp add: empty_world_def)
qed

section \<open>Identifiers\<close>

lemma set_maxid: "set_next a p w = Some w' \<Longrightarrow> maxid w' = maxid w" "set_prev a p w = Some w' \<Longrightarrow> maxid w' = maxid w"
  by (auto simp: set_next_def set_prev_def)

lemma add_inst_maxid: "add_inst e i w = Some (a, w') \<Longrightarrow> maxid w' = maxid w"
  by (auto simp: add_inst_def new_inst_iter_def Let_def dest!: set_maxid split: bind_splits)

lemma add_events_maxid: "add_events i es w = Some (evs, w') \<Longrightarrow> maxid w' = maxid w"
proof (induction es arbitrary: evs w w')
  case (Cons e es)
  then obtain a w1 evs' where "add_inst e i w = Some (a, w1)" "add_events i es w1 = Some (evs', w')"
    by (auto simp: bind_eq_Some_conv)
  then show ?case using add_inst_maxid Cons.IH by metis
qed simp

lemma activate_levels_maxid: "activate_levels i ls w = Some (ls', w') \<Longrightarrow> maxid w' = maxid w"
proof (induction ls arbitrary: ls' w w')
  case (Cons l ls)
  obtain oid a evs where l: "l = (oid, a, evs)" by (cases l)
  obtain a1 w1 evs' w2 ls2 where steps: "link_obj_instance i oid w = Some (a1, w1)"
    "add_events i (map fst evs) w1 = Some (evs', w2)" "activate_levels i ls w2 = Some (ls2, w')"
    using Cons.prems unfolding l by (auto simp: bind_eq_Some_conv)
  have "maxid w1 = maxid w" using steps(1) by (auto simp: link_obj_instance_def bind_eq_Some_conv dest!: add_inst_maxid)
  then show ?case using add_events_maxid[OF steps(2)] Cons.IH[OF steps(3)] by simp
qed simp

lemma link_instance_maxid: "link_instance i w = Some w' \<Longrightarrow> maxid w' = maxid w"
proof -
  assume l: "link_instance i w = Some w'"
  then obtain ob where ob: "instances w i = Some ob" by (auto simp: link_instance_def bind_eq_Some_conv)
  let ?w2 = "w\<lparr>heap := (heap w)(brk w \<mapsto> \<lparr>inst = Some i, nxt = None, prv = None\<rparr>), brk := Suc (brk w),
    instance_id := instance_id w @ [id_of ob]\<rparr>"
  show ?thesis
  proof (cases "map_of (instance_list w) (id_of ob)")
    case None
    let ?w3 = "?w2\<lparr>instance_list := map_insert (id_of ob) (brk w) (instance_list w)\<rparr>"
    obtain w4 where w4: "(case entry_before (id_of ob) (instance_list ?w3) of
           Some ib \<Rightarrow> Option.bind (set_prev (brk w) (Some ib) ?w3) (set_next ib (Some (brk w)))
         | None \<Rightarrow> set_prev (brk w) None ?w3) = Some w4"
      "(case entry_after (id_of ob) (instance_list w4) of
           Some ia \<Rightarrow> Option.bind (set_next (brk w) (Some ia) w4) (set_prev ia (Some (brk w)))
         | None \<Rightarrow> set_next (brk w) None w4) = Some w'"
      using l None by (auto simp: link_instance_def ob new_inst_iter_def Let_def bind_eq_Some_conv)
    have "maxid w4 = maxid w" using w4(1) by (auto simp: bind_eq_Some_conv dest!: set_maxid split: option.split_asm)
    moreover have "maxid w' = maxid w4" using w4(2) by (auto simp: bind_eq_Some_conv dest!: set_maxid split: option.split_asm)
    ultimately show ?thesis by simp
  next
    case (Some a)
    then show ?thesis using l by (auto simp: link_instance_def ob new_inst_iter_def Let_def)
  qed
qed

lemma activate_maxid: "activate i w = Some w' \<Longrightarrow> maxid w' = maxid w"
  by (auto simp: activate_def dest!: link_instance_maxid activate_levels_maxid split: bind_splits)

text \<open>
  After the system makes an instance with an id above all others, the next instance that a script creates is
  given the same id.
\<close>

theorem next_id_collides:
  assumes "maxid w < idn" "classes obj \<noteq> None" "classes obj2 \<noteq> None"
    and "instance_create_id classes obj idn i w = Some w1" and "instance_create classes ev obj2 j w1 = Some (n, w2)"
  shows "n = idn"
proof -
  have "maxid w1 = idn" using assms(1,2,4) by (auto simp: instance_create_id_def construct_def Let_def dest!: activate_maxid)
  then show ?thesis using assms(3,5) by (auto simp: instance_create_def Let_def)
qed

text \<open>An object without lists of its own.\<close>

lemma next_id_collides_run:
  "\<exists>w1 w2. instance_create_id (\<lambda>_. Some []) 0 200000 10 empty_world = Some w1 \<and>
    instance_create (\<lambda>_. Some []) (\<lambda>_. Some) 0 20 w1 = Some (200000, w2) \<and> map_of (instance_list w2) 200000 = Some 1 \<and>
    map_option inst (heap w2 1) = Some (Some 10) \<and> map_option id_of (instances w2 20) = Some 200000"
  by (simp add: instance_create_id_def instance_create_def construct_def activate_def link_instance_def new_inst_iter_def
      empty_world_def Let_def entry_before_def entry_after_def set_next_def set_prev_def)

theorem next_id_collides_witness:
  "\<exists>w1 n w2. instance_create_id (\<lambda>_. Some []) 0 200000 10 empty_world = Some w1 \<and>
    instance_create (\<lambda>_. Some []) (\<lambda>_. Some) 0 20 w1 = Some (n, w2) \<and> n = 200000"
proof -
  obtain w1 w2 n where w: "instance_create_id (\<lambda>_. Some []) 0 200000 10 empty_world = Some w1"
    "instance_create (\<lambda>_. Some []) (\<lambda>_. Some) 0 20 w1 = Some (n, w2)"
    using next_id_collides_run by blast
  have "n = 200000" by (rule next_id_collides[OF _ _ _ w]) (simp_all add: empty_world_def)
  then show ?thesis using w by blast
qed

section \<open>The lists of the objects\<close>

text \<open>Object \<open>oid\<close> has the list \<open>xs\<close> and counts it.\<close>

definition object_ok :: "world \<Rightarrow> nat \<Rightarrow> nat list \<Rightarrow> bool" where
  "object_ok w oid xs \<longleftrightarrow> (\<exists>e. oid < length (objects w) \<and> objects w ! oid = (e, length xs) \<and> lst (heap w) e xs)"

lemma handle_unlink_objects:
  "handle_unlink it d (w\<lparr>objects := os\<rparr>) = map_option (\<lambda>v. v\<lparr>objects := os\<rparr>) (handle_unlink it d w)"
  by (auto simp: handle_unlink_def set_next_def set_prev_def option.map_comp comp_def bind_map_option map_conv_bind_option
      split: option.split bind_split)

lemma update_iterators_objects:
  "update_iterators_for_destroy d (w\<lparr>objects := os\<rparr>) = map_option (\<lambda>v. v\<lparr>objects := os\<rparr>) (update_iterators_for_destroy d w)"
proof -
  have "for_each its (\<lambda>it. handle_unlink it d) (w\<lparr>objects := os\<rparr>) =
      map_option (\<lambda>v. v\<lparr>objects := os\<rparr>) (for_each its (\<lambda>it. handle_unlink it d) w)" for its
  proof (induction its arbitrary: w)
    case (Cons it its)
    show ?case by (cases "handle_unlink it d w") (simp_all add: handle_unlink_objects Cons.IH)
  qed simp
  then show ?thesis by (simp add: update_iterators_for_destroy_def)
qed

text \<open>The test for the head of the list, which only \<open>event_iter::unlink\<close> has, never succeeds.\<close>

lemma unlink_object_as_event:
  assumes l: "lst (heap w) e (xs @ d # ys)" "cache_ok w" and o: "oid < length (objects w)" "objects w ! oid = (e, n)"
    and u: "event_unlink e d w = Some w1"
  shows "unlink_object_id_iter d oid w = Some (w1\<lparr>objects := (objects w)[oid := (e, zsub n 1)]\<rparr>)"
proof -
  let ?h1 = "bypassed d (heap w)" let ?h2 = "retracted e d ?h1"
  obtain dn where dn: "heap w d = Some dn" "prv dn = last_or (Some e) xs" "nxt dn = first_or ys None" "prv dn \<noteq> Some d"
    using lst_split[OF l(1)] by auto
  have v: "valid (heap w) (prv dn)" "valid (heap w) (nxt dn)"
    using lst_nodes[OF l(1), of "the (prv dn)"] lst_nodes[OF l(1), of "the (nxt dn)"] last_or_in[of "Some e" xs] first_or_in[of ys None] dn(2,3)
    by (auto simp: valid_def split: option.split)
  have b: "bypass d w = Some (w\<lparr>heap := ?h1\<rparr>)" using bypass_eq[OF dn(1) v dn(4)] .
  have ed: "valid (heap w) (Some e)" "valid (heap w) (Some d)" using l(1) dn(1) by (auto simp: lst_def)
  then have "valid ?h1 (Some e)" "valid ?h1 (Some d)" by (simp_all only: valid_bypassed)
  then have r: "retract_prev e d (w\<lparr>heap := ?h1\<rparr>) = Some (w\<lparr>heap := ?h2\<rparr>)" using retract_prev_eq[of "w\<lparr>heap := ?h1\<rparr>" e d] by simp
  obtain m where "?h2 e = Some m" "nxt m = first_or (xs @ ys) None" using lst_unlinked[OF l(1)] unfolding lst_def by blast
  moreover have "d \<notin> set (xs @ ys)" using l(1) by (auto simp: lst_def)
  ultimately have "nxt m \<noteq> Some d" using first_or_in[of "xs @ ys" None] by auto
  then have "update_iterators_for_destroy d (w\<lparr>heap := ?h2\<rparr>) = Some w1"
    using u b r \<open>?h2 e = Some m\<close> by (simp add: event_unlink_def)
  then show ?thesis using b r o update_iterators_objects[of d _ "w\<lparr>heap := ?h2\<rparr>"]
    by (simp add: unlink_object_id_iter_def)
qed

text \<open>The list of an object has the instances that were linked and not unlinked, in order, and its counter is their number.\<close>

theorem object_list_counted:
  assumes "object_ok w oid xs" "fresh w" "cache_ok w" "length xs + 1 < 2 ^ 64"
  shows "(\<exists>w'. link_obj_instance i oid w = Some (brk w, w') \<and> object_ok w' oid (xs @ [brk w])) \<and>
    (\<forall>d \<in> set xs. \<exists>w'. unlink_object_id_iter d oid w = Some w' \<and> object_ok w' oid (remove1 d xs))"
proof (intro conjI ballI)
  obtain e where e: "oid < length (objects w)" "objects w ! oid = (e, length xs)" "lst (heap w) e xs"
    using assms(1) by (auto simp: object_ok_def)
  let ?w = "w\<lparr>objects := (objects w)[oid := (e, zadd (length xs) 1)]\<rparr>"
  have "lst (heap ?w) e xs" "fresh ?w" using e(3) assms(2) by (simp_all add: fresh_def)
  then obtain w' where w': "add_inst e i ?w = Some (brk ?w, w')" "lst (heap w') e (xs @ [brk ?w])"
    using add_inst_list by blast
  have "objects w' = objects ?w"
    using w'(1) by (auto simp: add_inst_def new_inst_iter_def set_next_def set_prev_def Let_def bind_eq_Some_conv)
  then show "\<exists>w'. link_obj_instance i oid w = Some (brk w, w') \<and> object_ok w' oid (xs @ [brk w])"
    using e w' assms(4) by (auto simp: link_obj_instance_def object_ok_def intro!: exI[of _ w'])
next
  fix d assume d: "d \<in> set xs"
  obtain e where e: "oid < length (objects w)" "objects w ! oid = (e, length xs)" "lst (heap w) e xs"
    using assms(1) by (auto simp: object_ok_def)
  obtain us vs where xs: "xs = us @ d # vs" "d \<notin> set us" using d by (meson split_list_first)
  obtain h' where h': "event_unlink e d w = Some (w\<lparr>heap := h'\<rparr>)" "lst h' e (us @ vs)"
    using event_unlink_list[of w e us d vs] e(3) assms(3) xs(1) by blast
  have "unlink_object_id_iter d oid w = Some (w\<lparr>heap := h', objects := (objects w)[oid := (e, zsub (length xs) 1)]\<rparr>)"
    using unlink_object_as_event[of w e us d vs oid "length xs" "w\<lparr>heap := h'\<rparr>"] e assms(3) xs(1) h'(1) by simp
  moreover have "zsub (length xs) 1 = length (us @ vs)" using xs(1) assms(4) by (subst zsub_le) auto
  moreover have "remove1 d xs = us @ vs" using xs by (simp add: remove1_append)
  ultimately show "\<exists>w'. unlink_object_id_iter d oid w = Some w' \<and> object_ok w' oid (remove1 d xs)"
    using e(1) h'(2) by (auto simp: object_ok_def)
qed

theorem object_list_counted_witness:
  "\<exists>w'. unlink_object_id_iter 3 0 (event_world\<lparr>objects := [(1, 3)]\<rparr>) = Some w' \<and> object_ok w' 0 (remove1 3 [2, 3, 4])"
proof -
  let ?w = "event_world\<lparr>objects := [(1, 3)]\<rparr>"
  have 1: "object_ok ?w 0 [2, 3, 4]" using event_world_lst by (simp add: object_ok_def)
  have "brk event_world = 5"
    by (simp add: event_world_def empty_world_def new_list_def new_inst_iter_def add_inst_def set_next_def set_prev_def)
  then have 2: "fresh ?w" by (simp add: fresh_def event_world_heap)
  have 3: "cache_ok ?w" by (simp add: cache_ok_def event_world_heap)
  show ?thesis by (rule object_list_counted[OF 1 2 3, THEN conjunct2, rule_format]) simp_all
qed

end
