(* ===== verification/InstanceDestroy.thy ===== *)
theory InstanceDestroy
  imports InstanceEvents
begin

text \<open>
  The destruction of an instance takes its nodes out of all lists and leaves everything else as it is, and what
  follows for the loop that performs an event while its instances destroy themselves.
\<close>

section \<open>All lists of a game\<close>

definition without :: "nat set \<Rightarrow> (nat \<Rightarrow> nat list option) \<Rightarrow> nat \<Rightarrow> nat list option" where
  "without A L e = map_option (filter (\<lambda>a. a \<notin> A)) (L e)"


lemma without_empty [simp]: "without {} L = L"
proof
  show "without {} L e = L e" for e by (cases "L e") (simp_all add: without_def)
qed





text \<open>The nodes of \<open>A\<close> are out of their lists; nothing but pointers, the counters and the list of all instances has changed.\<close>

definition gone :: "nat set \<Rightarrow> world \<Rightarrow> world \<Rightarrow> bool" where
  "gone A w w' \<longleftrightarrow> w'\<lparr>heap := heap w, objects := objects w, instance_list := instance_list w\<rparr> = w \<and>
     map fst (objects w') = map fst (objects w) \<and>
     (\<forall>x n. heap w x = Some n \<longrightarrow> (\<exists>n'. heap w' x = Some n' \<and> inst n' = inst n \<and> (nxt n \<notin> Some ` A \<longrightarrow> nxt n' = nxt n)))"

lemma gone_refl [simp]: "gone A w w"
  by (simp add: gone_def)





section \<open>Taking one node out\<close>





definition in_list :: "(nat \<Rightarrow> nat list option) \<Rightarrow> nat \<Rightarrow> nat \<Rightarrow> bool" where
  "in_list L e a = (case L e of None \<Rightarrow> False | Some xs \<Rightarrow> a \<in> set xs)"







section \<open>Deactivation and destruction\<close>

definition level_nodes :: "(nat \<times> nat \<times> (nat \<times> nat) list) \<Rightarrow> nat list" where
  "level_nodes = (\<lambda>(oid, a, evs). a # map snd evs)"

definition nodes :: "world \<Rightarrow> nat \<Rightarrow> nat list" where
  "nodes w i = (case instances w i of None \<Rightarrow> [] | Some ob \<Rightarrow> concat (map level_nodes (levels ob)))"

definition belongs :: "world \<Rightarrow> nat \<Rightarrow> nat \<Rightarrow> bool" where
  "belongs w i a \<longleftrightarrow> map_option inst (heap w a) = Some (Some i)"

definition level_listed :: "world \<Rightarrow> (nat \<Rightarrow> nat list option) \<Rightarrow> (nat \<times> nat \<times> (nat \<times> nat) list) \<Rightarrow> bool" where
  "level_listed w L = (\<lambda>(oid, a, evs). oid < length (objects w) \<and> in_list L (fst (objects w ! oid)) a \<and>
     (\<forall>(e, b) \<in> set evs. e \<notin> fst ` set (objects w) \<and> in_list L e b))"

text \<open>An active instance: its nodes are in the lists that it records, and it is in the list of all instances.\<close>

definition listed :: "world \<Rightarrow> (nat \<Rightarrow> nat list option) \<Rightarrow> nat \<Rightarrow> bool" where
  "listed w L i \<longleftrightarrow> (\<exists>ob n. instances w i = Some ob \<and> map_of (instance_list w) (id_of ob) = Some n \<and> belongs w i n \<and>
     map_of (deactivated w) (id_of ob) = None \<and> i \<notin> set (cleanups w) \<and> distinct (nodes w i) \<and>
     (\<forall>b \<in> set (nodes w i). belongs w i b) \<and> (\<forall>l \<in> set (levels ob). level_listed w L l))"









lemma listed_event_it [simp]: "listed (w\<lparr>event_it := p\<rparr>) L i = listed w L i"
  by (simp add: listed_def level_listed_def belongs_def nodes_def)



section \<open>Performing an event\<close>



















end
