(* ===== verification/Rectpack.thy ===== *)
theory Rectpack
  imports Prelude "HOL-Library.Product_Lexorder"
begin

text \<open>
  The rectangle packer (\<open>shared/rectpacker/rectpack.cpp\<close>) and the four loops that put glyphs and textures
  on a page with it.  A \<open>rectpnode\<close> is a leaf or has two children; a pointer to a node, which only
  \<open>rncopy\<close> follows, is the rectangle of the node.  A memory access outside \<open>boxes\<close> and an overflow
  of \<open>int\<close> have the result \<open>None\<close>.
\<close>

section \<open>Data\<close>

record pvrect =
  px :: int
  py :: int
  pw :: int
  ph :: int
  placed :: int

definition pvrect_default :: pvrect where
  "pvrect_default = \<lparr>px = 0, py = 0, pw = 1, ph = 1, placed = -1\<rparr>"

text \<open>\<open>c\<close> is the index of the box a leaf holds, or -1; a node with children never holds one.\<close>

datatype rectpnode =
    Leaf (rx: int) (ry: int) (wid: int) (hgt: int) (rc: int)
  | Split (rx: int) (ry: int) (wid: int) (hgt: int) (child0: rectpnode) (child1: rectpnode)

record rect =
  rect_x :: int
  rect_y :: int
  rect_w :: int
  rect_h :: int

definition rect_of :: "rectpnode \<Rightarrow> rect" where
  "rect_of n = \<lparr>rect_x = rx n, rect_y = ry n, rect_w = wid n, rect_h = hgt n\<rparr>"

section \<open>Operations\<close>

definition rncopy :: "rect \<Rightarrow> pvrect list \<Rightarrow> u32 \<Rightarrow> pvrect list option" where
  "rncopy h boxes c =
     Option.bind (arr_get boxes (unat c)) (\<lambda>b.
       arr_set boxes (unat c) (b\<lparr>px := rect_x h, py := rect_y h, pw := rect_w h, ph := rect_h h\<rparr>))"

text \<open>The two halves a leaf is split in to make room for a box of size \<open>w\<close> times \<open>h\<close>.\<close>

definition rnsplit :: "int \<Rightarrow> int \<Rightarrow> int \<Rightarrow> int \<Rightarrow> int \<Rightarrow> int \<Rightarrow> (rectpnode \<times> rectpnode) option" where
  "rnsplit x y ww hh w h =
     do { dw \<leftarrow> i32 (ww - w);
          dh \<leftarrow> i32 (hh - h);
          if dh < dw
          then do { x1 \<leftarrow> i32 (x + w); w1 \<leftarrow> i32 (ww - w); Some (Leaf x y w hh (-1), Leaf x1 y w1 hh (-1)) }
          else do { y1 \<leftarrow> i32 (y + h); h1 \<leftarrow> i32 (hh - h); Some (Leaf x y ww h (-1), Leaf x y1 ww h1 (-1)) } }"

lemma i32_eq_Some [simp]: "i32 n = Some m \<longleftrightarrow> m = n \<and> - (2 ^ 31) \<le> n \<and> n < 2 ^ 31"
  by (auto simp: i32_def)

text \<open>\<open>rninsert\<close>: the changed tree and the node that is returned, if any.\<close>

function rninsert :: "rectpnode \<Rightarrow> u32 \<Rightarrow> pvrect list \<Rightarrow> (rectpnode \<times> rect option) option" where
  "rninsert (Split x y ww hh l r) c boxes =
     do { (l', n) \<leftarrow> rninsert l c boxes;
          case n of
            Some p \<Rightarrow> Some (Split x y ww hh l' r, Some p)
          | None \<Rightarrow> do { (r', n') \<leftarrow> rninsert r c boxes; Some (Split x y ww hh l' r', n') } }"
| "rninsert (Leaf x y ww hh k) c boxes =
     (if k \<noteq> -1 then Some (Leaf x y ww hh k, None)
      else do {
        b \<leftarrow> arr_get boxes (unat c);
        if ww < pw b \<or> hh < ph b then Some (Leaf x y ww hh k, None)
        else do {
          dw \<leftarrow> i32 (ww - pw b);
          tight \<leftarrow> (if dw < 2 then map_option (\<lambda>dh. dh < 2) (i32 (hh - ph b)) else Some False);
          if tight then Some (Leaf x y ww hh (sint c), Some (rect_of (Leaf x y ww hh k)))
          else do {
            (l, r) \<leftarrow> rnsplit x y ww hh (pw b) (ph b);
            (l', n) \<leftarrow> rninsert l c boxes;
            Some (Split x y ww hh l' r, n) } } })"
  by pat_completeness auto

text \<open>A split leaves a half that is as wide, or as high, as the box, so it is split at most once more.\<close>

fun room_left :: "rectpnode \<Rightarrow> u32 \<Rightarrow> pvrect list \<Rightarrow> nat" where
  "room_left (Split x y ww hh l r) c boxes = Suc (room_left l c boxes + room_left r c boxes)"
| "room_left (Leaf x y ww hh k) c boxes =
     (case arr_get boxes (unat c) of
        None \<Rightarrow> 0
      | Some b \<Rightarrow> (if pw b + 2 \<le> ww then 1 else 0) + (if ph b + 2 \<le> hh then 1 else 0))"

lemma rnsplit_room_left:
  assumes "rnsplit x y ww hh (pw b) (ph b) = Some (l, r)" and "arr_get boxes (unat c) = Some b"
    and "\<not> ww < pw b" and "\<not> hh < ph b" and "\<not> (ww - pw b < 2 \<and> hh - ph b < 2)"
  shows "room_left l c boxes < room_left (Leaf x y ww hh k) c boxes"
  using assms by (auto simp: rnsplit_def split: if_splits bind_splits)

termination rninsert
proof (relation "measure (\<lambda>(t, c, boxes). room_left t c boxes)", goal_cases)
  case (4 x y ww hh k c boxes b dw tight lr l r)
  then have "rnsplit x y ww hh (pw b) (ph b) = Some (l, r)" "arr_get boxes (unat c) = Some b"
    "\<not> ww < pw b" "\<not> hh < ph b" "\<not> (ww - pw b < 2 \<and> hh - ph b < 2)"
    by (auto split: if_splits)
  then show ?case by (simp only: in_measure case_prod_conv) (rule rnsplit_room_left)
qed auto

text \<open>A box is made around the container for every direction in which it has to grow.\<close>

definition expand :: "rectpnode \<Rightarrow> int \<Rightarrow> int \<Rightarrow> rectpnode option" where
  "expand who w h =
     do { ret \<leftarrow> (if hgt who < h
                 then do { y1 \<leftarrow> i32 (ry who + hgt who); h1 \<leftarrow> i32 (h - hgt who);
                           Some (Split (rx who) (ry who) (wid who) h who (Leaf (rx who) y1 (wid who) h1 (-1))) }
                 else Some who);
          if wid who < w
          then do { x1 \<leftarrow> i32 (rx ret + wid who); w1 \<leftarrow> i32 (w - wid ret);
                    Some (Split (rx ret) (ry ret) w (hgt ret) ret (Leaf x1 (ry ret) w1 (hgt ret) (-1))) }
          else Some ret }"

section \<open>Filling a page\<close>

text \<open>The box to insert next is the last of the list: the loops run over it backwards.\<close>

datatype page =
    Packed (page_tree: rectpnode) (page_boxes: "pvrect list") (page_w: int) (page_h: int)
  | Full "pvrect list"
  | No_page

text \<open>\<open>x <<= 1\<close> on \<open>int\<close>: undefined for a negative \<open>x\<close>, and otherwise the low 32 bits as an \<open>int\<close>.\<close>

definition shl1 :: "int \<Rightarrow> int option" where
  "shl1 x = (if x < 0 \<or> 2 ^ 31 \<le> x then None else if x < 2 ^ 30 then Some (2 * x) else Some (2 * x - 2 ^ 32))"

text \<open>
  The loop of \<open>lang_CPP::module_write_fonts\<close>: \<open>rest\<close> are the boxes still to place, next one first, and
  \<open>w\<close> and \<open>h\<close> are \<open>int\<close>.
\<close>

definition grow_page :: "int \<Rightarrow> int \<Rightarrow> (int \<times> int) option" where
  "grow_page w h = (if h < w then map_option (Pair w) (shl1 h) else map_option (\<lambda>w'. (w', h)) (shl1 w))"

definition growth_left :: "int \<Rightarrow> int \<Rightarrow> nat" where
  "growth_left w h = nat (if w \<le> 0 then 0 else 2 ^ 31 - w) + nat (if h \<le> 0 then 0 else 2 ^ 31 - h)"

lemma grow_page_left:
  "grow_page w h = Some (w', h') \<Longrightarrow> \<not> (w' = 0 \<or> h' = 0) \<Longrightarrow> growth_left w' h' < growth_left w h"
  by (auto simp: grow_page_def shl1_def growth_left_def split: if_splits)

function write_fonts_pack :: "u32 list \<Rightarrow> rectpnode \<Rightarrow> pvrect list \<Rightarrow> int \<Rightarrow> int \<Rightarrow> page option" where
  "write_fonts_pack [] plane boxes w h = Some (Packed plane boxes w h)"
| "write_fonts_pack (i # rest) plane boxes w h =
     do { (plane', nn) \<leftarrow> rninsert plane i boxes;
          case nn of
            Some p \<Rightarrow> do { boxes' \<leftarrow> rncopy p boxes i; write_fonts_pack rest plane' boxes' w h }
          | None \<Rightarrow>
              do { (w', h') \<leftarrow> grow_page w h;
                   plane'' \<leftarrow> expand plane' w' h';
                   if w' = 0 \<or> h' = 0 then Some No_page
                   else write_fonts_pack (i # rest) plane'' boxes w' h' } }"
  by pat_completeness auto

termination write_fonts_pack
  by (relation "measures [\<lambda>(rest, plane, boxes, w, h). length rest, \<lambda>(rest, plane, boxes, w, h). growth_left w h]")
    (auto simp: grow_page_left)

text \<open>The two ways round the loop, for evaluation.\<close>

lemma write_fonts_pack_place:
  "rninsert plane i boxes = Some (plane', Some p) \<Longrightarrow> rncopy p boxes i = Some boxes' \<Longrightarrow>
   write_fonts_pack (i # rest) plane boxes w h = write_fonts_pack rest plane' boxes' w h"
  by simp

lemma write_fonts_pack_grow:
  "rninsert plane i boxes = Some (plane', None) \<Longrightarrow> grow_page w h = Some (w', h') \<Longrightarrow> expand plane' w' h' = Some plane'' \<Longrightarrow>
   w' \<noteq> 0 \<Longrightarrow> h' \<noteq> 0 \<Longrightarrow> write_fonts_pack (i # rest) plane boxes w h = write_fonts_pack (i # rest) plane'' boxes w' h'"
  by simp

text \<open>
  The loops of \<open>textures_pack\<close>, \<open>font_add_sprite\<close> and \<open>font_add\<close>, where \<open>w\<close> and \<open>h\<close> are \<open>unsigned\<close>:
  \<open>fixed\<close> says that the atlas has a size of its own, and then a box that does not fit ends the loop.
\<close>

definition grow_unsigned :: "u32 \<Rightarrow> u32 \<Rightarrow> u32 \<times> u32" where
  "grow_unsigned w h = (if h < w then (w, push_bit 1 h) else (push_bit 1 w, h))"

definition shifts_left :: "u32 \<Rightarrow> nat" where
  "shifts_left w = card {k. k < 32 \<and> push_bit k w \<noteq> 0}"

lemma shifts_left_push: "w \<noteq> 0 \<Longrightarrow> shifts_left (push_bit 1 w) < shifts_left w"
proof -
  assume w: "w \<noteq> 0"
  have "Suc ` {k. k < 32 \<and> push_bit k (push_bit 1 w) \<noteq> 0} \<subset> {k. k < 32 \<and> push_bit k w \<noteq> 0}"
  proof (intro psubsetI subsetI notI)
    fix k assume "k \<in> Suc ` {k. k < 32 \<and> push_bit k (push_bit 1 w) \<noteq> 0}"
    then obtain j where j: "k = Suc j" "push_bit (Suc j) w \<noteq> 0" by (auto simp: push_bit_push_bit)
    have "push_bit (Suc j) w = 0" if "32 \<le> Suc j"
    proof -
      have "(2 :: u32) ^ Suc j = 0" using that by (simp only: exp_eq_zero_iff) simp
      then show ?thesis by (simp only: push_bit_eq_mult mult_zero_right)
    qed
    then have "\<not> 32 \<le> Suc j" using j by blast
    then show "k \<in> {k. k < 32 \<and> push_bit k w \<noteq> 0}" using j by simp
  next
    assume "Suc ` {k. k < 32 \<and> push_bit k (push_bit 1 w) \<noteq> 0} = {k. k < 32 \<and> push_bit k w \<noteq> 0}"
    moreover have "0 \<in> {k. k < 32 \<and> push_bit k w \<noteq> 0}" using w by simp
    ultimately show False by auto
  qed
  then have "card (Suc ` {k. k < 32 \<and> push_bit k (push_bit 1 w) \<noteq> 0}) < card {k. k < 32 \<and> push_bit k w \<noteq> 0}"
    by (intro psubset_card_mono) auto
  then show ?thesis by (simp add: shifts_left_def card_image)
qed

function pack_unsigned :: "bool \<Rightarrow> u32 list \<Rightarrow> rectpnode \<Rightarrow> pvrect list \<Rightarrow> u32 \<Rightarrow> u32 \<Rightarrow> page option" where
  "pack_unsigned fixed [] plane boxes w h = Some (Packed plane boxes (uint w) (uint h))"
| "pack_unsigned fixed (i # rest) plane boxes w h =
     do { (plane', nn) \<leftarrow> rninsert plane i boxes;
          case nn of
            Some p \<Rightarrow> do { boxes' \<leftarrow> rncopy p boxes i; pack_unsigned fixed rest plane' boxes' w h }
          | None \<Rightarrow>
              if fixed then Some (Full boxes)
              else (case grow_unsigned w h of (w', h') \<Rightarrow>
                do { plane'' \<leftarrow> expand plane' (sint w') (sint h');
                     if w' = 0 \<or> h' = 0 then Some No_page
                     else pack_unsigned fixed (i # rest) plane'' boxes w' h' }) }"
  by pat_completeness auto

lemma grow_unsigned_left:
  assumes "(w', h') = grow_unsigned w h" and "w' \<noteq> 0" and "h' \<noteq> 0"
  shows "(case grow_unsigned w h of (a, b) \<Rightarrow> shifts_left a + shifts_left b) < shifts_left w + shifts_left h"
proof (cases "h < w")
  case True
  then have "w' = w" "h' = push_bit 1 h" using assms(1) by (auto simp: grow_unsigned_def)
  moreover have "h \<noteq> 0" using calculation assms(2,3) by auto
  ultimately show ?thesis using shifts_left_push[of h] by (simp add: assms(1)[symmetric])
next
  case False
  then have "w' = push_bit 1 w" "h' = h" using assms(1) by (auto simp: grow_unsigned_def)
  moreover have "w \<noteq> 0" using calculation assms(2,3) by auto
  ultimately show ?thesis using shifts_left_push[of w] by (simp add: assms(1)[symmetric])
qed

termination pack_unsigned
  by (relation "measures [\<lambda>(fixed, rest, plane, boxes, w, h). length rest,
      \<lambda>(fixed, rest, plane, boxes, w, h). shifts_left w + shifts_left h]") (auto dest: grow_unsigned_left)

section \<open>The users\<close>

text \<open>\<open>module_write_fonts\<close>: the glyphs are packed by descending area, from a page of 64 times 64.\<close>

definition box_order :: "pvrect list \<Rightarrow> u32 list" where
  "box_order glyphs =
     map (\<lambda>(area, i). of_nat i)
       (rev (sort (map (\<lambda>i. (unat (of_int (pw (glyphs ! i)) * of_int (ph (glyphs ! i)) :: u32), i)) [0..<length glyphs])))"

definition module_write_fonts :: "pvrect list \<Rightarrow> page option" where
  "module_write_fonts glyphs = write_fonts_pack (box_order glyphs) (Leaf 0 0 64 64 (-1)) glyphs 64 64"

text \<open>The area of a box, a product of two \<open>int\<close>.\<close>

definition int_area :: "pvrect \<Rightarrow> int option" where
  "int_area b = i32 (pw b * ph b)"

text \<open>
  \<open>textures_pack\<close> on the metrics of the images: \<open>std::sort\<close> orders by area alone, so it is the parameter \<open>srt\<close>.
  \<open>width\<close> and \<open>height\<close> are those of the atlas, -1 when it has none yet.
\<close>

definition atlas_size :: "int \<Rightarrow> int \<Rightarrow> u32 \<times> u32" where
  "atlas_size width height = (if 0 < width \<and> 0 < height then (of_int width, of_int height) else (64, 64))"

definition textures_pack :: "((nat \<times> u32) list \<Rightarrow> (nat \<times> u32) list) \<Rightarrow> pvrect list \<Rightarrow> int \<Rightarrow> int \<Rightarrow> page option" where
  "textures_pack srt metrics width height =
     (case atlas_size width height of (w, h) \<Rightarrow>
      do { areas \<leftarrow> those (map int_area metrics);
           let boxes = srt (map (\<lambda>i. (i, of_int (areas ! i))) [0..<length metrics]);
           pack_unsigned (width \<noteq> -1 \<and> height \<noteq> -1) (map (\<lambda>(i, size). of_nat i) (rev boxes))
             (Leaf 0 0 (sint w) (sint h) (-1)) metrics w h })"

text \<open>\<open>font_add_sprite\<close>: a box and its number, which has eight bits, share an \<open>unsigned\<close>.
  \<open>shl8 n\<close> is \<open>n << 8\<close> on \<open>int\<close> before the conversion to \<open>unsigned\<close>.\<close>

definition shl8 :: "int \<Rightarrow> int option" where
  "shl8 n = (if 0 \<le> n \<and> n < 2 ^ 24 then Some (256 * n) else None)"

definition font_add_sprite_pack :: "pvrect list \<Rightarrow> page option" where
  "font_add_sprite_pack glyphmetrics =
     do { areas \<leftarrow> those (map (\<lambda>b. Option.bind (int_area b) shl8) glyphmetrics);
          let boxes = sort (map (\<lambda>i. of_int (areas ! i) + of_nat i) [0..<length glyphmetrics]);
          pack_unsigned False (map (take_bit 8) (rev boxes)) (Leaf 0 0 64 64 (-1)) glyphmetrics 64 64 }"

text \<open>\<open>font_add\<close> sorts by descending area and runs over the result backwards.\<close>

definition font_add_pack :: "((nat \<times> u32) list \<Rightarrow> (nat \<times> u32) list) \<Rightarrow> pvrect list \<Rightarrow> page option" where
  "font_add_pack srt glyphmetrics =
     (let glyphPairs = srt (map (\<lambda>i. (i, of_int (pw (glyphmetrics ! i)) * of_int (ph (glyphmetrics ! i)))) [0..<length glyphmetrics])
      in pack_unsigned False (map (\<lambda>(i, area). of_nat i) (rev glyphPairs)) (Leaf 0 0 64 64 (-1)) glyphmetrics 64 64)"

section \<open>Powers of two\<close>

definition nlpo2 :: "u32 \<Rightarrow> u32" where
  "nlpo2 x = (let x = x - 1; x = or x (drop_bit 1 x); x = or x (drop_bit 2 x); x = or x (drop_bit 4 x);
                  x = or x (drop_bit 8 x); x = or x (drop_bit 16 x) in x + 1)"

end
