(* ===== verification/RectpackLaws.thy ===== *)
theory RectpackLaws
  imports Rectpack
begin

text \<open>
  What the packer guarantees: the boxes of a page lie in it and do not overlap, each is as large as asked
  for, and one doubling of the page makes room for a box no larger than the page.
\<close>

section \<open>Well-formed trees\<close>

text \<open>The children of a node share its area; coordinates stay within \<open>int\<close>.\<close>

definition tiles :: "rect \<Rightarrow> rect \<Rightarrow> rect \<Rightarrow> bool" where
  "tiles p a b \<longleftrightarrow>
     rect_x a = rect_x p \<and> rect_y a = rect_y p \<and>
     (rect_h a = rect_h p \<and> rect_h b = rect_h p \<and> rect_y b = rect_y p \<and>
        rect_x b = rect_x p + rect_w a \<and> rect_w a + rect_w b = rect_w p
    \<or> rect_w a = rect_w p \<and> rect_w b = rect_w p \<and> rect_x b = rect_x p \<and>
        rect_y b = rect_y p + rect_h a \<and> rect_h a + rect_h b = rect_h p)"

definition on_page :: "rect \<Rightarrow> bool" where
  "on_page p \<longleftrightarrow> 0 \<le> rect_x p \<and> 0 \<le> rect_y p \<and> 0 \<le> rect_w p \<and> 0 \<le> rect_h p \<and>
     rect_x p + rect_w p < 2 ^ 31 \<and> rect_y p + rect_h p < 2 ^ 31"

fun wf_plane :: "rectpnode \<Rightarrow> bool" where
  "wf_plane (Leaf x y w h k) \<longleftrightarrow> on_page (rect_of (Leaf x y w h k))"
| "wf_plane (Split x y w h l r) \<longleftrightarrow> on_page (rect_of (Split x y w h l r)) \<and> wf_plane l \<and> wf_plane r \<and>
     tiles (rect_of (Split x y w h l r)) (rect_of l) (rect_of r)"

text \<open>The boxes in a tree, and the points of a rectangle.\<close>

fun held :: "rectpnode \<Rightarrow> (int \<times> rect) set" where
  "held (Leaf x y w h k) = (if k = -1 then {} else {(k, rect_of (Leaf x y w h k))})"
| "held (Split x y w h l r) = held l \<union> held r"

definition cells :: "rect \<Rightarrow> (int \<times> int) set" where
  "cells p = {(a, b). rect_x p \<le> a \<and> a < rect_x p + rect_w p \<and> rect_y p \<le> b \<and> b < rect_y p + rect_h p}"

definition fits_box :: "pvrect \<Rightarrow> rect \<Rightarrow> bool" where
  "fits_box b p \<longleftrightarrow> pw b \<le> rect_w p \<and> rect_w p < pw b + 2 \<and> ph b \<le> rect_h p \<and> rect_h p < ph b + 2"

lemma rect_of_simps [simp]:
  "rect_of (Leaf x y w h k) = \<lparr>rect_x = x, rect_y = y, rect_w = w, rect_h = h\<rparr>"
  "rect_of (Split x y w h l r) = \<lparr>rect_x = x, rect_y = y, rect_w = w, rect_h = h\<rparr>"
  by (simp_all add: rect_of_def)

lemma wf_plane_on_page: "wf_plane t \<Longrightarrow> on_page (rect_of t)"
  by (cases t) auto

lemma tiles_cells: "tiles p a b \<Longrightarrow> on_page a \<Longrightarrow> on_page b \<Longrightarrow> cells a \<union> cells b = cells p \<and> cells a \<inter> cells b = {}"
  by (auto simp: tiles_def cells_def on_page_def)

lemma held_inside: "wf_plane t \<Longrightarrow> (k, p) \<in> held t \<Longrightarrow> cells p \<subseteq> cells (rect_of t)"
proof (induction t)
  case (Split x y w h l r)
  then have "cells (rect_of l) \<union> cells (rect_of r) = cells (rect_of (Split x y w h l r))"
    using tiles_cells wf_plane_on_page by auto
  then show ?case using Split by auto
qed (auto split: if_splits)

lemma held_disjoint:
  "wf_plane t \<Longrightarrow> (i, p) \<in> held t \<Longrightarrow> (j, q) \<in> held t \<Longrightarrow> i \<noteq> j \<Longrightarrow> cells p \<inter> cells q = {}"
proof (induction t)
  case (Split x y w h l r)
  have "wf_plane l" "wf_plane r" using Split.prems(1) by auto
  moreover have "tiles (rect_of (Split x y w h l r)) (rect_of l) (rect_of r)" using Split.prems(1) by simp
  ultimately have d: "cells (rect_of l) \<inter> cells (rect_of r) = {}"
    using tiles_cells wf_plane_on_page by blast
  have "wf_plane l" "wf_plane r" using Split.prems(1) by auto
  then have sub: "(k, s) \<in> held l \<Longrightarrow> cells s \<subseteq> cells (rect_of l)" "(k, s) \<in> held r \<Longrightarrow> cells s \<subseteq> cells (rect_of r)" for k s
    by (auto dest: held_inside)
  consider "(i, p) \<in> held l" "(j, q) \<in> held l" | "(i, p) \<in> held l" "(j, q) \<in> held r"
    | "(i, p) \<in> held r" "(j, q) \<in> held l" | "(i, p) \<in> held r" "(j, q) \<in> held r"
    using Split.prems(2,3) by auto
  then show ?case
  proof cases
    case 2 then show ?thesis using sub d by blast
  next
    case 3 then show ?thesis using sub d by blast
  qed (use Split in auto)
qed (auto split: if_splits)

lemma held_bounds: "wf_plane t \<Longrightarrow> (k, p) \<in> held t \<Longrightarrow>
   on_page p \<and> rx t \<le> rect_x p \<and> ry t \<le> rect_y p \<and> rect_x p + rect_w p \<le> rx t + wid t \<and> rect_y p + rect_h p \<le> ry t + hgt t"
proof (induction t)
  case (Split x y w h l r)
  have "on_page (rect_of l)" "on_page (rect_of r)" using Split.prems(1) wf_plane_on_page by auto
  then show ?case using Split by (auto simp: tiles_def on_page_def rect_of_def; fastforce)
qed (auto split: if_splits simp: rect_of_def on_page_def)

section \<open>Insertion\<close>

lemma rnsplit_tiles:
  assumes "on_page (rect_of (Leaf x y ww hh k))" and "0 \<le> w" and "0 \<le> h" and "w \<le> ww" and "h \<le> hh"
    and "\<not> (ww - w < 2 \<and> hh - h < 2)"
  shows "\<exists>l r. rnsplit x y ww hh w h = Some (l, r) \<and> wf_plane (Split x y ww hh l r) \<and> held l = {} \<and> held r = {} \<and>
    w \<le> wid l \<and> h \<le> hgt l \<and> (\<exists>x1 y1 w1 h1. l = Leaf x1 y1 w1 h1 (-1))"
  using assms by (auto simp: rnsplit_def on_page_def rect_of_def tiles_def)

lemma rninsert_leaf:
  assumes "wf_plane (Leaf x y ww hh (-1))" and "arr_get boxes (unat c) = Some b" and "sint c \<noteq> -1"
    and "0 \<le> pw b" and "0 \<le> ph b" and "pw b \<le> ww" and "ph b \<le> hh"
  shows "\<exists>t' p. rninsert (Leaf x y ww hh (-1)) c boxes = Some (t', Some p) \<and> wf_plane t' \<and>
    rect_of t' = rect_of (Leaf x y ww hh (-1)) \<and> held t' = {(sint c, p)} \<and> fits_box b p"
  using assms
proof (induction "room_left (Leaf x y ww hh (-1)) c boxes" arbitrary: x y ww hh rule: less_induct)
  case less
  have op: "on_page (rect_of (Leaf x y ww hh (-1)))" using less.prems(1) by simp
  have rng: "ww - pw b < 2 ^ 31" "hh - ph b < 2 ^ 31" using op less.prems(4,5) by (auto simp: on_page_def rect_of_def)
  show ?case
  proof (cases "ww - pw b < 2 \<and> hh - ph b < 2")
    case True
    then show ?thesis using less.prems op by (auto simp: fits_box_def rect_of_def)
  next
    case False
    obtain l r where s: "rnsplit x y ww hh (pw b) (ph b) = Some (l, r)" "wf_plane (Split x y ww hh l r)"
      "held l = {}" "held r = {}" "pw b \<le> wid l" "ph b \<le> hgt l" and "\<exists>x1 y1 w1 h1. l = Leaf x1 y1 w1 h1 (-1)"
      using rnsplit_tiles[OF op less.prems(4-7) False] by blast
    then obtain x1 y1 w1 h1 where l: "l = Leaf x1 y1 w1 h1 (-1)" by blast
    have "room_left l c boxes < room_left (Leaf x y ww hh (-1)) c boxes"
      using rnsplit_room_left[OF s(1) less.prems(2)] less.prems(6,7) False by auto
    then obtain l' p where i: "rninsert l c boxes = Some (l', Some p)" "wf_plane l'" "rect_of l' = rect_of l"
      "held l' = {(sint c, p)}" "fits_box b p"
      using less.hyps[of x1 y1 w1 h1] s l less.prems by auto
    have "rninsert (Leaf x y ww hh (-1)) c boxes = Some (Split x y ww hh l' r, Some p)"
      using less.prems rng False s(1) i(1) by auto
    then show ?thesis using s i by (auto simp: rect_of_def)
  qed
qed

text \<open>The whole contract of \<open>rninsert\<close>.\<close>

lemma rninsert_spec:
  assumes "wf_plane t" and "arr_get boxes (unat c) = Some b" and "sint c \<noteq> -1" and "0 \<le> pw b" and "0 \<le> ph b"
  shows "\<exists>t' n. rninsert t c boxes = Some (t', n) \<and> wf_plane t' \<and> rect_of t' = rect_of t \<and>
    (case n of None \<Rightarrow> t' = t | Some p \<Rightarrow> held t' = insert (sint c, p) (held t) \<and> fits_box b p)"
  using assms(1)
proof (induction t)
  case (Leaf x y ww hh k)
  show ?case
  proof (cases "k = -1 \<and> pw b \<le> ww \<and> ph b \<le> hh")
    case True
    then show ?thesis using rninsert_leaf[of x y ww hh boxes c b] Leaf assms by fastforce
  next
    case False
    then show ?thesis using Leaf assms by auto
  qed
next
  case (Split x y ww hh l r)
  obtain l' n where l: "rninsert l c boxes = Some (l', n)" "wf_plane l'" "rect_of l' = rect_of l"
    "case n of None \<Rightarrow> l' = l | Some p \<Rightarrow> held l' = insert (sint c, p) (held l) \<and> fits_box b p"
    using Split by auto
  obtain r' n' where r: "rninsert r c boxes = Some (r', n')" "wf_plane r'" "rect_of r' = rect_of r"
    "case n' of None \<Rightarrow> r' = r | Some p \<Rightarrow> held r' = insert (sint c, p) (held r) \<and> fits_box b p"
    using Split by auto
  then show ?case using l r Split.prems by (cases n; cases n') auto
qed

lemma rninsert_fails_iff_no_room: "rninsert t c boxes = Some (t', None) \<Longrightarrow> wf_plane t \<Longrightarrow> arr_get boxes (unat c) = Some b \<Longrightarrow>
   sint c \<noteq> -1 \<Longrightarrow> 0 \<le> pw b \<Longrightarrow> 0 \<le> ph b \<Longrightarrow> t' = t"
  using rninsert_spec[of t boxes c b] by auto

section \<open>Expansion\<close>

lemma expand_spec:
  assumes "wf_plane t" and "rx t = 0" and "ry t = 0" and "w < 2 ^ 31" and "h < 2 ^ 31"
  shows "\<exists>t'. expand t w h = Some t' \<and> wf_plane t' \<and> held t' = held t \<and>
    rect_of t' = \<lparr>rect_x = 0, rect_y = 0, rect_w = max (wid t) w, rect_h = max (hgt t) h\<rparr>"
proof -
  have "on_page (rect_of t)" using wf_plane_on_page[OF assms(1)] .
  then show ?thesis using assms by (auto simp: expand_def on_page_def rect_of_def tiles_def max_def)
qed

section \<open>Pages\<close>

definition box_rect :: "pvrect \<Rightarrow> rect" where
  "box_rect b = \<lparr>rect_x = px b, rect_y = py b, rect_w = pw b, rect_h = ph b\<rparr>"

text \<open>The boxes \<open>P\<close> lie on a page of size \<open>w\<close> times \<open>h\<close>, as large as asked for, and do not overlap.\<close>

definition page_ok :: "pvrect list \<Rightarrow> nat set \<Rightarrow> pvrect list \<Rightarrow> int \<Rightarrow> int \<Rightarrow> bool" where
  "page_ok glyphs P boxes w h \<longleftrightarrow>
     (\<forall>i\<in>P. fits_box (glyphs ! i) (box_rect (boxes ! i)) \<and>
        0 \<le> px (boxes ! i) \<and> 0 \<le> py (boxes ! i) \<and> px (boxes ! i) + pw (boxes ! i) \<le> w \<and> py (boxes ! i) + ph (boxes ! i) \<le> h) \<and>
     (\<forall>i\<in>P. \<forall>j\<in>P. i \<noteq> j \<longrightarrow> cells (box_rect (boxes ! i)) \<inter> cells (box_rect (boxes ! j)) = {})"

text \<open>The state of the loops, with the boxes \<open>P\<close> placed.\<close>

definition pack_inv :: "pvrect list \<Rightarrow> nat set \<Rightarrow> rectpnode \<Rightarrow> pvrect list \<Rightarrow> bool" where
  "pack_inv glyphs P plane boxes \<longleftrightarrow>
     wf_plane plane \<and> rx plane = 0 \<and> ry plane = 0 \<and> length boxes = length glyphs \<and>
     (\<forall>i < length glyphs. i \<notin> P \<longrightarrow> boxes ! i = glyphs ! i) \<and> P \<subseteq> {..<length glyphs} \<and>
     held plane = (\<lambda>i. (int i, box_rect (boxes ! i))) ` P \<and>
     (\<forall>i\<in>P. fits_box (glyphs ! i) (box_rect (boxes ! i)))"

text \<open>Glyphs that the packer accepts: sizes are no negative \<open>int\<close>, and every index is one.\<close>

definition glyphs_ok :: "pvrect list \<Rightarrow> bool" where
  "glyphs_ok glyphs \<longleftrightarrow> length glyphs < 2 ^ 31 \<and> (\<forall>b\<in>set glyphs. 0 \<le> pw b \<and> 0 \<le> ph b)"

lemma sint_index: "unat (c :: u32) < 2 ^ 31 \<Longrightarrow> sint c = int (unat c)"
proof -
  assume "unat c < 2 ^ 31"
  then have "uint c < 2 ^ 31" by (simp only: unat_eq_nat_uint nat_less_numeral_power_cancel_iff)
  then show ?thesis using sint_small[of c] by simp
qed

lemma pack_inv_place:
  assumes "pack_inv glyphs P plane boxes" and "glyphs_ok glyphs" and "unat c < length glyphs" and "unat c \<notin> P"
  shows "\<exists>plane' n. rninsert plane c boxes = Some (plane', n) \<and> wid plane' = wid plane \<and> hgt plane' = hgt plane \<and>
    (case n of None \<Rightarrow> plane' = plane
     | Some p \<Rightarrow> \<exists>boxes'. rncopy p boxes c = Some boxes' \<and> pack_inv glyphs (insert (unat c) P) plane' boxes')"
proof -
  let ?b = "glyphs ! unat c"
  have b: "arr_get boxes (unat c) = Some ?b" "0 \<le> pw ?b" "0 \<le> ph ?b" "length boxes = length glyphs"
    using assms by (auto simp: pack_inv_def glyphs_ok_def)
  have c: "sint c = int (unat c)" using assms(2,3) by (intro sint_index) (simp add: glyphs_ok_def)
  then have "sint c \<noteq> -1" by linarith
  obtain t n where t: "rninsert plane c boxes = Some (t, n)" "wf_plane t" "rect_of t = rect_of plane"
    "case n of None \<Rightarrow> t = plane | Some p \<Rightarrow> held t = insert (sint c, p) (held plane) \<and> fits_box ?b p"
    using rninsert_spec[of plane boxes c ?b] assms(1) b \<open>sint c \<noteq> -1\<close> unfolding pack_inv_def by blast
  have dims: "wid t = wid plane" "hgt t = hgt plane" "rx t = rx plane" "ry t = ry plane"
    using t(3) by (simp_all add: rect_of_def)
  show ?thesis
  proof (cases n)
    case None
    then show ?thesis using t dims by auto
  next
    case (Some p)
    obtain boxes' where boxes': "rncopy p boxes c = Some boxes'" "length boxes' = length glyphs"
      "\<And>i. i \<noteq> unat c \<Longrightarrow> boxes' ! i = boxes ! i" "box_rect (boxes' ! unat c) = p"
      using b assms(3) by (auto simp: rncopy_def box_rect_def)
    have same: "boxes' ! i = boxes ! i" if "i \<in> P" for i using boxes'(3) assms(4) that by metis
    have "pack_inv glyphs (insert (unat c) P) t boxes'" unfolding pack_inv_def
    proof (intro conjI)
      have "(\<lambda>i. (int i, box_rect (boxes' ! i))) ` P = (\<lambda>i. (int i, box_rect (boxes ! i))) ` P"
        using same by (intro image_cong) auto
      then have "(\<lambda>i. (int i, box_rect (boxes' ! i))) ` P = held plane" using assms(1) by (simp add: pack_inv_def)
      then show "held t = (\<lambda>i. (int i, box_rect (boxes' ! i))) ` insert (unat c) P"
        using t(4) Some c boxes'(4) by (simp del: of_nat_unat)
      show "\<forall>i\<in>insert (unat c) P. fits_box (glyphs ! i) (box_rect (boxes' ! i))"
        using assms(1) t(4) Some boxes'(4) same by (auto simp: pack_inv_def)
      show "\<forall>i<length glyphs. i \<notin> insert (unat c) P \<longrightarrow> boxes' ! i = glyphs ! i"
        using assms(1) boxes'(3) by (auto simp: pack_inv_def)
    qed (use t dims assms boxes' in \<open>auto simp: pack_inv_def\<close>)
    then show ?thesis using t dims Some boxes'(1) by auto
  qed
qed

lemma pack_inv_expand:
  assumes "pack_inv glyphs P plane boxes" and "w < 2 ^ 31" and "h < 2 ^ 31"
  shows "\<exists>plane'. expand plane w h = Some plane' \<and> pack_inv glyphs P plane' boxes \<and>
    wid plane' = max (wid plane) w \<and> hgt plane' = max (hgt plane) h"
  using expand_spec[of plane w h] assms by (auto simp: pack_inv_def rect_of_def)

lemma pack_inv_page:
  assumes "pack_inv glyphs P plane boxes" and "wid plane \<le> w" and "hgt plane \<le> h"
  shows "page_ok glyphs P boxes w h"
proof -
  have h: "wf_plane plane" "(int i, box_rect (boxes ! i)) \<in> held plane" if "i \<in> P" for i
    using assms(1) that by (auto simp: pack_inv_def)
  have on: "0 \<le> px (boxes ! i) \<and> 0 \<le> py (boxes ! i) \<and> px (boxes ! i) + pw (boxes ! i) \<le> w \<and> py (boxes ! i) + ph (boxes ! i) \<le> h"
    if "i \<in> P" for i
    using held_bounds[OF h[OF that]] assms by (simp add: pack_inv_def on_page_def box_rect_def)
  show ?thesis unfolding page_ok_def
  proof (intro conjI ballI impI)
    fix i j assume "i \<in> P" "j \<in> P" "i \<noteq> j"
    then show "cells (box_rect (boxes ! i)) \<inter> cells (box_rect (boxes ! j)) = {}"
      using held_disjoint h by (metis of_nat_eq_iff)
  qed (use assms(1) on in \<open>auto simp: pack_inv_def\<close>)
qed

lemma pack_inv_empty: "0 \<le> w \<Longrightarrow> 0 \<le> h \<Longrightarrow> w < 2 ^ 31 \<Longrightarrow> h < 2 ^ 31 \<Longrightarrow> pack_inv glyphs {} (Leaf 0 0 w h (-1)) glyphs"
  by (simp add: pack_inv_def on_page_def)

section \<open>The loops\<close>

lemma shl1_int: "shl1 x = Some y \<Longrightarrow> x < 2 ^ 31 \<Longrightarrow> y < 2 ^ 31 \<and> (x \<le> y \<or> y < 0)"
  by (auto simp: shl1_def split: if_splits)

text \<open>
  With \<open>int\<close> sizes: after an overflow the page is no larger, the box at hand fails again, and the next
  shift is that of a negative number.
\<close>

lemma write_fonts_pack_page:
  assumes "write_fonts_pack rest plane boxes w h = Some (Packed t boxes' w' h')" and "glyphs_ok glyphs"
    and "pack_inv glyphs P plane boxes" and "w < 2 ^ 31" and "h < 2 ^ 31"
    and "distinct (map unat rest)" and "unat ` set rest \<inter> P = {}" and "unat ` set rest \<subseteq> {..<length glyphs}"
    and "wid plane = w \<and> hgt plane = h
      \<or> (w < 0 \<or> h < 0) \<and> rest \<noteq> [] \<and> rninsert plane (hd rest) boxes = Some (plane, None)"
  shows "page_ok glyphs (P \<union> unat ` set rest) boxes' w' h'"
  using assms
proof (induction rest plane boxes w h arbitrary: P rule: write_fonts_pack.induct)
  case (1 plane boxes w h)
  then show ?case using pack_inv_page by auto
next
  case (2 i rest plane boxes w h)
  have i: "unat i < length glyphs" "unat i \<notin> P" using "2.prems" by auto
  obtain plane' n where n: "rninsert plane i boxes = Some (plane', n)" "wid plane' = wid plane" "hgt plane' = hgt plane"
    "case n of None \<Rightarrow> plane' = plane
     | Some p \<Rightarrow> \<exists>boxes'. rncopy p boxes i = Some boxes' \<and> pack_inv glyphs (insert (unat i) P) plane' boxes'"
    using pack_inv_place[OF "2.prems"(3,2) i] by blast
  show ?case
  proof (cases n)
    case (Some p)
    then obtain bs where bs: "rncopy p boxes i = Some bs" "pack_inv glyphs (insert (unat i) P) plane' bs" using n(4) by auto
    have "page_ok glyphs (insert (unat i) P \<union> unat ` set rest) boxes' w' h'"
      by (rule "2.IH"(2)[OF n(1) _ Some bs(1)]) (use "2.prems" n bs Some in auto)
    then show ?thesis by simp
  next
    case None
    then have [simp]: "plane' = plane" using n(4) by simp
    obtain w1 h1 pl where g: "grow_page w h = Some (w1, h1)" "expand plane w1 h1 = Some pl" "\<not> (w1 = 0 \<or> h1 = 0)"
      "write_fonts_pack (i # rest) pl boxes w1 h1 = Some (Packed t boxes' w' h')"
      using "2.prems"(1) n(1) None by (auto split: if_splits bind_splits prod.splits)
    have size: "wid plane = w" "hgt plane = h"
      using "2.prems"(9) g(1) by (auto simp: grow_page_def shl1_def split: if_splits)
    have grown: "w1 < 2 ^ 31" "h1 < 2 ^ 31" "w \<le> w1 \<or> w1 < 0" "h \<le> h1 \<or> h1 < 0" "w1 = w \<or> h1 = h"
      using g(1) "2.prems"(4,5) shl1_int by (auto simp: grow_page_def split: if_splits)
    have dims: "0 \<le> wid plane" "0 \<le> hgt plane"
      using "2.prems"(3) wf_plane_on_page[of plane] by (auto simp: pack_inv_def on_page_def rect_of_def)
    obtain pl' where pl: "expand plane w1 h1 = Some pl'" "pack_inv glyphs P pl' boxes"
      "wid pl' = max (wid plane) w1" "hgt pl' = max (hgt plane) h1"
      using pack_inv_expand[OF "2.prems"(3) grown(1,2)] by blast
    then have [simp]: "pl' = pl" using g(2) by simp
    have "wid pl = w1 \<and> hgt pl = h1
      \<or> (w1 < 0 \<or> h1 < 0) \<and> i # rest \<noteq> [] \<and> rninsert pl (hd (i # rest)) boxes = Some (pl, None)"
    proof (cases "w1 < 0 \<or> h1 < 0")
      case True
      then have "pl = plane" using g(2) grown size dims by (auto simp: expand_def split: if_splits)
      then show ?thesis using True n(1) None by simp
    qed (use size grown pl in auto)
    then show ?thesis
      using "2.IH"(1)[OF n(1) refl None g(1) refl _ g(3,4)] g(2) "2.prems" pl grown by auto
  qed
qed

text \<open>With \<open>unsigned\<close> sizes the loop always ends, with a page or without one.\<close>

definition pow2_word :: "u32 \<Rightarrow> bool" where
  "pow2_word w \<longleftrightarrow> (\<exists>k < 32. w = 2 ^ k)"

lemma uint_pow2: "j < 32 \<Longrightarrow> uint (2 ^ j :: u32) = 2 ^ j"
proof -
  assume "j < 32"
  then have "(2 :: u32) ^ j \<noteq> 0" by (simp only: exp_eq_zero_iff) simp
  then have "(0 :: u32) < 2 ^ j" by (simp only: word_gt_0 not_False_eq_True)
  then show ?thesis by (rule uint_2p)
qed

lemma pow2_word_push: "pow2_word w \<Longrightarrow> push_bit 1 w = 0 \<or> pow2_word (push_bit 1 w) \<and> uint (push_bit 1 w) = 2 * uint w"
proof -
  assume "pow2_word w"
  then obtain k where k: "k < 32" "w = 2 ^ k" by (auto simp: pow2_word_def)
  have p: "push_bit 1 w = 2 ^ Suc k" using k by (simp add: push_bit_eq_mult)
  show ?thesis
  proof (cases "k = 31")
    case True
    then show ?thesis using p by simp
  next
    case False
    then have "Suc k < 32" using k by simp
    then have "pow2_word (push_bit 1 w)" unfolding pow2_word_def p by blast
    moreover have "uint (push_bit 1 w) = 2 ^ Suc k" by (simp only: p uint_pow2[OF \<open>Suc k < 32\<close>])
    then have "uint (push_bit 1 w) = 2 * uint w" by (simp only: k(2) uint_pow2[OF k(1)] power_Suc)
    ultimately show ?thesis by simp
  qed
qed

lemma pow2_64: "pow2_word 64"
  by (auto simp: pow2_word_def intro!: exI[of _ 6])

lemma sint_lt: "sint (w :: u32) < 2 ^ 31"
  using sint_lt[of w] by simp

lemma pack_unsigned_page:
  assumes "glyphs_ok glyphs" and "pack_inv glyphs P plane boxes"
    and "distinct (map unat rest)" and "unat ` set rest \<inter> P = {}" and "unat ` set rest \<subseteq> {..<length glyphs}"
    and "wid plane \<le> uint w" and "hgt plane \<le> uint h" and "fixed \<or> pow2_word w \<and> pow2_word h"
  shows "\<exists>pg. pack_unsigned fixed rest plane boxes w h = Some pg \<and>
    (\<forall>t boxes' w' h'. pg = Packed t boxes' w' h' \<longrightarrow> page_ok glyphs (P \<union> unat ` set rest) boxes' w' h')"
  using assms
proof (induction fixed rest plane boxes w h arbitrary: P rule: pack_unsigned.induct)
  case (1 fixed plane boxes w h)
  then show ?case using pack_inv_page by auto
next
  case (2 fixed i rest plane boxes w h)
  have i: "unat i < length glyphs" "unat i \<notin> P" using "2.prems" by auto
  obtain plane' n where n: "rninsert plane i boxes = Some (plane', n)" "wid plane' = wid plane" "hgt plane' = hgt plane"
    "case n of None \<Rightarrow> plane' = plane
     | Some p \<Rightarrow> \<exists>boxes'. rncopy p boxes i = Some boxes' \<and> pack_inv glyphs (insert (unat i) P) plane' boxes'"
    using pack_inv_place[OF "2.prems"(2,1) i] by blast
  show ?case
  proof (cases n)
    case (Some p)
    then obtain bs where bs: "rncopy p boxes i = Some bs" "pack_inv glyphs (insert (unat i) P) plane' bs" using n(4) by auto
    have "\<exists>pg. pack_unsigned fixed rest plane' bs w h = Some pg \<and> (\<forall>t boxes' w' h'. pg = Packed t boxes' w' h' \<longrightarrow>
      page_ok glyphs (insert (unat i) P \<union> unat ` set rest) boxes' w' h')"
      by (rule "2.IH"(2)[OF n(1) refl Some bs(1)]) (use "2.prems" n bs in auto)
    then show ?thesis using n(1) Some bs by simp
  next
    case None
    then have [simp]: "plane' = plane" using n(4) by simp
    show ?thesis
    proof (cases fixed)
      case True
      then show ?thesis using n(1) None by auto
    next
      case False
      then have p: "pow2_word w" "pow2_word h" using "2.prems"(8) by auto
      obtain w1 h1 where g: "grow_unsigned w h = (w1, h1)" by fastforce
      obtain pl where pl: "expand plane (sint w1) (sint h1) = Some pl" "pack_inv glyphs P pl boxes"
        "wid pl = max (wid plane) (sint w1)" "hgt pl = max (hgt plane) (sint h1)"
        using pack_inv_expand[OF "2.prems"(2) sint_lt sint_lt] by blast
      show ?thesis
      proof (cases "w1 = 0 \<or> h1 = 0")
        case True
        then show ?thesis using n(1) None False g pl by auto
      next
        case nz: False
        have grown: "uint w \<le> uint w1" "uint h \<le> uint h1" "pow2_word w1" "pow2_word h1"
          using nz g p pow2_word_push[of w] pow2_word_push[of h]
          by (auto simp: grow_unsigned_def split: if_splits)
        have "sint v \<le> uint v" for v :: u32
          using sint_small[of v] sint_lt[of v] by (cases "uint v < 2 ^ 31") auto
        then have "wid pl \<le> uint w1" "hgt pl \<le> uint h1" using pl grown "2.prems"(6,7) by auto
        then show ?thesis
          using "2.IH"(1)[OF n(1) refl None False g[symmetric] _ nz] g n(1) None False nz "2.prems" pl grown by auto
      qed
    qed
  qed
qed

section \<open>Properties\<close>

lemma box_order_perm: "length glyphs < 2 ^ 31 \<Longrightarrow> mset (map unat (box_order glyphs)) = mset [0..<length glyphs]"
proof -
  assume n: "length glyphs < 2 ^ 31"
  let ?ps = "map (\<lambda>i. (unat (of_int (pw (glyphs ! i)) * of_int (ph (glyphs ! i)) :: u32), i)) [0..<length glyphs]"
  let ?g = "\<lambda>(a :: nat, i). unat (of_nat i :: u32)"
  have "map unat (box_order glyphs) = map ?g (rev (sort ?ps))"
    by (simp add: box_order_def case_prod_beta')
  then have "mset (map unat (box_order glyphs)) = image_mset ?g (mset (rev (sort ?ps)))"
    by (simp only: mset_map)
  also have "\<dots> = image_mset ?g (mset ?ps)" by (simp only: mset_rev mset_sort)
  also have "\<dots> = image_mset (\<lambda>i. unat (of_nat i :: u32)) (mset [0..<length glyphs])"
    by (simp only: mset_map multiset.map_comp comp_def prod.case)
  also have "\<dots> = image_mset (\<lambda>i. i) (mset [0..<length glyphs])"
    using n by (intro image_mset_cong) (simp add: unat_of_nat)
  finally show ?thesis by simp
qed

lemma order_indices:
  assumes "mset (map unat rest) = mset [0..<n]"
  shows "distinct (map unat rest)" and "unat ` set rest = {..<n}"
proof -
  show "distinct (map unat rest)" using assms by (metis distinct_upt mset_eq_imp_distinct_iff)
  show "unat ` set rest = {..<n}" using mset_eq_setD[OF assms] by (simp add: atLeast0LessThan)
qed

text \<open>
  C32. The pages of glyphs that the compiler writes: when packing makes a page, every glyph has
  a place in it, at least as large as the glyph and at most one unit larger in each direction,
  and no two glyphs overlap.
\<close>

theorem font_page_disjoint:
  assumes "module_write_fonts glyphs = Some (Packed t boxes w h)" and "glyphs_ok glyphs"
  shows "page_ok glyphs {..<length glyphs} boxes w h"
proof -
  have n: "length glyphs < 2 ^ 31" using assms(2) by (simp add: glyphs_ok_def)
  have "page_ok glyphs ({} \<union> unat ` set (box_order glyphs)) boxes w h"
    by (rule write_fonts_pack_page[OF assms(1)[unfolded module_write_fonts_def] assms(2)])
      (use order_indices[OF box_order_perm[OF n]] pack_inv_empty in auto)
  then show ?thesis using order_indices(2)[OF box_order_perm[OF n]] by simp
qed

definition two_glyphs :: "pvrect list" where
  "two_glyphs = [\<lparr>px = 0, py = 0, pw = 40, ph = 30, placed = -1\<rparr>, \<lparr>px = 0, py = 0, pw = 50, ph = 60, placed = -1\<rparr>]"

lemma two_glyphs_order: "box_order two_glyphs = [1, 0]"
  by (simp add: two_glyphs_def box_order_def)

lemma two_glyphs_page: "\<exists>t boxes. module_write_fonts two_glyphs = Some (Packed t boxes 128 64)"
  unfolding module_write_fonts_def two_glyphs_order
  by (simp add: two_glyphs_def rnsplit_def expand_def grow_page_def shl1_def rncopy_def arr_get_def
      write_fonts_pack_place write_fonts_pack_grow del: write_fonts_pack.simps(2))

lemma font_page_disjoint_witness:
  "\<exists>t boxes. module_write_fonts two_glyphs = Some (Packed t boxes 128 64) \<and> page_ok two_glyphs {..<2} boxes 128 64"
proof -
  obtain t boxes where p: "module_write_fonts two_glyphs = Some (Packed t boxes 128 64)" using two_glyphs_page by blast
  have "page_ok two_glyphs {..<length two_glyphs} boxes 128 64"
    by (rule font_page_disjoint[OF p]) (simp add: glyphs_ok_def two_glyphs_def)
  moreover have "length two_glyphs = 2" by (simp add: two_glyphs_def)
  ultimately show ?thesis using p by auto
qed

text \<open>
  C33. Loading a font at run time: the packing loop returns for all glyphs, and when it
  makes a page, no two glyphs on it overlap.  The order of the glyphs does not matter.
\<close>

theorem font_add_returns:
  assumes "glyphs_ok glyphs" and "\<And>xs :: (nat \<times> u32) list. mset (srt xs) = mset xs"
  shows "\<exists>pg. font_add_pack srt glyphs = Some pg \<and>
    (\<forall>t boxes w h. pg = Packed t boxes w h \<longrightarrow> page_ok glyphs {..<length glyphs} boxes w h)"
proof -
  let ?ps = "map (\<lambda>i. (i, of_int (pw (glyphs ! i)) * of_int (ph (glyphs ! i)) :: u32)) [0..<length glyphs]"
  let ?rest = "map (\<lambda>(i, area). of_nat i :: u32) (rev (srt ?ps))"
  have n: "length glyphs < 2 ^ 31" using assms(1) by (simp add: glyphs_ok_def)
  have "mset (map unat ?rest) = image_mset (\<lambda>(i, area). unat (of_nat i :: u32)) (mset ?ps)"
    by (simp only: mset_map mset_rev assms(2) multiset.map_comp comp_def case_prod_beta')
  also have "\<dots> = image_mset (\<lambda>i. unat (of_nat i :: u32)) (mset [0..<length glyphs])"
    by (simp only: mset_map multiset.map_comp comp_def prod.case)
  also have "\<dots> = image_mset (\<lambda>i. i) (mset [0..<length glyphs])"
    using n by (intro image_mset_cong) (simp add: unat_of_nat)
  finally have perm: "mset (map unat ?rest) = mset [0..<length glyphs]" by simp
  note r = order_indices[OF perm]
  have "\<exists>pg. pack_unsigned False ?rest (Leaf 0 0 64 64 (-1)) glyphs 64 64 = Some pg \<and>
    (\<forall>t boxes w h. pg = Packed t boxes w h \<longrightarrow> page_ok glyphs ({} \<union> unat ` set ?rest) boxes w h)"
    by (rule pack_unsigned_page[OF assms(1) _ r(1)])
      (simp_all only: r(2) pow2_64, simp_all add: pack_inv_empty)
  then show ?thesis using r(2) by (simp add: font_add_pack_def)
qed

lemma font_add_returns_witness: "\<exists>pg. font_add_pack (\<lambda>xs. xs) two_glyphs = Some pg"
  using font_add_returns[of two_glyphs "\<lambda>xs. xs"] by (auto simp: glyphs_ok_def two_glyphs_def)

text \<open>
  The packing loop makes progress: on a page at least as large as the next box, one doubling
  of the page is enough to place the box.
\<close>

theorem doubling_makes_room:
  assumes "pack_inv glyphs P plane boxes" and "glyphs_ok glyphs" and "unat c < length glyphs" and "unat c \<notin> P"
    and "pw (glyphs ! unat c) \<le> wid plane" and "ph (glyphs ! unat c) \<le> hgt plane"
    and "rninsert plane c boxes = Some (plane, None)" and "0 < wid plane" and "0 < hgt plane"
    and "wid plane < 2 ^ 30" and "hgt plane < 2 ^ 30"
  shows "\<exists>w h bigger plane' p. grow_page (wid plane) (hgt plane) = Some (w, h) \<and> expand plane w h = Some bigger \<and>
    rninsert bigger c boxes = Some (plane', Some p) \<and> fits_box (glyphs ! unat c) p"
proof -
  let ?b = "glyphs ! unat c"
  have wf: "wf_plane plane" "rx plane = 0" "ry plane = 0" using assms(1) by (auto simp: pack_inv_def)
  have b: "arr_get boxes (unat c) = Some ?b" "0 \<le> pw ?b" "0 \<le> ph ?b"
    using assms by (auto simp: pack_inv_def glyphs_ok_def)
  have c: "sint c = int (unat c)" using assms(2,3) by (intro sint_index) (simp add: glyphs_ok_def)
  then have c1: "sint c \<noteq> -1" by linarith
  have leaf: "\<exists>t p. rninsert (Leaf x y (wid plane) (hgt plane) (-1)) c boxes = Some (t, Some p) \<and> fits_box ?b p"
    if "0 \<le> x" "0 \<le> y" "x < 2 ^ 30" "y < 2 ^ 30" for x y
    using rninsert_leaf[of x y "wid plane" "hgt plane" boxes c ?b] b c1 assms(5,6,8-11) that
    by (fastforce simp: on_page_def)
  show ?thesis
  proof (cases "hgt plane < wid plane")
    case True
    then have g: "grow_page (wid plane) (hgt plane) = Some (wid plane, 2 * hgt plane)"
      using assms(9,11) by (simp add: grow_page_def shl1_def)
    obtain t p where "rninsert (Leaf 0 (hgt plane) (wid plane) (hgt plane) (-1)) c boxes = Some (t, Some p)" "fits_box ?b p"
      using leaf[of 0 "hgt plane"] assms(9,11) by auto
    then show ?thesis using g wf assms(7-11) by (simp add: expand_def)
  next
    case False
    then have g: "grow_page (wid plane) (hgt plane) = Some (2 * wid plane, hgt plane)"
      using assms(8,10) by (simp add: grow_page_def shl1_def)
    obtain t p where "rninsert (Leaf (wid plane) 0 (wid plane) (hgt plane) (-1)) c boxes = Some (t, Some p)" "fits_box ?b p"
      using leaf[of "wid plane" 0] assms(8,10) by auto
    then show ?thesis using g wf assms(7-11) by (simp add: expand_def)
  qed
qed

definition full_page :: "pvrect list \<times> rectpnode" where
  "full_page = ([\<lparr>px = 0, py = 0, pw = 64, ph = 64, placed = -1\<rparr>, \<lparr>px = 0, py = 0, pw = 9, ph = 9, placed = -1\<rparr>],
     Leaf 0 0 64 64 0)"

lemma doubling_makes_room_witness:
  "\<exists>w h bigger plane' p. grow_page 64 64 = Some (w, h) \<and> expand (snd full_page) w h = Some bigger \<and>
    rninsert bigger 1 (fst full_page) = Some (plane', Some p) \<and> fits_box (fst full_page ! 1) p"
  using doubling_makes_room[of "fst full_page" "{0}" "snd full_page" "fst full_page" 1]
  by (simp add: full_page_def pack_inv_def on_page_def box_rect_def glyphs_ok_def fits_box_def)

section \<open>Powers of two\<close>

lemma smear_step:
  assumes "\<And>n. bit y n \<longleftrightarrow> (\<exists>k\<le>j. bit (x :: u32) (n + k))" and "d = Suc j" and "m = Suc (2 * j)"
  shows "bit (or y (drop_bit d y)) n \<longleftrightarrow> (\<exists>k\<le>m. bit x (n + k))"
proof -
  have "(\<exists>k\<le>j. bit x (n + k)) \<or> (\<exists>k\<le>j. bit x (Suc j + (n + k))) \<longleftrightarrow> (\<exists>k\<le>Suc (2 * j). bit x (n + k))" (is "?l \<longleftrightarrow> ?r")
  proof
    assume ?l
    then show ?r
    proof
      assume "\<exists>k\<le>j. bit x (Suc j + (n + k))"
      then obtain k where "k \<le> j" "bit x (n + (Suc j + k))" by (auto simp: ac_simps)
      then show ?r by (intro exI[of _ "Suc j + k"]) auto
    next
      assume "\<exists>k\<le>j. bit x (n + k)"
      then obtain k where "k \<le> j" "bit x (n + k)" by blast
      then show ?r by (intro exI[of _ k]) auto
    qed
  next
    assume ?r
    then obtain k where k: "k \<le> Suc (2 * j)" "bit x (n + k)" by blast
    show ?l
    proof (cases "k \<le> j")
      case False
      then have "bit x (Suc j + (n + (k - Suc j)))" "k - Suc j \<le> j" using k by auto
      then show ?l by blast
    qed (use k in blast)
  qed
  then show ?thesis by (simp only: bit_or_iff bit_drop_bit_eq comp_def assms add.assoc)
qed

definition smear :: "u32 \<Rightarrow> u32" where
  "smear x = (let x = or x (drop_bit 1 x); x = or x (drop_bit 2 x); x = or x (drop_bit 4 x); x = or x (drop_bit 8 x)
     in or x (drop_bit 16 x))"

lemma bit_smear: "bit (smear x) n \<longleftrightarrow> (\<exists>k\<ge>n. bit x k)"
proof -
  define x1 x2 x4 x8 where x: "x1 = or x (drop_bit 1 x)" "x2 = or x1 (drop_bit 2 x1)" "x4 = or x2 (drop_bit 4 x2)"
    "x8 = or x4 (drop_bit 8 x4)"
  have s: "bit x n \<longleftrightarrow> (\<exists>k\<le>0. bit x (n + k))" for n by simp
  have s1: "bit x1 n \<longleftrightarrow> (\<exists>k\<le>1. bit x (n + k))" for n unfolding x(1) by (rule smear_step[OF s]) simp_all
  have s2: "bit x2 n \<longleftrightarrow> (\<exists>k\<le>3. bit x (n + k))" for n unfolding x(2) by (rule smear_step[OF s1]) simp_all
  have s4: "bit x4 n \<longleftrightarrow> (\<exists>k\<le>7. bit x (n + k))" for n unfolding x(3) by (rule smear_step[OF s2]) simp_all
  have s8: "bit x8 n \<longleftrightarrow> (\<exists>k\<le>15. bit x (n + k))" for n unfolding x(4) by (rule smear_step[OF s4]) simp_all
  have "bit (or x8 (drop_bit 16 x8)) n \<longleftrightarrow> (\<exists>k\<le>31. bit x (n + k))" by (rule smear_step[OF s8]) simp_all
  moreover have "smear x = or x8 (drop_bit 16 x8)" by (simp only: smear_def Let_def x)
  moreover have "(\<exists>k\<le>31. bit x (n + k)) \<longleftrightarrow> (\<exists>k\<ge>n. bit x k)"
  proof
    assume "\<exists>k\<ge>n. bit x k"
    then obtain k where k: "n \<le> k" "bit x k" by blast
    then have "k < 32" using bit_imp_le_length[of x k] by simp
    then show "\<exists>k\<le>31. bit x (n + k)" using k by (intro exI[of _ "k - n"]) auto
  qed (use le_add1 in blast)
  ultimately show ?thesis by simp
qed

lemma smear_mask:
  assumes "uint x < 2 ^ m" and "m = 0 \<or> 2 ^ (m - 1) \<le> uint x"
  shows "smear x = mask m"
proof (rule bit_word_eqI)
  fix n assume n: "n < LENGTH(32)"
  have high: "bit x k \<Longrightarrow> k < m" for k
  proof (rule ccontr)
    assume "bit x k" "\<not> k < m"
    then have "bit (uint x) k" using bit_imp_le_length[of x k] by (simp add: bit_uint_iff)
    then have "odd (uint x div 2 ^ k)" using bit_iff_odd[of "uint x" k] by blast
    moreover have "(2 :: int) ^ m \<le> 2 ^ k" using \<open>\<not> k < m\<close> by (intro power_increasing) auto
    then have "uint x div 2 ^ k = 0" using assms(1) by (intro div_pos_pos_trivial) (simp, linarith)
    ultimately show False by simp
  qed
  have "bit x (m - 1)" if "0 < m"
  proof -
    have "2 ^ (m - 1) \<le> uint x" "uint x < 2 * 2 ^ (m - 1)" using assms that by (auto simp flip: power_Suc)
    then have "uint x div 2 ^ (m - 1) = 1" by (intro div_pos_geq[THEN trans]) auto
    then have "bit (uint x) (m - 1)" using bit_iff_odd[of "uint x" "m - 1"] by simp
    then show ?thesis by (simp add: bit_uint_iff)
  qed
  then show "bit (smear x) n \<longleftrightarrow> bit (mask m :: u32) n"
    unfolding bit_smear bit_mask_iff using high n by (auto intro: exI[of _ "m - 1"] dest: le_less_trans)
qed

text \<open>
  \<open>nlpo2\<close> returns the least power of two that is not smaller than its argument.
\<close>

lemma nlpo2_least:
  assumes "0 < uint x" and "uint x \<le> 2 ^ 31"
  shows "\<exists>m\<le>31. nlpo2 x = 2 ^ m \<and> uint x \<le> 2 ^ m \<and> (\<forall>k<m. 2 ^ k < uint x)"
proof -
  define z where "z = x - 1"
  have z: "uint z = uint x - 1"
    using assms by (simp add: z_def uint_word_ariths mod_pos_pos_trivial)
  define m where "m = (LEAST m. uint z < 2 ^ m)"
  have ex: "uint z < 2 ^ 31" using z assms by simp
  then have m: "uint z < 2 ^ m" unfolding m_def by (rule LeastI)
  have le: "m \<le> 31" unfolding m_def by (rule Least_le) (fact ex)
  have low: "2 ^ k \<le> uint z" if "k < m" for k
    using not_less_Least[OF that[unfolded m_def]] by simp
  have "smear z = mask m" by (rule smear_mask[OF m]) (use low[of "m - 1"] in \<open>cases m; simp\<close>)
  then have "nlpo2 x = 2 ^ m" by (simp add: nlpo2_def smear_def z_def Let_def mask_eq_exp_minus_1)
  then show ?thesis using le m low z by (intro exI[of _ m]) force
qed

end
