(* ===== verification/Pathfind.thy ===== *)
theory Pathfind
  imports Prelude Float64
begin

text \<open>
  The grids of the motion planning extension and the search for a path on them
  (\<open>Extensions/MotionPlanning/motion_planning_struct.cpp\<close> and \<open>motion_planning.cpp\<close>).  A pointer to a
  node is its index in the \<open>nodearray\<close> of its grid.  An access outside an array, a dereferenced null
  pointer and a conversion of a \<open>double\<close> out of range have the result \<open>None\<close>.
\<close>

section \<open>Grids\<close>

record mp_node =
  nx :: u32
  ny :: u32
  nF :: u32
  nH :: u32
  nG :: u32
  ncost :: u32
  came_from :: "nat option"
  neighbor_nodes :: "nat list"

definition new_node :: "u32 \<Rightarrow> u32 \<Rightarrow> u32 \<Rightarrow> mp_node" where
  "new_node x y cost = \<lparr>nx = x, ny = y, nF = 0, nH = 0, nG = 0, ncost = cost, came_from = None, neighbor_nodes = []\<rparr>"

record mp_grid =
  gleft :: int
  gtop :: int
  hcells :: u32
  vcells :: u32
  cellwidth :: u32
  cellheight :: u32
  threshold :: u32
  speed_modifier :: double
  nodearray :: "mp_node list"

text \<open>The indices a cell is linked to, in the order of the code; the arithmetic is that of \<open>unsigned\<close>.\<close>

definition neighbors :: "u32 \<Rightarrow> u32 \<Rightarrow> u32 \<Rightarrow> u32 \<Rightarrow> u32 list" where
  "neighbors h v i c =
     (if 0 < i
      then [(i - 1) * v + c] @ (if 0 < c then [(i - 1) * v + c - 1] else [])
             @ (if c < v - 1 then [(i - 1) * v + c + 1] else [])
      else [])
     @ (if 0 < c then [i * v + c - 1] else [])
     @ (if i < h - 1
        then [(i + 1) * v + c] @ (if 0 < c then [(i + 1) * v + c - 1] else [])
               @ (if c < v - 1 then [(i + 1) * v + c + 1] else [])
        else [])
     @ (if c < v - 1 then [i * v + c + 1] else [])"

definition link_cell :: "u32 \<Rightarrow> u32 \<Rightarrow> u32 \<times> u32 \<Rightarrow> mp_node list \<Rightarrow> mp_node list option" where
  "link_cell h v = (\<lambda>(i, c) nodes.
     do { n \<leftarrow> arr_get nodes (unat (i * v + c));
          let ns = map unat (neighbors h v i c);
          if list_all (\<lambda>k. k < length nodes) ns
          then arr_set nodes (unat (i * v + c)) (n\<lparr>neighbor_nodes := neighbor_nodes n @ ns\<rparr>)
          else None })"

definition cell_indices :: "u32 \<Rightarrow> u32 \<Rightarrow> (u32 \<times> u32) list" where
  "cell_indices h v = concat (map (\<lambda>i. map (\<lambda>c. (of_nat i, of_nat c)) [0..<unat v]) [0..<unat h])"

text \<open>The nodes of a grid with the given costs, linked; the count of nodes is \<open>unsigned\<close> too.\<close>

definition make_nodes :: "u32 \<Rightarrow> u32 \<Rightarrow> (nat \<Rightarrow> u32 option) \<Rightarrow> mp_node list option" where
  "make_nodes h v cost =
     do { nodes \<leftarrow> for_each [0..<unat (h * v)] (\<lambda>i nodes.
            do { k \<leftarrow> cost i; Some (nodes @ [new_node (of_nat i div v) (of_nat i mod v) k]) }) [];
          for_each (cell_indices h v) (link_cell h v) nodes }"

definition new_grid :: "int \<Rightarrow> int \<Rightarrow> u32 \<Rightarrow> u32 \<Rightarrow> u32 \<Rightarrow> u32 \<Rightarrow> u32 \<Rightarrow> double \<Rightarrow> mp_grid option" where
  "new_grid l t h v w hh thr speed =
     do { nodes \<leftarrow> make_nodes h v (\<lambda>i. Some 1);
          Some \<lparr>gleft = l, gtop = t, hcells = h, vcells = v, cellwidth = w, cellheight = hh,
                threshold = thr, speed_modifier = speed, nodearray = nodes\<rparr> }"

text \<open>
  \<open>gridstructarray\<close>: the first \<open>grid_idmax\<close> pointers, null for a destroyed grid.  \<open>mp_grid_create\<close>
  converts its sizes to \<open>unsigned\<close>.
\<close>

type_synonym mp_grids = "mp_grid option list"

definition grid_with_id :: "mp_grids \<Rightarrow> u32 \<Rightarrow> mp_grid option" where
  "grid_with_id gs gid = Option.bind (arr_get gs (unat gid)) (\<lambda>g. g)"

definition set_grid :: "mp_grids \<Rightarrow> u32 \<Rightarrow> mp_grid \<Rightarrow> mp_grids" where
  "set_grid gs gid g = gs[unat gid := Some g]"

definition mp_grid_create :: "mp_grids \<Rightarrow> int \<Rightarrow> int \<Rightarrow> int \<Rightarrow> int \<Rightarrow> int \<Rightarrow> int \<Rightarrow> double \<Rightarrow> (mp_grids \<times> u32) option" where
  "mp_grid_create gs l t h v w hh speed =
     do { g \<leftarrow> new_grid l t (of_int h) (of_int v) (of_int w) (of_int hh) 1 speed;
          Some (gs @ [Some g], of_nat (length gs)) }"

definition mp_grid_destroy :: "mp_grids \<Rightarrow> u32 \<Rightarrow> mp_grids option" where
  "mp_grid_destroy gs gid = map_option (\<lambda>g. gs[unat gid := None]) (arr_get gs (unat gid))"

definition mp_grid_copy :: "mp_grids \<Rightarrow> u32 \<Rightarrow> u32 \<Rightarrow> mp_grids option" where
  "mp_grid_copy gs gid srcid =
     do { g \<leftarrow> grid_with_id gs gid; s \<leftarrow> grid_with_id gs srcid;
          let s = (if gid = srcid then s\<lparr>nodearray := []\<rparr> else s);
          nodes \<leftarrow> make_nodes (hcells s) (vcells s) (\<lambda>i. map_option ncost (arr_get (nodearray s) i));
          Some (set_grid gs gid (s\<lparr>nodearray := nodes\<rparr>)) }"

section \<open>Costs\<close>

definition mp_grid_clear_all :: "mp_grids \<Rightarrow> u32 \<Rightarrow> u32 \<Rightarrow> mp_grids option" where
  "mp_grid_clear_all gs gid cost =
     map_option (\<lambda>g. set_grid gs gid (g\<lparr>threshold := cost, nodearray := map (\<lambda>n. n\<lparr>ncost := cost\<rparr>) (nodearray g)\<rparr>)) (grid_with_id gs gid)"

text \<open>\<open>h * vcells + v\<close>, where \<open>h\<close> and \<open>v\<close> are \<open>int\<close>.\<close>

definition node_number :: "mp_grid \<Rightarrow> int \<Rightarrow> int \<Rightarrow> nat" where
  "node_number g h v = unat (of_int h * vcells g + of_int v)"

definition set_cost :: "nat \<Rightarrow> u32 \<Rightarrow> mp_grid \<Rightarrow> mp_grid option" where
  "set_cost k cost g =
     do { n \<leftarrow> arr_get (nodearray g) k;
          Some (g\<lparr>nodearray := (nodearray g)[k := n\<lparr>ncost := cost\<rparr>]\<rparr>) }"

definition mp_grid_clear_cell :: "mp_grids \<Rightarrow> u32 \<Rightarrow> int \<Rightarrow> int \<Rightarrow> u32 \<Rightarrow> mp_grids option" where
  "mp_grid_clear_cell gs gid h v cost =
     do { g \<leftarrow> grid_with_id gs gid; g \<leftarrow> set_cost (node_number g h v) cost g;
          Some (set_grid gs gid (if threshold g < cost then g\<lparr>threshold := cost\<rparr> else g)) }"

definition mp_grid_add_cell :: "mp_grids \<Rightarrow> u32 \<Rightarrow> int \<Rightarrow> int \<Rightarrow> u32 \<Rightarrow> mp_grids option" where
  "mp_grid_add_cell gs gid h v cost =
     do { g \<leftarrow> grid_with_id gs gid;
          n \<leftarrow> arr_get (nodearray g) (node_number g h v);
          g \<leftarrow> set_cost (node_number g h v) cost g;
          let max_cost = (if ncost n < cost then cost else ncost n);
          Some (set_grid gs gid (if threshold g < max_cost then g\<lparr>threshold := max_cost\<rparr> else g)) }"

text \<open>
  The loops of \<open>mp_grid_add_rectangle\<close> (\<open>marked\<close> holds in all cells of the rectangle) and of
  \<open>mp_grid_add_instances\<close> (\<open>marked i c\<close> is that \<open>collision_rectangle\<close> hits an instance): the threshold is raised
  to the greatest cost met.
\<close>

definition mark_cell :: "(u32 \<Rightarrow> u32 \<Rightarrow> bool) \<Rightarrow> u32 \<Rightarrow> u32 \<times> u32 \<Rightarrow> mp_grid \<times> u32 \<Rightarrow> (mp_grid \<times> u32) option" where
  "mark_cell marked cost = (\<lambda>(i, c) (g, max_cost).
     do { n \<leftarrow> arr_get (nodearray g) (unat (i * vcells g + c));
          let max_cost = (if max_cost < ncost n then ncost n else max_cost);
          g \<leftarrow> (if marked i c then set_cost (unat (i * vcells g + c)) cost g else Some g);
          Some (g, max_cost) })"

definition mark_cells :: "(u32 \<Rightarrow> u32 \<Rightarrow> bool) \<Rightarrow> (u32 \<times> u32) list \<Rightarrow> mp_grids \<Rightarrow> u32 \<Rightarrow> u32 \<Rightarrow> mp_grids option" where
  "mark_cells marked cells gs gid cost =
     do { g \<leftarrow> grid_with_id gs gid;
          (g, max_cost) \<leftarrow> for_each cells (mark_cell marked cost) (g, 0);
          let max_cost = (if max_cost < cost then cost else max_cost);
          Some (set_grid gs gid (if threshold g < max_cost then g\<lparr>threshold := max_cost\<rparr> else g)) }"

text \<open>\<open>mp_grid_add_rectangle\<close> from the cells \<open>tx1\<close> to \<open>tx2\<close> and \<open>ty1\<close> to \<open>ty2\<close> that it computes.\<close>

definition rectangle_cells :: "u32 \<Rightarrow> u32 \<Rightarrow> u32 \<Rightarrow> u32 \<Rightarrow> (u32 \<times> u32) list" where
  "rectangle_cells tx1 tx2 ty1 ty2 =
     concat (map (\<lambda>i. map (\<lambda>c. (of_nat i, of_nat c)) [unat ty1..<unat ty2]) [unat tx1..<unat tx2])"

definition mp_grid_add_rectangle :: "mp_grids \<Rightarrow> u32 \<Rightarrow> u32 \<Rightarrow> u32 \<Rightarrow> u32 \<Rightarrow> u32 \<Rightarrow> u32 \<Rightarrow> mp_grids option" where
  "mp_grid_add_rectangle gs gid tx1 tx2 ty1 ty2 cost =
     mark_cells (\<lambda>i c. True) (rectangle_cells tx1 tx2 ty1 ty2) gs gid cost"

definition mp_grid_add_instances :: "(u32 \<Rightarrow> u32 \<Rightarrow> bool) \<Rightarrow> mp_grids \<Rightarrow> u32 \<Rightarrow> u32 \<Rightarrow> mp_grids option" where
  "mp_grid_add_instances collides gs gid cost =
     do { g \<leftarrow> grid_with_id gs gid; mark_cells collides (cell_indices (hcells g) (vcells g)) gs gid cost }"

definition mp_grid_reset_threshold :: "mp_grids \<Rightarrow> u32 \<Rightarrow> mp_grids option" where
  "mp_grid_reset_threshold gs gid =
     do { g \<leftarrow> grid_with_id gs gid;
          let max_cost = fold (\<lambda>n m. if m < ncost n then ncost n else m) (nodearray g) 0;
          Some (set_grid gs gid (g\<lparr>threshold := max_cost\<rparr>)) }"

definition mp_grid_get_cell :: "mp_grids \<Rightarrow> u32 \<Rightarrow> int \<Rightarrow> int \<Rightarrow> u32 option" where
  "mp_grid_get_cell gs gid h v = do { g \<leftarrow> grid_with_id gs gid; map_option ncost (arr_get (nodearray g) (node_number g h v)) }"

definition mp_grid_get_threshold :: "mp_grids \<Rightarrow> u32 \<Rightarrow> u32 option" where
  "mp_grid_get_threshold gs gid = map_option threshold (grid_with_id gs gid)"

definition mp_grid_set_threshold :: "mp_grids \<Rightarrow> u32 \<Rightarrow> u32 \<Rightarrow> mp_grids option" where
  "mp_grid_set_threshold gs gid x = map_option (\<lambda>g. set_grid gs gid (g\<lparr>threshold := x\<rparr>)) (grid_with_id gs gid)"

definition mp_grid_get_speed_modifier :: "mp_grids \<Rightarrow> u32 \<Rightarrow> double option" where
  "mp_grid_get_speed_modifier gs gid = map_option speed_modifier (grid_with_id gs gid)"

definition mp_grid_set_speed_modifier :: "mp_grids \<Rightarrow> u32 \<Rightarrow> double \<Rightarrow> mp_grids option" where
  "mp_grid_set_speed_modifier gs gid x = map_option (\<lambda>g. set_grid gs gid (g\<lparr>speed_modifier := x\<rparr>)) (grid_with_id gs gid)"

section \<open>Finding a path\<close>

text \<open>A \<open>multimap<unsigned, node *>\<close> is the sequence of its entries; equal keys stay in the order of insertion.\<close>

type_synonym open_list = "(u32 \<times> nat) list"

definition open_insert :: "u32 \<Rightarrow> nat \<Rightarrow> open_list \<Rightarrow> open_list" where
  "open_insert k x m = takeWhile (\<lambda>e. fst e \<le> k) m @ (k, x) # dropWhile (\<lambda>e. fst e \<le> k) m"

text \<open>The distance between two nodes; their coordinates are converted to \<open>int\<close> and subtracted there.\<close>

definition find_heuristic :: "mp_node \<Rightarrow> mp_node \<Rightarrow> bool \<Rightarrow> u32 option" where
  "find_heuristic n0 n1 allow_diag =
     do { dx \<leftarrow> i32 (sint (nx n0) - sint (nx n1));
          dy \<leftarrow> i32 (sint (ny n0) - sint (ny n1));
          let d = (if \<not> allow_diag then \<bar>dx\<bar> + \<bar>dy\<bar> else max \<bar>dx\<bar> \<bar>dy\<bar>);
          if d < 2 ^ 32 then Some (of_int d) else None }"

definition find_priority :: "open_list \<Rightarrow> nat \<Rightarrow> int" where
  "find_priority m x = (case find (\<lambda>e. snd e = x) m of Some e \<Rightarrow> sint (fst e) | None \<Rightarrow> -1)"

definition check_corners :: "u32 \<Rightarrow> mp_node list \<Rightarrow> mp_node \<Rightarrow> mp_node \<Rightarrow> bool option" where
  "check_corners thr nodes n0 n1 =
     (if list_all (\<lambda>k. k < length nodes) (neighbor_nodes n0)
      then Some (\<exists>a\<in>set (neighbor_nodes n0). \<exists>b\<in>set (neighbor_nodes n1). a = b \<and> thr \<le> ncost (nodes ! a))
      else None)"

definition diagonal :: "mp_node \<Rightarrow> mp_node \<Rightarrow> bool" where
  "diagonal n0 n1 \<longleftrightarrow> nx n1 \<noteq> nx n0 \<and> ny n1 \<noteq> ny n0"

text \<open>
  The cost of a step from \<open>cur\<close> to \<open>n\<close>.  The diagonal surcharge \<open>ceil(cost / 2.5)\<close> is added in \<open>double\<close>: the
  quotient is a multiple of 1/5 below \<open>2 ^ 32\<close>, so rounding it does not change its ceiling.
\<close>

definition step_G :: "mp_node \<Rightarrow> mp_node \<Rightarrow> u32 option" where
  "step_G cur n =
     (let G = nG cur + ncost n
      in if diagonal cur n
         then let d = uint G + \<lceil>rat_of_int (uint (ncost n)) / (5 / 2)\<rceil> in if d < 2 ^ 32 then Some (of_int d) else None
         else Some G)"

definition relax :: "mp_node list \<Rightarrow> nat \<Rightarrow> nat \<Rightarrow> nat \<Rightarrow> bool \<Rightarrow> mp_node list option" where
  "relax nodes cur it destination allow_diag =
     do { c \<leftarrow> arr_get nodes cur; n \<leftarrow> arr_get nodes it;
          G \<leftarrow> step_G c n;
          d \<leftarrow> arr_get nodes destination;
          H \<leftarrow> find_heuristic n d allow_diag;
          arr_set nodes it (n\<lparr>nF := G + H, nH := H, nG := G, came_from := Some cur\<rparr>) }"

text \<open>The body of the loop over the neighbors of the current node.\<close>

definition visit :: "u32 \<Rightarrow> bool \<Rightarrow> nat \<Rightarrow> nat list \<Rightarrow> nat \<Rightarrow> nat \<Rightarrow> mp_node list \<times> open_list \<Rightarrow> (mp_node list \<times> open_list) option" where
  "visit thr allow_diag destination CLOSED cur it = (\<lambda>(nodes, OPEN).
     do { c \<leftarrow> arr_get nodes cur; n \<leftarrow> arr_get nodes it;
          if \<not> allow_diag \<and> diagonal c n then Some (nodes, OPEN)
          else do {
            cutting \<leftarrow> (if allow_diag \<and> diagonal c n then check_corners thr nodes c n else Some False);
            if it \<notin> set CLOSED \<and> ncost n < thr \<and> \<not> cutting
            then if find_priority OPEN it = -1
                 then do { nodes' \<leftarrow> relax nodes cur it destination allow_diag;
                           n' \<leftarrow> arr_get nodes' it;
                           Some (nodes', open_insert (nF n') it OPEN) }
                 else if nG c + ncost n < nG n
                 then do { nodes' \<leftarrow> relax nodes cur it destination allow_diag; Some (nodes', OPEN) }
                 else Some (nodes, OPEN)
            else Some (nodes, OPEN) } })"

text \<open>The entry that is taken from the open list: the first with the least key.\<close>

definition least_entry :: "open_list \<Rightarrow> nat" where
  "least_entry m = fold (\<lambda>i it_check. if fst (m ! i) < fst (m ! it_check) then i else it_check) [1..<length m] 0"

definition expand_node :: "u32 \<Rightarrow> bool \<Rightarrow> nat \<Rightarrow> mp_node list \<Rightarrow> open_list \<Rightarrow> nat list \<Rightarrow> (mp_node list \<times> open_list \<times> nat list) option" where
  "expand_node thr allow_diag destination nodes OPEN CLOSED =
     (let k = least_entry OPEN; cur = snd (OPEN ! k); OPEN = take k OPEN @ drop (Suc k) OPEN; CLOSED = cur # CLOSED
      in do { c \<leftarrow> arr_get nodes cur;
              (nodes', OPEN') \<leftarrow> for_each (neighbor_nodes c) (visit thr allow_diag destination CLOSED cur) (nodes, OPEN);
              Some (nodes', OPEN', CLOSED) })"

partial_function (option) search :: "u32 \<Rightarrow> bool \<Rightarrow> nat \<Rightarrow> mp_node list \<Rightarrow> open_list \<Rightarrow> nat list \<Rightarrow> (mp_node list \<times> nat list) option" where
  "search thr allow_diag destination nodes OPEN CLOSED =
     (if destination \<notin> set CLOSED \<and> OPEN \<noteq> []
      then do { (nodes', OPEN', CLOSED') \<leftarrow> expand_node thr allow_diag destination nodes OPEN CLOSED;
                search thr allow_diag destination nodes' OPEN' CLOSED' }
      else Some (nodes, CLOSED))"

text \<open>The nearest node to the destination among the closed ones.\<close>

definition nearer :: "bool \<Rightarrow> nat \<Rightarrow> nat \<Rightarrow> nat \<times> mp_node list \<Rightarrow> (nat \<times> mp_node list) option" where
  "nearer allow_diag destination it = (\<lambda>(nearest, nodes).
     do { n \<leftarrow> arr_get nodes it; d \<leftarrow> arr_get nodes destination; H \<leftarrow> find_heuristic n d allow_diag;
          nodes \<leftarrow> arr_set nodes it (n\<lparr>nH := H\<rparr>);
          m \<leftarrow> arr_get nodes nearest;
          Some (if H < nH m then it else nearest, nodes) })"

definition find_nearest :: "bool \<Rightarrow> nat \<Rightarrow> nat list \<Rightarrow> nat \<Rightarrow> mp_node list \<Rightarrow> (nat \<times> mp_node list) option" where
  "find_nearest allow_diag destination CLOSED start nodes = for_each CLOSED (nearer allow_diag destination) (start, nodes)"

text \<open>The nodes from \<open>from_node\<close> back to \<open>start\<close>, both excluded, under the keys \<open>i + 1\<close>, \<open>i + 2\<close>, and so on.\<close>

partial_function (option) trace :: "mp_node list \<Rightarrow> nat \<Rightarrow> nat \<Rightarrow> u32 \<Rightarrow> open_list \<Rightarrow> open_list option" where
  "trace nodes start from_node i mm_ret =
     do { n \<leftarrow> arr_get nodes from_node;
          if came_from n = Some start then Some mm_ret
          else do { p \<leftarrow> came_from n; trace nodes start p (i + 1) (open_insert (i + 1) p mm_ret) } }"

text \<open>The nodes after the search, the path and the value of \<open>status\<close>.\<close>

definition find_path :: "mp_grid \<Rightarrow> nat \<Rightarrow> nat \<Rightarrow> bool \<Rightarrow> bool \<Rightarrow> (mp_node list \<times> open_list \<times> bool) option" where
  "find_path g n0 n1 allow_diag status =
     do { nodes \<leftarrow> for_each [0..<unat (hcells g * vcells g)]
            (\<lambda>i nodes. do { n \<leftarrow> arr_get nodes i; arr_set nodes i (n\<lparr>nF := 0, nH := 0, nG := 0, came_from := None\<rparr>) }) (nodearray g);
          if n0 = n1 then Some (nodes, [], status)
          else do {
            s \<leftarrow> arr_get nodes n0; d \<leftarrow> arr_get nodes n1;
            H \<leftarrow> find_heuristic s d allow_diag;
            let nodes = nodes[n0 := s\<lparr>nF := H, nH := H\<rparr>];
            (nodes, CLOSED) \<leftarrow> search (threshold g) allow_diag n1 nodes [(H, n0)] [];
            if n1 \<in> set CLOSED
            then map_option (\<lambda>path. (nodes, path, True)) (trace nodes n0 n1 0 [])
            else do {
              (nearest, nodes) \<leftarrow> find_nearest allow_diag n1 CLOSED n0 nodes;
              if n0 = nearest then Some (nodes, [], False)
              else map_option (\<lambda>path. (nodes, path, False)) (trace nodes n0 nearest 0 []) } } }"

end
