(* ===== verification/PathLaws.thy ===== *)
theory PathLaws
  imports Pathfind
begin

text \<open>
  What \<open>find_path\<close> guarantees: it returns, its status says whether the destination can be reached, and the
  nodes it returns are a walk over free cells.  \<open>ok_step\<close> is the specification of a step.
\<close>

section \<open>Steps\<close>

definition blocked_corner :: "mp_node list \<Rightarrow> u32 \<Rightarrow> nat \<Rightarrow> nat \<Rightarrow> bool" where
  "blocked_corner N thr a b \<longleftrightarrow>
     (\<exists>k\<in>set (neighbor_nodes (N ! a)) \<inter> set (neighbor_nodes (N ! b)). thr \<le> ncost (N ! k))"

definition ok_step :: "mp_node list \<Rightarrow> u32 \<Rightarrow> bool \<Rightarrow> nat \<Rightarrow> nat \<Rightarrow> bool" where
  "ok_step N thr allow_diag a b \<longleftrightarrow>
     a < length N \<and> b \<in> set (neighbor_nodes (N ! a)) \<and> ncost (N ! b) < thr \<and>
     (diagonal (N ! a) (N ! b) \<longrightarrow> allow_diag \<and> \<not> blocked_corner N thr a b)"

text \<open>The part of the nodes that a search does not change.\<close>

definition fixed_part :: "mp_node \<Rightarrow> u32 \<times> u32 \<times> u32 \<times> nat list" where
  "fixed_part n = (nx n, ny n, ncost n, neighbor_nodes n)"

definition shape :: "mp_node list \<Rightarrow> (u32 \<times> u32 \<times> u32 \<times> nat list) list" where
  "shape N = map fixed_part N"

definition wf_nodes :: "mp_node list \<Rightarrow> u32 \<Rightarrow> bool" where
  "wf_nodes N thr \<longleftrightarrow>
     (\<forall>n\<in>set N. (\<forall>k\<in>set (neighbor_nodes n). k < length N) \<and> unat (nx n) < 2 ^ 29 \<and> unat (ny n) < 2 ^ 29) \<and>
     2 * unat thr * (length N + 1) \<le> 2 ^ 30 \<and> length N < 2 ^ 31"

lemma shape_length: "shape M = shape N \<Longrightarrow> length M = length N"
  unfolding shape_def by (rule map_eq_imp_length_eq)

lemma shape_nth:
  assumes "shape M = shape N" and "x < length N"
  shows "nx (M ! x) = nx (N ! x)" "ny (M ! x) = ny (N ! x)" "ncost (M ! x) = ncost (N ! x)"
    "neighbor_nodes (M ! x) = neighbor_nodes (N ! x)"
proof -
  have "fixed_part (M ! x) = fixed_part (N ! x)"
    using assms(2) shape_length[OF assms(1)] arg_cong[OF assms(1), of "\<lambda>l. l ! x"] by (simp add: shape_def)
  then show "nx (M ! x) = nx (N ! x)" "ny (M ! x) = ny (N ! x)" "ncost (M ! x) = ncost (N ! x)"
    "neighbor_nodes (M ! x) = neighbor_nodes (N ! x)"
    by (simp_all add: fixed_part_def)
qed

lemma shape_update:
  assumes "shape M = shape N" and "fixed_part n = fixed_part (M ! x)"
  shows "shape (M[x := n]) = shape N"
proof -
  have "shape (M[x := n]) = (map fixed_part M)[x := fixed_part (M ! x)]" by (simp only: shape_def map_update assms(2))
  also have "\<dots> = map fixed_part M" by (cases "x < length M") (simp_all add: list_update_same_conv list_update_beyond)
  finally show ?thesis using assms(1) by (simp only: shape_def)
qed

lemma wf_nodes_nth:
  assumes "wf_nodes N thr" and "x < length N"
  shows "k \<in> set (neighbor_nodes (N ! x)) \<Longrightarrow> k < length N" and "unat (nx (N ! x)) < 2 ^ 29" and "unat (ny (N ! x)) < 2 ^ 29"
  using assms by (auto simp: wf_nodes_def)

section \<open>The parts of a visit\<close>

lemma sint_small_nat: "unat (w :: u32) < 2 ^ 31 \<Longrightarrow> sint w = int (unat w)"
proof -
  assume "unat w < 2 ^ 31"
  then have "uint w < 2 ^ 31" by (simp only: unat_eq_nat_uint nat_less_numeral_power_cancel_iff)
  then show ?thesis using sint_small[of w] by simp
qed

lemma abs_diff_int: "a < n \<Longrightarrow> b < n \<Longrightarrow> \<bar>int a - int b\<bar> < int n"
  by linarith

lemma find_heuristic_small:
  assumes "unat (nx n) < 2 ^ 29" "unat (ny n) < 2 ^ 29" "unat (nx d) < 2 ^ 29" "unat (ny d) < 2 ^ 29"
  shows "\<exists>H. find_heuristic n d allow_diag = Some H \<and> unat H < 2 ^ 30"
proof -
  have s: "sint (nx n) = int (unat (nx n))" "sint (ny n) = int (unat (ny n))" "sint (nx d) = int (unat (nx d))" "sint (ny d) = int (unat (ny d))"
    using assms by (intro sint_small_nat; simp)+
  let ?dx = "int (unat (nx n)) - int (unat (nx d))" and ?dy = "int (unat (ny n)) - int (unat (ny d))"
  have b: "\<bar>?dx\<bar> < 2 ^ 29" "\<bar>?dy\<bar> < 2 ^ 29" using abs_diff_int[OF assms(1,3)] abs_diff_int[OF assms(2,4)] by (simp_all only: of_nat_power of_nat_numeral)
  have i: "i32 ?dx = Some ?dx" "i32 ?dy = Some ?dy" using b by (auto simp: i32_def)
  define d' where "d' = (if \<not> allow_diag then \<bar>?dx\<bar> + \<bar>?dy\<bar> else max \<bar>?dx\<bar> \<bar>?dy\<bar>)"
  have d': "0 \<le> d'" "d' < 2 ^ 30" using b by (auto simp: d'_def)
  have "find_heuristic n d allow_diag = Some (of_int d')"
    using d' by (simp only: find_heuristic_def s i bind.bind_lunit d'_def[symmetric] Let_def) simp
  moreover have "uint (of_int d' :: u32) = d'" using d' by (simp add: uint_word_of_int)
  then have "unat (of_int d' :: u32) < 2 ^ 30" using d' by (simp add: unat_eq_nat_uint nat_less_iff)
  ultimately show ?thesis by blast
qed

lemma len32: "LENGTH(32) = 32"
  by simp

lemma step_G_small:
  assumes "unat (nG c) \<le> g" and "unat (ncost n) \<le> k" and "g + 2 * k < 2 ^ 31"
  shows "\<exists>G. step_G c n = Some G \<and> unat G \<le> g + 2 * k"
proof -
  have sum: "unat (nG c + ncost n) = unat (nG c) + unat (ncost n)"
    using assms by (intro unat_add_lem[THEN iffD1]) simp
  let ?e = "\<lceil>rat_of_int (uint (ncost n)) / (5 / 2)\<rceil>"
  have "0 \<le> rat_of_int (uint (ncost n))" by (simp only: of_int_0_le_iff uint_nonnegative)
  then have e: "0 \<le> ?e" "?e \<le> uint (ncost n)"
    by (simp_all only: ceiling_le_iff zero_le_ceiling) (simp_all add: field_simps)
  let ?d = "uint (nG c + ncost n) + ?e"
  have "uint (nG c + ncost n) = int (unat (nG c)) + int (unat (ncost n))" "uint (ncost n) = int (unat (ncost n))"
    using sum by (metis of_nat_add of_nat_unat) simp
  then have d: "0 \<le> ?d" "?d \<le> int (g + 2 * k)" using e assms(1,2) by linarith+
  moreover have "int (g + 2 * k) < int (2 ^ 31)" using assms(3) by (simp only: of_nat_less_iff)
  ultimately have d32: "?d < 2 ^ 32" by simp
  show ?thesis
  proof (cases "diagonal c n")
    case True
    have "uint (of_int ?d :: u32) = ?d" using d(1) d32 uint_word_of_int_eq[of ?d, where ?'a = 32] by (simp only: take_bit_int_eq_self len32)
    then have "int (unat (of_int ?d :: u32)) \<le> int (g + 2 * k)" using d(2) by simp
    then have "unat (of_int ?d :: u32) \<le> g + 2 * k" by (simp only: of_nat_le_iff)
    moreover have "step_G c n = Some (of_int ?d)" using True d32 by (simp add: step_G_def Let_def)
    ultimately show ?thesis by blast
  next
    case False
    then have "step_G c n = Some (nG c + ncost n)" by (simp add: step_G_def)
    then show ?thesis using sum assms(1,2) by auto
  qed
qed

lemma mset_open_insert: "mset (open_insert k x m) = add_mset (k, x) (mset m)"
  by (simp add: open_insert_def) (metis mset_append takeWhile_dropWhile_id)

lemma set_open_insert [simp]: "set (open_insert k x m) = insert (k, x) (set m)"
  using arg_cong[OF mset_open_insert[of k x m], of set_mset] by simp

lemma find_priority_absent: "x \<notin> snd ` set m \<Longrightarrow> find_priority m x = -1"
  by (auto simp: find_priority_def find_None_iff find_Some_iff split: option.split)

lemma find_priority_present:
  assumes "x \<in> snd ` set m" and "\<forall>e\<in>set m. unat (fst e) < 2 ^ 31"
  shows "find_priority m x \<noteq> -1"
proof -
  obtain e where e: "find (\<lambda>e. snd e = x) m = Some e" "e \<in> set m"
    using assms(1) by (cases "find (\<lambda>e. snd e = x) m") (auto simp: find_None_iff find_Some_iff)
  then have "sint (fst e) = int (unat (fst e))" using assms(2) by (intro sint_small_nat) auto
  then have "sint (fst e) \<noteq> -1" by linarith
  then show ?thesis using e(1) by (simp add: find_priority_def)
qed

section \<open>A visit\<close>

abbreviation opens :: "open_list \<Rightarrow> nat set" where
  "opens m \<equiv> snd ` set m"

text \<open>
  The state of the search from \<open>s\<close>, with \<open>N\<close> the nodes at the start: every node on one of the lists has
  been reached by a step from a closed node, and costs stay in range.
\<close>

definition search_inv :: "mp_node list \<Rightarrow> u32 \<Rightarrow> bool \<Rightarrow> nat \<Rightarrow> nat list \<Rightarrow> mp_node list \<Rightarrow> open_list \<Rightarrow> bool" where
  "search_inv N thr dg s CLOSED nodes OPEN \<longleftrightarrow>
     shape nodes = shape N \<and> distinct (map snd OPEN) \<and> opens OPEN \<subseteq> {..<length N} \<and> opens OPEN \<inter> set CLOSED = {} \<and>
     (\<forall>e\<in>set OPEN. unat (fst e) < 2 ^ 31) \<and>
     (\<forall>x\<in>set CLOSED \<union> opens OPEN. x \<noteq> s \<longrightarrow> (\<exists>p\<in>set CLOSED. came_from (nodes ! x) = Some p \<and> ok_step N thr dg p x)) \<and>
     (\<forall>x<length N. unat (nG (nodes ! x)) \<le> 2 * unat thr * length CLOSED)"

lemma relax_spec:
  assumes wf: "wf_nodes N thr" and sh: "shape nodes = shape N"
    and lt: "cur < length N" "it < length N" "d < length N" "ncost (N ! it) < thr"
    and C: "0 < c" "c \<le> length N" and G: "unat (nG (nodes ! cur)) \<le> 2 * unat thr * (c - 1)"
  shows "\<exists>n'. relax nodes cur it d dg = Some (nodes[it := n']) \<and> fixed_part n' = fixed_part (nodes ! it) \<and>
    came_from n' = Some cur \<and> unat (nF n') < 2 ^ 31 \<and> unat (nG n') \<le> 2 * unat thr * c"
proof -
  note len = shape_length[OF sh] and nth = shape_nth[OF sh]
  have thr: "2 * unat thr * (c - 1) + 2 * unat thr = 2 * unat thr * c"
    using C(1) by (cases c) (simp_all add: algebra_simps)
  have "2 * unat thr * c \<le> 2 * unat thr * (length N + 1)" using C(2) by (intro mult_le_mono2) simp
  also have "\<dots> \<le> 2 ^ 30" using wf unfolding wf_nodes_def by (elim conjE)
  finally have b: "2 * unat thr * c \<le> 2 ^ 30" .
  have "unat (ncost (nodes ! it)) \<le> unat thr" using lt(4) nth(3)[OF lt(2)] by (simp add: word_less_nat_alt)
  then obtain g where g: "step_G (nodes ! cur) (nodes ! it) = Some g" "unat g \<le> 2 * unat thr * c"
    using step_G_small[OF G, of "nodes ! it" "unat thr"] thr b by auto
  have co: "unat (nx (nodes ! x)) < 2 ^ 29" "unat (ny (nodes ! x)) < 2 ^ 29" if "x < length N" for x
    using wf_nodes_nth(2,3)[OF wf that] nth(1,2)[OF that] by simp_all
  obtain h where h: "find_heuristic (nodes ! it) (nodes ! d) dg = Some h" "unat h < 2 ^ 30"
    using find_heuristic_small[OF co[OF lt(2)] co[OF lt(3)]] by blast
  have "unat g + unat h < 2 ^ 30 + 2 ^ 30" using g(2) h(2) b by linarith
  then have "unat g + unat h < 2 ^ 31" by simp
  then have "unat (g + h) < 2 ^ 31" by (subst unat_add_lem[THEN iffD1]) simp_all
  moreover let ?n = "(nodes ! it)\<lparr>nF := g + h, nH := h, nG := g, came_from := Some cur\<rparr>"
  have "relax nodes cur it d dg = Some (nodes[it := ?n])" using g h lt len by (simp add: relax_def)
  ultimately show ?thesis using g(2) by (intro exI[of _ ?n]) (simp add: fixed_part_def)
qed

lemma visit_eq:
  assumes wf: "wf_nodes N thr" and sh: "shape nodes = shape N" and lt: "cur < length N" and it: "it \<in> set (neighbor_nodes (N ! cur))"
    and keys: "\<forall>e\<in>set OPEN. unat (fst e) < 2 ^ 31"
  shows "visit thr dg d CLOSED cur it (nodes, OPEN) =
    (if ok_step N thr dg cur it \<and> it \<notin> set CLOSED
     then if it \<notin> opens OPEN
          then do { nodes' \<leftarrow> relax nodes cur it d dg; n' \<leftarrow> arr_get nodes' it; Some (nodes', open_insert (nF n') it OPEN) }
          else if nG (nodes ! cur) + ncost (nodes ! it) < nG (nodes ! it)
          then do { nodes' \<leftarrow> relax nodes cur it d dg; Some (nodes', OPEN) }
          else Some (nodes, OPEN)
     else Some (nodes, OPEN))"
proof -
  note len = shape_length[OF sh] and nth = shape_nth[OF sh]
  have itl: "it < length N" using wf_nodes_nth(1)[OF wf lt it] .
  have nb: "\<forall>k\<in>set (neighbor_nodes (N ! cur)). k < length N" using wf_nodes_nth(1)[OF wf lt] by blast
  have diag: "diagonal (nodes ! cur) (nodes ! it) = diagonal (N ! cur) (N ! it)"
    using nth[OF lt] nth[OF itl] by (simp add: diagonal_def)
  have corner: "check_corners thr nodes (nodes ! cur) (nodes ! it) = Some (blocked_corner N thr cur it)"
    using nth[OF lt] nth[OF itl] nth(3) nb len by (fastforce simp: check_corners_def blocked_corner_def list_all_iff)
  have prio: "find_priority OPEN it = -1 \<longleftrightarrow> it \<notin> opens OPEN"
    using find_priority_absent find_priority_present[OF _ keys] by blast
  show ?thesis
    using lt itl len it nth(3)[OF itl]
    by (cases dg; cases "diagonal (N ! cur) (N ! it)"; cases "blocked_corner N thr cur it"; cases "it \<in> opens OPEN")
      (simp_all add: visit_def diag corner ok_step_def prio)
qed

lemma visit_spec:
  assumes wf: "wf_nodes N thr" and inv: "search_inv N thr dg s CLOSED nodes OPEN"
    and cur: "cur < length N" "cur \<in> set CLOSED" and it: "it \<in> set (neighbor_nodes (N ! cur))" and d: "d < length N"
    and C: "length CLOSED \<le> length N" and s: "s \<in> set CLOSED"
    and G: "unat (nG (nodes ! cur)) \<le> 2 * unat thr * (length CLOSED - 1)"
  shows "\<exists>nodes' OPEN'. visit thr dg d CLOSED cur it (nodes, OPEN) = Some (nodes', OPEN') \<and>
    search_inv N thr dg s CLOSED nodes' OPEN' \<and> opens OPEN \<subseteq> opens OPEN' \<and>
    (ok_step N thr dg cur it \<longrightarrow> it \<in> set CLOSED \<union> opens OPEN') \<and> (\<forall>x\<in>set CLOSED. nodes' ! x = nodes ! x)"
proof -
  have sh: "shape nodes = shape N" and keys: "\<forall>e\<in>set OPEN. unat (fst e) < 2 ^ 31" using inv by (simp_all add: search_inv_def)
  note eq = visit_eq[OF wf sh cur(1) it keys, of dg d CLOSED]
  have itl: "it < length N" using wf_nodes_nth(1)[OF wf cur(1) it] .
  note len = shape_length[OF sh]
  show ?thesis
  proof (cases "ok_step N thr dg cur it \<and> it \<notin> set CLOSED")
    case ok: True
    have "ncost (N ! it) < thr" "0 < length CLOSED" using ok cur(2) by (auto simp: ok_step_def)
    then obtain n' where n': "relax nodes cur it d dg = Some (nodes[it := n'])" "fixed_part n' = fixed_part (nodes ! it)"
      "came_from n' = Some cur" "unat (nF n') < 2 ^ 31" "unat (nG n') \<le> 2 * unat thr * length CLOSED"
      using relax_spec[OF wf sh cur(1) itl d _ _ C G] by blast
    have sh': "shape (nodes[it := n']) = shape N" by (rule shape_update[OF sh n'(2)])
    have other: "nodes[it := n'] ! x = (if x = it then n' else nodes ! x)" for x
      using itl len by simp
    have it_s: "it \<noteq> s" using ok s by blast
    show ?thesis
    proof (cases "it \<in> opens OPEN")
      case True
      then have vis: "visit thr dg d CLOSED cur it (nodes, OPEN) \<in> {Some (nodes[it := n'], OPEN), Some (nodes, OPEN)}"
        using eq ok n'(1) by simp
      have "search_inv N thr dg s CLOSED (nodes[it := n']) OPEN"
        using inv sh' n' ok cur True other unfolding search_inv_def by auto
      moreover have "\<forall>x\<in>set CLOSED. nodes[it := n'] ! x = nodes ! x" using ok other by auto
      ultimately show ?thesis using vis inv True by blast
    next
      case False
      then have vis: "visit thr dg d CLOSED cur it (nodes, OPEN) = Some (nodes[it := n'], open_insert (nF n') it OPEN)"
        using eq ok n'(1) itl len by simp
      have dist: "distinct (map snd (open_insert (nF n') it OPEN))"
      proof -
        have "mset (map snd (open_insert (nF n') it OPEN)) = mset (it # map snd OPEN)"
          by (simp add: mset_open_insert)
        then show ?thesis using False inv by (simp add: search_inv_def mset_eq_imp_distinct_iff[of _ "it # map snd OPEN"])
      qed
      have "search_inv N thr dg s CLOSED (nodes[it := n']) (open_insert (nF n') it OPEN)"
        using inv sh' n' ok cur itl dist other unfolding search_inv_def by auto
      then show ?thesis using vis ok other by auto
    qed
  next
    case False
    then show ?thesis using eq inv by auto
  qed
qed

text \<open>The loop over the neighbors.\<close>

lemma visits_spec:
  assumes wf: "wf_nodes N thr" and inv: "search_inv N thr dg s CLOSED nodes OPEN"
    and cur: "cur < length N" "cur \<in> set CLOSED" and its: "set its \<subseteq> set (neighbor_nodes (N ! cur))" and d: "d < length N"
    and C: "length CLOSED \<le> length N" and s: "s \<in> set CLOSED"
    and G: "unat (nG (nodes ! cur)) \<le> 2 * unat thr * (length CLOSED - 1)"
  shows "\<exists>nodes' OPEN'. for_each its (visit thr dg d CLOSED cur) (nodes, OPEN) = Some (nodes', OPEN') \<and>
    search_inv N thr dg s CLOSED nodes' OPEN' \<and> opens OPEN \<subseteq> opens OPEN' \<and>
    (\<forall>it\<in>set its. ok_step N thr dg cur it \<longrightarrow> it \<in> set CLOSED \<union> opens OPEN') \<and> (\<forall>x\<in>set CLOSED. nodes' ! x = nodes ! x)"
  using inv its G
proof (induction its arbitrary: nodes OPEN)
  case (Cons it its)
  obtain nodes1 OPEN1 where v: "visit thr dg d CLOSED cur it (nodes, OPEN) = Some (nodes1, OPEN1)"
    "search_inv N thr dg s CLOSED nodes1 OPEN1" "opens OPEN \<subseteq> opens OPEN1"
    "ok_step N thr dg cur it \<longrightarrow> it \<in> set CLOSED \<union> opens OPEN1" "\<forall>x\<in>set CLOSED. nodes1 ! x = nodes ! x"
    using visit_spec[OF wf Cons.prems(1) cur _ d C s Cons.prems(3), of it] Cons.prems(2) by auto
  have G1: "unat (nG (nodes1 ! cur)) \<le> 2 * unat thr * (length CLOSED - 1)" using Cons.prems(3) v(5) cur(2) by simp
  have "set its \<subseteq> set (neighbor_nodes (N ! cur))" using Cons.prems(2) by simp
  from Cons.IH[OF v(2) this G1]
  obtain nodes2 OPEN2 where r: "for_each its (visit thr dg d CLOSED cur) (nodes1, OPEN1) = Some (nodes2, OPEN2)"
    "search_inv N thr dg s CLOSED nodes2 OPEN2" "opens OPEN1 \<subseteq> opens OPEN2"
    "\<forall>it\<in>set its. ok_step N thr dg cur it \<longrightarrow> it \<in> set CLOSED \<union> opens OPEN2" "\<forall>x\<in>set CLOSED. nodes2 ! x = nodes1 ! x"
    by blast
  have "for_each (it # its) (visit thr dg d CLOSED cur) (nodes, OPEN) = Some (nodes2, OPEN2)" using v(1) r(1) by simp
  moreover have "\<forall>x\<in>set CLOSED. nodes2 ! x = nodes ! x" using v(5) r(5) by simp
  moreover have "\<forall>i\<in>set (it # its). ok_step N thr dg cur i \<longrightarrow> i \<in> set CLOSED \<union> opens OPEN2"
    using v(4) r(3,4) by auto
  ultimately show ?case using r(2) v(3) r(3) by blast
qed (use assms in auto)

section \<open>The search\<close>

text \<open>Every closed node but \<open>s\<close> was reached from one that was closed before it.\<close>

fun chain :: "nat \<Rightarrow> mp_node list \<Rightarrow> nat list \<Rightarrow> bool" where
  "chain s nodes [] = True"
| "chain s nodes (x # xs) = ((x = s \<or> (\<exists>p\<in>set xs. came_from (nodes ! x) = Some p)) \<and> chain s nodes xs)"

lemma chain_cong: "(\<And>x. x \<in> set xs \<Longrightarrow> came_from (nodes' ! x) = came_from (nodes ! x)) \<Longrightarrow> chain s nodes' xs = chain s nodes xs"
  by (induction xs) auto

definition loop_inv :: "mp_node list \<Rightarrow> u32 \<Rightarrow> bool \<Rightarrow> nat \<Rightarrow> nat list \<Rightarrow> mp_node list \<Rightarrow> open_list \<Rightarrow> bool" where
  "loop_inv N thr dg s CLOSED nodes OPEN \<longleftrightarrow>
     search_inv N thr dg s CLOSED nodes OPEN \<and> distinct CLOSED \<and> set CLOSED \<subseteq> {..<length N} \<and> chain s nodes CLOSED \<and>
     (\<forall>x\<in>set CLOSED. \<forall>y. ok_step N thr dg x y \<longrightarrow> y \<in> set CLOSED \<union> opens OPEN) \<and>
     (if CLOSED = [] then opens OPEN = {s} else s \<in> set CLOSED)"

lemma least_entry_less: "m \<noteq> [] \<Longrightarrow> least_entry m < length m"
proof -
  assume "m \<noteq> []"
  have "set is \<subseteq> {..<length m} \<Longrightarrow> b < length m \<Longrightarrow>
    fold (\<lambda>i it_check. if fst (m ! i) < fst (m ! it_check) then i else it_check) is b < length m" for "is" b
    by (induction "is" arbitrary: b) auto
  from this[of "[1..<length m]" 0] show ?thesis using \<open>m \<noteq> []\<close> by (simp add: least_entry_def subset_iff)
qed

lemma mset_remove_nth: "k < length xs \<Longrightarrow> mset xs = add_mset (xs ! k) (mset (take k xs @ drop (Suc k) xs))"
  by (metis id_take_nth_drop mset_append mset.simps(2) union_mset_add_mset_right)

lemma search_inv_pop:
  assumes inv: "search_inv N thr dg s CLOSED nodes OPEN" and k: "k < length OPEN"
    and ne: "CLOSED = [] \<Longrightarrow> opens OPEN = {s}"
  defines "cur \<equiv> snd (OPEN ! k)" and "OPEN1 \<equiv> take k OPEN @ drop (Suc k) OPEN"
  shows "search_inv N thr dg s (cur # CLOSED) nodes OPEN1 \<and> opens OPEN = insert cur (opens OPEN1) \<and> cur \<notin> set CLOSED \<and>
    cur < length N \<and> (cur = s \<or> (\<exists>p\<in>set CLOSED. came_from (nodes ! cur) = Some p \<and> ok_step N thr dg p cur)) \<and>
    unat (nG (nodes ! cur)) \<le> 2 * unat thr * length CLOSED"
proof -
  have m: "mset OPEN = add_mset (OPEN ! k) (mset OPEN1)" unfolding OPEN1_def by (rule mset_remove_nth[OF k])
  have st: "set OPEN = insert (OPEN ! k) (set OPEN1)" using arg_cong[OF m, of set_mset] by simp
  then have o: "opens OPEN = insert cur (opens OPEN1)" by (simp add: cur_def)
  have "mset (map snd OPEN) = mset (cur # map snd OPEN1)" using m by (simp add: cur_def)
  moreover have "distinct (map snd OPEN)" using inv by (simp add: search_inv_def)
  ultimately have dist: "distinct (cur # map snd OPEN1)" using mset_eq_imp_distinct_iff by blast
  have le: "2 * unat thr * length CLOSED \<le> 2 * unat thr * length (cur # CLOSED)" by (intro mult_le_mono2) simp
  have cur: "cur \<in> opens OPEN" using o by simp
  have reach: "x \<noteq> s \<Longrightarrow> x \<in> set CLOSED \<union> opens OPEN \<Longrightarrow> \<exists>p\<in>set CLOSED. came_from (nodes ! x) = Some p \<and> ok_step N thr dg p x" for x
    using inv by (auto simp: search_inv_def)
  have G: "x < length N \<Longrightarrow> unat (nG (nodes ! x)) \<le> 2 * unat thr * length CLOSED" for x
    using inv by (auto simp: search_inv_def)
  have "search_inv N thr dg s (cur # CLOSED) nodes OPEN1" unfolding search_inv_def
  proof (intro conjI ballI impI allI)
    fix x assume "x \<in> set (cur # CLOSED) \<union> opens OPEN1" "x \<noteq> s"
    then have "\<exists>p\<in>set CLOSED. came_from (nodes ! x) = Some p \<and> ok_step N thr dg p x" using reach[of x] o by auto
    then show "\<exists>p\<in>set (cur # CLOSED). came_from (nodes ! x) = Some p \<and> ok_step N thr dg p x" by auto
  next
    fix x assume "x < length N"
    then show "unat (nG (nodes ! x)) \<le> 2 * unat thr * length (cur # CLOSED)" using G le by (meson le_trans)
  qed (use inv dist o st in \<open>auto simp: search_inv_def\<close>)
  moreover have "cur < length N" "cur \<notin> set CLOSED" using inv cur by (auto simp: search_inv_def)
  ultimately show ?thesis using o reach[of cur] G[of cur] cur by auto
qed

lemma expand_node_spec:
  assumes wf: "wf_nodes N thr" and inv: "loop_inv N thr dg s CLOSED nodes OPEN" and ne: "OPEN \<noteq> []" and d: "d < length N"
  shows "\<exists>nodes' OPEN' cur. expand_node thr dg d nodes OPEN CLOSED = Some (nodes', OPEN', cur # CLOSED) \<and>
    cur < length N \<and> cur \<notin> set CLOSED \<and> loop_inv N thr dg s (cur # CLOSED) nodes' OPEN' \<and> nodes' ! s = nodes ! s"
proof -
  define k where "k = least_entry OPEN"
  define cur where "cur = snd (OPEN ! k)"
  define OPEN1 where "OPEN1 = take k OPEN @ drop (Suc k) OPEN"
  have k: "k < length OPEN" unfolding k_def by (rule least_entry_less[OF ne])
  have si: "search_inv N thr dg s CLOSED nodes OPEN" using inv by (simp add: loop_inv_def)
  have e: "CLOSED = [] \<Longrightarrow> opens OPEN = {s}" using inv by (simp add: loop_inv_def)
  have pop: "search_inv N thr dg s (cur # CLOSED) nodes OPEN1" "opens OPEN = insert cur (opens OPEN1)" "cur \<notin> set CLOSED"
    "cur < length N" "cur = s \<or> (\<exists>p\<in>set CLOSED. came_from (nodes ! cur) = Some p \<and> ok_step N thr dg p cur)"
    "unat (nG (nodes ! cur)) \<le> 2 * unat thr * length CLOSED"
    using search_inv_pop[OF si k e] unfolding cur_def OPEN1_def by blast+
  have dist: "distinct (cur # CLOSED)" "set (cur # CLOSED) \<subseteq> {..<length N}" using inv pop(3,4) by (auto simp: loop_inv_def)
  have C: "length (cur # CLOSED) \<le> length N"
    using dist by (metis card_lessThan card_mono distinct_card finite_lessThan)
  have s: "s \<in> set (cur # CLOSED)" using inv pop(2) by (auto simp: loop_inv_def split: if_splits)
  have sh: "shape nodes = shape N" using si by (simp add: search_inv_def)
  have nb: "neighbor_nodes (nodes ! cur) = neighbor_nodes (N ! cur)" by (rule shape_nth(4)[OF sh pop(4)])
  have G: "unat (nG (nodes ! cur)) \<le> 2 * unat thr * (length (cur # CLOSED) - 1)" using pop(6) by simp
  obtain nodes' OPEN' where v: "for_each (neighbor_nodes (nodes ! cur)) (visit thr dg d (cur # CLOSED) cur) (nodes, OPEN1) = Some (nodes', OPEN')"
    "search_inv N thr dg s (cur # CLOSED) nodes' OPEN'" "opens OPEN1 \<subseteq> opens OPEN'"
    "\<forall>it\<in>set (neighbor_nodes (nodes ! cur)). ok_step N thr dg cur it \<longrightarrow> it \<in> set (cur # CLOSED) \<union> opens OPEN'"
    "\<forall>x\<in>set (cur # CLOSED). nodes' ! x = nodes ! x"
    using visits_spec[OF wf pop(1,4) _ _ d C s G, of "neighbor_nodes (nodes ! cur)"] nb by auto
  have "expand_node thr dg d nodes OPEN CLOSED = Some (nodes', OPEN', cur # CLOSED)"
    using v(1) pop(4) shape_length[OF sh] by (simp add: expand_node_def Let_def flip: k_def cur_def OPEN1_def)
  moreover have "loop_inv N thr dg s (cur # CLOSED) nodes' OPEN'" unfolding loop_inv_def
  proof (intro conjI)
    show "chain s nodes' (cur # CLOSED)"
      using v(5) pop(5) inv chain_cong[of CLOSED nodes' nodes s] by (auto simp: loop_inv_def)
    show "\<forall>x\<in>set (cur # CLOSED). \<forall>y. ok_step N thr dg x y \<longrightarrow> y \<in> set (cur # CLOSED) \<union> opens OPEN'"
    proof (intro ballI allI impI)
      fix x y assume x: "x \<in> set (cur # CLOSED)" and st: "ok_step N thr dg x y"
      show "y \<in> set (cur # CLOSED) \<union> opens OPEN'"
      proof (cases "x = cur")
        case True
        then show ?thesis using v(4) st nb by (simp add: ok_step_def)
      next
        case False
        then have "y \<in> set CLOSED \<union> opens OPEN" using inv x st by (auto simp: loop_inv_def)
        then show ?thesis using pop(2) v(3) by auto
      qed
    qed
  qed (use v(2) dist s in auto)
  moreover have "nodes' ! s = nodes ! s" using v(5) s by blast
  ultimately show ?thesis using pop(3,4) by blast
qed

lemma search_spec:
  assumes wf: "wf_nodes N thr" and inv: "loop_inv N thr dg s CLOSED nodes OPEN" and d: "d < length N"
  shows "\<exists>nodes' CLOSED' OPEN'. search thr dg d nodes OPEN CLOSED = Some (nodes', CLOSED') \<and>
    loop_inv N thr dg s CLOSED' nodes' OPEN' \<and> (d \<in> set CLOSED' \<or> OPEN' = []) \<and> nodes' ! s = nodes ! s"
  using inv
proof (induction "length N - length CLOSED" arbitrary: CLOSED nodes OPEN rule: less_induct)
  case less
  show ?case
  proof (cases "d \<notin> set CLOSED \<and> OPEN \<noteq> []")
    case False
    then show ?thesis using less.prems by (subst search.simps) auto
  next
    case True
    obtain nodes1 OPEN1 cur where e: "expand_node thr dg d nodes OPEN CLOSED = Some (nodes1, OPEN1, cur # CLOSED)"
      "cur < length N" "cur \<notin> set CLOSED" "loop_inv N thr dg s (cur # CLOSED) nodes1 OPEN1" "nodes1 ! s = nodes ! s"
      using expand_node_spec[OF wf less.prems _ d] True by blast
    have "distinct (cur # CLOSED)" "set (cur # CLOSED) \<subseteq> {..<length N}" using e(4) by (auto simp: loop_inv_def)
    then have "length (cur # CLOSED) \<le> length N"
      by (metis card_lessThan card_mono distinct_card finite_lessThan)
    then have "length N - length (cur # CLOSED) < length N - length CLOSED" by simp
    from less.hyps[OF this e(4)] show ?thesis using True e(1,5) by (subst search.simps) simp
  qed
qed

lemma loop_inv_reachable:
  assumes "loop_inv N thr dg s CLOSED nodes OPEN"
  shows "x \<in> set CLOSED \<Longrightarrow> (ok_step N thr dg)\<^sup>*\<^sup>* s x"
proof -
  have st: "y \<in> set CLOSED \<Longrightarrow> y \<noteq> s \<Longrightarrow> came_from (nodes ! y) = Some p \<Longrightarrow> ok_step N thr dg p y" for y p
    using assms by (fastforce simp: loop_inv_def search_inv_def)
  have "chain s nodes xs \<Longrightarrow> set xs \<subseteq> set CLOSED \<Longrightarrow> x \<in> set xs \<Longrightarrow> (ok_step N thr dg)\<^sup>*\<^sup>* s x" for xs
  proof (induction xs arbitrary: x)
    case (Cons y ys)
    show ?case
    proof (cases "x \<in> set ys")
      case False
      then have x: "x = y" using Cons.prems(3) by simp
      show ?thesis
      proof (cases "y = s")
        case False
        then obtain p where p: "p \<in> set ys" "came_from (nodes ! y) = Some p" using Cons.prems(1) by auto
        then have "(ok_step N thr dg)\<^sup>*\<^sup>* s p" using Cons by auto
        moreover have "ok_step N thr dg p y" using st p(2) False Cons.prems(2) by auto
        ultimately show ?thesis using x by (simp add: rtranclp.rtrancl_into_rtrancl)
      qed (use x in simp)
    qed (use Cons in auto)
  qed simp
  moreover have "chain s nodes CLOSED" using assms by (simp add: loop_inv_def)
  ultimately show "x \<in> set CLOSED \<Longrightarrow> (ok_step N thr dg)\<^sup>*\<^sup>* s x" by blast
qed

lemma loop_inv_closed:
  assumes "loop_inv N thr dg s CLOSED nodes []" and "(ok_step N thr dg)\<^sup>*\<^sup>* s x"
  shows "x \<in> set CLOSED"
  using assms(2)
proof (induction rule: rtranclp_induct)
  case base
  then show ?case using assms(1) by (auto simp: loop_inv_def split: if_splits)
next
  case (step y z)
  then show ?case using assms(1) by (auto simp: loop_inv_def)
qed

section \<open>The path\<close>

lemma open_insert_last:
  assumes "\<forall>e\<in>set m. unat (fst e) \<le> unat k"
  shows "open_insert k x m = m @ [(k, x)]"
proof -
  have "\<forall>e\<in>set m. fst e \<le> k" using assms by (simp add: word_le_nat_alt)
  then show ?thesis by (simp add: open_insert_def takeWhile_eq_all_conv[THEN iffD2] dropWhile_eq_Nil_conv[THEN iffD2])
qed

lemma trace_spec:
  assumes "chain s nodes xs" and "x \<in> set xs" and "x \<noteq> s" and "\<forall>y\<in>set xs. y < length nodes"
    and "\<forall>y\<in>set xs. y \<noteq> s \<longrightarrow> (\<forall>p. came_from (nodes ! y) = Some p \<longrightarrow> R p y)"
    and "\<forall>e\<in>set m. unat (fst e) \<le> unat i" and "unat i + length xs < 2 ^ 32"
  shows "\<exists>m' ps. trace nodes s x i m = Some m' \<and> map snd m' = map snd m @ ps \<and> successively R (s # rev ps @ [x])"
  using assms
proof (induction xs arbitrary: x i m)
  case (Cons y ys)
  show ?case
  proof (cases "x \<in> set ys")
    case True
    then show ?thesis using Cons by auto
  next
    case False
    then have x: "x = y" using Cons.prems(2) by simp
    then obtain p where p: "p \<in> set ys" "came_from (nodes ! x) = Some p" using Cons.prems(1,3) by auto
    have R: "R p x" using Cons.prems(2,3,5) p(2) by blast
    have xl: "x < length nodes" using Cons.prems(2,4) by blast
    show ?thesis
    proof (cases "p = s")
      case True
      then have "trace nodes s x i m = Some m" using xl p(2) by (subst trace.simps) simp
      then show ?thesis using R True by (intro exI[of _ m] exI[of _ "[]"]) simp
    next
      case False
      have i1: "unat (i + 1) = unat i + 1" using Cons.prems(7) by (subst unat_add_lem[THEN iffD1]) simp_all
      have ins: "open_insert (i + 1) p m = m @ [(i + 1, p)]"
        by (rule open_insert_last) (use Cons.prems(6) i1 in fastforce)
      have "\<exists>m' ps. trace nodes s p (i + 1) (m @ [(i + 1, p)]) = Some m' \<and> map snd m' = map snd (m @ [(i + 1, p)]) @ ps \<and>
        successively R (s # rev ps @ [p])"
        by (rule Cons.IH[OF _ p(1) False]) (use Cons.prems i1 in \<open>auto intro: le_SucI\<close>)
      then obtain m' ps where r: "trace nodes s p (i + 1) (m @ [(i + 1, p)]) = Some m'"
        "map snd m' = map snd m @ p # ps" "successively R (s # rev ps @ [p])" by auto
      have "trace nodes s x i m = Some m'" using xl p(2) False ins r(1) by (subst trace.simps) simp
      moreover have "successively R (s # rev (p # ps) @ [x])"
        using r(3) R successively_append_iff[of R "s # rev ps @ [p]" "[x]"] by simp
      ultimately show ?thesis using r(2) by blast
    qed
  qed
qed simp

text \<open>The nearest node: the distance of a node depends on its fixed part only.\<close>

definition goal_dist :: "mp_node list \<Rightarrow> nat \<Rightarrow> bool \<Rightarrow> nat \<Rightarrow> u32" where
  "goal_dist N d dg x = the (find_heuristic (N ! x) (N ! d) dg)"

lemma find_heuristic_dist:
  assumes "wf_nodes N thr" and "shape nodes = shape N" and "x < length N" and "d < length N"
  shows "find_heuristic (nodes ! x) (nodes ! d) dg = Some (goal_dist N d dg x)"
proof -
  have "find_heuristic (nodes ! x) (nodes ! d) dg = find_heuristic (N ! x) (N ! d) dg"
    using shape_nth[OF assms(2,3)] shape_nth[OF assms(2,4)] by (simp add: find_heuristic_def)
  moreover have "find_heuristic (N ! x) (N ! d) dg \<noteq> None"
    using find_heuristic_small[OF wf_nodes_nth(2,3)[OF assms(1,3)] wf_nodes_nth(2,3)[OF assms(1,4)]] by auto
  ultimately show ?thesis by (auto simp: goal_dist_def)
qed

lemma find_nearest_loop:
  assumes "wf_nodes N thr" and "d < length N" and "shape nodes = shape N" and "set its \<subseteq> {..<length N}" and "P \<subseteq> {..<length N}"
    and "m \<in> P" and "nH (nodes ! m) = goal_dist N d dg m" and "\<forall>x\<in>P. goal_dist N d dg m \<le> goal_dist N d dg x"
  shows "\<exists>m' nodes'. for_each its (nearer dg d) (m, nodes) = Some (m', nodes') \<and>
    shape nodes' = shape N \<and> (\<forall>x. came_from (nodes' ! x) = came_from (nodes ! x)) \<and> m' \<in> P \<union> set its \<and>
    (\<forall>x\<in>P \<union> set its. goal_dist N d dg m' \<le> goal_dist N d dg x)"
  using assms(3-)
proof (induction its arbitrary: m nodes P)
  case (Cons it its)
  define nodes1 where "nodes1 = nodes[it := (nodes ! it)\<lparr>nH := goal_dist N d dg it\<rparr>]"
  define m1 where "m1 = (if goal_dist N d dg it < nH (nodes1 ! m) then it else m)"
  have len: "length nodes = length N" by (rule shape_length[OF Cons.prems(1)])
  have lt: "it < length N" "m < length N" using Cons.prems(2-4) by auto
  have sh: "shape nodes1 = shape N" unfolding nodes1_def by (rule shape_update[OF Cons.prems(1)]) (simp add: fixed_part_def)
  have nHm: "nH (nodes1 ! m) = goal_dist N d dg m" "nH (nodes1 ! it) = goal_dist N d dg it"
    using Cons.prems(5) len lt by (cases "m = it"; simp add: nodes1_def)+
  have cf: "came_from (nodes1 ! x) = came_from (nodes ! x)" for x using len lt by (cases "x = it"; simp add: nodes1_def)
  have m: "nH (nodes1 ! m1) = goal_dist N d dg m1" using nHm by (simp add: m1_def)
  have le: "goal_dist N d dg m1 \<le> goal_dist N d dg it" "goal_dist N d dg m1 \<le> goal_dist N d dg m"
    by (simp_all add: m1_def nHm(1) not_less less_imp_le)
  have min: "\<forall>x\<in>insert it P. goal_dist N d dg m1 \<le> goal_dist N d dg x"
    using Cons.prems(6) le by (auto intro: order.trans)
  have sub: "set its \<subseteq> {..<length N}" "insert it P \<subseteq> {..<length N}" "m1 \<in> insert it P"
    using Cons.prems(2-4) by (simp_all add: m1_def)
  obtain m' nodes' where r: "for_each its (nearer dg d) (m1, nodes1) = Some (m', nodes')" "shape nodes' = shape N"
    "\<forall>x. came_from (nodes' ! x) = came_from (nodes1 ! x)" "m' \<in> insert it P \<union> set its"
    "\<forall>x\<in>insert it P \<union> set its. goal_dist N d dg m' \<le> goal_dist N d dg x"
    using Cons.IH[OF sh sub m min] by blast
  note h = find_heuristic_dist[OF assms(1) Cons.prems(1) lt(1) assms(2), of dg]
  have "nearer dg d it (m, nodes) = Some (m1, nodes1)"
    unfolding nearer_def prod.case m1_def nodes1_def using len lt assms(2)
    by (simp only: arr_get_Some arr_set_Some length_list_update bind.bind_lunit h)
  then have "for_each (it # its) (nearer dg d) (m, nodes) = Some (m', nodes')" using r(1) by simp
  moreover have "insert it P \<union> set its = P \<union> set (it # its)" by simp
  ultimately show ?case using r(2-5) cf by metis
qed simp

text \<open>Grids with costs and sizes in range.\<close>

definition wf_grid :: "mp_grid \<Rightarrow> bool" where
  "wf_grid g \<longleftrightarrow> length (nodearray g) = unat (hcells g * vcells g) \<and> wf_nodes (nodearray g) (threshold g)"

lemma reset_nodes:
  fixes nodes :: "mp_node list"
  assumes "length nodes = n"
  shows "\<exists>nodes'. for_each [0..<n] (\<lambda>i nodes. do { n \<leftarrow> arr_get nodes i; arr_set nodes i (n\<lparr>nF := 0, nH := 0, nG := 0, came_from := None\<rparr>) }) nodes
      = Some nodes' \<and> shape nodes' = shape nodes \<and> (\<forall>x<n. nG (nodes' ! x) = 0)"
proof -
  let ?f = "\<lambda>(i :: nat) n. n\<lparr>nF := 0, nH := 0, nG := 0, came_from := None\<rparr> :: mp_node"
  have mo: "map_of (map (\<lambda>i. (i, i)) [0..<n]) k = Some k" if "k < n" for k
    using that by (intro map_of_is_SomeI) (auto simp: comp_def)
  have "for_each [0..<n] (\<lambda>i nodes. do { n \<leftarrow> arr_get nodes i; arr_set nodes i (?f i n) }) nodes
    = Some (map (\<lambda>k. case map_of (map (\<lambda>i. (i, i)) [0..<n]) k of None \<Rightarrow> nodes ! k | Some i \<Rightarrow> ?f i (nodes ! k)) [0..<length nodes])"
    using for_each_cells[of "\<lambda>i. i" "[0..<n]" nodes ?f] assms by simp
  also have "map (\<lambda>k. case map_of (map (\<lambda>i. (i, i)) [0..<n]) k of None \<Rightarrow> nodes ! k | Some i \<Rightarrow> ?f i (nodes ! k)) [0..<length nodes]
    = map (\<lambda>k. ?f k (nodes ! k)) [0..<length nodes]"
    using mo assms by (intro map_cong) auto
  finally show ?thesis using assms
    by (intro exI[of _ "map (\<lambda>k. ?f k (nodes ! k)) [0..<length nodes]"]) (auto simp: shape_def fixed_part_def intro!: nth_equalityI)
qed

section \<open>Properties\<close>

text \<open>What \<open>find_path\<close> has when its search ends.\<close>

lemma find_path_search:
  assumes g: "wf_grid g" and lt: "n0 < length (nodearray g)" "n1 < length (nodearray g)"
  defines "N \<equiv> nodearray g"
  shows "\<exists>nodes nodes' CLOSED OPEN. for_each [0..<unat (hcells g * vcells g)]
      (\<lambda>i nodes. do { n \<leftarrow> arr_get nodes i; arr_set nodes i (n\<lparr>nF := 0, nH := 0, nG := 0, came_from := None\<rparr>) }) N = Some nodes \<and>
    length nodes = length N \<and> find_heuristic (nodes ! n0) (nodes ! n1) dg = Some (goal_dist N n1 dg n0) \<and>
    search (threshold g) dg n1 (nodes[n0 := (nodes ! n0)\<lparr>nF := goal_dist N n1 dg n0, nH := goal_dist N n1 dg n0\<rparr>])
      [(goal_dist N n1 dg n0, n0)] [] = Some (nodes', CLOSED) \<and>
    loop_inv N (threshold g) dg n0 CLOSED nodes' OPEN \<and> (n1 \<in> set CLOSED \<or> OPEN = []) \<and> nH (nodes' ! n0) = goal_dist N n1 dg n0"
proof -
  let ?H = "goal_dist N n1 dg n0"
  have wf: "wf_nodes N (threshold g)" and n: "length N = unat (hcells g * vcells g)" using g by (simp_all add: wf_grid_def N_def)
  have lt: "n0 < length N" "n1 < length N" using lt by (simp_all add: N_def)
  obtain nodes where r: "for_each [0..<unat (hcells g * vcells g)]
      (\<lambda>i nodes. do { n \<leftarrow> arr_get nodes i; arr_set nodes i (n\<lparr>nF := 0, nH := 0, nG := 0, came_from := None\<rparr>) }) N = Some nodes"
    "shape nodes = shape N" "\<forall>x<length N. nG (nodes ! x) = 0"
    using reset_nodes[OF n] n by auto
  have len: "length nodes = length N" by (rule shape_length[OF r(2)])
  have h: "find_heuristic (nodes ! n0) (nodes ! n1) dg = Some ?H" by (rule find_heuristic_dist[OF wf r(2) lt])
  let ?nodes = "nodes[n0 := (nodes ! n0)\<lparr>nF := ?H, nH := ?H\<rparr>]"
  have sh: "shape ?nodes = shape N" by (rule shape_update[OF r(2)]) (simp add: fixed_part_def)
  have H: "unat ?H < 2 ^ 30"
    using find_heuristic_small[OF wf_nodes_nth(2,3)[OF wf lt(1)] wf_nodes_nth(2,3)[OF wf lt(2)]] find_heuristic_dist[OF wf refl lt]
    by (metis option.inject)
  have nG: "nG (?nodes ! x) = 0" if "x < length N" for x
    using r(3) that len lt(1) by (cases "x = n0") simp_all
  have "search_inv N (threshold g) dg n0 [] ?nodes [(?H, n0)]"
    using sh lt(1) H nG by (simp add: search_inv_def)
  then have "loop_inv N (threshold g) dg n0 [] ?nodes [(?H, n0)]" by (simp add: loop_inv_def)
  from search_spec[OF wf this lt(2)] show ?thesis using r(1) len h lt(1) by fastforce
qed

lemma find_path_spec:
  assumes "wf_grid g" and "n0 < length (nodearray g)" and "n1 < length (nodearray g)" and "n0 \<noteq> n1"
  shows "\<exists>nodes path reached. find_path g n0 n1 allow_diag status = Some (nodes, path, reached) \<and>
    (reached \<longleftrightarrow> (ok_step (nodearray g) (threshold g) allow_diag)\<^sup>*\<^sup>* n0 n1) \<and>
    (\<exists>m. (ok_step (nodearray g) (threshold g) allow_diag)\<^sup>*\<^sup>* n0 m \<and> (reached \<longrightarrow> m = n1) \<and>
       (m = n0 \<and> path = [] \<or>
        successively (ok_step (nodearray g) (threshold g) allow_diag) (n0 # rev (map snd path) @ [m])) \<and>
       (\<forall>x. \<not> reached \<longrightarrow> (ok_step (nodearray g) (threshold g) allow_diag)\<^sup>*\<^sup>* n0 x \<longrightarrow>
          goal_dist (nodearray g) n1 allow_diag m \<le> goal_dist (nodearray g) n1 allow_diag x))"
proof -
  let ?N = "nodearray g" and ?thr = "threshold g"
  let ?R = "ok_step ?N ?thr allow_diag"
  have wf: "wf_nodes ?N ?thr" using assms(1) by (simp add: wf_grid_def)
  then have len: "length ?N < 2 ^ 31" by (simp add: wf_nodes_def)
  obtain nodes nodes' CLOSED OPEN where e: "for_each [0..<unat (hcells g * vcells g)]
      (\<lambda>i nodes. do { n \<leftarrow> arr_get nodes i; arr_set nodes i (n\<lparr>nF := 0, nH := 0, nG := 0, came_from := None\<rparr>) }) ?N = Some nodes"
    "length nodes = length ?N" "find_heuristic (nodes ! n0) (nodes ! n1) allow_diag = Some (goal_dist ?N n1 allow_diag n0)"
    "search ?thr allow_diag n1 (nodes[n0 := (nodes ! n0)\<lparr>nF := goal_dist ?N n1 allow_diag n0, nH := goal_dist ?N n1 allow_diag n0\<rparr>])
      [(goal_dist ?N n1 allow_diag n0, n0)] [] = Some (nodes', CLOSED)"
    "loop_inv ?N ?thr allow_diag n0 CLOSED nodes' OPEN" "n1 \<in> set CLOSED \<or> OPEN = []"
    "nH (nodes' ! n0) = goal_dist ?N n1 allow_diag n0"
    using find_path_search[OF assms(1-3)] by blast
  have CL: "chain n0 nodes' CLOSED" "set CLOSED \<subseteq> {..<length ?N}" "distinct CLOSED" "shape nodes' = shape ?N"
    using e(5) by (simp_all add: loop_inv_def search_inv_def)
  have sz: "length CLOSED \<le> length ?N" using CL(2,3) by (metis card_lessThan card_mono distinct_card finite_lessThan)
  have walk: "\<exists>path. trace M n0 x 0 [] = Some path \<and> successively ?R (n0 # rev (map snd path) @ [x])"
    if "\<forall>x. came_from (M ! x) = came_from (nodes' ! x)" "length M = length ?N" "x \<in> set CLOSED" "x \<noteq> n0" for M x
  proof -
    have "chain n0 M CLOSED" using CL(1) that(1) chain_cong[of CLOSED M nodes' n0] by simp
    moreover have "y \<in> set CLOSED \<Longrightarrow> y \<noteq> n0 \<Longrightarrow> came_from (M ! y) = Some p \<Longrightarrow> ?R p y" for y p
      using e(5) that(1) by (fastforce simp: loop_inv_def search_inv_def)
    ultimately have "\<exists>m' ps. trace M n0 x 0 [] = Some m' \<and> map snd m' = map snd ([] :: open_list) @ ps \<and> successively ?R (n0 # rev ps @ [x])"
      using that CL(2) sz len by (intro trace_spec[of n0 M CLOSED]) auto
    then show ?thesis by auto
  qed
  show ?thesis
  proof (cases "n1 \<in> set CLOSED")
    case True
    obtain path where p: "trace nodes' n0 n1 0 [] = Some path" "successively ?R (n0 # rev (map snd path) @ [n1])"
      using walk[of nodes' n1] True assms(4) shape_length[OF CL(4)] by auto
    have "find_path g n0 n1 allow_diag status = Some (nodes', path, True)"
      using e(1-4) True p(1) assms by (simp add: find_path_def)
    then show ?thesis using loop_inv_reachable[OF e(5) True] p(2) by blast
  next
    case False
    then have inv: "loop_inv ?N ?thr allow_diag n0 CLOSED nodes' []" using e(5,6) by simp
    have nr: "\<not> ?R\<^sup>*\<^sup>* n0 n1" using loop_inv_closed[OF inv] False by blast
    have s: "n0 \<in> set CLOSED" using inv by (simp add: loop_inv_def split: if_splits)
    have "\<exists>m' nodes2. for_each CLOSED (nearer allow_diag n1) (n0, nodes') = Some (m', nodes2) \<and>
      shape nodes2 = shape ?N \<and> (\<forall>x. came_from (nodes2 ! x) = came_from (nodes' ! x)) \<and> m' \<in> {n0} \<union> set CLOSED \<and>
      (\<forall>x\<in>{n0} \<union> set CLOSED. goal_dist ?N n1 allow_diag m' \<le> goal_dist ?N n1 allow_diag x)"
      by (rule find_nearest_loop[OF wf assms(3) CL(4,2)]) (use e(7) assms(2) in auto)
    then obtain m nodes2 where m: "find_nearest allow_diag n1 CLOSED n0 nodes' = Some (m, nodes2)" "shape nodes2 = shape ?N"
      "\<forall>x. came_from (nodes2 ! x) = came_from (nodes' ! x)" "m \<in> {n0} \<union> set CLOSED"
      "\<forall>x\<in>{n0} \<union> set CLOSED. goal_dist ?N n1 allow_diag m \<le> goal_dist ?N n1 allow_diag x"
      unfolding find_nearest_def by blast
    have mc: "m \<in> set CLOSED" using m(4) s by auto
    have near: "?R\<^sup>*\<^sup>* n0 x \<Longrightarrow> goal_dist ?N n1 allow_diag m \<le> goal_dist ?N n1 allow_diag x" for x
      using loop_inv_closed[OF inv] m(5) by blast
    show ?thesis
    proof (cases "m = n0")
      case True
      then have "find_path g n0 n1 allow_diag status = Some (nodes2, [], False)"
        using e(1-4) False m(1) assms by (simp add: find_path_def)
      then show ?thesis using nr near True by blast
    next
      case mn: False
      obtain path where p: "trace nodes2 n0 m 0 [] = Some path" "successively ?R (n0 # rev (map snd path) @ [m])"
        using walk[OF m(3) shape_length[OF m(2)] mc mn] by blast
      have "find_path g n0 n1 allow_diag status = Some (nodes2, path, False)"
        using e(1-4) False m(1) assms p(1) mn by (simp add: find_path_def)
      then show ?thesis using nr near p(2) loop_inv_reachable[OF e(5) mc] by blast
    qed
  qed
qed

end
