(* ===== verification/GridLinks.thy ===== *)
theory GridLinks
  imports PathLaws
begin

text \<open>
  The grids that \<open>mp_grid_create\<close> makes: every cell is linked to the cells around it, and before a cost is
  set no cell can be left.
\<close>

section \<open>Indices\<close>

text \<open>The neighbors of a cell as natural numbers.\<close>

definition around :: "nat \<Rightarrow> nat \<Rightarrow> nat \<Rightarrow> nat \<Rightarrow> nat list" where
  "around H V i c =
     (if 0 < i
      then [(i - 1) * V + c] @ (if 0 < c then [(i - 1) * V + c - 1] else [])
             @ (if c + 1 < V then [(i - 1) * V + c + 1] else [])
      else [])
     @ (if 0 < c then [i * V + c - 1] else [])
     @ (if i + 1 < H
        then [(i + 1) * V + c] @ (if 0 < c then [(i + 1) * V + c - 1] else [])
               @ (if c + 1 < V then [(i + 1) * V + c + 1] else [])
        else [])
     @ (if c + 1 < V then [i * V + c + 1] else [])"

lemma nth_cell_less: "i < H \<Longrightarrow> c < V \<Longrightarrow> i * V + c < H * (V :: nat)"
proof -
  assume "i < H" "c < V"
  then have "Suc i * V \<le> H * V" by (intro mult_le_mono1) simp
  then show ?thesis using \<open>c < V\<close> by simp
qed

lemma nth_cell_inj: "c < V \<Longrightarrow> c' < V \<Longrightarrow> i * V + c = i' * V + c' \<longleftrightarrow> i = i' \<and> c = (c' :: nat)"
  by (metis div_mult_self3 div_less mod_less mod_mult_self3 add_0_right not_less_zero)

lemma set_around:
  assumes "i < H" and "c < V"
  shows "set (around H V i c) = {i' * V + c' | i' c'. i' < H \<and> c' < V \<and> i \<le> i' + 1 \<and> i' \<le> i + 1 \<and> c \<le> c' + 1 \<and> c' \<le> c + 1 \<and> (i', c') \<noteq> (i, c)}"
  (is "_ = ?R")
proof
  show "set (around H V i c) \<subseteq> ?R"
  proof
    fix k assume "k \<in> set (around H V i c)"
    then consider "0 < i" "k = (i - 1) * V + c" | "0 < i" "0 < c" "k = (i - 1) * V + (c - 1)"
      | "0 < i" "c + 1 < V" "k = (i - 1) * V + (c + 1)" | "0 < c" "k = i * V + (c - 1)"
      | "i + 1 < H" "k = (i + 1) * V + c" | "i + 1 < H" "0 < c" "k = (i + 1) * V + (c - 1)"
      | "i + 1 < H" "c + 1 < V" "k = (i + 1) * V + (c + 1)" | "c + 1 < V" "k = i * V + (c + 1)"
      by (auto simp: around_def split: if_splits)
    then show "k \<in> ?R"
    proof cases
      case 1 then show ?thesis using assms by (intro CollectI exI[of _ "i - 1"] exI[of _ "c"]) auto
    next
      case 2 then show ?thesis using assms by (intro CollectI exI[of _ "i - 1"] exI[of _ "c - 1"]) auto
    next
      case 3 then show ?thesis using assms by (intro CollectI exI[of _ "i - 1"] exI[of _ "c + 1"]) auto
    next
      case 4 then show ?thesis using assms by (intro CollectI exI[of _ "i"] exI[of _ "c - 1"]) auto
    next
      case 5 then show ?thesis using assms by (intro CollectI exI[of _ "i + 1"] exI[of _ "c"]) auto
    next
      case 6 then show ?thesis using assms by (intro CollectI exI[of _ "i + 1"] exI[of _ "c - 1"]) auto
    next
      case 7 then show ?thesis using assms by (intro CollectI exI[of _ "i + 1"] exI[of _ "c + 1"]) auto
    next
      case 8 then show ?thesis using assms by (intro CollectI exI[of _ "i"] exI[of _ "c + 1"]) auto
    qed
  qed
next
  show "?R \<subseteq> set (around H V i c)"
  proof
    fix k assume "k \<in> ?R"
    then obtain i' c' where k: "k = i' * V + c'" "i' < H" "c' < V" "i \<le> i' + 1" "i' \<le> i + 1" "c \<le> c' + 1" "c' \<le> c + 1" "(i', c') \<noteq> (i, c)"
      by blast
    have "i' = i - 1 \<and> 0 < i \<or> i' = i \<or> i' = i + 1" "c' = c - 1 \<and> 0 < c \<or> c' = c \<or> c' = c + 1" using k by auto
    then show "k \<in> set (around H V i c)" using k by (elim disjE) (auto simp: around_def)
  qed
qed

lemma word_index:
  fixes v :: u32
  assumes "unat v = V" and "0 < i"
  shows "(of_nat i - 1) * v + of_nat c = (of_nat ((i - 1) * V + c) :: u32)"
proof -
  have "v = of_nat V" using assms(1) by (simp flip: assms(1))
  moreover have "(of_nat i - 1 :: u32) = of_nat (i - 1)" using assms(2) by (simp add: of_nat_diff)
  ultimately show ?thesis by simp
qed

lemma unat_small: "k < 2 ^ 32 \<Longrightarrow> unat (of_nat k :: u32) = k"
  by (simp add: unat_of_nat)

lemma of_nat_minus1: "0 < k \<Longrightarrow> of_nat k - 1 = (of_nat (k - 1) :: u32)"
  by (simp add: of_nat_diff)

lemma less_minus1:
  fixes v :: u32
  assumes "unat v = V" and "c < V"
  shows "of_nat c < v - 1 \<longleftrightarrow> c + 1 < V"
proof -
  have "V < 2 ^ 32" using unsigned_less[of v, where ?'a = nat] assms(1) by simp
  have v: "v = of_nat V" using assms(1) by (simp flip: assms(1))
  have "v - 1 = of_nat (V - 1)" unfolding v using assms(2) by (intro of_nat_minus1) simp
  then have "unat (v - 1) = V - 1" using \<open>V < 2 ^ 32\<close> by (simp only: unat_small)
  moreover have "unat (of_nat c :: u32) = c" using assms(2) \<open>V < 2 ^ 32\<close> by (intro unat_small) simp
  ultimately show ?thesis using assms(2) by (auto simp: word_less_nat_alt)
qed

lemma neighbors_around:
  fixes h v :: u32
  assumes H: "unat h = H" and V: "unat v = V" and i: "i < H" and c: "c < V" and small: "H * V < 2 ^ 29"
  shows "map unat (neighbors h v (of_nat i) (of_nat c)) = around H V i c"
proof -
  have v: "v = of_nat V" by (simp flip: V)
  have le: "H \<le> H * V" "V \<le> H * V" using i c by (cases V; cases H; simp)+
  then have HV: "H < 2 ^ 29" "V < 2 ^ 29" using small by linarith+
  have i0: "(0 :: u32) < of_nat i \<longleftrightarrow> 0 < i" using i HV by (simp add: word_less_nat_alt unat_small)
  have c0: "(0 :: u32) < of_nat c \<longleftrightarrow> 0 < c" using c HV by (simp add: word_less_nat_alt unat_small)
  note il = less_minus1[OF H i] and cl = less_minus1[OF V c]
  have at: "of_nat j * v + of_nat c = (of_nat (j * V + c) :: u32)" for j by (simp add: v)
  have prev: "of_nat (j * V + c) - 1 = (of_nat (j * V + c - 1) :: u32)" if "0 < c" for j using that by (intro of_nat_minus1) simp
  have suc: "of_nat (j * V + c) + 1 = (of_nat (j * V + c + 1) :: u32)" for j by simp
  have up: "(of_nat i + 1) * v + of_nat c = (of_nat ((i + 1) * V + c) :: u32)" using at[of "i + 1"] by (simp only: of_nat_add of_nat_1)
  have in_range: "j * V + c' < 2 ^ 32" if "j \<le> i + 1" "j < H" "c' \<le> V" for j c'
  proof -
    have "j * V \<le> (H - 1) * V" using that by (intro mult_le_mono1) simp
    moreover have "(H - 1) * V + V = H * V" using that by (cases H) simp_all
    ultimately have "j * V + c' \<le> H * V" using that(3) by linarith
    then show ?thesis using small by simp
  qed
  have r: "unat (of_nat (j * V + c) :: u32) = j * V + c" "unat (of_nat (j * V + c + 1) :: u32) = j * V + c + 1"
    "unat (of_nat (j * V + c - 1) :: u32) = j * V + c - 1" if "j \<le> i + 1" "j < H" for j
    using in_range[OF that, of c] in_range[OF that, of "c + 1"] c by (intro unat_small; simp)+
  have j: "i - 1 \<le> i + 1" "i - 1 < H" "i \<le> i + 1" using i by simp_all
  show ?thesis
    by (cases "0 < i"; cases "0 < c"; cases "i + 1 < H"; cases "c + 1 < V")
      (simp_all only: neighbors_def around_def i0 c0 il cl if_True if_False word_index[OF V] at up prev suc
        list.map append.simps map_append r append_Nil not_False_eq_True j i order.refl)
qed

section \<open>Linking\<close>

lemma link_loop:
  fixes cells :: "(u32 \<times> u32) list" and h v :: u32
  defines "ix \<equiv> \<lambda>(i, c). unat (i * v + c)" and "ns \<equiv> \<lambda>(i, c). map unat (neighbors h v i c)"
  assumes "distinct (map ix cells)" and "\<And>p. p \<in> set cells \<Longrightarrow> ix p < length nodes \<and> (\<forall>k\<in>set (ns p). k < length nodes)"
  shows "\<exists>nodes'. for_each cells (link_cell h v) nodes = Some nodes' \<and> length nodes' = length nodes \<and>
    (\<forall>p\<in>set cells. nodes' ! ix p = (nodes ! ix p)\<lparr>neighbor_nodes := neighbor_nodes (nodes ! ix p) @ ns p\<rparr>) \<and>
    (\<forall>k<length nodes. k \<notin> ix ` set cells \<longrightarrow> nodes' ! k = nodes ! k)"
  using assms(3,4)
proof (induction cells arbitrary: nodes)
  case (Cons p cells)
  obtain i c where p: "p = (i, c)" by fastforce
  define n where "n = (nodes ! ix p)\<lparr>neighbor_nodes := neighbor_nodes (nodes ! ix p) @ ns p\<rparr>"
  have px: "ix p < length nodes" "list_all (\<lambda>k. k < length nodes) (ns p)" using Cons.prems(2)[of p] by (auto simp: list_all_iff)
  have link: "link_cell h v p nodes = Some (nodes[ix p := n])"
    using px by (simp add: link_cell_def p ix_def ns_def n_def)
  have dist: "ix p \<notin> ix ` set cells" "distinct (map ix cells)" using Cons.prems(1) by simp_all
  obtain nodes' where r: "for_each cells (link_cell h v) (nodes[ix p := n]) = Some nodes'" "length nodes' = length nodes"
    "\<forall>q\<in>set cells. nodes' ! ix q = (nodes[ix p := n] ! ix q)\<lparr>neighbor_nodes := neighbor_nodes (nodes[ix p := n] ! ix q) @ ns q\<rparr>"
    "\<forall>k<length nodes. k \<notin> ix ` set cells \<longrightarrow> nodes' ! k = nodes[ix p := n] ! k"
    using Cons.IH[OF dist(2), of "nodes[ix p := n]"] Cons.prems(2) by auto
  have other: "nodes[ix p := n] ! ix q = nodes ! ix q" if "q \<in> set cells" for q
    using dist(1) that by (metis image_eqI nth_list_update_neq)
  have "nodes' ! ix p = n" using r(4) dist(1) px(1) by simp
  moreover have "\<forall>k<length nodes. k \<notin> ix ` set (p # cells) \<longrightarrow> nodes' ! k = nodes ! k"
    using r(4) by (auto simp: nth_list_update)
  ultimately show ?case using link r(1-3) other by (auto simp: n_def)
qed simp

lemma push_loop:
  assumes "\<And>i. i \<in> set is \<Longrightarrow> cost i = Some (k i)"
  shows "for_each is (\<lambda>i nodes. do { k \<leftarrow> cost i; Some (nodes @ [f i k]) }) acc = Some (acc @ map (\<lambda>i. f i (k i)) is)"
  using assms by (induction "is" arbitrary: acc) auto

lemma distinct_cells:
  fixes v :: u32
  assumes "unat h = H" and "unat v = V" and "H * V < 2 ^ 29"
  shows "map (\<lambda>(i, c). unat (i * v + c)) (cell_indices h v) = [0..<H * V]"
proof -
  have v: "v = of_nat V" by (simp flip: assms(2))
  have row: "map (\<lambda>c. unat (of_nat i * v + of_nat c :: u32)) [0..<V] = [i * V..<Suc i * V]" if "i < H" for i
  proof -
    have "map (\<lambda>c. unat (of_nat i * v + of_nat c :: u32)) [0..<V] = map (\<lambda>c. c + i * V) [0..<V]"
    proof (rule map_cong)
      fix c assume "c \<in> set [0..<V]"
      then have "i * V + c < 2 ^ 32" using nth_cell_less[OF that, of c V] assms(3) by simp
      then have "unat (of_nat (i * V + c) :: u32) = i * V + c" by (rule unat_small)
      then show "unat (of_nat i * v + of_nat c :: u32) = c + i * V" by (simp add: v add.commute)
    qed simp
    also have "\<dots> = [i * V..<Suc i * V]" using map_add_upt[of "i * V" V] by (simp add: add.commute)
    finally show ?thesis .
  qed
  have "map (\<lambda>(i, c). unat (i * v + c)) (cell_indices h v) = concat (map (\<lambda>i. [i * V..<Suc i * V]) [0..<H])"
    unfolding cell_indices_def assms map_concat map_map comp_def prod.case using row
    by (intro arg_cong[of _ _ concat] map_cong) (simp_all add: comp_def)
  also have "\<dots> = [0..<H * V]"
  proof (induction H)
    case (Suc H)
    have "[0..<H * V + V] = [0..<H * V] @ [H * V..<H * V + V]" by (rule upt_add_eq_append) simp
    then show ?case using Suc by (simp add: add.commute)
  qed simp
  finally show ?thesis .
qed

section \<open>New grids\<close>

lemma make_nodes_spec:
  fixes h v :: u32
  assumes H: "unat h = H" and V: "unat v = V" and small: "H * V < 2 ^ 29" and cost: "\<And>i. i < H * V \<Longrightarrow> cost i = Some (k i)"
  shows "\<exists>nodes. make_nodes h v cost = Some nodes \<and> length nodes = H * V \<and>
    (\<forall>i<H. \<forall>c<V. nodes ! (i * V + c) =
      (new_node (of_nat i) (of_nat c) (k (i * V + c)))\<lparr>neighbor_nodes := around H V i c\<rparr>)"
proof -
  have h: "h = of_nat H" and v: "v = of_nat V" by (simp_all flip: H V)
  have n: "unat (h * v) = H * V" unfolding h v of_nat_mult[symmetric] using small by (intro unat_small) simp
  let ?new = "\<lambda>i. new_node (of_nat i div v) (of_nat i mod v) (k i)"
  let ?nodes = "map ?new [0..<H * V]"
  have push: "for_each [0..<H * V] (\<lambda>i nodes. do { k \<leftarrow> cost i; Some (nodes @ [new_node (of_nat i div v) (of_nat i mod v) k]) }) [] = Some ?nodes"
    using push_loop[of "[0..<H * V]" cost k "\<lambda>i k. new_node (of_nat i div v) (of_nat i mod v) k" "[]"] cost by simp
  let ?ix = "\<lambda>(i, c). unat (i * v + c)"
  have ix: "map ?ix (cell_indices h v) = [0..<H * V]" by (rule distinct_cells[OF H V small])
  have cell: "\<exists>i c. p = (of_nat i, of_nat c) \<and> i < H \<and> c < V" if "p \<in> set (cell_indices h v)" for p
    using that by (auto simp: cell_indices_def H V; blast)
  have ix_nat: "?ix (of_nat i, of_nat c) = i * V + c" if "i < H" "c < V" for i c
  proof -
    have "unat (of_nat (i * V + c) :: u32) = i * V + c" using nth_cell_less[OF that] small by (intro unat_small) simp
    then show ?thesis by (simp add: v)
  qed
  have "\<exists>nodes'. for_each (cell_indices h v) (link_cell h v) ?nodes = Some nodes' \<and> length nodes' = length ?nodes \<and>
    (\<forall>p\<in>set (cell_indices h v). nodes' ! ?ix p = (?nodes ! ?ix p)\<lparr>neighbor_nodes := neighbor_nodes (?nodes ! ?ix p) @ (\<lambda>(i, c). map unat (neighbors h v i c)) p\<rparr>) \<and>
    (\<forall>k<length ?nodes. k \<notin> ?ix ` set (cell_indices h v) \<longrightarrow> nodes' ! k = ?nodes ! k)"
  proof (rule link_loop)
    show "distinct (map ?ix (cell_indices h v))" unfolding ix by simp
    fix p assume "p \<in> set (cell_indices h v)"
    then obtain i c where p: "p = (of_nat i, of_nat c)" "i < H" "c < V" using cell by blast
    have "\<forall>k\<in>set (around H V i c). k < H * V" using nth_cell_less by (auto simp: set_around[OF p(2,3)])
    then show "?ix p < length ?nodes \<and> (\<forall>k\<in>set ((\<lambda>(i, c). map unat (neighbors h v i c)) p). k < length ?nodes)"
      using p ix_nat[OF p(2,3)] nth_cell_less[OF p(2,3)] neighbors_around[OF H V p(2,3) small] by simp
  qed
  then obtain nodes' where l: "for_each (cell_indices h v) (link_cell h v) ?nodes = Some nodes'" "length nodes' = H * V"
    "\<forall>p\<in>set (cell_indices h v). nodes' ! ?ix p = (?nodes ! ?ix p)\<lparr>neighbor_nodes := neighbor_nodes (?nodes ! ?ix p) @ (\<lambda>(i, c). map unat (neighbors h v i c)) p\<rparr>"
    by auto
  have "nodes' ! (i * V + c) = (new_node (of_nat i) (of_nat c) (k (i * V + c)))\<lparr>neighbor_nodes := around H V i c\<rparr>"
    if ic: "i < H" "c < V" for i c
  proof -
    have "(of_nat i, of_nat c) \<in> set (cell_indices h v)" using ic by (force simp: cell_indices_def H V)
    then have e: "nodes' ! (i * V + c) = (?nodes ! (i * V + c))\<lparr>neighbor_nodes := neighbor_nodes (?nodes ! (i * V + c)) @ around H V i c\<rparr>"
      using l(3) ix_nat[OF ic] neighbors_around[OF H V ic small] by fastforce
    have "i * V + c < 2 ^ 32" "V < 2 ^ 32" using nth_cell_less[OF ic] small ic by (simp, cases H, simp, simp)
    note k = this
    have "(i * V + c) div V < 2 ^ 32" "(i * V + c) mod V < 2 ^ 32"
      by (rule le_less_trans[OF div_le_dividend k(1)], rule le_less_trans[OF mod_less_eq_dividend k(1)])
    note u = unat_small[OF k(1)] unat_small[OF k(2)] this[THEN unat_small]
    have "(of_nat (i * V + c) :: u32) div v = of_nat ((i * V + c) div V)" "(of_nat (i * V + c) :: u32) mod v = of_nat ((i * V + c) mod V)"
      unfolding v word_unat_eq_iff unat_div_distrib unat_mod_distrib u by (rule refl)+
    then have "?new (i * V + c) = new_node (of_nat i) (of_nat c) (k (i * V + c))" using ic(2) by simp
    moreover have "?nodes ! (i * V + c) = ?new (i * V + c)" using nth_cell_less[OF ic] by simp
    ultimately show ?thesis unfolding e by (simp add: new_node_def)
  qed
  then show ?thesis using push l(1,2) n by (simp add: make_nodes_def)
qed

lemma new_grid_spec:
  assumes "unat h * unat v < 2 ^ 29"
  shows "\<exists>g. new_grid l t h v w hh thr speed = Some g \<and> length (nodearray g) = unat h * unat v \<and>
    (\<forall>i c. i < unat h \<and> c < unat v \<longrightarrow>
       ncost (nodearray g ! (i * unat v + c)) = 1 \<and>
       unat (nx (nodearray g ! (i * unat v + c))) = i \<and> unat (ny (nodearray g ! (i * unat v + c))) = c \<and>
       set (neighbor_nodes (nodearray g ! (i * unat v + c))) =
         {i' * unat v + c' | i' c'. i' < unat h \<and> c' < unat v \<and> i \<le> i' + 1 \<and> i' \<le> i + 1 \<and> c \<le> c' + 1 \<and> c' \<le> c + 1 \<and>
            (i', c') \<noteq> (i, c)})"
proof -
  obtain nodes where n: "make_nodes h v (\<lambda>i. Some 1) = Some nodes" "length nodes = unat h * unat v"
    "\<forall>i<unat h. \<forall>c<unat v. nodes ! (i * unat v + c) =
      (new_node (of_nat i) (of_nat c) 1)\<lparr>neighbor_nodes := around (unat h) (unat v) i c\<rparr>"
    using make_nodes_spec[OF refl refl assms, of "\<lambda>i. Some 1" "\<lambda>i. 1"] by auto
  have "unat (of_nat i :: u32) = i" "unat (of_nat c :: u32) = c" if "i < unat h" "c < unat v" for i c
    using that unsigned_less[of h, where ?'a = nat] unsigned_less[of v, where ?'a = nat] by (intro unat_small; simp)+
  then show ?thesis using n set_around by (auto simp: new_grid_def new_node_def)
qed

lemma new_grid_wf:
  assumes "new_grid l t h v w hh thr speed = Some g" and "unat h * unat v < 2 ^ 29" and "2 * unat thr * (unat h * unat v + 1) \<le> 2 ^ 30"
  shows "wf_grid g"
proof -
  obtain g' where g': "new_grid l t h v w hh thr speed = Some g'" "length (nodearray g') = unat h * unat v"
    "\<forall>i c. i < unat h \<and> c < unat v \<longrightarrow>
       ncost (nodearray g' ! (i * unat v + c)) = 1 \<and>
       unat (nx (nodearray g' ! (i * unat v + c))) = i \<and> unat (ny (nodearray g' ! (i * unat v + c))) = c \<and>
       set (neighbor_nodes (nodearray g' ! (i * unat v + c))) =
         {i' * unat v + c' | i' c'. i' < unat h \<and> c' < unat v \<and> i \<le> i' + 1 \<and> i' \<le> i + 1 \<and> c \<le> c' + 1 \<and> c' \<le> c + 1 \<and>
            (i', c') \<noteq> (i, c)}"
    using new_grid_spec[OF assms(2)] by blast
  have g: "g = g'" using g'(1) assms(1) by simp
  have f: "hcells g = h" "vcells g = v" "threshold g = thr" using assms(1) by (auto simp: new_grid_def split: bind_splits)
  have n: "unat (h * v) = unat h * unat v" using assms(2) by (intro unat_mult_lem[THEN iffD1]) simp
  have node: "(\<forall>k\<in>set (neighbor_nodes (nodearray g ! j)). k < length (nodearray g)) \<and>
      unat (nx (nodearray g ! j)) < 2 ^ 29 \<and> unat (ny (nodearray g ! j)) < 2 ^ 29" if "j < length (nodearray g)" for j
  proof -
    have V: "0 < unat v" using that g g'(2) by (cases "unat v") simp_all
    define i c where "i = j div unat v" and "c = j mod unat v"
    have ic: "i < unat h" "c < unat v" "j = i * unat v + c"
      using V that g g'(2) by (simp_all add: i_def c_def less_mult_imp_div_less)
    have "unat h \<le> unat h * unat v" "unat v \<le> unat h * unat v" using V ic(1) by simp_all
    then have "i < 2 ^ 29" "c < 2 ^ 29" using ic assms(2) by linarith+
    then show ?thesis using g'(2,3) ic g nth_cell_less by fastforce
  qed
  show ?thesis unfolding wf_grid_def wf_nodes_def
    using node assms(2,3) g'(2) g f n by (auto simp: all_set_conv_all_nth)
qed

text \<open>
  C34. A new grid: every cell has its own coordinates and the cost 1, and is linked to exactly the
  cells around it that lie in the grid.
\<close>

theorem new_grid_links:
  assumes "unat h * unat v < 2 ^ 29"
  shows "\<exists>g. new_grid l t h v w hh thr speed = Some g \<and> length (nodearray g) = unat h * unat v \<and>
    (\<forall>i c. i < unat h \<and> c < unat v \<longrightarrow>
       ncost (nodearray g ! (i * unat v + c)) = 1 \<and>
       unat (nx (nodearray g ! (i * unat v + c))) = i \<and> unat (ny (nodearray g ! (i * unat v + c))) = c \<and>
       set (neighbor_nodes (nodearray g ! (i * unat v + c))) =
         {i' * unat v + c' | i' c'. i' < unat h \<and> c' < unat v \<and> i \<le> i' + 1 \<and> i' \<le> i + 1 \<and> c \<le> c' + 1 \<and> c' \<le> c + 1 \<and>
            (i', c') \<noteq> (i, c)})"
  by (rule new_grid_spec) (fact assms)

lemma new_grid_links_witness: "\<exists>g. new_grid 0 0 3 2 32 32 1 (DFin 1) = Some g \<and> length (nodearray g) = 6"
  using new_grid_links[of 3 2 0 0 32 32 1 "DFin 1"] by auto

text \<open>
  C2. Finding a path: on a grid with sizes and costs in range the search returns for any two
  different cells.  Its status says whether the destination can be reached by steps to free neighbors,
  diagonal ones only where allowed and not past a blocked corner; the nodes it returns are, backwards, a
  walk of such steps, to the destination or else to a reachable cell that is nearest to it.
\<close>

theorem find_path_reaches:
  assumes "wf_grid g" and "n0 < length (nodearray g)" and "n1 < length (nodearray g)" and "n0 \<noteq> n1"
  shows "\<exists>nodes path reached. find_path g n0 n1 allow_diag status = Some (nodes, path, reached) \<and>
    (reached \<longleftrightarrow> (ok_step (nodearray g) (threshold g) allow_diag)\<^sup>*\<^sup>* n0 n1) \<and>
    (\<exists>m. (ok_step (nodearray g) (threshold g) allow_diag)\<^sup>*\<^sup>* n0 m \<and> (reached \<longrightarrow> m = n1) \<and>
       (m = n0 \<and> path = [] \<or>
        successively (ok_step (nodearray g) (threshold g) allow_diag) (n0 # rev (map snd path) @ [m])) \<and>
       (\<forall>x. \<not> reached \<longrightarrow> (ok_step (nodearray g) (threshold g) allow_diag)\<^sup>*\<^sup>* n0 x \<longrightarrow>
          goal_dist (nodearray g) n1 allow_diag m \<le> goal_dist (nodearray g) n1 allow_diag x))"
  by (rule find_path_spec) (fact assms)+

lemma find_path_reaches_witness:
  "\<exists>g nodes path reached. new_grid 0 0 3 1 32 32 2 (DFin 1) = Some g \<and>
    find_path g 0 2 False True = Some (nodes, path, reached) \<and>
    (reached \<longleftrightarrow> (ok_step (nodearray g) (threshold g) False)\<^sup>*\<^sup>* 0 2)"
proof -
  obtain g where g: "new_grid 0 0 3 1 32 32 2 (DFin 1) = Some g" "length (nodearray g) = 3"
    using new_grid_spec[of 3 1 0 0 32 32 2 "DFin 1"] by auto
  have "wf_grid g" by (rule new_grid_wf[OF g(1)]) simp_all
  then show ?thesis using find_path_reaches[of g 0 2 False True] g by auto
qed

text \<open>
  C35. Before any cost is set, no path is found on a new grid: its threshold is the cost of its
  cells, and a cell has to cost less than the threshold to be entered.
\<close>

theorem new_grid_has_no_path:
  assumes "mp_grid_create gs l t h v w hh speed = Some (gs', gid)" and "0 \<le> h" and "0 \<le> v" and "h * v < 2 ^ 26"
    and "h < 2 ^ 29" and "v < 2 ^ 29" and "length gs < 2 ^ 32"
    and "n0 < nat (h * v)" and "n1 < nat (h * v)" and "n0 \<noteq> n1"
  shows "\<exists>g nodes. grid_with_id gs' gid = Some g \<and> find_path g n0 n1 allow_diag status = Some (nodes, [], False)"
proof -
  obtain g where g: "new_grid l t (of_int h) (of_int v) (of_int w) (of_int hh) 1 speed = Some g" "gs' = gs @ [Some g]" "gid = of_nat (length gs)"
    using assms(1) by (auto simp: mp_grid_create_def split: bind_splits)
  have at: "grid_with_id gs' gid = Some g" using g(2,3) assms(7) by (simp add: grid_with_id_def arr_get_def unat_small)
  have u: "unat (of_int h :: u32) = nat h" "unat (of_int v :: u32) = nat v"
    using assms(2,3,5,6) by (simp_all add: unat_eq_nat_uint uint_word_of_int)
  have hv: "nat h * nat v = nat (h * v)" using assms(2) by (simp add: nat_mult_distrib)
  have small: "unat (of_int h :: u32) * unat (of_int v :: u32) < 2 ^ 26" unfolding u hv using assms(4) by simp
  have wf: "wf_grid g" by (rule new_grid_wf[OF g(1)]) (use small in simp_all)
  obtain g2 where g2: "new_grid l t (of_int h) (of_int v) (of_int w) (of_int hh) 1 speed = Some g2" "length (nodearray g2) = nat (h * v)"
    "\<forall>i c. i < nat h \<and> c < nat v \<longrightarrow> ncost (nodearray g2 ! (i * nat v + c)) = 1"
    using new_grid_spec[of "of_int h" "of_int v" l t "of_int w" "of_int hh" 1 speed] small by (auto simp: u hv)
  have gg: "g2 = g" using g(1) g2(1) by simp
  have thr: "threshold g = 1" using g(1) by (auto simp: new_grid_def split: bind_splits)
  have cost: "ncost (nodearray g ! j) = 1" if "j < length (nodearray g)" for j
  proof -
    have j: "j < nat h * nat v" using that g2(2) gg hv by simp
    then have V: "0 < nat v" by (cases "nat v") simp_all
    have "j div nat v < nat h" "j mod nat v < nat v" "j div nat v * nat v + j mod nat v = j"
      using V j by (simp_all add: less_mult_imp_div_less)
    then show ?thesis using g2(3) gg by metis
  qed
  have no: "\<not> ok_step (nodearray g) (threshold g) allow_diag a b" for a b
  proof
    assume s: "ok_step (nodearray g) (threshold g) allow_diag a b"
    have "wf_nodes (nodearray g) (threshold g)" using wf by (simp add: wf_grid_def)
    from wf_nodes_nth(1)[OF this] s have "b < length (nodearray g)" unfolding ok_step_def by blast
    then show False using s cost thr by (simp add: ok_step_def)
  qed
  then have stay: "(ok_step (nodearray g) (threshold g) allow_diag)\<^sup>*\<^sup>* n0 m \<Longrightarrow> m = n0" for m
    by (metis converse_rtranclpE)
  have n: "n0 < length (nodearray g)" "n1 < length (nodearray g)" using assms(8,9) g2(2) gg by simp_all
  obtain nodes path reached m where f: "find_path g n0 n1 allow_diag status = Some (nodes, path, reached)"
    "reached \<longleftrightarrow> (ok_step (nodearray g) (threshold g) allow_diag)\<^sup>*\<^sup>* n0 n1"
    "(ok_step (nodearray g) (threshold g) allow_diag)\<^sup>*\<^sup>* n0 m"
    "m = n0 \<and> path = [] \<or> successively (ok_step (nodearray g) (threshold g) allow_diag) (n0 # rev (map snd path) @ [m])"
    using find_path_spec[OF wf n assms(10)] by blast
  have "path = []"
    using f(4) no by (cases "rev (map snd path)") (auto)
  moreover have "\<not> reached" using f(2) stay assms(10) by blast
  ultimately show ?thesis using f(1) at by auto
qed

lemma new_grid_has_no_path_witness:
  "\<exists>gs gid g nodes. mp_grid_create [] 0 0 2 2 32 32 (DFin 1) = Some (gs, gid) \<and> grid_with_id gs gid = Some g \<and>
    find_path g 0 3 True True = Some (nodes, [], False)"
proof -
  obtain g where "new_grid 0 0 2 2 32 32 1 (DFin 1) = Some g" using new_grid_spec[of 2 2 0 0 32 32 1 "DFin 1"] by auto
  then have "mp_grid_create [] 0 0 2 2 32 32 (DFin 1) = Some ([Some g], 0)" by (simp add: mp_grid_create_def)
  then show ?thesis using new_grid_has_no_path[of "[]" 0 0 2 2 32 32 "DFin 1" "[Some g]" 0 0 3 True True] by fastforce
qed

end
