(* ===== verification/SortedMap.thy ===== *)
theory SortedMap
  imports Prelude
begin

text \<open>
  \<open>std::map\<close> as the sequence of its entries in the order of the keys: \<open>operator[]\<close>, which makes a missing
  entry with a default value, the change of an element, and what they do to the function \<open>map_of\<close>.
\<close>

definition map_entry :: "'k::linorder \<Rightarrow> 'v \<Rightarrow> ('k \<times> 'v) list \<Rightarrow> ('k \<times> 'v) list" where
  "map_entry k dflt m =
     (if k \<in> fst ` set m then m
      else takeWhile (\<lambda>e. fst e < k) m @ (k, dflt) # dropWhile (\<lambda>e. fst e < k) m)"

definition map_change :: "'k \<Rightarrow> ('v \<Rightarrow> 'v) \<Rightarrow> ('k \<times> 'v) list \<Rightarrow> ('k \<times> 'v) list" where
  "map_change k f m = map (\<lambda>(j, v). (j, if j = k then f v else v)) m"

abbreviation map_sorted :: "('k::linorder \<times> 'v) list \<Rightarrow> bool" where
  "map_sorted m \<equiv> sorted_wrt (<) (map fst m)"

lemma map_of_keys: "k \<in> fst ` set m \<longleftrightarrow> (\<exists>v. map_of m k = Some v)"
  by (metis map_of_eq_None_iff not_None_eq)

lemma takeWhile_below: "map_sorted m \<Longrightarrow> takeWhile (\<lambda>e. fst e < c) m = filter (\<lambda>e. fst e < c) m"
  by (induction m) (auto simp: empty_filter_conv)

lemma dropWhile_below: "map_sorted m \<Longrightarrow> dropWhile (\<lambda>e. fst e < c) m = filter (\<lambda>e. c \<le> fst e) m"
  by (induction m) (auto simp: filter_id_conv intro!: filter_True[symmetric])

lemma sorted_dropWhile_keys:
  "map_sorted m \<Longrightarrow> k \<in> fst ` set (dropWhile (\<lambda>e. fst e < c) m) \<longleftrightarrow> k \<in> fst ` set m \<and> c \<le> k"
  by (auto simp: dropWhile_below)

lemma map_of_filter_keys: "map_of (filter (\<lambda>e. P (fst e)) m) k = (if P k then map_of m k else None)"
  by (induction m) auto

lemma map_of_dropWhile_keys:
  "map_sorted m \<Longrightarrow> map_of (dropWhile (\<lambda>e. fst e < c) m) k = (if c \<le> k then map_of m k else None)"
  by (simp add: dropWhile_below map_of_filter_keys[of "\<lambda>k. c \<le> k"])

lemma sorted_dropWhile:
  "map_sorted m \<Longrightarrow> sorted_wrt (<) (map fst (dropWhile (\<lambda>e. fst e < c) m))"
  by (induction m) auto

lemma map_entry_keys: "fst ` set (map_entry i d m) = insert i (fst ` set m)"
proof -
  have "set m = set (takeWhile (\<lambda>e. fst e < i) m) \<union> set (dropWhile (\<lambda>e. fst e < i) m)"
    by (metis set_append takeWhile_dropWhile_id)
  then show ?thesis by (auto simp: map_entry_def)
qed

lemma map_entry_sorted:
  "map_sorted m \<Longrightarrow> sorted_wrt (<) (map fst (map_entry i d m))"
proof (induction m)
  case (Cons e m)
  show ?case
  proof (cases "fst e < i")
    case True
    then have "map fst (map_entry i d (e # m)) = fst e # map fst (map_entry i d m)"
      by (auto simp: map_entry_def)
    moreover have "\<forall>k\<in>set (map fst (map_entry i d m)). fst e < k"
      using Cons.prems True map_entry_keys[of i d m] by auto
    ultimately show ?thesis using Cons by simp
  next
    case False
    then show ?thesis using Cons.prems by (auto simp: map_entry_def)
  qed
qed (simp add: map_entry_def)

lemma map_of_map_entry:
  assumes "map_sorted m"
  shows "map_of (map_entry i d m) k =
    (case map_of m k of None \<Rightarrow> if k = i then Some d else None | Some v \<Rightarrow> Some v)"
proof (cases "i \<in> fst ` set m")
  case False
  have "map_of (takeWhile (\<lambda>e. fst e < i) m) k = (if k < i then map_of m k else None)"
    using assms by (simp add: takeWhile_below map_of_filter_keys[of "\<lambda>k. k < i"])
  moreover have "map_of m i = None" using False by (simp add: map_of_eq_None_iff)
  ultimately show ?thesis using False map_of_dropWhile_keys[OF assms, of i k]
    by (auto simp: map_entry_def map_add_def split: option.splits)
next
  case True
  then obtain v where "map_of m i = Some v" unfolding map_of_keys ..
  then show ?thesis using True by (auto simp: map_entry_def split: option.splits)
qed

lemma map_entry_values: "snd ` set (map_entry i d m) \<subseteq> insert d (snd ` set m)"
  by (auto simp: map_entry_def dest: set_takeWhileD set_dropWhileD)

lemma map_of_map_change:
  "map_of (map_change i f m) k = (if k = i then map_option f (map_of m k) else map_of m k)"
  by (induction m) (auto simp: map_change_def)

lemma map_change_keys [simp]: "map fst (map_change i f m) = map fst m"
  by (induction m) (auto simp: map_change_def)

end
