(* ===== verification/LuaTable.thy ===== *)
theory LuaTable
  imports Variant SortedMap
begin

text \<open>
  \<open>lua_table\<close> (\<open>ENIGMAsystem/SHELL/Universal_System/lua_table.h\<close>), an array with a dense part that grows
  while it is filled in order and a sparse part for the other indices, and \<open>var\<close> (\<open>var4.h\<close>), the variable
  of the scripting language: a \<open>variant\<close> with a table for its first row and a table of tables for the others.

  The dense part is a \<open>std::vector\<close>; the capacity it takes when it must grow is up to the library and is the
  parameter \<open>grow\<close> (of the size, the capacity and the size needed).  The sparse part is a
  \<open>std::map\<close>, the sequence of its entries in key order.  The operations on elements are in a record of the
  type \<open>element\<close>; the assignment of variants leaves the string alone when a number is assigned, so that
  elements are compared by their value, \<open>value_of\<close>.  An operator that returns a reference is the operation
  that changes the element with a function.

  The locale states what a table asks of its elements.  Its lemmas, that an element which was changed has the new
  value and the others keep theirs, hold for variants, and for tables of variants as the rows of another table.
\<close>

section \<open>The table\<close>

type_synonym growth = "nat \<Rightarrow> nat \<Rightarrow> nat \<Rightarrow> u64"

text \<open>What the templates use of the type \<open>T\<close>: copying, assignment and the default value.\<close>

record 'a element =
  copied :: "'a \<Rightarrow> 'a"
  assigned :: "'a \<Rightarrow> 'a \<Rightarrow> 'a"
  default_element :: 'a

record 'a lua_table =
  dense_part :: "'a list"
  dense_capacity :: nat
  sparse_part :: "(nat \<times> 'a) list"
  mx_size :: nat

definition lua_table_new :: "'a lua_table" where
  "lua_table_new = \<lparr>dense_part = [], dense_capacity = 0, sparse_part = [], mx_size = 0\<rparr>"

text \<open>\<open>pick_up\<close>, the assignment of a table.\<close>

definition pick_up :: "growth \<Rightarrow> 'a lua_table \<Rightarrow> 'a lua_table \<Rightarrow> 'a lua_table" where
  "pick_up grow t who =
     (let c = length (dense_part who)
      in \<lparr>dense_part = dense_part who,
          dense_capacity = (if c \<le> dense_capacity t then dense_capacity t
                            else unat (grow (length (dense_part t)) (dense_capacity t) c)),
          sparse_part = sparse_part who, mx_size = mx_size who\<rparr>)"

definition lua_table_filled :: "growth \<Rightarrow> 'a \<Rightarrow> nat \<Rightarrow> 'a lua_table" where
  "lua_table_filled grow v len =
     \<lparr>dense_part = replicate len v, dense_capacity = unat (grow 0 0 len), sparse_part = [], mx_size = len\<rparr>"

fun move_to_dense :: "('a \<Rightarrow> 'a \<Rightarrow> 'a) \<Rightarrow> nat \<Rightarrow> (nat \<times> 'a) list \<Rightarrow> 'a list \<Rightarrow> 'a list \<times> (nat \<times> 'a) list" where
  "move_to_dense asg c [] d = (d, [])"
| "move_to_dense asg c ((k, v) # m) d = (if c \<le> k then (d, (k, v) # m) else move_to_dense asg c m (d[k := asg (d ! k) v]))"

definition upsize :: "'a element \<Rightarrow> growth \<Rightarrow> nat \<Rightarrow> 'a lua_table \<Rightarrow> 'a lua_table" where
  "upsize E grow c t =
     (let n = length (dense_part t);
          (d, m) = move_to_dense (assigned E) c (sparse_part t)
            ((if c \<le> dense_capacity t then take c (dense_part t) else map (copied E) (take c (dense_part t)))
             @ replicate (c - n) (default_element E))
      in t\<lparr>dense_part := d, sparse_part := m,
           dense_capacity := (if c \<le> dense_capacity t then dense_capacity t else unat (grow n (dense_capacity t) c))\<rparr>)"

text \<open>\<open>operator[]\<close>: the table in which the element is at its place, and the change of the element there.\<close>

definition lua_table_index :: "'a element \<Rightarrow> growth \<Rightarrow> nat \<Rightarrow> 'a lua_table \<Rightarrow> 'a lua_table" where
  "lua_table_index E grow ind t =
     (let t = t\<lparr>mx_size := maxv (zadd ind 1) (mx_size t)\<rparr>; n = length (dense_part t)
      in if n \<le> ind
         then let nsize = maxv (zadd n n) (dense_capacity t)
              in if nsize \<le> ind then t\<lparr>sparse_part := map_entry ind (default_element E) (sparse_part t)\<rparr>
                 else upsize E grow (zadd ind 1) t
         else t)"

definition lua_table_change :: "'a element \<Rightarrow> growth \<Rightarrow> nat \<Rightarrow> ('a \<Rightarrow> 'a) \<Rightarrow> 'a lua_table \<Rightarrow> 'a lua_table" where
  "lua_table_change E grow ind f t =
     (let t = lua_table_index E grow ind t
      in if ind < length (dense_part t) then t\<lparr>dense_part := (dense_part t)[ind := f (dense_part t ! ind)]\<rparr>
         else t\<lparr>sparse_part := map_change ind f (sparse_part t)\<rparr>)"

text \<open>\<open>operator[] const\<close>.\<close>

definition lua_table_get :: "'a element \<Rightarrow> 'a lua_table \<Rightarrow> nat \<Rightarrow> 'a" where
  "lua_table_get E t ind =
     (if length (dense_part t) \<le> ind
      then (case map_of (sparse_part t) ind of None \<Rightarrow> default_element E | Some v \<Rightarrow> v)
      else dense_part t ! ind)"

definition lua_table_fill :: "'a element \<Rightarrow> growth \<Rightarrow> 'a \<Rightarrow> nat \<Rightarrow> 'a lua_table \<Rightarrow> 'a lua_table" where
  "lua_table_fill E grow v len t =
     (let t = upsize E grow len t;
          t = (if mx_size t < len then t\<lparr>mx_size := len\<rparr> else t)
      in t\<lparr>dense_part := fold (\<lambda>i d. d[i := assigned E (d ! i) v]) [0..<len] (dense_part t)\<rparr>)"

definition int_of_size :: "nat \<Rightarrow> int" where
  "int_of_size n = sint (of_nat n :: u32)"

definition max_index :: "'a lua_table \<Rightarrow> int" where
  "max_index t = int_of_size (mx_size t)"

section \<open>var\<close>

record var =
  as_variant :: variant
  array1d :: "variant lua_table"
  array2d :: "variant lua_table lua_table"

definition variant_element :: "vty \<Rightarrow> variant element" where
  "variant_element dt = \<lparr>copied = (\<lambda>v. v), assigned = variant_assign, default_element = variant_default dt\<rparr>"

definition row_element :: "growth \<Rightarrow> variant lua_table element" where
  "row_element grow =
     \<lparr>copied = pick_up grow lua_table_new, assigned = pick_up grow, default_element = lua_table_new\<rparr>"

definition size_of_int :: "int \<Rightarrow> nat" where
  "size_of_int ind = nat (ind mod 2 ^ 64)"

definition var_new :: "vty \<Rightarrow> var" where
  "var_new dt = \<lparr>as_variant = variant_default dt, array1d = lua_table_new, array2d = lua_table_new\<rparr>"

definition var_of_variant :: "variant \<Rightarrow> var" where
  "var_of_variant v = \<lparr>as_variant = v, array1d = lua_table_new, array2d = lua_table_new\<rparr>"

definition var_filled ::
  "growth \<Rightarrow> vty \<Rightarrow> variant \<Rightarrow> nat \<Rightarrow> nat \<Rightarrow> var" where
  "var_filled grow dt v len height =
     \<lparr>as_variant = v, array1d = lua_table_filled grow v len,
      array2d = fold (\<lambda>i. lua_table_change (row_element grow) grow i (lua_table_fill (variant_element dt) grow v len))
                  [1..<height] lua_table_new\<rparr>"

text \<open>\<open>operator[]\<close> and \<open>operator()\<close> with one and two indices: changing and reading an element.\<close>

definition var_change :: "growth \<Rightarrow> vty \<Rightarrow> int \<Rightarrow> (variant \<Rightarrow> variant) \<Rightarrow> var \<Rightarrow> var" where
  "var_change grow dt ind f x =
     (if ind = 0 then x\<lparr>as_variant := f (as_variant x)\<rparr>
      else x\<lparr>array1d := lua_table_change (variant_element dt) grow (size_of_int ind) f (array1d x)\<rparr>)"

definition var_change2 ::
  "growth \<Rightarrow> vty \<Rightarrow> int \<Rightarrow> int \<Rightarrow> (variant \<Rightarrow> variant) \<Rightarrow> var \<Rightarrow> var" where
  "var_change2 grow dt ind_2d ind_1d f x =
     (if ind_2d \<noteq> 0
      then x\<lparr>array2d := lua_table_change (row_element grow) grow (size_of_int ind_2d)
                         (lua_table_change (variant_element dt) grow (size_of_int ind_1d) f) (array2d x)\<rparr>
      else if ind_1d \<noteq> 0
      then x\<lparr>array1d := lua_table_change (variant_element dt) grow (size_of_int ind_1d) f (array1d x)\<rparr>
      else x\<lparr>as_variant := f (as_variant x)\<rparr>)"

definition var_get :: "growth \<Rightarrow> vty \<Rightarrow> var \<Rightarrow> int \<Rightarrow> variant" where
  "var_get grow dt x ind =
     (if ind = 0 then as_variant x else lua_table_get (variant_element dt) (array1d x) (size_of_int ind))"

definition var_get2 :: "growth \<Rightarrow> vty \<Rightarrow> var \<Rightarrow> int \<Rightarrow> int \<Rightarrow> variant" where
  "var_get2 grow dt x ind_2d ind_1d =
     (if ind_2d \<noteq> 0
      then lua_table_get (variant_element dt)
             (lua_table_get (row_element grow) (array2d x) (size_of_int ind_2d)) (size_of_int ind_1d)
      else if ind_1d \<noteq> 0 then lua_table_get (variant_element dt) (array1d x) (size_of_int ind_1d)
      else as_variant x)"

definition array_len :: "var \<Rightarrow> int" where
  "array_len x = max_index (array1d x)"

definition array_height :: "var \<Rightarrow> int" where
  "array_height x = max_index (array2d x)"

definition array_len_row :: "growth \<Rightarrow> var \<Rightarrow> int \<Rightarrow> int" where
  "array_len_row grow x row =
     (if row \<noteq> 0 then max_index (lua_table_get (row_element grow) (array2d x) (size_of_int row)) else max_index (array1d x))"

definition dense_length :: "var \<Rightarrow> nat" where
  "dense_length x = length (dense_part (array1d x))"

text \<open>\<open>dense_array_1d\<close> assigns to \<open>dense[0]\<close>, which must exist.\<close>

definition dense_array_1d :: "var \<Rightarrow> (var \<times> variant list) option" where
  "dense_array_1d x =
     (case dense_part (array1d x) of
        [] \<Rightarrow> None
      | d # ds \<Rightarrow> let x' = x\<lparr>array1d := (array1d x)\<lparr>dense_part := variant_assign d (as_variant x) # ds\<rparr>\<rparr>
                 in Some (x', dense_part (array1d x')))"

definition to_vector :: "var \<Rightarrow> variant list" where
  "to_vector x = dense_part (array1d x)"

definition var_assign :: "var \<Rightarrow> var \<Rightarrow> var" where
  "var_assign x v = x\<lparr>as_variant := variant_assign (as_variant x) (as_variant v)\<rparr>"

section \<open>Laws of the table\<close>

definition table_ok :: "('a \<Rightarrow> bool) \<Rightarrow> 'a lua_table \<Rightarrow> bool" where
  "table_ok good t \<longleftrightarrow>
     sorted_wrt (<) (map fst (sparse_part t)) \<and> (\<forall>k\<in>fst ` set (sparse_part t). length (dense_part t) \<le> k) \<and> dense_capacity t < 2 ^ 64 \<and>
     (\<forall>x\<in>set (dense_part t). good x) \<and> (\<forall>x\<in>snd ` set (sparse_part t). good x)"

lemma table_okI:
  assumes "sorted_wrt (<) (map fst (sparse_part t))" and "\<forall>k\<in>fst ` set (sparse_part t). length (dense_part t) \<le> k"
    and "dense_capacity t < 2 ^ 64" and "\<forall>x\<in>set (dense_part t). good x" and "\<forall>x\<in>snd ` set (sparse_part t). good x"
  shows "table_ok good t"
  unfolding table_ok_def using assms by blast

lemma table_ok_sparse: "table_ok good t \<Longrightarrow> \<forall>x\<in>snd ` set (sparse_part t). good x"
  unfolding table_ok_def by blast

lemma table_ok_sparse_update:
  assumes "table_ok good t" and "sorted_wrt (<) (map fst m)" and "\<forall>k\<in>fst ` set m. length (dense_part t) \<le> k"
    and "\<forall>x\<in>snd ` set m. good x"
  shows "table_ok good (t\<lparr>sparse_part := m\<rparr>)"
  using assms unfolding table_ok_def by (cases t) simp

lemma table_ok_dense_update:
  assumes "table_ok good t" and "\<forall>x\<in>set d. good x" and "length d = length (dense_part t)"
  shows "table_ok good (t\<lparr>dense_part := d\<rparr>)"
  using assms unfolding table_ok_def by (cases t) simp

lemma table_ok_mx [simp]: "table_ok good (t\<lparr>mx_size := m\<rparr>) = table_ok good t"
  by (simp add: table_ok_def)

lemma table_ok_keys: "table_ok good t \<Longrightarrow> \<forall>k\<in>fst ` set (sparse_part t). length (dense_part t) \<le> k"
  and table_ok_sorted: "table_ok good t \<Longrightarrow> sorted_wrt (<) (map fst (sparse_part t))"
  unfolding table_ok_def by blast+

lemma ball_subset_insert: "A \<subseteq> insert d B \<Longrightarrow> \<forall>x\<in>B. P x \<Longrightarrow> P d \<Longrightarrow> \<forall>x\<in>A. P x"
  by blast

lemma fold_update: "k \<le> length d \<Longrightarrow> fold (\<lambda>i d. d[i := g (d ! i)]) [0..<k] d = map g (take k d) @ drop k d"
  by (induction k) (simp_all add: take_Suc_conv_app_nth list_update_append nth_append Cons_nth_drop_Suc[symmetric])

lemma growth_less: "unat (grow a b c :: u64) < 2 ^ 64"
  by (rule order.strict_trans2[OF unsigned_less]) simp

lemma move_to_dense_spec:
  assumes "sorted_wrt (<) (map fst m)" and "length d = c"
  shows "snd (move_to_dense asg c m d) = dropWhile (\<lambda>e. fst e < c) m" (is ?rest)
    and "length (fst (move_to_dense asg c m d)) = c" (is ?length)
    and "\<forall>j<c. fst (move_to_dense asg c m d) ! j = (case map_of m j of None \<Rightarrow> d ! j | Some v \<Rightarrow> asg (d ! j) v)" (is ?elements)
proof -
  have "?rest \<and> ?length \<and> ?elements" using assms
  proof (induction asg c m d rule: move_to_dense.induct)
    case (2 asg c k v m d)
    have above: "map_of m j = None" if "j \<le> k" for j using 2(2) that by (auto simp: map_of_eq_None_iff)
    show ?case
    proof (cases "c \<le> k")
      case True
      then show ?thesis using 2(3) above by auto
    next
      case False
      with 2 have "snd (move_to_dense asg c m (d[k := asg (d ! k) v])) = dropWhile (\<lambda>e. fst e < c) m"
        "length (fst (move_to_dense asg c m (d[k := asg (d ! k) v]))) = c"
        "\<forall>j<c. fst (move_to_dense asg c m (d[k := asg (d ! k) v])) ! j =
           (case map_of m j of None \<Rightarrow> d[k := asg (d ! k) v] ! j | Some w \<Rightarrow> asg (d[k := asg (d ! k) v] ! j) w)"
        by auto
      then show ?thesis using False 2(3) above by (auto simp: nth_list_update split: option.splits)
    qed
  qed simp
  then show ?rest ?length ?elements by blast+
qed

locale lua_elements =
  fixes E :: "'a element" and good :: "'a \<Rightarrow> bool" and view :: "'a \<Rightarrow> 'v"
  assumes good_default: "good (default_element E)"
    and good_copied: "good v \<Longrightarrow> good (copied E v)"
    and good_assigned: "good d \<Longrightarrow> good v \<Longrightarrow> good (assigned E d v)"
    and view_copied: "view (copied E v) = view v"
    and view_assigned: "view (assigned E d v) = view v"
begin

lemma new_ok: "table_ok good lua_table_new"
  by (simp add: table_ok_def lua_table_new_def)

lemma new_get: "lua_table_get E lua_table_new j = default_element E"
  by (simp add: lua_table_get_def lua_table_new_def)

lemma filled_ok: "good v \<Longrightarrow> table_ok good (lua_table_filled grow v n)"
  using growth_less[of grow 0 0 n] by (auto simp: table_ok_def lua_table_filled_def)

lemma get_good: "table_ok good t \<Longrightarrow> good (lua_table_get E t j)"
  using good_default by (force simp: table_ok_def lua_table_get_def dest: map_of_SomeD split: option.splits)

lemma upsize_parts:
  fixes t :: "'a lua_table" and grow :: growth and c :: nat
  assumes "table_ok good t"
  defines "t' \<equiv> upsize E grow c t"
  shows "sparse_part t' = dropWhile (\<lambda>e. fst e < c) (sparse_part t)" and "length (dense_part t') = c"
    and "mx_size t' = mx_size t"
    and "j < c \<Longrightarrow> view (dense_part t' ! j) = view (lua_table_get E t j) \<and> good (dense_part t' ! j)"
proof -
  let ?d = "(if c \<le> dense_capacity t then take c (dense_part t) else map (copied E) (take c (dense_part t)))
             @ replicate (c - length (dense_part t)) (default_element E)"
  have d: "length ?d = c" by auto
  have s: "sorted_wrt (<) (map fst (sparse_part t))" using assms(1) by (simp add: table_ok_def)
  have t': "t' = t\<lparr>dense_part := fst (move_to_dense (assigned E) c (sparse_part t) ?d),
      sparse_part := snd (move_to_dense (assigned E) c (sparse_part t) ?d), dense_capacity := dense_capacity t'\<rparr>"
    by (simp add: t'_def upsize_def Let_def case_prod_beta)
  note m = move_to_dense_spec[OF s d, of "assigned E"]
  show "sparse_part t' = dropWhile (\<lambda>e. fst e < c) (sparse_part t)" "length (dense_part t') = c" "mx_size t' = mx_size t"
    using m by (subst t', simp)+
  assume j: "j < c"
  have "dense_part t' ! j = (case map_of (sparse_part t) j of None \<Rightarrow> ?d ! j | Some v \<Rightarrow> assigned E (?d ! j) v)"
    using m(3) j by (subst t') simp
  moreover have "good (?d ! j) \<and> (j < length (dense_part t) \<longrightarrow> view (?d ! j) = view (dense_part t ! j)) \<and>
      (length (dense_part t) \<le> j \<longrightarrow> ?d ! j = default_element E)"
    using assms(1) j good_default good_copied by (auto simp: table_ok_def nth_append view_copied)
  moreover have "map_of (sparse_part t) j = None" if "j < length (dense_part t)"
    using assms(1) that by (force simp: table_ok_def map_of_eq_None_iff)
  moreover have "good v" if "map_of (sparse_part t) j = Some v" for v
    using assms(1) map_of_SomeD[OF that] by (force simp: table_ok_def)
  ultimately show "view (dense_part t' ! j) = view (lua_table_get E t j) \<and> good (dense_part t' ! j)"
    using good_assigned by (auto simp: lua_table_get_def view_assigned split: option.splits)
qed

lemma upsize_ok: "table_ok good t \<Longrightarrow> table_ok good (upsize E grow c t)"
proof -
  assume ok: "table_ok good t"
  note p = upsize_parts[OF ok, where grow = grow and c = c]
  have s: "sorted_wrt (<) (map fst (sparse_part t))" using ok by (simp add: table_ok_def)
  have "\<forall>x\<in>set (dense_part (upsize E grow c t)). good x" using p(2,4) by (auto simp: in_set_conv_nth)
  moreover have "dense_capacity (upsize E grow c t) < 2 ^ 64"
    using ok growth_less[of grow "length (dense_part t)" "dense_capacity t" c]
    by (simp add: upsize_def table_ok_def Let_def case_prod_beta)
  ultimately show ?thesis
    using ok sorted_dropWhile[OF s] sorted_dropWhile_keys[OF s, of _ c] p(1,2)
    by (auto simp: table_ok_def dropWhile_below[OF s])
qed

lemma upsize_get:
  assumes "table_ok good t"
  shows "view (lua_table_get E (upsize E grow c t) j) =
    (if j < c \<or> length (dense_part t) \<le> j then view (lua_table_get E t j) else view (default_element E))"
proof (cases "j < c")
  case True
  then show ?thesis using upsize_parts(2,4)[OF assms, where grow = grow and c = c] by (simp add: lua_table_get_def[of E "upsize E grow c t"])
next
  case False
  have s: "sorted_wrt (<) (map fst (sparse_part t))" using assms by (simp add: table_ok_def)
  have none: "map_of (sparse_part t) j = None" if "j < length (dense_part t)"
    using assms that by (force simp: table_ok_def map_of_eq_None_iff)
  show ?thesis
    using False none upsize_parts(1,2)[OF assms, where grow = grow and c = c] map_of_dropWhile_keys[OF s, of c j]
    by (simp add: lua_table_get_def)
qed

lemma index_cases:
  fixes t :: "'a lua_table" and grow :: growth and ind :: nat
  assumes "table_ok good t" and "ind < 2 ^ 64"
  defines "t' \<equiv> lua_table_index E grow ind t"
  obtains (dense) "ind < length (dense_part t)" and "t' = t\<lparr>mx_size := maxv (zadd ind 1) (mx_size t)\<rparr>"
    | (sparse) "length (dense_part t) \<le> ind"
        and "t' = t\<lparr>mx_size := maxv (zadd ind 1) (mx_size t), sparse_part := map_entry ind (default_element E) (sparse_part t)\<rparr>"
    | (grown) "length (dense_part t) \<le> ind"
        and "t' = upsize E grow (Suc ind) (t\<lparr>mx_size := maxv (zadd ind 1) (mx_size t)\<rparr>)"
proof -
  let ?n = "length (dense_part t)"
  have "zadd ?n ?n < 2 ^ 64" "dense_capacity t < 2 ^ 64" using assms(1) by (simp_all add: zadd_def table_ok_def)
  then have "ind + 1 < 2 ^ 64" if "\<not> maxv (zadd ?n ?n) (dense_capacity t) \<le> ind"
    using that by (auto simp: maxv_def split: if_splits)
  then have "zadd ind 1 = Suc ind" if "\<not> maxv (zadd ?n ?n) (dense_capacity t) \<le> ind" using that by simp
  then show thesis
    using dense sparse grown by (fastforce simp: t'_def lua_table_index_def Let_def not_le split: if_splits)
qed

lemma get_mx [simp]: "lua_table_get E (t\<lparr>mx_size := m\<rparr>) j = lua_table_get E t j"
  by (simp add: lua_table_get_def)

lemma index_spec:
  fixes t :: "'a lua_table" and grow :: growth and ind :: nat
  assumes "table_ok good t" and "ind < 2 ^ 64"
  defines "t' \<equiv> lua_table_index E grow ind t"
  shows "table_ok good t'" and "view (lua_table_get E t' j) = view (lua_table_get E t j)"
    and "mx_size t' = max (zadd ind 1) (mx_size t)"
    and "ind < length (dense_part t') \<or> ind \<in> fst ` set (sparse_part t')"
proof -
  have s: "sorted_wrt (<) (map fst (sparse_part t))" using assms(1) by (simp add: table_ok_def)
  have "table_ok good t' \<and> view (lua_table_get E t' j) = view (lua_table_get E t j) \<and>
    mx_size t' = max (zadd ind 1) (mx_size t) \<and> (ind < length (dense_part t') \<or> ind \<in> fst ` set (sparse_part t'))"
  proof (cases rule: index_cases[OF assms(1,2), where grow = grow])
    case dense: 1
    then show ?thesis using assms(1) by (simp add: t'_def maxv_max)
  next
    case sparse: 2
    have keys: "fst ` set (map_entry ind (default_element E) (sparse_part t)) = insert ind (fst ` set (sparse_part t))"
      by (rule map_entry_keys)
    have "\<forall>x\<in>snd ` set (map_entry ind (default_element E) (sparse_part t)). good x"
      by (rule ball_subset_insert[where P = good, OF map_entry_values table_ok_sparse[OF assms(1)] good_default])
    moreover have "\<forall>k\<in>fst ` set (map_entry ind (default_element E) (sparse_part t)). length (dense_part t) \<le> k"
      using sparse(1) table_ok_keys[OF assms(1)] unfolding keys by blast
    ultimately have "table_ok good (t\<lparr>sparse_part := map_entry ind (default_element E) (sparse_part t)\<rparr>)"
      by (intro table_ok_sparse_update[OF assms(1) map_entry_sorted[OF s]])
    then have "table_ok good t'" unfolding t'_def sparse(2) table_ok_def by simp
    moreover have "lua_table_get E t' j = lua_table_get E t j"
      by (simp add: t'_def sparse(2) lua_table_get_def map_of_map_entry[OF s] split: option.split)
    moreover have "mx_size t' = max (zadd ind 1) (mx_size t)"
      "sparse_part t' = map_entry ind (default_element E) (sparse_part t)"
      unfolding t'_def sparse(2) by (simp_all add: maxv_max)
    ultimately show ?thesis using keys by (metis insertI1)
  next
    case grown: 3
    have ok: "table_ok good (t\<lparr>mx_size := maxv (zadd ind 1) (mx_size t)\<rparr>)" using assms(1) by simp
    show ?thesis
      using upsize_ok[OF ok] upsize_get[OF ok] upsize_parts(2,3)[OF ok] grown(1)
      by (auto simp: t'_def grown(2) maxv_max)
  qed
  then show "table_ok good t'" "view (lua_table_get E t' j) = view (lua_table_get E t j)"
    "mx_size t' = max (zadd ind 1) (mx_size t)" "ind < length (dense_part t') \<or> ind \<in> fst ` set (sparse_part t')"
    by blast+
qed

lemma change_spec:
  fixes t :: "'a lua_table" and grow :: growth and ind :: nat
  assumes ok: "table_ok good t" "ind < 2 ^ 64" and f: "\<And>x. good x \<Longrightarrow> good (f x)"
  defines "t' \<equiv> lua_table_change E grow ind f t"
  shows "table_ok good t'" and "mx_size t' = max (zadd ind 1) (mx_size t)"
    and "(\<And>a b. good a \<Longrightarrow> good b \<Longrightarrow> view a = view b \<Longrightarrow> view (f a) = view (f b)) \<Longrightarrow>
      view (lua_table_get E t' j) = (if j = ind then view (f (lua_table_get E t ind)) else view (lua_table_get E t j))"
proof -
  let ?i = "lua_table_index E grow ind t"
  note i = index_spec[OF ok, where grow = grow]
  have keys: "fst ` set (map_change ind f m) = fst ` set m" for m
    by (metis list.set_map map_change_keys)
  have vals: "\<forall>x\<in>snd ` set (map_change ind f m). good x" if "\<forall>x\<in>snd ` set m. good x" for m
    using that f by (auto simp: map_change_def)
  have "\<forall>x\<in>set ((dense_part ?i)[ind := f (dense_part ?i ! ind)]). good x" if "ind < length (dense_part ?i)"
    using i(1) that f by (auto simp: table_ok_def dest!: subsetD[OF set_update_subset_insert])
  then have "table_ok good (?i\<lparr>dense_part := (dense_part ?i)[ind := f (dense_part ?i ! ind)]\<rparr>)" if "ind < length (dense_part ?i)"
    using i(1) that by (simp add: table_ok_def)
  moreover have "table_ok good (?i\<lparr>sparse_part := map_change ind f (sparse_part ?i)\<rparr>)"
    by (rule table_ok_sparse_update[OF i(1) _ _ vals[OF table_ok_sparse[OF i(1)]]])
      (simp_all only: map_change_keys keys table_ok_sorted[OF i(1)], rule table_ok_keys[OF i(1)])
  ultimately show "table_ok good t'" by (simp add: t'_def lua_table_change_def Let_def)
  show "mx_size t' = max (zadd ind 1) (mx_size t)" using i(3) by (simp add: t'_def lua_table_change_def Let_def)
  assume resp: "\<And>a b. good a \<Longrightarrow> good b \<Longrightarrow> view a = view b \<Longrightarrow> view (f a) = view (f b)"
  have "lua_table_get E t' j = (if j = ind then f (lua_table_get E ?i ind) else lua_table_get E ?i j)"
    using i(4) map_of_map_change[of ind f "sparse_part ?i" j] map_of_keys[of ind "sparse_part ?i"]
    by (auto simp: t'_def lua_table_change_def Let_def lua_table_get_def split: option.splits)
  then show "view (lua_table_get E t' j) = (if j = ind then view (f (lua_table_get E t ind)) else view (lua_table_get E t j))"
    using i(2) resp[OF get_good[OF i(1)] get_good[OF ok(1)], of ind ind] by simp
qed

lemma fill_spec:
  fixes t :: "'a lua_table" and grow :: growth and n :: nat
  assumes ok: "table_ok good t" and v: "good v"
  defines "t' \<equiv> lua_table_fill E grow v n t"
  shows "table_ok good t'" and "mx_size t' = max n (mx_size t)" and "length (dense_part t') = n"
    and "view (lua_table_get E t' j) = (if j < n then view v
      else if length (dense_part t) \<le> j then view (lua_table_get E t j) else view (default_element E))"
proof -
  let ?u = "upsize E grow n t"
  have len: "length (dense_part ?u) = n" by (rule upsize_parts(2)[OF ok])
  have t': "t' = ?u\<lparr>dense_part := map (\<lambda>x. assigned E x v) (dense_part ?u), mx_size := max n (mx_size t)\<rparr>"
    using fold_update[of n "dense_part ?u" "\<lambda>x. assigned E x v"] len upsize_parts(3)[OF ok, where grow = grow and c = n]
    by (auto simp: t'_def lua_table_fill_def Let_def max_def)
  show "table_ok good t'"
  proof -
    have u: "table_ok good ?u" by (rule upsize_ok[OF ok])
    then have "\<forall>x\<in>set (dense_part ?u). good x" by (simp add: table_ok_def)
    then have "\<forall>x\<in>set (map (\<lambda>x. assigned E x v) (dense_part ?u)). good x" using good_assigned[OF _ v] by simp
    then show ?thesis using table_ok_dense_update[OF u] unfolding t' by simp
  qed
  show "mx_size t' = max n (mx_size t)" "length (dense_part t') = n" using len by (simp_all add: t')
  have "view (lua_table_get E t' j) = (if j < n then view v else view (lua_table_get E ?u j))"
    using len by (auto simp: t' lua_table_get_def view_assigned)
  then show "view (lua_table_get E t' j) = (if j < n then view v
      else if length (dense_part t) \<le> j then view (lua_table_get E t j) else view (default_element E))"
    using upsize_get[OF ok, of grow n j] by simp
qed

end

end
