(* ===== verification/VarLaws.thy ===== *)
theory VarLaws
  imports LuaTable
begin

text \<open>
  The variables of the scripting language behave as functions of two indices: assignments to cells, variables
  filled at their creation, and the lengths that are reported after an access at a negative index.
\<close>

section \<open>A variable is a function of two indices\<close>

text \<open>The value of a variant: its string counts only when it is the type.\<close>

definition value_of :: "variant \<Rightarrow> double \<times> vty \<times> string" where
  "value_of v = (rval v, vtype v, if vtype v = ty_string then sval v else [])"

definition row_view :: "vty \<Rightarrow> variant lua_table \<Rightarrow> (nat \<Rightarrow> double \<times> vty \<times> string) \<times> nat" where
  "row_view dt t = ((\<lambda>j. value_of (lua_table_get (variant_element dt) t j)), mx_size t)"

lemma value_of_assign [simp]: "value_of (variant_assign d v) = value_of v"
  by (simp add: value_of_def variant_assign_def Let_def)

lemma pick_up_same: "dense_part (pick_up grow t who) = dense_part who" "sparse_part (pick_up grow t who) = sparse_part who"
    "mx_size (pick_up grow t who) = mx_size who" "lua_table_get E (pick_up grow t who) = lua_table_get E who"
  by (simp_all add: pick_up_def lua_table_get_def fun_eq_iff Let_def)

lemma pick_up_ok: "dense_capacity t < 2 ^ 64 \<Longrightarrow> table_ok good who \<Longrightarrow> table_ok good (pick_up grow t who)"
  using growth_less[of grow "length (dense_part t)" "dense_capacity t" "length (dense_part who)"]
  by (simp add: table_ok_def pick_up_def Let_def)

lemma table_new_ok: "table_ok good lua_table_new"
  by (simp add: table_ok_def lua_table_new_def)

interpretation cells: lua_elements "variant_element dt" "\<lambda>_. True" value_of for dt
  by unfold_locales (auto simp: variant_element_def)

text \<open>Rows that keep a further property \<open>P\<close> of their dense part.\<close>

lemma row_elements:
  assumes "P []"
  shows "lua_elements (row_element grow) (\<lambda>r. table_ok (\<lambda>_. True) r \<and> P (dense_part r)) (row_view dt)"
proof unfold_locales
  have new: "dense_part lua_table_new = []" "dense_capacity lua_table_new = 0" by (simp_all add: lua_table_new_def)
  show "table_ok (\<lambda>_. True) (default_element (row_element grow)) \<and> P (dense_part (default_element (row_element grow)))"
    using assms by (simp add: row_element_def table_new_ok new)
  fix d v :: "variant lua_table"
  show "row_view dt (copied (row_element grow) v) = row_view dt v" "row_view dt (assigned (row_element grow) d v) = row_view dt v"
    by (simp_all add: row_element_def row_view_def pick_up_same)
  assume v: "table_ok (\<lambda>_. True) v \<and> P (dense_part v)"
  then show "table_ok (\<lambda>_. True) (copied (row_element grow) v) \<and> P (dense_part (copied (row_element grow) v))"
    by (simp add: row_element_def pick_up_same pick_up_ok new)
  assume "table_ok (\<lambda>_. True) d \<and> P (dense_part d)"
  then show "table_ok (\<lambda>_. True) (assigned (row_element grow) d v) \<and> P (dense_part (assigned (row_element grow) d v))"
    using v by (simp add: row_element_def pick_up_same) (intro pick_up_ok, auto simp: table_ok_def)
qed

interpretation rows: lua_elements "row_element grow" "table_ok (\<lambda>_. True)" "row_view dt" for grow dt
  using row_elements[of "\<lambda>_. True"] by simp

definition var_ok :: "var \<Rightarrow> bool" where
  "var_ok x \<longleftrightarrow> table_ok (\<lambda>_. True) (array1d x) \<and> table_ok (table_ok (\<lambda>_. True)) (array2d x)"

definition int_range :: "int \<Rightarrow> bool" where
  "int_range i \<longleftrightarrow> - (2 ^ 31) \<le> i \<and> i < 2 ^ 31"

definition cell_values :: "growth \<Rightarrow> vty \<Rightarrow> var \<Rightarrow> int \<times> int \<Rightarrow> double \<times> vty \<times> string" where
  "cell_values grow dt x = (\<lambda>(i, j). value_of (var_get2 grow dt x i j))"

lemma size_of_int_less: "size_of_int i < 2 ^ 64"
  by (simp add: size_of_int_def nat_less_iff)

lemma size_of_int_eq: "int_range i \<Longrightarrow> int (size_of_int i) = (if 0 \<le> i then i else i + 2 ^ 64)"
proof -
  assume "int_range i"
  then have i: "- (2 ^ 31) \<le> i" "i < 2 ^ 31" by (simp_all add: int_range_def)
  show ?thesis
  proof (cases "0 \<le> i")
    case True
    then have "i mod 2 ^ 64 = i" by (intro mod_pos_pos_trivial) (use i in auto)
    then show ?thesis using True by (simp add: size_of_int_def)
  next
    case False
    have "(i + 2 ^ 64) mod 2 ^ 64 = i + 2 ^ 64" by (intro mod_pos_pos_trivial) (use i False in auto)
    then have "i mod 2 ^ 64 = i + 2 ^ 64" by (simp only: mod_add_self2)
    then show ?thesis using False i by (simp add: size_of_int_def)
  qed
qed

lemma size_of_int_inj: "int_range i \<Longrightarrow> int_range j \<Longrightarrow> size_of_int i = size_of_int j \<longleftrightarrow> i = j"
  unfolding int_int_eq[symmetric] by (simp add: size_of_int_eq int_range_def)

lemma var_of_variant_ok: "var_ok (var_of_variant v)"
  by (simp add: var_ok_def var_of_variant_def table_new_ok)

lemma var_change2_ok: "var_ok x \<Longrightarrow> var_ok (var_change2 grow dt i j f x)"
  unfolding var_ok_def var_change2_def
  by (auto intro!: cells.change_spec(1) rows.change_spec(1) size_of_int_less)

lemma var_change2_cells:
  assumes ok: "var_ok x" and r: "int_range i" "int_range j" "int_range i'" "int_range j'"
    and f: "\<And>a b. value_of a = value_of b \<Longrightarrow> value_of (f a) = value_of (f b)"
  shows "cell_values grow dt (var_change2 grow dt i j f x) (i', j') =
    (if i' = i \<and> j' = j then value_of (f (var_get2 grow dt x i j)) else cell_values grow dt x (i', j'))"
proof -
  have t: "table_ok (\<lambda>_. True) (array1d x)" "table_ok (table_ok (\<lambda>_. True)) (array2d x)"
    using ok by (simp_all add: var_ok_def)
  have row: "fst (row_view dt (lua_table_change (variant_element dt) grow (size_of_int j) f r)) k =
      (if k = size_of_int j then value_of (f (lua_table_get (variant_element dt) r (size_of_int j)))
       else fst (row_view dt r) k)" if "table_ok (\<lambda>_. True) r" for r k
    unfolding row_view_def fst_conv by (rule cells.change_spec(3)[OF that size_of_int_less]) (rule TrueI, rule f)
  have mx: "snd (row_view dt (lua_table_change (variant_element dt) grow (size_of_int j) f r)) =
      max (zadd (size_of_int j) 1) (snd (row_view dt r))" if "table_ok (\<lambda>_. True) r" for r
    using cells.change_spec(2)[OF that size_of_int_less] by (simp add: row_view_def)
  let ?c = "lua_table_change (variant_element dt) grow (size_of_int j) f"
  have resp: "row_view dt (?c a) = row_view dt (?c b)"
    if "table_ok (\<lambda>_. True) a" "table_ok (\<lambda>_. True) b" "row_view dt a = row_view dt b" for a b
  proof (rule prod_eqI)
    have eq: "value_of (lua_table_get (variant_element dt) a k) = value_of (lua_table_get (variant_element dt) b k)" for k
      using arg_cong[OF that(3), of fst] by (simp add: row_view_def fun_eq_iff)
    show "fst (row_view dt (?c a)) = fst (row_view dt (?c b))"
      by (rule ext) (simp add: row[OF that(1)] row[OF that(2)] f[OF eq] that(3))
    show "snd (row_view dt (?c a)) = snd (row_view dt (?c b))" using that by (simp add: mx)
  qed
  have rows: "row_view dt (lua_table_get (row_element grow) (lua_table_change (row_element grow) grow (size_of_int i) ?c (array2d x)) k) =
      (if k = size_of_int i then row_view dt (?c (lua_table_get (row_element grow) (array2d x) (size_of_int i)))
       else row_view dt (lua_table_get (row_element grow) (array2d x) k))" for k
    by (rule rows.change_spec(3)[OF t(2) size_of_int_less _ resp]) (auto intro: cells.change_spec(1) size_of_int_less)
  show ?thesis
  proof (cases "i = 0")
    case True
    have "value_of (lua_table_get (variant_element dt) (?c (array1d x)) k) =
        (if k = size_of_int j then value_of (f (lua_table_get (variant_element dt) (array1d x) (size_of_int j)))
         else value_of (lua_table_get (variant_element dt) (array1d x) k))" for k
      by (rule cells.change_spec(3)[OF t(1) size_of_int_less]) (rule TrueI, rule f)
    then show ?thesis
      using True r by (simp add: cell_values_def var_get2_def var_change2_def size_of_int_inj)
  next
    case False
    have "value_of (lua_table_get (variant_element dt) (lua_table_get (row_element grow)
        (lua_table_change (row_element grow) grow (size_of_int i) ?c (array2d x)) k) l) =
      (if k = size_of_int i then fst (row_view dt (?c (lua_table_get (row_element grow) (array2d x) (size_of_int i)))) l
       else value_of (lua_table_get (variant_element dt) (lua_table_get (row_element grow) (array2d x) k) l))" for k l
      using rows[of k] by (auto simp: row_view_def fun_eq_iff split: if_splits)
    then show ?thesis
      using False r row[OF rows.get_good[OF t(2)]]
      by (auto simp: cell_values_def var_get2_def var_change2_def size_of_int_inj row_view_def)
  qed
qed

definition assign_cells :: "growth \<Rightarrow> vty \<Rightarrow> (int \<times> int \<times> variant) list \<Rightarrow> var \<Rightarrow> var" where
  "assign_cells grow dt ws = fold (\<lambda>(i, j, w). var_change2 grow dt i j (\<lambda>t. variant_assign t w)) ws"

lemma assign_cells_ok: "var_ok x \<Longrightarrow> var_ok (assign_cells grow dt ws x)"
  by (induction ws arbitrary: x) (auto simp: assign_cells_def intro: var_change2_ok)

lemma assign_cells_cells:
  assumes "var_ok x" and "\<forall>(i, j, w)\<in>set ws. int_range i \<and> int_range j" and "int_range i'" and "int_range j'"
  shows "cell_values grow dt (assign_cells grow dt ws x) (i', j') =
    fold (\<lambda>(i, j, w) cells. cells((i, j) := value_of w)) ws (cell_values grow dt x) (i', j')"
  using assms(1,2)
proof (induction ws arbitrary: x rule: rev_induct)
  case (snoc e ws)
  obtain i j w where e: "e = (i, j, w)" by (cases e)
  let ?y = "assign_cells grow dt ws x"
  have r: "int_range i" "int_range j" using snoc.prems(2) e by auto
  have step: "assign_cells grow dt (ws @ [e]) x = var_change2 grow dt i j (\<lambda>t. variant_assign t w) ?y"
    by (simp add: assign_cells_def e)
  show ?case
    unfolding step
    using snoc var_change2_cells[OF assign_cells_ok[OF snoc.prems(1)] r assms(3,4), of "\<lambda>t. variant_assign t w" grow dt grow dt ws]
    by (simp add: e split_beta)
qed (simp add: assign_cells_def)

text \<open>C9. Cells of a variable.  Assignments to cells of a \<open>var\<close> at any two \<open>int\<close> indices, negative ones and
  both forms of the first row included, change it as assignments at the same places change a function of two
  indices, whatever the library makes of the capacity of the vectors: no cell is lost when it moves from
  the sparse to the dense part, and no two pairs of indices share a cell.\<close>

theorem var_is_function:
  assumes "var_ok x" and "\<forall>(i, j, w)\<in>set ws. int_range i \<and> int_range j" and "int_range i'" and "int_range j'"
  shows "cell_values grow dt (assign_cells grow dt ws x) (i', j') =
    fold (\<lambda>(i, j, w) cells. cells((i, j) := value_of w)) ws (cell_values grow dt x) (i', j')"
  by (rule assign_cells_cells[OF assms])

theorem var_is_function_witness:
  "cell_values (\<lambda>_ _ _. 4) ty_real (assign_cells (\<lambda>_ _ _. 4) ty_real [(0, 1, variant_num (DFin 7)), (-1, 2, variant_num (DFin 9))]
      (var_of_variant (variant_num (DFin 5)))) (0, 1) = value_of (variant_num (DFin 7))"
  by (subst var_is_function[OF var_of_variant_ok]) (auto simp: int_range_def)

section \<open>Lengths\<close>

lemma int_of_size_mod:
  assumes "int_range k" and "int n mod 2 ^ 32 = k mod 2 ^ 32"
  shows "int_of_size n = k"
proof -
  have "(of_nat n :: u32) = of_int k"
    using assms(2) by (simp add: word_of_int_eq_iff[where 'a = 32, of "int n" k, unfolded of_int_of_nat_eq] take_bit_eq_mod)
  moreover have "sint (of_int k :: u32) = k"
    using assms(1) by (simp add: int_range_def sint_sbintrunc' signed_take_bit_int_eq_self)
  ultimately show ?thesis by (simp add: int_of_size_def)
qed

lemma int_of_size_small: "n < 2 ^ 31 \<Longrightarrow> int_of_size n = int n"
  by (rule int_of_size_mod) (auto simp: int_range_def)

text \<open>C36. Length of the first row, as long as its size is below \<open>2 ^ 31\<close>, which it is before the first access at an index less than -1.  An
  access at a positive index below the greatest \<open>int\<close> makes the length at least one more than the index; an access
  at -1 does not change it, since the size wraps to 0; an access at another negative index makes the length negative,
  whatever it was.\<close>

theorem array_len_after_access:
  assumes "var_ok x" and "mx_size (array1d x) < 2 ^ 31" and "j \<noteq> 0" and "int_range j" and "int_range (j + 1)"
  shows "array_len (var_change2 grow dt 0 j f x) = (if j < -1 then j + 1 else max (j + 1) (array_len x))"
proof -
  have "table_ok (\<lambda>_. True) (array1d x)" using assms(1) by (simp add: var_ok_def)
  then have len: "array_len (var_change2 grow dt 0 j f x) = int_of_size (max (zadd (size_of_int j) 1) (mx_size (array1d x)))"
    using assms(3) cells.change_spec(2)[OF _ size_of_int_less]
    by (simp add: array_len_def max_index_def var_change2_def)
  have mx: "array_len x = int (mx_size (array1d x))" using assms(2) by (simp add: array_len_def max_index_def int_of_size_small)
  consider "j < -1" | "j = -1" | "0 < j" using assms(3) by linarith
  then show ?thesis
  proof cases
    case 1
    have "int (size_of_int j) = j + 2 ^ 64" using size_of_int_eq[OF assms(4)] 1 by simp
    then have z: "int (zadd (size_of_int j) 1) = j + 1 + 2 ^ 64" using 1 by (simp add: zadd_def)
    then have l: "int_of_size (zadd (size_of_int j) 1) = j + 1" 
      using mod_mult_self1[of "j + 1" "2 ^ 32" "2 ^ 32"] by (intro int_of_size_mod[OF assms(5)]) simp
    have "mx_size (array1d x) \<le> zadd (size_of_int j) 1" using z assms(2,5) by (simp add: int_range_def)
    then show ?thesis
      unfolding len using 1 l by (simp only: max_absorb1 if_True)
  next
    case 2
    then have "zadd (size_of_int j) 1 = 0" by (simp add: size_of_int_def zadd_def)
    then show ?thesis unfolding len mx using 2 assms(2) by (simp add: int_of_size_small)
  next
    case 3
    then have "zadd (size_of_int j) 1 = nat (j + 1)"
      using size_of_int_eq[OF assms(4)] assms(4) by (simp add: int_range_def nat_add_distrib)
    moreover have "max (nat (j + 1)) (mx_size (array1d x)) < 2 ^ 31" using assms(2,5) by (auto simp: int_range_def)
    ultimately show ?thesis unfolding len mx using 3 by (auto simp: int_of_size_small max_def)
  qed
qed

theorem array_len_after_access_witness:
  "array_len (var_change2 (\<lambda>_ _ _. 4) ty_real 0 (-2) (\<lambda>t. t) (var_of_variant (variant_num (DFin 5)))) = -1"
  by (subst array_len_after_access[OF var_of_variant_ok]) (auto simp: int_range_def var_of_variant_def lua_table_new_def)


section \<open>Filled variables\<close>

text \<open>The rows of a filled variable have no dense part yet or one of the length they are filled to.\<close>

definition fillable :: "nat \<Rightarrow> variant lua_table \<Rightarrow> bool" where
  "fillable len r \<longleftrightarrow> table_ok (\<lambda>_. True) r \<and> (dense_part r = [] \<or> length (dense_part r) = len)"

lemma fillable_rows: "lua_elements (row_element grow) (fillable len) (row_view dt)"
  unfolding fillable_def[abs_def] by (rule row_elements) simp

lemma fill_fillable: "fillable len r \<Longrightarrow> fillable len (lua_table_fill (variant_element dt) grow v len r)"
  using cells.fill_spec(1,3) by (simp add: fillable_def)

lemma fill_row_view:
  assumes "fillable len r"
  shows "row_view dt (lua_table_fill (variant_element dt) grow v len r) =
    ((\<lambda>j. if j < len then value_of v else fst (row_view dt r) j), max len (snd (row_view dt r)))"
proof -
  have ok: "table_ok (\<lambda>_. True) r" and le: "length (dense_part r) \<le> len" using assms by (auto simp: fillable_def)
  show ?thesis
    using cells.fill_spec(2)[OF ok TrueI] le
    by (simp add: row_view_def cells.fill_spec(4)[OF ok TrueI] fun_eq_iff)
qed

definition filled_rows :: "growth \<Rightarrow> vty \<Rightarrow> variant \<Rightarrow> nat \<Rightarrow> nat \<Rightarrow> variant lua_table lua_table" where
  "filled_rows grow dt v len height =
     fold (\<lambda>i. lua_table_change (row_element grow) grow i (lua_table_fill (variant_element dt) grow v len)) [1..<height] lua_table_new"

lemma filled_rows_spec:
  assumes "height \<le> 2 ^ 64"
  shows "table_ok (fillable len) (filled_rows grow dt v len height)"
    and "fst (row_view dt (lua_table_get (row_element grow) (filled_rows grow dt v len height) i)) j =
       (if 1 \<le> i \<and> i < height \<and> j < len then value_of v else value_of (variant_default dt))"
proof -
  have "table_ok (fillable len) (filled_rows grow dt v len height) \<and>
    (\<forall>i j. fst (row_view dt (lua_table_get (row_element grow) (filled_rows grow dt v len height) i)) j =
       (if 1 \<le> i \<and> i < height \<and> j < len then value_of v else value_of (variant_default dt)))"
    using assms
  proof (induction height)
    case 0
    show ?case
      by (simp add: filled_rows_def table_new_ok rows.new_get row_view_def cells.new_get)
         (simp add: row_element_def variant_element_def cells.new_get[unfolded variant_element_def])
  next
    case (Suc h)
    let ?fill = "lua_table_fill (variant_element dt) grow v len" and ?rows = "filled_rows grow dt v len"
    show ?case
    proof (cases "1 \<le> h")
      case True
      then have step: "?rows (Suc h) = lua_table_change (row_element grow) grow h ?fill (?rows h)"
        by (simp add: filled_rows_def)
      have IH: "table_ok (fillable len) (?rows h)" and h: "h < 2 ^ 64" using Suc by auto
      have resp: "row_view dt (?fill a) = row_view dt (?fill b)"
        if "fillable len a" "fillable len b" "row_view dt a = row_view dt b" for a b
        by (simp only: fill_row_view[OF that(1)] fill_row_view[OF that(2)] that(3))
      have "row_view dt (lua_table_get (row_element grow) (?rows (Suc h)) i) =
        (if i = h then row_view dt (?fill (lua_table_get (row_element grow) (?rows h) h))
         else row_view dt (lua_table_get (row_element grow) (?rows h) i))" for i
        unfolding step by (rule lua_elements.change_spec(3)[OF fillable_rows IH h fill_fillable resp])
      moreover have "table_ok (fillable len) (?rows (Suc h))"
        unfolding step by (rule lua_elements.change_spec(1)[OF fillable_rows IH h fill_fillable])
      moreover have "fillable len (lua_table_get (row_element grow) (?rows h) h)"
        by (rule lua_elements.get_good[OF fillable_rows IH])
      ultimately show ?thesis using Suc True by (auto simp: fill_row_view)
    next
      case False
      then have "?rows (Suc h) = ?rows h" "h = 0" by (auto simp: filled_rows_def)
      then show ?thesis using Suc by auto
    qed
  qed
  then show "table_ok (fillable len) (filled_rows grow dt v len height)"
    "fst (row_view dt (lua_table_get (row_element grow) (filled_rows grow dt v len height) i)) j =
       (if 1 \<le> i \<and> i < height \<and> j < len then value_of v else value_of (variant_default dt))"
    by blast+
qed

lemma var_filled_cells:
  assumes "int height \<le> 2 ^ 31" and "int len \<le> 2 ^ 31" and "int_range i" and "int_range j"
  shows "cell_values grow dt (var_filled grow dt v len height) (i, j) =
    (if (i, j) = (0, 0) \<or> 0 \<le> j \<and> j < int len \<and> 0 \<le> i \<and> i < max 1 (int height) then value_of v
     else value_of (variant_default dt))"
proof -
  have less: "size_of_int k < n \<longleftrightarrow> 0 \<le> k \<and> k < int n" if "int_range k" "int n \<le> 2 ^ 31" for k n
    using size_of_int_eq[OF that(1)] that by (auto simp: int_range_def split: if_splits)
  have pos: "Suc 0 \<le> size_of_int i \<longleftrightarrow> i \<noteq> 0"
    using size_of_int_eq[OF assms(3)] assms(3) by (auto simp: int_range_def split: if_splits)
  have row0: "value_of (lua_table_get (variant_element dt) (lua_table_filled grow v len) k) =
      (if k < len then value_of v else value_of (variant_default dt))" for k
    by (simp add: lua_table_get_def lua_table_filled_def variant_element_def)
  have rows: "value_of (lua_table_get (variant_element dt) (lua_table_get (row_element grow) (array2d (var_filled grow dt v len height)) k) l) =
      (if 1 \<le> k \<and> k < height \<and> l < len then value_of v else value_of (variant_default dt))" for k l
    using filled_rows_spec(2)[of height dt grow v len k l] assms(1)
    by (simp add: var_filled_def filled_rows_def row_view_def)
  show ?thesis
  proof (cases "i = 0")
    case True
    then show ?thesis
      by (simp add: cell_values_def var_get2_def var_filled_def row0 less[OF assms(4,2)] less_max_iff_disj)
  next
    case False
    then show ?thesis
      by (simp add: cell_values_def var_get2_def rows less[OF assms(3,1)] less[OF assms(4,2)] pos) auto
  qed
qed

end
