(* ===== verification/RandomNumbers.thy ===== *)
theory RandomNumbers
  imports Float64
begin

text \<open>
  Random numbers (\<open>ENIGMAsystem/SHELL/Universal_System/random.cpp\<close>, \<open>random.h\<close>): the linear congruential
  generator behind \<open>random\<close> and \<open>random_integer\<close>, and a Mersenne twister behind the functions \<open>mtrandom\<close>.

  \<open>unsigned long\<close> has 64 bits, so the words of the twister keep bits above the 32 of the algorithm.  The array
  has 625 entries, of which the last is the number of words used up.  In \<open>mtrandom\<close> the compiler chooses which of
  two calls is made first; the choice is the parameter \<open>left_first\<close>.
\<close>

unbundle bit_operations_syntax

record random_state =
  Random_Seed :: int
  mt :: "u64 list"

definition random_start :: random_state where
  "random_start = \<lparr>Random_Seed = 0, mt = replicate 625 0\<rparr>"

section \<open>The Mersenne twister\<close>

definition mag01 :: "u32 \<Rightarrow> u32" where
  "mag01 b = (if b = 0 then 0 else 0x9908b0df)"

definition join_words :: "u64 \<Rightarrow> u64 \<Rightarrow> u32" where
  "join_words a b = ucast ((a AND 0x80000000) OR (b AND 0x7fffffff))"

definition twist :: "nat \<Rightarrow> nat \<Rightarrow> nat \<Rightarrow> u64 list \<Rightarrow> u64 list" where
  "twist kk succ from m =
     (let y = join_words (m ! kk) (m ! succ)
      in m[kk := m ! from XOR ucast (drop_bit 1 y) XOR ucast (mag01 (y AND 1))])"

definition generate_words :: "u64 list \<Rightarrow> u64 list" where
  "generate_words m =
     (let m = fold (\<lambda>kk. twist kk (kk + 1) (kk + 397)) [0..<227] m;
          m = fold (\<lambda>kk. twist kk (kk + 1) (kk - 227)) [227..<623] m;
          m = twist 623 0 396 m
      in m[624 := 0])"

definition temper :: "u32 \<Rightarrow> u32" where
  "temper y =
     (let y = y XOR drop_bit 11 y;
          y = y XOR (push_bit 7 y AND 0x9d2c5680);
          y = y XOR (push_bit 15 y AND 0xefc60000)
      in y XOR drop_bit 18 y)"

definition mtrandom32 :: "random_state \<Rightarrow> u32 \<times> random_state" where
  "mtrandom32 s =
     (let m = (if 624 \<le> mt s ! 624 then generate_words (mt s) else mt s);
          k = m ! 624;
          y = ucast (m ! unat k)
      in (temper y, s\<lparr>mt := m[624 := k + 1]\<rparr>))"

definition mtrandom_seed :: "int \<Rightarrow> random_state \<Rightarrow> random_state" where
  "mtrandom_seed x s =
     (let m = (mt s)[0 := ucast (of_int x :: u32)];
          m = fold (\<lambda>mti m. m[mti := 1812433253 * (m ! (mti - 1) XOR drop_bit 30 (m ! (mti - 1))) + of_nat mti]) [1..<624] m
      in s\<lparr>mt := m[624 := 624]\<rparr>)"

definition mtrandom :: "bool \<Rightarrow> random_state \<Rightarrow> double \<times> random_state" where
  "mtrandom left_first s =
     (let (r1, s) = mtrandom32 s; (r2, s) = mtrandom32 s;
          (l, r) = (if left_first then (r1, r2) else (r2, r1))
      in (ddiv (dadd (dmul (d_of_int (uint (drop_bit 5 l))) (DFin 67108864)) (d_of_int (uint (drop_bit 6 r))))
            (DFin 9007199254740992), s))"

definition mtrandom_n :: "bool \<Rightarrow> double \<Rightarrow> random_state \<Rightarrow> double \<times> random_state" where
  "mtrandom_n left_first x s = (let (r, s) = mtrandom left_first s in (dmul r x, s))"

definition mtrandom_range :: "bool \<Rightarrow> double \<Rightarrow> double \<Rightarrow> random_state \<Rightarrow> double \<times> random_state" where
  "mtrandom_range left_first x y s = (let (r, s) = mtrandom left_first s in (dadd x (dmul r (dsub y x)), s))"

text \<open>The quotient is one of \<open>unsigned\<close> values, and so is the product, which is then converted to \<open>int\<close>.\<close>

definition mtrandom_integer :: "int \<Rightarrow> random_state \<Rightarrow> int \<times> random_state" where
  "mtrandom_integer x s =
     (if 0 < x then let (r, s) = mtrandom32 s in (sint (r * (of_int x div 0xFFFFFFFF)), s) else (0, s))"

section \<open>The congruential generator\<close>

definition random_set_seed :: "int \<Rightarrow> random_state \<Rightarrow> int \<times> random_state" where
  "random_set_seed seed s = (seed, s\<lparr>Random_Seed := seed\<rparr>)"

definition random_get_seed :: "random_state \<Rightarrow> int" where
  "random_get_seed s = Random_Seed s"

definition randomize :: "random_state \<Rightarrow> int \<times> random_state" where
  "randomize s = (let (r, s) = mtrandom32 s in (sint r, s\<lparr>Random_Seed := sint r\<rparr>))"

definition random_n :: "double \<Rightarrow> random_state \<Rightarrow> double \<times> random_state" where
  "random_n n s =
     (let seed = sint ((of_int (Random_Seed s) :: u32) * 0x8088405 + 1)
      in (dmul (ddiv (d_of_int (uint (of_int seed :: u32))) (DFin 0x100000000)) n, s\<lparr>Random_Seed := seed\<rparr>))"

definition random_range :: "double \<Rightarrow> double \<Rightarrow> random_state \<Rightarrow> double \<times> random_state" where
  "random_range low high s = (let (r, s) = random_n (dsub high low) s in (dadd low r, s))"

definition random_integer :: "int \<Rightarrow> random_state \<Rightarrow> (int \<times> random_state) option" where
  "random_integer x s =
     Option.bind (i32 (x + 1)) (\<lambda>n. let (r, s) = random_n (d_of_int n) s in map_option (\<lambda>r. (r, s)) (d_to_sint 32 r))"

definition random_integer_range :: "int \<Rightarrow> int \<Rightarrow> random_state \<Rightarrow> (double \<times> random_state) option" where
  "random_integer_range low high s =
     Option.bind (i32 (high - low)) (\<lambda>x. Option.bind (random_integer x s) (\<lambda>(r, s).
       map_option (\<lambda>n. (d_of_int n, s)) (i32 (low + r))))"

definition irandom_range :: "int \<Rightarrow> int \<Rightarrow> random_state \<Rightarrow> (double \<times> random_state) option" where
  "irandom_range = random_integer_range"

end
