(* ===== verification/RandomLaws.thy ===== *)
theory RandomLaws
  imports RandomNumbers
begin

text \<open>
  Laws of the random numbers: the numbers of the twister follow the recurrence of the algorithm, although its words
  have 64 bits and are replaced in place; the seeds of the congruential generator run through all 32-bit
  numbers; and the ranges of the results.
\<close>

section \<open>The recurrence of the Mersenne twister\<close>

text \<open>\<open>mt_word w0\<close> is the sequence of words of 32 bits that starts with \<open>w0 0, \<dots>, w0 623\<close>.\<close>

definition mt_next :: "u32 \<Rightarrow> u32 \<Rightarrow> u32 \<Rightarrow> u32" where
  "mt_next a b c = (let y = (a AND 0x80000000) OR (b AND 0x7fffffff) in c XOR drop_bit 1 y XOR (if y AND 1 = 0 then 0 else 0x9908b0df))"

fun mt_word :: "(nat \<Rightarrow> u32) \<Rightarrow> nat \<Rightarrow> u32" where
  "mt_word w0 k = (if k < 624 then w0 k else mt_next (mt_word w0 (k - 624)) (mt_word w0 (k - 623)) (mt_word w0 (k - 227)))"

declare mt_word.simps [simp del]

lemma mt_word_start: "k < 624 \<Longrightarrow> mt_word w0 k = w0 k"
  by (subst mt_word.simps) simp

lemma mt_word_step: "mt_word w0 (k + 624) = mt_next (mt_word w0 k) (mt_word w0 (k + 1)) (mt_word w0 (k + 397))"
  by (subst mt_word.simps) (simp add: add.commute)

text \<open>The entry \<open>k\<close> holds the word \<open>i\<close> in its low bits.\<close>

abbreviation low :: "u64 list \<Rightarrow> nat \<Rightarrow> u32" where
  "low m k \<equiv> ucast (m ! k)"

lemma ucast_bits:
  "(ucast (a AND b :: u64) :: u32) = ucast a AND ucast b" "(ucast (a OR b :: u64) :: u32) = ucast a OR ucast b"
  "(ucast (a XOR b :: u64) :: u32) = ucast a XOR ucast b" "(ucast (ucast c :: u64) :: u32) = (c :: u32)"
  by (rule bit_word_eqI; auto simp: bit_simps)+

lemma ucast_arith:
  "(ucast (a * b :: u64) :: u32) = ucast a * ucast b" "(ucast (a + b :: u64) :: u32) = ucast a + ucast b"
proof -
  have cut: "(of_int (k mod 2 ^ LENGTH(64)) :: u32) = of_int k" for k
    by (simp add: word_of_int_eq_iff take_bit_eq_mod mod_mod_cancel)
  show "(ucast (a * b :: u64) :: u32) = ucast a * ucast b" "(ucast (a + b :: u64) :: u32) = ucast a + ucast b"
    by (simp_all only: ucast_eq uint_word_ariths cut of_int_mult of_int_add)
qed

lemma ucast_drop_bit: "(ucast (drop_bit 30 (ucast c :: u64)) :: u32) = drop_bit 30 (c :: u32)"
  by (rule bit_word_eqI) (auto simp: bit_simps)

lemma twist_low:
  assumes "kk < length m"
  shows "low (twist kk k1 k2 m) k = (if k = kk then mt_next (low m kk) (low m k1) (low m k2) else low m k)"
proof -
  have "join_words (m ! kk) (m ! k1) = (low m kk AND 0x80000000) OR (low m k1 AND 0x7fffffff)"
    by (simp add: join_words_def ucast_bits)
  then show ?thesis
    using assms by (simp add: twist_def Let_def mt_next_def mag01_def ucast_bits nth_list_update)
qed

definition half_replaced :: "(nat \<Rightarrow> u32) \<Rightarrow> nat \<Rightarrow> nat \<Rightarrow> u64 list \<Rightarrow> bool" where
  "half_replaced w0 b kk m \<longleftrightarrow>
     length m = 625 \<and> (\<forall>k<624. low m k = mt_word w0 (if k < kk then b + k + 624 else b + k))"

lemma twist_replaces:
  assumes "half_replaced w0 b kk m" and "kk < 624"
    and "k1 < 624" "mt_word w0 (if k1 < kk then b + k1 + 624 else b + k1) = mt_word w0 (b + kk + 1)"
    and "k2 < 624" "mt_word w0 (if k2 < kk then b + k2 + 624 else b + k2) = mt_word w0 (b + kk + 397)"
  shows "half_replaced w0 b (Suc kk) (twist kk k1 k2 m)"
proof -
  have len: "length (twist kk k1 k2 m) = 625" using assms(1) by (simp add: twist_def half_replaced_def Let_def)
  have old: "low m k = mt_word w0 (if k < kk then b + k + 624 else b + k)" if "k < 624" for k
    using assms(1) that by (simp add: half_replaced_def)
  have "low (twist kk k1 k2 m) kk = mt_word w0 (b + kk + 624)"
    using assms old twist_low[of kk m k1 k2 kk] by (simp add: mt_word_step half_replaced_def)
  then show ?thesis
    using assms(1,2) len old twist_low[of kk m k1 k2] by (auto simp: half_replaced_def less_Suc_eq)
qed

lemma twist_loop:
  assumes "half_replaced w0 b from m" and "from \<le> to" and "to \<le> 623"
    and "\<And>kk. from \<le> kk \<Longrightarrow> kk < to \<Longrightarrow>
      src kk < 624 \<and> mt_word w0 (if src kk < kk then b + src kk + 624 else b + src kk) = mt_word w0 (b + kk + 397)"
  shows "half_replaced w0 b to (fold (\<lambda>kk. twist kk (kk + 1) (src kk)) [from..<to] m)"
  using assms(2-4)
proof (induction to)
  case 0
  then show ?case using assms(1) by simp
next
  case (Suc to)
  show ?case
  proof (cases "from \<le> to")
    case True
    then have "half_replaced w0 b to (fold (\<lambda>kk. twist kk (kk + 1) (src kk)) [from..<to] m)" using Suc by simp
    then show ?thesis
      using True Suc.prems by (simp add: twist_replaces)
  next
    case False
    then have "from = Suc to" using Suc.prems by simp
    then show ?thesis using assms(1) by simp
  qed
qed

lemma generate_words_spec:
  assumes "half_replaced w0 b 0 m"
  shows "half_replaced w0 (b + 624) 0 (generate_words m)" and "generate_words m ! 624 = 0"
proof -
  have "half_replaced w0 b 227 (fold (\<lambda>kk. twist kk (kk + 1) (kk + 397)) [0..<227] m)"
    by (rule twist_loop[OF assms]) (auto simp: add_ac)
  then have "half_replaced w0 b 623 (fold (\<lambda>kk. twist kk (kk + 1) (kk - 227)) [227..<623]
      (fold (\<lambda>kk. twist kk (kk + 1) (kk + 397)) [0..<227] m))"
    by (rule twist_loop) (auto simp: add_ac)
  then have "half_replaced w0 b (Suc 623) (twist 623 0 396 (fold (\<lambda>kk. twist kk (kk + 1) (kk - 227)) [227..<623]
      (fold (\<lambda>kk. twist kk (kk + 1) (kk + 397)) [0..<227] m)))"
    by (rule twist_replaces) (simp_all add: add_ac)
  then show "half_replaced w0 (b + 624) 0 (generate_words m)" "generate_words m ! 624 = 0"
    by (auto simp: generate_words_def Let_def half_replaced_def add_ac)
qed

text \<open>A state that has given out the words up to \<open>i\<close> of the sequence.\<close>

definition mt_at :: "(nat \<Rightarrow> u32) \<Rightarrow> nat \<Rightarrow> random_state \<Rightarrow> bool" where
  "mt_at w0 i s \<longleftrightarrow> (\<exists>b p. i = b + p \<and> p \<le> 624 \<and> mt s ! 624 = of_nat p \<and> half_replaced w0 b 0 (mt s))"

lemma mtrandom32_at:
  assumes "mt_at w0 i s"
  shows "fst (mtrandom32 s) = temper (mt_word w0 i)" and "mt_at w0 (Suc i) (snd (mtrandom32 s))"
proof -
  obtain b p where p: "i = b + p" "p \<le> 624" "mt s ! 624 = of_nat p" "half_replaced w0 b 0 (mt s)"
    using assms by (auto simp: mt_at_def)
  define m where "m = (if 624 \<le> mt s ! 624 then generate_words (mt s) else mt s)"
  have "624 \<le> mt s ! 624 \<longleftrightarrow> p = 624"
    using p(2) by (simp add: p(3) word_le_nat_alt unat_of_nat)
  then obtain c q where q: "i = c + q" "q < 624" "m ! 624 = of_nat q" "half_replaced w0 c 0 m"
    using p generate_words_spec[OF p(4)] that[of "b + 624" 0] that[of b p] by (auto simp: m_def)
  have u: "unat (m ! 624) = q" using q(2) by (simp add: q(3) unat_of_nat)
  have r: "mtrandom32 s = (temper (low m q), s\<lparr>mt := m[624 := of_nat q + 1]\<rparr>)"
    by (simp add: mtrandom32_def m_def[symmetric] u[unfolded q(3)] q(3) Let_def)
  show "fst (mtrandom32 s) = temper (mt_word w0 i)" using q by (simp add: r half_replaced_def)
  have "half_replaced w0 c 0 (m[624 := of_nat q + 1])" "length m = 625" using q(4) by (simp_all add: half_replaced_def)
  then show "mt_at w0 (Suc i) (snd (mtrandom32 s))"
    unfolding mt_at_def r using q(1,2) by (intro exI[of _ c] exI[of _ "Suc q"] conjI) (simp_all add: add.commute)
qed

section \<open>Seeding\<close>

text \<open>The words that the code starts with, and those of the reference implementation, which have 32 bits.\<close>

fun seed_word :: "int \<Rightarrow> nat \<Rightarrow> u64" where
  "seed_word x 0 = ucast (of_int x :: u32)"
| "seed_word x (Suc i) = 1812433253 * (seed_word x i XOR drop_bit 30 (seed_word x i)) + of_nat (Suc i)"

fun reference_seed_word :: "u32 \<Rightarrow> nat \<Rightarrow> u32" where
  "reference_seed_word x 0 = x"
| "reference_seed_word x (Suc i) =
     1812433253 * (reference_seed_word x i XOR drop_bit 30 (reference_seed_word x i)) + of_nat (Suc i)"

lemma seed_loop:
  assumes "n \<le> 624" and "length m = 625" and "m ! 0 = seed_word x 0"
  defines "m' \<equiv> fold (\<lambda>mti m. m[mti := 1812433253 * (m ! (mti - 1) XOR drop_bit 30 (m ! (mti - 1))) + of_nat mti]) [1..<n] m"
  shows "length m' = 625 \<and> (\<forall>k. k = 0 \<or> k < n \<longrightarrow> m' ! k = seed_word x k)"
  using assms(1) unfolding m'_def
proof (induction n)
  case (Suc n)
  show ?case
  proof (cases "n = 0")
    case False
    then obtain j where "n = Suc j" by (cases n) auto
    then show ?thesis using Suc by (auto simp: nth_list_update less_Suc_eq)
  qed (use assms in auto)
qed (use assms in auto)

lemma mtrandom_seed_words:
  assumes "length (mt s) = 625"
  shows "length (mt (mtrandom_seed x s)) = 625" and "mt (mtrandom_seed x s) ! 624 = 624"
    and "k < 624 \<Longrightarrow> mt (mtrandom_seed x s) ! k = seed_word x k"
  using seed_loop[where n = 624 and m = "(mt s)[0 := seed_word x 0]" and x = x] assms
  by (auto simp: mtrandom_seed_def Let_def)

lemma mtrandom_calls:
  assumes "length (mt s) = 625"
  shows "mt_at (\<lambda>k. ucast (seed_word x k)) (624 + n) (((\<lambda>s. snd (mtrandom32 s)) ^^ n) (mtrandom_seed x s))"
proof (induction n)
  case 0
  have "half_replaced (\<lambda>k. ucast (seed_word x k)) 0 0 (mt (mtrandom_seed x s))"
    using mtrandom_seed_words[OF assms, where x = x] by (simp add: half_replaced_def mt_word_start)
  then show ?case
    using mtrandom_seed_words(2)[OF assms, where x = x] unfolding mt_at_def by (intro exI[of _ 0] exI[of _ 624] conjI) simp_all
qed (use mtrandom32_at(2) in fastforce)

text \<open>C10. The Mersenne twister.  After seeding, the n-th number is the n-th term of the linear recurrence of the
  algorithm over words of 32 bits, tempered; the words of the array, which have 64 bits and are
  replaced in place by two loops, 624 at a time, carry it in their low halves.\<close>

theorem mtrandom32_recurrence:
  assumes "length (mt s) = 625"
  shows "fst (mtrandom32 (((\<lambda>s. snd (mtrandom32 s)) ^^ n) (mtrandom_seed x s))) =
    temper (mt_word (\<lambda>k. ucast (seed_word x k)) (624 + n))"
  by (rule mtrandom32_at(1)[OF mtrandom_calls[OF assms]])

theorem mtrandom32_recurrence_witness:
  "fst (mtrandom32 (((\<lambda>s. snd (mtrandom32 s)) ^^ 1000) (mtrandom_seed 7 random_start))) =
    temper (mt_word (\<lambda>k. ucast (seed_word 7 k)) (624 + 1000))"
  by (rule mtrandom32_recurrence) (simp add: random_start_def)

text \<open>C39. Seeding.  The second word is that of the reference implementation for every seed, but the third one is
  not: the words are not cut to 32 bits, so that their high halves are shifted into the low ones.\<close>

theorem mtrandom_seed_not_reference:
  "ucast (mt (mtrandom_seed x random_start) ! 1) = reference_seed_word (of_int x) 1 \<and>
   ucast (mt (mtrandom_seed 3 random_start) ! 2) \<noteq> reference_seed_word 3 2"
proof -
  have "length (mt random_start) = 625" by (simp add: random_start_def)
  note w = mtrandom_seed_words(3)[OF this]
  have "(ucast (seed_word x 1) :: u32) = reference_seed_word (of_int x) 1"
    by (simp add: ucast_bits ucast_arith ucast_drop_bit)
  moreover have "ucast (seed_word 3 (Suc (Suc 0))) \<noteq> reference_seed_word 3 (Suc (Suc 0))"
    by simp
  ultimately show ?thesis unfolding numeral_2_eq_2[symmetric] by (simp add: w)
qed

section \<open>The period of the congruential generator\<close>

definition geometric :: "int \<Rightarrow> nat \<Rightarrow> int" where
  "geometric a k = (\<Sum>i<k. a ^ i)"

lemma geometric_Suc: "geometric a (Suc k) = geometric a k + a ^ k"
  by (simp add: geometric_def)

lemma geometric_add: "geometric a (k + l) = geometric a k + a ^ k * geometric a l"
  by (induction l) (simp_all add: geometric_def algebra_simps power_add)

lemma geometric_mult: "(a - 1) * geometric a k = a ^ k - 1"
  by (induction k) (simp_all add: geometric_def algebra_simps)

lemma geometric_factor: "a ^ k * u + geometric a k - u = geometric a k * ((a - 1) * u + 1)"
proof -
  have "geometric a k * ((a - 1) * u + 1) = (a - 1) * geometric a k * u + geometric a k" by (simp add: algebra_simps)
  then show ?thesis by (simp only: geometric_mult) (simp add: algebra_simps)
qed

lemma geometric_parity: "odd a \<Longrightarrow> even (geometric a k) \<longleftrightarrow> even k"
  by (induction k) (simp_all add: geometric_Suc, simp add: geometric_def)

lemma power_plus_1:
  assumes "a mod 4 = (1 :: int)"
  obtains c where "a ^ k + 1 = 2 * c" and "odd c"
proof -
  have "a ^ k mod 4 = 1" using assms by (metis mod_mod_trivial power_mod power_one one_mod_numeral)
  then have "(a ^ k + 1) mod 4 = 2" by presburger
  then have "a ^ k + 1 = 2 * ((a ^ k + 1) div 2) \<and> odd ((a ^ k + 1) div 2)" by presburger
  then show thesis using that by blast
qed

lemma geometric_dvd: "a mod 4 = 1 \<Longrightarrow> 2 ^ j dvd geometric a k \<longleftrightarrow> 2 ^ j dvd k"
proof (induction j arbitrary: k)
  case (Suc j)
  have "odd a" using Suc.prems by presburger
  show ?case
  proof (cases "even k")
    case True
    then obtain m where m: "k = m + m" by (metis mult_2 evenE)
    obtain c where c: "a ^ m + 1 = 2 * c" "odd c" using power_plus_1[OF Suc.prems] by blast
    have "geometric a k = (a ^ m + 1) * geometric a m" unfolding m geometric_add by (simp add: algebra_simps)
    then have "geometric a k = 2 * (c * geometric a m)" by (simp only: c(1) mult.assoc)
    then have "2 ^ Suc j dvd geometric a k \<longleftrightarrow> 2 ^ j dvd c * geometric a m" by simp
    also have "\<dots> \<longleftrightarrow> 2 ^ j dvd geometric a m"
      using c(2) by (meson coprime_dvd_mult_right_iff coprime_power_left_iff coprime_left_2_iff_odd)
    also have "\<dots> \<longleftrightarrow> 2 ^ Suc j dvd k" using Suc unfolding m by (simp add: mult_2[symmetric])
    finally show ?thesis .
  next
    case False
    then show ?thesis using geometric_parity[OF \<open>odd a\<close>, of k] by (auto dest: dvd_mult_left)
  qed
qed simp

text \<open>The sequence of seeds.\<close>

definition lcg :: "u32 \<Rightarrow> u32" where
  "lcg x = x * 0x8088405 + 1"

lemma lcg_iterate: "(lcg ^^ k) x = of_int (0x8088405 ^ k * uint x + geometric 0x8088405 k)"
proof (induction k)
  case (Suc k)
  let ?n = "0x8088405 ^ k * uint x + geometric 0x8088405 k"
  have n: "0x8088405 ^ Suc k * uint x + geometric 0x8088405 (Suc k) = ?n * 0x8088405 + 1"
    using geometric_add[where a = "0x8088405" and k = 1 and l = k] by (simp add: geometric_def algebra_simps)
  have "(lcg ^^ Suc k) x = lcg (of_int ?n)" using Suc by simp
  also have "\<dots> = of_int (?n * 0x8088405 + 1)" by (simp only: lcg_def of_int_add of_int_mult of_int_numeral of_int_1)
  finally show ?case by (simp only: n)
qed (simp add: geometric_def)

lemma lcg_fixed: "(lcg ^^ k) x = x \<longleftrightarrow> 2 ^ 32 dvd k"
proof -
  let ?a = "0x8088405 :: int"
  have "(lcg ^^ k) x = x \<longleftrightarrow> (of_int (?a ^ k * uint x + geometric ?a k) :: u32) = of_int (uint x)"
    by (simp only: lcg_iterate word_of_int_uint)
  also have "\<dots> \<longleftrightarrow> 2 ^ 32 dvd (?a ^ k * uint x + geometric ?a k) - uint x"
    by (simp only: word_of_int_eq_iff take_bit_eq_mod mod_eq_dvd_iff) simp
  also have "(?a ^ k * uint x + geometric ?a k) - uint x = geometric ?a k * ((?a - 1) * uint x + 1)"
    by (rule geometric_factor)
  also have "2 ^ 32 dvd \<dots> \<longleftrightarrow> 2 ^ 32 dvd geometric ?a k"
  proof -
    have "odd ((?a - 1) * uint x + 1)" by simp
    then show ?thesis by (meson coprime_dvd_mult_left_iff coprime_power_left_iff coprime_left_2_iff_odd)
  qed
  also have "\<dots> \<longleftrightarrow> 2 ^ 32 dvd k" by (rule geometric_dvd) simp
  finally show ?thesis .
qed

lemma lcg_inj: "inj (lcg ^^ l)"
proof -
  have "x = y" if "lcg x = lcg y" for x y
  proof -
    have "(lcg ^^ (2 ^ 32)) z = (lcg ^^ (2 ^ 32 - 1)) (lcg z)" for z by (metis One_nat_def Suc_pred comp_apply funpow_Suc_right zero_less_numeral zero_less_power)
    then show ?thesis using that lcg_fixed[of "2 ^ 32"] by (metis dvd_refl)
  qed
  then show ?thesis by (intro inj_fn injI)
qed

lemma lcg_period: "(lcg ^^ k) x = (lcg ^^ l) x \<longleftrightarrow> k mod 2 ^ 32 = l mod 2 ^ 32"
proof -
  have less: "(lcg ^^ k) x = (lcg ^^ l) x \<longleftrightarrow> k mod 2 ^ 32 = l mod 2 ^ 32" if "l \<le> k" for k l
  proof -
    have "(lcg ^^ k) x = (lcg ^^ l) ((lcg ^^ (k - l)) x)" using that by (metis comp_apply funpow_add le_add_diff_inverse)
    then have "(lcg ^^ k) x = (lcg ^^ l) x \<longleftrightarrow> (lcg ^^ (k - l)) x = x" using inj_eq[OF lcg_inj] by metis
    then show ?thesis using mod_eq_dvd_iff_nat[OF that] by (simp only: lcg_fixed)
  qed
  show ?thesis using less[of k l] less[of l k] by (cases "l \<le> k") auto
qed

abbreviation next_seed :: "double \<Rightarrow> random_state \<Rightarrow> random_state" where
  "next_seed n s \<equiv> snd (random_n n s)"

lemma next_seed_lcg: "(of_int (Random_Seed ((next_seed n ^^ k) s)) :: u32) = (lcg ^^ k) (of_int (Random_Seed s))"
  by (induction k) (simp_all add: random_n_def Let_def lcg_def)

lemma next_seed_range:
  assumes "- (2 ^ 31) \<le> Random_Seed s" and "Random_Seed s < 2 ^ 31"
  shows "Random_Seed ((next_seed n ^^ k) s) = sint (of_int (Random_Seed ((next_seed n ^^ k) s)) :: u32)"
proof (cases k)
  case 0
  then show ?thesis using assms by (simp add: sint_sbintrunc' signed_take_bit_int_eq_self)
qed (simp add: random_n_def Let_def)

text \<open>C37. The period of \<open>random\<close>.  Calls of \<open>random\<close> come to the same seed exactly when their numbers agree modulo
  \<open>2 ^ 32\<close>: from every seed the generator goes through all values of \<open>int\<close> before it repeats.\<close>

theorem random_period:
  assumes "- (2 ^ 31) \<le> Random_Seed s" and "Random_Seed s < 2 ^ 31"
  shows "Random_Seed (((\<lambda>s. snd (random_n n s)) ^^ k) s) = Random_Seed (((\<lambda>s. snd (random_n n s)) ^^ l) s) \<longleftrightarrow>
    k mod 2 ^ 32 = l mod 2 ^ 32"
  using next_seed_range[OF assms, where n = n and k = k] next_seed_range[OF assms, where n = n and k = l] lcg_period[of k "of_int (Random_Seed s)" l]
  unfolding next_seed_lcg by (metis next_seed_lcg)

theorem random_period_witness:
  "Random_Seed (((\<lambda>s. snd (random_n (DFin 1) s)) ^^ 5000) random_start) \<noteq>
   Random_Seed (((\<lambda>s. snd (random_n (DFin 1) s)) ^^ 4999) random_start)"
  by (subst random_period) (simp_all add: random_start_def)

section \<open>Ranges\<close>

lemma rnd_scaled_below:
  assumes "0 < n" "n < 2 ^ 31" "0 \<le> u" "u < 2 ^ 32"
  shows "0 \<le> rnd (of_int u / 2 ^ 32 * of_int n)" and "rnd (of_int u / 2 ^ 32 * of_int n) < of_int n"
proof -
  define k where "k = nlog2 (nat n)"
  have "2 ^ k \<le> nat n" "nat n < 2 ^ Suc k" using nlog2_bounds[of "nat n"] assms(1) by (simp_all add: k_def)
  then have "int (2 ^ k) \<le> int (nat n)" "int (nat n) < int (2 ^ Suc k)" by (simp_all only: of_nat_le_iff of_nat_less_iff)
  then have k: "2 ^ k \<le> n" "n < 2 ^ Suc k" using assms(1) by simp_all
  have "2 ^ k < (2 ^ 31 :: int)" using k(1) assms(2) by linarith
  then have k31: "k < 31" using power_less_imp_less_exp[of 2 k 31] by simp
  define m where "m = n * 2 ^ (32 - k) - 1"
  have "n * 2 ^ (32 - k) < 2 ^ Suc k * 2 ^ (32 - k)" using k(2) by (intro mult_strict_right_mono) simp_all
  also have "2 ^ Suc k * 2 ^ (32 - k) = (2 ^ 33 :: int)" using k31 by (simp flip: power_add)
  finally have m: "\<bar>m\<bar> < 2 ^ 53" using assms(1) by (simp add: m_def)
  have p: "(2 :: rat) powi (int k - 32) = 2 ^ k / 2 ^ 32" using k31 by (simp add: power_int_diff)
  let ?p = "of_int m * 2 powi (int k - 32) :: rat"
  have "2 ^ (32 - k) * 2 ^ k = (2 ^ 32 :: rat)" using k31 by (simp flip: power_add)
  then have p_eq: "?p = of_int n - 2 ^ k / 2 ^ 32" unfolding p m_def by (simp add: field_simps)
  have "of_int u * of_int n \<le> (2 ^ 32 - 1) * (of_int n :: rat)"
    using assms by (intro mult_right_mono) (simp_all add: of_int_le_iff[where 'a = rat, of u "2 ^ 32 - 1", simplified])
  then have "of_int u * of_int n \<le> 2 ^ 32 * of_int n - (of_int n :: rat)" by (simp only: left_diff_distrib mult_1)
  moreover have "(2 :: rat) ^ k \<le> of_int n" using k(1) by (metis of_int_le_iff of_int_numeral of_int_power)
  ultimately have "of_int u * of_int n + 2 ^ k \<le> 2 ^ 32 * (of_int n :: rat)" by linarith
  then have "of_int u / 2 ^ 32 * of_int n \<le> ?p" unfolding p_eq by (simp add: field_simps)
  then have "rnd (of_int u / 2 ^ 32 * of_int n) \<le> rnd ?p" by (rule rnd_mono)
  also have "rnd ?p = ?p" by (rule rnd_exact[OF m]) simp
  finally show "rnd (of_int u / 2 ^ 32 * of_int n) < of_int n" unfolding p_eq by (rule le_less_trans) simp
  have "rnd 0 \<le> rnd (of_int u / 2 ^ 32 * of_int n)" using assms by (intro rnd_mono) simp
  then show "0 \<le> rnd (of_int u / 2 ^ 32 * of_int n)" by simp
qed


lemma quotient_exact: "0 \<le> u \<Longrightarrow> u < 2 ^ 32 \<Longrightarrow> ddiv (d_of_int u) (DFin 0x100000000) = DFin (of_int u / 2 ^ 32)"
proof -
  assume u: "0 \<le> u" "u < 2 ^ 32"
  have "rnd (of_int u * 2 powi (-32)) = of_int u * 2 powi (-32)" by (rule rnd_exact) (use u in auto)
  moreover have "(of_int u * 2 powi (-32) :: rat) = of_int u / 2 ^ 32"
    by (simp only: power_int_minus power_int_numeral divide_inverse)
  ultimately have r: "rnd (of_int u / 2 ^ 32) = of_int u / 2 ^ 32" by (simp only:)
  have "\<bar>of_int u / 2 ^ 32 :: rat\<bar> < 2 ^ 1024"
  proof -
    have "(of_int u :: rat) < of_int (2 ^ 32)" using u(2) by (simp only: of_int_less_iff)
    then have "of_int u / 2 ^ 32 < (1 :: rat)" by simp
    also have "(1 :: rat) < 2 ^ 1024" by (rule one_less_power) simp_all
    finally have "of_int u / 2 ^ 32 < (2 :: rat) ^ 1024" .
    moreover have "0 \<le> of_int u / (2 ^ 32 :: rat)" using u(1) by simp
    ultimately show ?thesis by (simp only: abs_of_nonneg)
  qed
  then have "dround_sgn False (of_int u / 2 ^ 32) = (if of_int u / 2 ^ 32 = (0 :: rat) then DFin 0 else DFin (of_int u / 2 ^ 32))"
    by (simp only: dround_sgn_def Let_def r not_le[symmetric] if_False)
  also have "\<dots> = DFin (of_int u / 2 ^ 32)" by auto
  also have "dround_sgn False (of_int u / 2 ^ 32) = ddiv (d_of_int u) (DFin 0x100000000)"
    using u by (simp add: d_of_int_exact ddiv_def)
  finally show ?thesis .
qed

text \<open>C38. Integers at random.  \<open>random_integer(x)\<close> is defined and at least 0 and at most \<open>x\<close>, for every \<open>x\<close> that is
  not negative and below the greatest \<open>int\<close>: the rounding of the product never reaches \<open>x + 1\<close>.\<close>

theorem random_integer_bounds:
  assumes "0 \<le> x" and "x < 2 ^ 31 - 1"
  shows "\<exists>r s'. random_integer x s = Some (r, s') \<and> 0 \<le> r \<and> r \<le> x"
proof -
  define u where "u = uint (of_int (sint ((of_int (Random_Seed s) :: u32) * 0x8088405 + 1)) :: u32)"
  define q where "q = rnd (of_int u / 2 ^ 32 * of_int (x + 1))"
  have u: "0 \<le> u" "u < 2 ^ 32" using uint_lt2p[where 'a = 32] by (simp_all add: u_def)
  have n: "0 < x + 1" "x + 1 < 2 ^ 31" using assms by simp_all
  have q: "0 \<le> q" "q < of_int (x + 1)" unfolding q_def by (rule rnd_scaled_below[OF n u])+
  have "(of_int (x + 1) :: rat) < of_int (2 ^ 31)" using n(2) of_int_less_iff by blast
  then have "\<bar>q\<bar> < 2 ^ 1024" using q by simp
  then have r: "fst (random_n (d_of_int (x + 1)) s) = (if q = 0 then DFin 0 else DFin q)"
  proof -
    have "fst (random_n (d_of_int (x + 1)) s) = dmul (ddiv (d_of_int u) (DFin 0x100000000)) (d_of_int (x + 1))"
      by (simp only: random_n_def Let_def fst_conv u_def)
    also have "\<dots> = dmul (DFin (of_int u / 2 ^ 32)) (DFin (of_int (x + 1)))"
      using n by (simp only: quotient_exact[OF u]) (simp add: d_of_int_exact)
    also have "\<dots> = dround_sgn False (of_int u / 2 ^ 32 * of_int (x + 1))"
      using u(1) n(1) by (simp add: dmul_def)
    finally show ?thesis using \<open>\<bar>q\<bar> < 2 ^ 1024\<close> by (simp only: dround_sgn_def Let_def q_def[symmetric] not_le[symmetric] if_False)
  qed
  have "q < 2 ^ 31" using q(2) \<open>(of_int (x + 1) :: rat) < of_int (2 ^ 31)\<close> by simp
  have f: "0 \<le> \<lfloor>q\<rfloor>" "\<lfloor>q\<rfloor> \<le> x" using q by (simp_all add: floor_le_iff)
  have "d_to_sint 32 (fst (random_n (d_of_int (x + 1)) s)) = Some \<lfloor>q\<rfloor>"
    unfolding r using f q(1) \<open>q < 2 ^ 31\<close> by (simp add: d_to_sint_def rat_trunc_def)
  moreover have "i32 (x + 1) = Some (x + 1)" using n by simp
  ultimately show ?thesis using f by (simp add: random_integer_def case_prod_beta Let_def)
qed

theorem random_integer_bounds_witness: "\<exists>r s'. random_integer 5 random_start = Some (r, s') \<and> 0 \<le> r \<and> r \<le> 5"
  by (rule random_integer_bounds) simp_all

text \<open>\<open>mtrandom_integer\<close>.  Its result is 0 for every argument, since the quotient of the argument and
  \<open>0xFFFFFFFF\<close> is one of unsigned integers.\<close>

theorem mtrandom_integer_zero:
  assumes "x < 2 ^ 31"
  shows "fst (mtrandom_integer x s) = 0"
proof (cases "0 < x")
  case True
  have "uint (of_int x :: u32) = x" using True assms by (simp add: uint_word_of_int)
  then have "(of_int x :: u32) < 0xFFFFFFFF" using assms by (simp add: word_less_def)
  then have "(of_int x :: u32) div 0xFFFFFFFF = 0" by (simp add: word_less_nat_alt unat_div word_unat_eq_iff)
  then show ?thesis using True by (simp add: mtrandom_integer_def case_prod_beta Let_def)
qed (simp add: mtrandom_integer_def)

theorem mtrandom_integer_zero_witness: "fst (mtrandom_integer 1000 random_start) = 0"
  by (rule mtrandom_integer_zero) simp

end
