(* ===== verification/RefStack.thy ===== *)
theory RefStack
  imports Prelude
begin

text \<open>
  Types of the C++ definitions parser: \<open>ref_stack\<close> (\<open>CompilerSource/JDI/src/Storage/references.cpp\<close>), the pointers,
  references, array bounds and functions of a declarator, and \<open>full_type\<close> (\<open>full_type.cpp\<close>).

  The nodes of a stack belong to it alone; the linked list from \<open>ntop\<close> is the list \<open>nodes\<close>, whose last element is
  \<open>nbottom\<close>.  A definition is named by its address, 0 being the null pointer, and so is the syntax
  tree of a default value.  An operation that takes a stack it \<^emph>\<open>consumes\<close> returns what it leaves there.
  The arguments of operations that consume another stack are distinct objects.  \<open>clear\<close> leaves
  \<open>ntop\<close> pointing to freed nodes; it is called by the destructor and before a copy, and is a part
  of the assignment here.  \<open>None\<close> is a null pointer followed or a member read that a node does not have.
\<close>

unbundle bit_operations_syntax

section \<open>Nodes\<close>

datatype ref_type = RT_POINTERTO | RT_REFERENCE | RT_ARRAYBOUND | RT_FUNCTION | RT_MEMBER_POINTER

fun ref_type_number :: "ref_type \<Rightarrow> nat" where
  "ref_type_number RT_POINTERTO = 0"
| "ref_type_number RT_REFERENCE = 1"
| "ref_type_number RT_ARRAYBOUND = 2"
| "ref_type_number RT_FUNCTION = 3"
| "ref_type_number RT_MEMBER_POINTER = 4"

type_synonym def_ptr = nat
type_synonym ast_ptr = nat

text \<open>\<open>Plain\<close> is a node of the base class \<open>node\<close>, whatever its type says.\<close>

datatype ref_node = Plain ref_type | NodeArray nat | NodeFunc "parameter list" | NodeMemptr def_ptr
  and parameter = Parameter (parameter_type: full_type) (variadic: bool) (default_value: ast_ptr)
  and full_type = FullType (ft_def: def_ptr) (ft_refs: ref_stack) (ft_flags: u64)
  and ref_stack = RefStack (ref_name: string) (ref_ndef: def_ptr) (ref_nodes: "ref_node list") (ref_sz: nat)

definition nbound :: nat where
  "nbound = 2 ^ 64 - 1"

fun node_type :: "ref_node \<Rightarrow> ref_type" where
  "node_type (Plain t) = t"
| "node_type (NodeArray b) = RT_ARRAYBOUND"
| "node_type (NodeFunc ps) = RT_FUNCTION"
| "node_type (NodeMemptr d) = RT_MEMBER_POINTER"

fun node_arraysize :: "ref_node \<Rightarrow> nat option" where
  "node_arraysize (NodeArray b) = Some b"
| "node_arraysize _ = None"

fun node_params :: "ref_node \<Rightarrow> parameter list option" where
  "node_params (NodeFunc ps) = Some ps"
| "node_params _ = None"

fun node_member_of :: "ref_node \<Rightarrow> def_ptr option" where
  "node_member_of (NodeMemptr d) = Some d"
| "node_member_of _ = None"

definition node_paramcount :: "ref_node \<Rightarrow> nat option" where
  "node_paramcount n = map_option length (node_params n)"

text \<open>\<open>duplicate\<close>: the new node and what is left of the old one, whose parameters are swapped out.\<close>

fun node_duplicate :: "ref_node \<Rightarrow> ref_node \<times> ref_node" where
  "node_duplicate (NodeArray b) = (NodeArray b, NodeArray b)"
| "node_duplicate (NodeFunc ps) = (NodeFunc ps, NodeFunc [])"
| "node_duplicate n = (Plain (node_type n), n)"

section \<open>The stack\<close>

definition ref_stack_new :: ref_stack where
  "ref_stack_new = RefStack [] 0 [] 0"

fun ref_push :: "ref_type \<Rightarrow> ref_stack \<Rightarrow> ref_stack" where
  "ref_push t (RefStack name d ns sz) = RefStack name d (Plain t # ns) (zadd sz 1)"

fun ref_push_array :: "nat \<Rightarrow> ref_stack \<Rightarrow> ref_stack" where
  "ref_push_array b (RefStack name d ns sz) = RefStack name d (ns @ [NodeArray b]) (zadd sz 1)"

text \<open>The caller's parameters are empty afterwards.\<close>

fun ref_push_func :: "parameter list \<Rightarrow> ref_stack \<Rightarrow> ref_stack \<times> parameter list" where
  "ref_push_func ps (RefStack name d ns sz) = (RefStack name d (ns @ [NodeFunc ps]) (zadd sz 1), [])"

fun ref_push_memptr :: "def_ptr \<Rightarrow> ref_stack \<Rightarrow> ref_stack" where
  "ref_push_memptr m (RefStack name d ns sz) = RefStack name d (ns @ [NodeMemptr m]) (zadd sz 1)"

fun ref_pop :: "ref_stack \<Rightarrow> ref_stack" where
  "ref_pop (RefStack name d ns sz) = RefStack name d (tl ns) sz"

text \<open>\<open>copy\<close> and \<open>operator=(const ref_stack&)\<close>: the copy, and what is left of the source.\<close>

fun ref_copy :: "ref_stack \<Rightarrow> ref_stack \<times> ref_stack" where
  "ref_copy (RefStack name d ns sz) =
     (RefStack name d (map (\<lambda>n. fst (node_duplicate n)) ns) sz, RefStack name d (map (\<lambda>n. snd (node_duplicate n)) ns) sz)"

text \<open>\<open>swap\<close> and the constructor from a stack that is not \<open>const\<close>: the new stack, and what is left.\<close>

definition ref_swap :: "ref_stack \<Rightarrow> ref_stack \<Rightarrow> ref_stack \<times> ref_stack" where
  "ref_swap s rf = (rf, s)"

definition ref_stack_from :: "ref_stack \<Rightarrow> ref_stack \<times> ref_stack" where
  "ref_stack_from rf = ref_swap ref_stack_new rf"

fun ref_append_c :: "ref_stack \<Rightarrow> ref_stack \<Rightarrow> ref_stack \<times> ref_stack" where
  "ref_append_c (RefStack name d ns sz) (RefStack rname rd rns rsz) =
     (if rns = [] then (RefStack name d ns sz, RefStack rname rd rns rsz)
      else (RefStack name d (rns @ ns) (zadd sz rsz), RefStack rname rd [] 0))"

fun ref_append_nest_c :: "ref_stack \<Rightarrow> ref_stack \<Rightarrow> ref_stack \<times> ref_stack" where
  "ref_append_nest_c (RefStack name d ns sz) (RefStack rname rd rns rsz) =
     (if rns = []
      then (RefStack (if rname \<noteq> [] then rname else name) (if rd \<noteq> 0 then rd else d) ns sz, RefStack rname rd rns rsz)
      else (RefStack rname rd (rns @ ns) (zadd sz rsz), RefStack rname rd [] 0))"

fun ref_prepend_c :: "ref_stack \<Rightarrow> ref_stack \<Rightarrow> ref_stack \<times> ref_stack" where
  "ref_prepend_c (RefStack name d ns sz) (RefStack rname rd rns rsz) =
     (if rns = [] then (RefStack name d ns sz, RefStack rname rd rns rsz)
      else (RefStack name d (ns @ rns) (zadd sz rsz), RefStack rname rd [] 0))"

definition ref_prepend :: "ref_stack \<Rightarrow> ref_stack \<Rightarrow> ref_stack \<times> ref_stack" where
  "ref_prepend s rf = (let (n, rf) = ref_copy rf in (fst (ref_prepend_c s n), rf))"

definition ref_empty :: "ref_stack \<Rightarrow> bool" where
  "ref_empty s \<longleftrightarrow> ref_nodes s = []"

definition ref_size :: "ref_stack \<Rightarrow> nat" where
  "ref_size s = ref_sz s"

definition ref_top :: "ref_stack \<Rightarrow> ref_node option" where
  "ref_top s = (case ref_nodes s of [] \<Rightarrow> None | n # ns \<Rightarrow> Some n)"

definition ref_bottom :: "ref_stack \<Rightarrow> ref_node option" where
  "ref_bottom s = (if ref_nodes s = [] then None else Some (last (ref_nodes s)))"

section \<open>Comparison\<close>

text \<open>Of a parameter the comparisons look at whether it has a default value and whether it is variadic.\<close>

definition has_default :: "parameter \<Rightarrow> bool" where
  "has_default p \<longleftrightarrow> default_value p \<noteq> 0"

definition parameter_eq :: "parameter \<Rightarrow> parameter \<Rightarrow> bool" where
  "parameter_eq p q \<longleftrightarrow> (\<not> has_default p) = (\<not> has_default q) \<and> variadic p = variadic q"

definition parameter_neq :: "parameter \<Rightarrow> parameter \<Rightarrow> bool" where
  "parameter_neq p q \<longleftrightarrow> (\<not> has_default p) \<noteq> (\<not> has_default q) \<or> variadic p \<noteq> variadic q"

text \<open>\<open>!default_value\<close> and \<open>variadic\<close> are compared as numbers.\<close>

definition parameter_lt :: "parameter \<Rightarrow> parameter \<Rightarrow> bool" where
  "parameter_lt p q =
     (if (\<not> has_default p) \<noteq> (\<not> has_default q) then (\<not> has_default q) < (\<not> has_default p)
      else if variadic p \<noteq> variadic q then variadic p < variadic q else False)"

definition parameter_gt :: "parameter \<Rightarrow> parameter \<Rightarrow> bool" where
  "parameter_gt p q =
     (if (\<not> has_default p) \<noteq> (\<not> has_default q) then (\<not> has_default p) < (\<not> has_default q)
      else if variadic p \<noteq> variadic q then variadic q < variadic p else False)"

definition parameter_le :: "parameter \<Rightarrow> parameter \<Rightarrow> bool" where
  "parameter_le p q =
     (if (\<not> has_default p) \<noteq> (\<not> has_default q) then (\<not> has_default q) < (\<not> has_default p)
      else if variadic p \<noteq> variadic q then variadic p < variadic q else True)"

definition parameter_ge :: "parameter \<Rightarrow> parameter \<Rightarrow> bool" where
  "parameter_ge p q =
     (if (\<not> has_default p) \<noteq> (\<not> has_default q) then (\<not> has_default p) < (\<not> has_default q)
      else if variadic p \<noteq> variadic q then variadic q < variadic p else True)"

text \<open>The loops over parameters of two lists of one length: the first pair that \<open>differ\<close> decides.\<close>

fun first_difference :: "('a \<Rightarrow> 'a \<Rightarrow> bool) \<Rightarrow> ('a \<Rightarrow> 'a \<Rightarrow> bool) \<Rightarrow> bool \<Rightarrow> 'a list \<Rightarrow> 'a list \<Rightarrow> bool" where
  "first_difference differ decide end_result (p # ps) (q # qs) =
     (if differ p q then decide p q else first_difference differ decide end_result ps qs)"
| "first_difference differ decide end_result _ _ = end_result"

definition parameters_eq :: "parameter list \<Rightarrow> parameter list \<Rightarrow> bool" where
  "parameters_eq ps qs =
     (if length ps \<noteq> length qs then False else first_difference parameter_neq (\<lambda>p q. False) True ps qs)"

definition parameters_neq :: "parameter list \<Rightarrow> parameter list \<Rightarrow> bool" where
  "parameters_neq ps qs =
     (if length ps \<noteq> length qs then True else first_difference parameter_neq (\<lambda>p q. True) False ps qs)"

definition parameters_gt :: "parameter list \<Rightarrow> parameter list \<Rightarrow> bool" where
  "parameters_gt ps qs =
     (if length qs < length ps then True else if length ps < length qs then False
      else first_difference parameter_neq parameter_gt False ps qs)"

definition parameters_lt :: "parameter list \<Rightarrow> parameter list \<Rightarrow> bool" where
  "parameters_lt ps qs =
     (if length ps < length qs then True else if length qs < length ps then False
      else first_difference parameter_neq parameter_lt False ps qs)"

definition parameters_ge :: "parameter list \<Rightarrow> parameter list \<Rightarrow> bool" where
  "parameters_ge ps qs =
     (if length qs < length ps then True else if length ps < length qs then False
      else first_difference parameter_lt parameter_gt True ps qs)"

definition parameters_le :: "parameter list \<Rightarrow> parameter list \<Rightarrow> bool" where
  "parameters_le ps qs =
     (if length ps < length qs then True else if length qs < length ps then False
      else first_difference parameter_neq parameter_lt True ps qs)"

definition node_neq :: "ref_node \<Rightarrow> ref_node \<Rightarrow> bool option" where
  "node_neq i j =
     (if node_type i \<noteq> node_type j then Some True
      else if node_type i = RT_ARRAYBOUND
      then Option.bind (node_arraysize i) (\<lambda>a. map_option (\<lambda>b. a \<noteq> b) (node_arraysize j))
      else if node_type i = RT_FUNCTION
      then Option.bind (node_params i) (\<lambda>ps. map_option (\<lambda>qs. parameters_neq ps qs) (node_params j))
      else Some False)"

definition node_eq :: "ref_node \<Rightarrow> ref_node \<Rightarrow> bool option" where
  "node_eq i j = map_option Not (node_neq i j)"

text \<open>The loops over the nodes of two stacks, as long as one of them has a node; a step may return.\<close>

fun walk :: "(ref_node \<Rightarrow> ref_node \<Rightarrow> bool option option) \<Rightarrow> bool \<Rightarrow> ref_node list \<Rightarrow> ref_node list \<Rightarrow> bool option" where
  "walk compare_step end_result [] [] = Some end_result"
| "walk compare_step end_result (i # is) (j # js) =
     Option.bind (compare_step i j) (\<lambda>r. case r of Some b \<Rightarrow> Some b | None \<Rightarrow> walk compare_step end_result is js)"
| "walk compare_step end_result _ _ = None"

definition ordered_step ::
  "(nat \<Rightarrow> nat \<Rightarrow> bool) \<Rightarrow> (nat \<Rightarrow> nat \<Rightarrow> bool) \<Rightarrow> (parameter list \<Rightarrow> parameter list \<Rightarrow> bool) \<Rightarrow>
   ref_node \<Rightarrow> ref_node \<Rightarrow> bool option option" where
  "ordered_step by_type by_size by_params i j =
     (if node_type i \<noteq> node_type j then Some (Some (by_type (ref_type_number (node_type i)) (ref_type_number (node_type j))))
      else if node_type i = RT_ARRAYBOUND
      then Option.bind (node_arraysize i) (\<lambda>a. map_option (\<lambda>b. if a \<noteq> b then Some (by_size a b) else None) (node_arraysize j))
      else if node_type i = RT_FUNCTION
      then Option.bind (node_params i) (\<lambda>ps.
             map_option (\<lambda>qs. if parameters_neq ps qs then Some (by_params ps qs) else None) (node_params j))
      else Some None)"

definition ref_eq :: "ref_stack \<Rightarrow> ref_stack \<Rightarrow> bool option" where
  "ref_eq s t =
     (if ref_sz s \<noteq> ref_sz t then Some False
      else walk (\<lambda>i j. map_option (\<lambda>differ. if differ then Some False else None) (node_neq i j)) True (ref_nodes s) (ref_nodes t))"

definition ref_neq :: "ref_stack \<Rightarrow> ref_stack \<Rightarrow> bool option" where
  "ref_neq s t =
     (if ref_sz s \<noteq> ref_sz t then Some True
      else walk (\<lambda>i j. map_option (\<lambda>differ. if differ then Some True else None) (node_neq i j)) False (ref_nodes s) (ref_nodes t))"

definition ref_lt :: "ref_stack \<Rightarrow> ref_stack \<Rightarrow> bool option" where
  "ref_lt s t =
     (if ref_sz s < ref_sz t then Some True else if ref_sz t < ref_sz s then Some False
      else walk (ordered_step (<) (<) parameters_lt) False (ref_nodes s) (ref_nodes t))"

definition ref_gt :: "ref_stack \<Rightarrow> ref_stack \<Rightarrow> bool option" where
  "ref_gt s t =
     (if ref_sz t < ref_sz s then Some True else if ref_sz s < ref_sz t then Some False
      else walk (ordered_step (<) (>) parameters_gt) False (ref_nodes s) (ref_nodes t))"

definition ref_le :: "ref_stack \<Rightarrow> ref_stack \<Rightarrow> bool option" where
  "ref_le s t =
     (if ref_sz s < ref_sz t then Some True else if ref_sz t < ref_sz s then Some False
      else walk (ordered_step (<) (<) parameters_lt) False (ref_nodes s) (ref_nodes t))"

definition ref_ge :: "ref_stack \<Rightarrow> ref_stack \<Rightarrow> bool option" where
  "ref_ge s t =
     (if ref_sz t < ref_sz s then Some True else if ref_sz s < ref_sz t then Some False
      else walk (ordered_step (\<ge>) (>) parameters_gt) True (ref_nodes s) (ref_nodes t))"

fun ends_with_nodes :: "ref_node list \<Rightarrow> ref_node list \<Rightarrow> bool option" where
  "ends_with_nodes is [] = Some True"
| "ends_with_nodes [] (j # js) = Some False"
| "ends_with_nodes (i # is) (j # js) =
     Option.bind (node_neq i j) (\<lambda>differ. if differ then Some False else ends_with_nodes is js)"

definition ref_ends_with :: "ref_stack \<Rightarrow> ref_stack \<Rightarrow> bool option" where
  "ref_ends_with s rf = ends_with_nodes (ref_nodes s) (ref_nodes rf)"

section \<open>Text\<close>

text \<open>
  The texts of definitions, of a definition with its modifiers, and of default values: \<open>definition::toString\<close> and its
  overrides print scopes with all their members, which are not modelled.
\<close>

record naming =
  def_text :: "def_ptr \<Rightarrow> string option"
  flags_text :: "def_ptr \<Rightarrow> u64 \<Rightarrow> string"
  ast_text :: "ast_ptr \<Rightarrow> string"

definition is_suffix :: "ref_type \<Rightarrow> bool" where
  "is_suffix t \<longleftrightarrow> t = RT_ARRAYBOUND \<or> t = RT_FUNCTION"

fun lhs_marks :: "naming \<Rightarrow> ref_node list \<Rightarrow> string \<Rightarrow> (ref_node list \<times> string) option" where
  "lhs_marks N [] res = Some ([], res)"
| "lhs_marks N (n # ns) res =
     (if node_type n = RT_POINTERTO then lhs_marks N ns (CHR ''*'' # res)
      else if node_type n = RT_REFERENCE then lhs_marks N ns (CHR ''&'' # res)
      else if node_type n = RT_MEMBER_POINTER
      then Option.bind (node_member_of n) (\<lambda>d. Option.bind (def_text N d) (\<lambda>s. lhs_marks N ns (s @ ''::*'' @ res)))
      else Some (n # ns, res))"

lemma lhs_marks_length:
  "lhs_marks N ns res = Some (ns', res') \<Longrightarrow> length ns' \<le> length ns \<and> (ns \<noteq> [] \<longrightarrow> \<not> is_suffix (node_type (hd ns)) \<longrightarrow> length ns' < length ns)"
proof (induction N ns res rule: lhs_marks.induct)
  case (2 N n ns res)
  then show ?case
    by (cases "node_type n") (fastforce simp: is_suffix_def split: bind_splits)+
qed simp

function toStringLHS_loop :: "naming \<Rightarrow> ref_node list \<Rightarrow> string \<Rightarrow> string option" where
  "toStringLHS_loop N ns res =
     (if ns = [] then Some res
      else Option.bind (lhs_marks N (dropWhile (\<lambda>n. is_suffix (node_type n)) ns) res)
             (\<lambda>(ns', res'). toStringLHS_loop N ns' (if ns' \<noteq> [] then CHR ''('' # res' else res')))"
  by pat_completeness auto

termination
proof (relation "measure (\<lambda>(N, ns, res). length ns)", goal_cases)
  case (2 N ns res p ns' res')
  let ?d = "dropWhile (\<lambda>n. is_suffix (node_type n)) ns"
  have m: "length ns' \<le> length ?d" "?d \<noteq> [] \<Longrightarrow> length ns' < length ?d"
    using lhs_marks_length[of N ?d res ns' res'] hd_dropWhile[of "\<lambda>n. is_suffix (node_type n)" ns] 2 by auto
  have "length ?d \<le> length ns" by (rule length_dropWhile_le)
  then have "length ns' < length ns" using m 2(1) by (cases "?d = []") auto
  then show ?case by simp
qed simp

declare toStringLHS_loop.simps [simp del]

definition toStringLHS :: "naming \<Rightarrow> ref_stack \<Rightarrow> string option" where
  "toStringLHS N s = toStringLHS_loop N (ref_nodes s) []"

definition arraybound_string :: "nat \<Rightarrow> string" where
  "arraybound_string b = (if b = nbound then ''[]'' else ''['' @ decimal b @ '']'')"

text \<open>The loops of \<open>toStringRHS\<close>, over the types of the nodes and their texts.\<close>

fun rhs_suffixes :: "(ref_type \<times> string option) list \<Rightarrow> string \<Rightarrow> ((ref_type \<times> string option) list \<times> string) option" where
  "rhs_suffixes [] res = Some ([], res)"
| "rhs_suffixes ((t, text) # ns) res =
     (if is_suffix t then Option.bind text (\<lambda>s. rhs_suffixes ns (res @ s)) else Some ((t, text) # ns, res))"

lemma rhs_suffixes_length:
  "rhs_suffixes ns res = Some (ns', res') \<Longrightarrow> length ns' \<le> length ns \<and> (ns \<noteq> [] \<longrightarrow> is_suffix (fst (hd ns)) \<longrightarrow> length ns' < length ns)"
  by (induction ns res rule: rhs_suffixes.induct) (fastforce split: if_splits bind_splits)+

function toStringRHS_loop :: "(ref_type \<times> string option) list \<Rightarrow> string \<Rightarrow> string option" where
  "toStringRHS_loop ns res =
     (if ns = [] then Some res
      else Option.bind (rhs_suffixes ns res) (\<lambda>(ns', res').
             let ns'' = dropWhile (\<lambda>n. \<not> is_suffix (fst n)) ns'
             in toStringRHS_loop ns'' (if ns'' \<noteq> [] then res' @ '')'' else res')))"
  by pat_completeness auto

termination
proof (relation "measure (\<lambda>(ns, res). length ns)", goal_cases)
  case (2 ns res p ns' res' ns'')
  have m: "length ns' \<le> length ns" "is_suffix (fst (hd ns)) \<Longrightarrow> length ns' < length ns"
    using rhs_suffixes_length[of ns res ns' res'] 2 by auto
  have d: "length ns'' \<le> length ns'" using 2(4) length_dropWhile_le by metis
  have "ns' = ns" if "\<not> is_suffix (fst (hd ns))"
    using that 2(1,2,3) by (cases ns; cases "hd ns") auto
  moreover have "length (dropWhile (\<lambda>n. \<not> is_suffix (fst n)) ns) < length ns" if "\<not> is_suffix (fst (hd ns))"
    using that 2(1) length_dropWhile_le[of "\<lambda>n. \<not> is_suffix (fst n)" "tl ns"] by (cases ns) auto
  ultimately have "length ns'' < length ns" using m d 2(4) by (cases "is_suffix (fst (hd ns))") auto
  then show ?case by simp
qed simp

declare toStringRHS_loop.simps [simp del]

fun comma_separated :: "string list \<Rightarrow> string" where
  "comma_separated [] = []"
| "comma_separated [t] = t"
| "comma_separated (t # ts) = t @ '', '' @ comma_separated ts"

text \<open>The text of a suffix, \<open>toString\<close> of a parameter, of a type and of a stack.\<close>

fun node_text :: "naming \<Rightarrow> ref_node \<Rightarrow> string option"
  and parameter_text :: "naming \<Rightarrow> parameter \<Rightarrow> string option"
  and type_text :: "naming \<Rightarrow> full_type \<Rightarrow> string option"
  and stack_text :: "naming \<Rightarrow> ref_stack \<Rightarrow> string option" where
  "node_text N (NodeArray b) = Some (arraybound_string b)"
| "node_text N (NodeFunc ps) =
     map_option (\<lambda>ts. ''('' @ comma_separated ts @ '')'') (those (map (\<lambda>p. parameter_text N p) ps))"
| "node_text N (Plain t) = None"
| "node_text N (NodeMemptr d) = None"
| "parameter_text N (Parameter ft v dv) =
     map_option (\<lambda>t. t @ (if dv \<noteq> 0 then '' = '' @ ast_text N dv else [])) (if v then Some ''...'' else type_text N ft)"
| "type_text N (FullType d r f) =
     map_option (\<lambda>app. flags_text N d f @ (if app \<noteq> [] then '' '' @ app else [])) (stack_text N r)"
| "stack_text N (RefStack name d ns sz) =
     Option.bind (toStringLHS_loop N ns []) (\<lambda>l.
       map_option (\<lambda>r. l @ name @ r) (toStringRHS_loop (map (\<lambda>n. (node_type n, node_text N n)) ns) []))"

definition toStringRHS :: "naming \<Rightarrow> ref_stack \<Rightarrow> string option" where
  "toStringRHS N s = toStringRHS_loop (map (\<lambda>n. (node_type n, node_text N n)) (ref_nodes s)) []"

definition english_word :: "bool \<Rightarrow> ref_type \<Rightarrow> string \<times> bool" where
  "english_word pl t =
     (case t of
        RT_ARRAYBOUND \<Rightarrow> (if pl then ''arrays of '' else ''array of '', True)
      | RT_FUNCTION \<Rightarrow> (if pl then ''functions returning '' else ''function returning '', False)
      | RT_MEMBER_POINTER \<Rightarrow> (if pl then ''member pointers to '' else ''member pointer to '', pl)
      | RT_POINTERTO \<Rightarrow> (if pl then ''pointers to '' else ''pointer to '', pl)
      | RT_REFERENCE \<Rightarrow> (if pl then ''references to '' else ''reference to '', pl))"

definition ref_toEnglish :: "ref_stack \<Rightarrow> string" where
  "ref_toEnglish s =
     fst (fold (\<lambda>n (res, pl). let (w, pl) = english_word pl (node_type n) in (res @ w, pl)) (ref_nodes s)
            (if ref_name s = [] then ref_name s else ref_name s @ '': '', False))"

section \<open>Types\<close>

text \<open>\<open>swap\<close>: this type and the other one afterwards.  The flags of the other one go through an \<open>int\<close>.\<close>

fun full_type_swap :: "full_type \<Rightarrow> full_type \<Rightarrow> full_type \<times> full_type" where
  "full_type_swap (FullType d r f) (FullType d' r' f') = (FullType d' r' (scast (ucast f' :: u32)), FullType d r f)"

text \<open>The copy constructor and \<open>copy\<close>: the copy, and what is left of the source.\<close>

fun full_type_copy :: "full_type \<Rightarrow> full_type \<times> full_type" where
  "full_type_copy (FullType d r f) = (let (c, r') = ref_copy r in (FullType d c f, FullType d r' f))"

text \<open>\<open>&&\<close> and \<open>||\<close> of comparisons that may fail.\<close>

definition and_then :: "bool \<Rightarrow> bool option \<Rightarrow> bool option" where
  "and_then b c = (if b then c else Some False)"

definition or_else :: "bool \<Rightarrow> bool option \<Rightarrow> bool option" where
  "or_else b c = (if b then Some True else c)"

fun full_type_eq :: "full_type \<Rightarrow> full_type \<Rightarrow> bool option" where
  "full_type_eq (FullType d r f) (FullType d' r' f') = and_then (d = d') (map_option (\<lambda>e. e \<and> f = f') (ref_eq r r'))"

fun full_type_neq :: "full_type \<Rightarrow> full_type \<Rightarrow> bool option" where
  "full_type_neq (FullType d r f) (FullType d' r' f') = or_else (d \<noteq> d') (map_option (\<lambda>e. e \<or> f \<noteq> f') (ref_neq r r'))"

definition defcmp :: "def_ptr \<Rightarrow> def_ptr \<Rightarrow> int" where
  "defcmp d1 d2 = int d1 - int d2"

fun full_type_lt :: "full_type \<Rightarrow> full_type \<Rightarrow> bool option" where
  "full_type_lt (FullType d r f) (FullType d' r' f') =
     (let nd = defcmp d d'
      in if nd < 0 then Some True else if 0 < nd then Some False
         else Option.bind (ref_lt r r') (\<lambda>l. if l then Some True
              else map_option (\<lambda>g. if g then False else f < f') (ref_gt r r')))"

fun full_type_gt :: "full_type \<Rightarrow> full_type \<Rightarrow> bool option" where
  "full_type_gt (FullType d r f) (FullType d' r' f') =
     (let nd = defcmp d d'
      in if 0 < nd then Some True else if nd < 0 then Some False
         else Option.bind (ref_gt r r') (\<lambda>g. if g then Some True
              else map_option (\<lambda>l. if l then False else f' < f) (ref_lt r r')))"

fun full_type_le :: "full_type \<Rightarrow> full_type \<Rightarrow> bool option" where
  "full_type_le (FullType d r f) (FullType d' r' f') =
     (if defcmp d' d < 0 then Some False else map_option (\<lambda>l. if l then False else f \<le> f') (ref_lt r' r))"

fun full_type_ge :: "full_type \<Rightarrow> full_type \<Rightarrow> bool option" where
  "full_type_ge (FullType d r f) (FullType d' r' f') =
     (if 0 < defcmp d' d then Some False else map_option (\<lambda>g. if g then False else f' \<le> f) (ref_gt r' r))"

definition full_type_toEnglish :: "naming \<Rightarrow> full_type \<Rightarrow> string" where
  "full_type_toEnglish N ft = ref_toEnglish (ft_refs ft) @ flags_text N (ft_def ft) (ft_flags ft)"

text \<open>A definition that \<open>reduce\<close> may follow: a typedef (both flags set) with its type, referencers and modifiers.\<close>

record definition_typed =
  is_typedef :: bool
  typed_type :: def_ptr
  referencers :: ref_stack
  modifiers :: u32

text \<open>
  \<open>reduce\<close>.  \<open>ref_stack app = typed->referencers\<close> initialises from an object that is not \<open>const\<close>, so that the
  constructor which swaps is called.
\<close>

partial_function (option) reduce_loop ::
  "(def_ptr \<Rightarrow> definition_typed option) \<Rightarrow> def_ptr \<Rightarrow> ref_stack \<Rightarrow> u64 \<Rightarrow>
   ((def_ptr \<Rightarrow> definition_typed option) \<times> full_type) option" where
  "reduce_loop defs type refs flags =
     Option.bind (defs type) (\<lambda>typed.
       if is_typedef typed \<and> typed_type typed \<noteq> 0
       then let (app, left) = ref_stack_from (referencers typed);
                defs = defs(type \<mapsto> typed\<lparr>referencers := left\<rparr>);
                (refs, app) = ref_append_c refs app
            in reduce_loop defs (typed_type typed) refs (flags OR ucast (modifiers typed))
       else Some (defs, FullType type refs flags))"

definition full_type_reduce ::
  "(def_ptr \<Rightarrow> definition_typed option) \<Rightarrow> full_type \<Rightarrow> ((def_ptr \<Rightarrow> definition_typed option) \<times> full_type) option" where
  "full_type_reduce defs ft =
     (if ft_def ft = 0 then Some (defs, ft) else reduce_loop defs (ft_def ft) (ft_refs ft) (ft_flags ft))"

text \<open>\<open>synonymous_with\<close>, with the left operand reduced first: the result, the definitions, and what is left of the two types.\<close>

definition synonymous_with ::
  "(def_ptr \<Rightarrow> definition_typed option) \<Rightarrow> full_type \<Rightarrow> full_type \<Rightarrow>
   (bool \<times> (def_ptr \<Rightarrow> definition_typed option) \<times> full_type \<times> full_type) option" where
  "synonymous_with defs this x =
     (let (a, this) = full_type_copy this; (b, x) = full_type_copy x
      in Option.bind (full_type_reduce defs a) (\<lambda>(defs, a).
         Option.bind (full_type_reduce defs b) (\<lambda>(defs, b).
           map_option (\<lambda>e. (e, defs, this, x)) (full_type_eq a b))))"

end
