(* ===== verification/RefLaws.thy ===== *)
theory RefLaws
  imports RefStack
begin

text \<open>
  Laws of the types of the definitions parser: the text of a stack is the declarator of its type, the order of
  stacks, and what copying and reducing a type takes away from others.
\<close>

section \<open>The text of a stack is its declarator\<close>

text \<open>
  The declarators of C++ for an object \<open>x\<close> and the derivations of its type, the one next to the object first.  The
  flag says that the declarator is direct: suffixes bind stronger than prefixes.  A mark \<open>&\<close> next to another one would
  be read as one mark \<open>&&\<close>.  The texts of the types that parameters are made from are those of \<open>N\<close>.
\<close>

inductive declares :: "naming \<Rightarrow> string \<Rightarrow> bool \<Rightarrow> string \<Rightarrow> ref_node list \<Rightarrow> bool"
  and suffix_text :: "naming \<Rightarrow> ref_node \<Rightarrow> string \<Rightarrow> bool"
  and declares_parameter :: "naming \<Rightarrow> parameter \<Rightarrow> string \<Rightarrow> bool" for N :: naming where
  object: "declares N x True x []"
| suffix: "declares N x True t ns \<Longrightarrow> suffix_text N n s \<Longrightarrow> declares N x True (t @ s) (ns @ [n])"
| parentheses: "declares N x False t ns \<Longrightarrow> declares N x True (''('' @ t @ '')'') ns"
| direct: "declares N x True t ns \<Longrightarrow> declares N x False t ns"
| pointer: "declares N x False t ns \<Longrightarrow> node_type n = RT_POINTERTO \<Longrightarrow> declares N x False (''*'' @ t) (ns @ [n])"
| reference: "declares N x False t ns \<Longrightarrow> node_type n = RT_REFERENCE \<Longrightarrow> take 1 t \<noteq> ''&'' \<Longrightarrow> declares N x False (''&'' @ t) (ns @ [n])"
| bound: "suffix_text N (NodeArray b) (if b = nbound then ''[]'' else ''['' @ decimal b @ '']'')"
| callable: "list_all2 (declares_parameter N) ps ts \<Longrightarrow> suffix_text N (NodeFunc ps) (''('' @ comma_separated ts @ '')'')"
| ellipsis: "declares_parameter N (Parameter ft True 0) ''...''"
| parameter: "declares N (ref_name r) False t (ref_nodes r) \<Longrightarrow> declares_parameter N (Parameter (FullType d r f) False dv)
    (flags_text N d f @ (if t \<noteq> [] then '' '' @ t else []) @ (if dv \<noteq> 0 then '' = '' @ ast_text N dv else []))"

text \<open>The types without pointers to members, whose text is that of the whole class, and without references to references.\<close>

definition reference_pair :: "ref_node \<Rightarrow> ref_node \<Rightarrow> bool" where
  "reference_pair m n \<longleftrightarrow> node_type m = RT_REFERENCE \<and> node_type n = RT_REFERENCE"

definition single_references :: "ref_node list \<Rightarrow> bool" where
  "single_references = successively (\<lambda>m n. \<not> reference_pair m n)"

fun plain_node :: "ref_node \<Rightarrow> bool"
  and plain_parameter :: "parameter \<Rightarrow> bool"
  and plain_type :: "full_type \<Rightarrow> bool"
  and plain_stack :: "ref_stack \<Rightarrow> bool" where
  "plain_node (NodeArray b) = True"
| "plain_node (NodeFunc ps) = (\<forall>p \<in> set ps. plain_parameter p)"
| "plain_node (Plain t) = (t = RT_POINTERTO \<or> t = RT_REFERENCE)"
| "plain_node (NodeMemptr d) = False"
| "plain_parameter (Parameter ft v dv) = (if v then dv = 0 else plain_type ft)"
| "plain_type (FullType d r f) = plain_stack r"
| "plain_stack (RefStack name d ns sz) \<longleftrightarrow> take 1 name \<noteq> ''&'' \<and> single_references ns \<and> (\<forall>n \<in> set ns. plain_node n)"

definition printable :: "naming \<Rightarrow> ref_node \<Rightarrow> bool" where
  "printable N n \<longleftrightarrow> (if is_suffix (node_type n) then \<exists>s. node_text N n = Some s \<and> suffix_text N n s
     else node_type n = RT_POINTERTO \<or> node_type n = RT_REFERENCE)"

abbreviation suffix_node :: "ref_node \<Rightarrow> bool" where
  "suffix_node n \<equiv> is_suffix (node_type n)"

lemma single_references_between: "single_references (ms @ n # ns) \<Longrightarrow> ms \<noteq> [] \<Longrightarrow> \<not> reference_pair (last ms) n"
  by (simp add: single_references_def successively_append_iff)

text \<open>A declarator begins with \<open>&\<close> only if its outermost derivation is a reference.\<close>

lemma suffix_text_first: "suffix_text N n s \<Longrightarrow> s \<noteq> [] \<and> hd s \<noteq> CHR ''&''"
  by (auto elim!: suffix_text.cases split: if_splits)

lemma declares_first:
  "declares N x direct t ns \<Longrightarrow> take 1 x \<noteq> ''&'' \<Longrightarrow> take 1 t = ''&'' \<Longrightarrow> \<not> direct \<and> ns \<noteq> [] \<and> node_type (last ns) = RT_REFERENCE"
proof (induction rule: declares_suffix_text_declares_parameter.inducts(1)[where ?P2.0 = "\<lambda>_ _. True" and ?P3.0 = "\<lambda>_ _. True"])
  case (suffix x t ns n s)
  then show ?case using suffix_text_first[of N n s] by (cases t; cases s) auto
qed auto

lemma marks_declare:
  assumes "declares N x False (res @ u) ms" and "\<forall>n\<in>set ns. printable N n" and "single_references (ms @ ns)" "take 1 x \<noteq> ''&''"
  shows "\<exists>res'. lhs_marks N ns res = Some (dropWhile (\<lambda>n. \<not> suffix_node n) ns, res') \<and>
    declares N x False (res' @ u) (ms @ takeWhile (\<lambda>n. \<not> suffix_node n) ns)"
  using assms
proof (induction N ns res arbitrary: ms rule: lhs_marks.induct)
  case (2 N n ns res)
  have p: "printable N n" "\<forall>n\<in>set ns. printable N n" using "2.prems"(2) by auto
  show ?case
  proof (cases "node_type n")
    case RT_POINTERTO
    then show ?thesis
      using "2.IH"(1)[of "ms @ [n]"] declares_suffix_text_declares_parameter.pointer[OF "2.prems"(1)] p "2.prems"(3,4) by (simp add: is_suffix_def)
  next
    case RT_REFERENCE
    have "take 1 (res @ u) \<noteq> ''&''"
      using declares_first[OF "2.prems"(1,4)] single_references_between[OF "2.prems"(3)] RT_REFERENCE by (auto simp: reference_pair_def)
    then show ?thesis
      using RT_REFERENCE "2.IH"(2)[of "ms @ [n]"] declares_suffix_text_declares_parameter.reference[OF "2.prems"(1)] p "2.prems"(3,4) by (simp add: is_suffix_def)
  next
    case RT_MEMBER_POINTER
    then show ?thesis using p(1) by (simp add: printable_def is_suffix_def)
  next
    case RT_ARRAYBOUND
    then show ?thesis using "2.prems"(1) by (simp add: is_suffix_def)
  next
    case RT_FUNCTION
    then show ?thesis using "2.prems"(1) by (simp add: is_suffix_def)
  qed
qed simp

abbreviation typed_texts :: "naming \<Rightarrow> ref_node list \<Rightarrow> (ref_type \<times> string option) list" where
  "typed_texts N ns \<equiv> map (\<lambda>n. (node_type n, node_text N n)) ns"

lemma suffixes_declare:
  assumes "declares N x True (u @ res) ms" and "\<forall>n\<in>set ns. printable N n"
  shows "\<exists>res'. rhs_suffixes (typed_texts N ns) res = Some (typed_texts N (dropWhile suffix_node ns), res') \<and>
    declares N x True (u @ res') (ms @ takeWhile suffix_node ns)"
  using assms
proof (induction ns arbitrary: ms res)
  case (Cons n ns)
  show ?case
  proof (cases "suffix_node n")
    case True
    then obtain s where s: "node_text N n = Some s" "suffix_text N n s" using Cons.prems(2) by (auto simp: printable_def)
    show ?thesis
      using Cons.IH[of "res @ s" "ms @ [n]"] declares_suffix_text_declares_parameter.suffix[OF Cons.prems(1) s(2)] Cons.prems(2) True s(1) by simp
  qed (use Cons.prems in simp)
qed simp

lemma loops_nil: "toStringLHS_loop N [] l = Some l" "toStringRHS_loop [] r = Some r"
  by (subst toStringLHS_loop.simps toStringRHS_loop.simps, simp)+

lemma toString_loops:
  assumes "declares N x True (l @ x @ r) ms" and "\<forall>n\<in>set ns. printable N n" and "single_references (ms @ ns)" "take 1 x \<noteq> ''&''"
  shows "\<exists>l' r'. toStringLHS_loop N ns l = Some l' \<and> toStringRHS_loop (typed_texts N ns) r = Some r' \<and>
    declares N x False (l' @ x @ r') (ms @ ns)"
  using assms
proof (induction "length ns" arbitrary: ns l r ms rule: less_induct)
  case less
  show ?case
  proof (cases "ns = []")
    case True
    then show ?thesis
      using less.prems(1) by (simp add: loops_nil declares_suffix_text_declares_parameter.direct)
  next
    case False
    let ?n1 = "dropWhile suffix_node ns" and ?m1 = "takeWhile suffix_node ns"
    let ?n2 = "dropWhile (\<lambda>n. \<not> suffix_node n) ?n1" and ?m2 = "takeWhile (\<lambda>n. \<not> suffix_node n) ?n1"
    obtain r1 where r1: "rhs_suffixes (typed_texts N ns) r = Some (typed_texts N ?n1, r1)"
      "declares N x True (l @ x @ r1) (ms @ ?m1)"
      using suffixes_declare[of N x "l @ x" r ms ns] less.prems by auto
    have p1: "\<forall>n\<in>set ?n1. printable N n" using less.prems(2) by (meson set_dropWhileD)
    obtain l1 where l1: "lhs_marks N ?n1 l = Some (?n2, l1)" "declares N x False (l1 @ x @ r1) (ms @ ?m1 @ ?m2)"
      using marks_declare[OF declares_suffix_text_declares_parameter.direct[OF r1(2)] p1] less.prems(3,4) by auto
    have ns: "ns = ?m1 @ ?m2 @ ?n2" by simp
    have less: "length ?n2 < length ns"
    proof (cases "?m1 = []")
      case True
      then have "\<not> suffix_node (hd ns)" using False by (cases ns) auto
      then have "?m2 \<noteq> []" using False True by (cases ns) auto
      then show ?thesis by (metis ns length_append length_greater_0_conv less_add_same_cancel2 trans_less_add2)
    next
      case False
      then show ?thesis by (metis ns length_append length_greater_0_conv less_add_same_cancel2 trans_le_add2 add_lessD1 length_dropWhile_le dropWhile_append less_le_trans not_add_less2 linorder_not_less)
    qed
    have L: "toStringLHS_loop N ns l = toStringLHS_loop N ?n2 (if ?n2 \<noteq> [] then CHR ''('' # l1 else l1)"
      using False by (subst toStringLHS_loop.simps) (simp add: l1(1))
    have drop: "dropWhile (\<lambda>n. \<not> is_suffix (fst n)) (typed_texts N ?n1) = typed_texts N ?n2"
      by (simp add: dropWhile_map o_def)
    have R: "toStringRHS_loop (typed_texts N ns) r = toStringRHS_loop (typed_texts N ?n2) (if ?n2 \<noteq> [] then r1 @ '')'' else r1)"
      using False by (subst toStringRHS_loop.simps) (simp add: r1(1) Let_def drop)
    show ?thesis
    proof (cases "?n2 = []")
      case True
      then have e: "?m1 @ ?m2 = ns" using ns by (metis append_Nil2)
      have "toStringLHS_loop N ns l = Some l1" "toStringRHS_loop (typed_texts N ns) r = Some r1"
        using L R unfolding True by (simp_all add: loops_nil)
      then show ?thesis using l1(2) unfolding e by blast
    next
      case False
      have "declares N x True ((CHR ''('' # l1) @ x @ (r1 @ '')'')) (ms @ ?m1 @ ?m2)"
        using declares_suffix_text_declares_parameter.parentheses[OF l1(2)] by simp
      moreover have "\<forall>n\<in>set ?n2. printable N n" using p1 by (meson set_dropWhileD)
      moreover have "single_references ((ms @ ?m1 @ ?m2) @ ?n2)" using less.prems(3) ns by simp
      ultimately obtain l' r' where
        "toStringLHS_loop N ?n2 (CHR ''('' # l1) = Some l'" "toStringRHS_loop (typed_texts N ?n2) (r1 @ '')'') = Some r'"
        "declares N x False (l' @ x @ r') ((ms @ ?m1 @ ?m2) @ ?n2)"
        using less.hyps[OF less] less.prems(4) by blast
      then show ?thesis using L R False by simp
    qed
  qed
qed

lemma stack_declares:
  assumes "\<forall>n\<in>set (ref_nodes s). printable N n" "single_references (ref_nodes s)" "take 1 (ref_name s) \<noteq> ''&''"
  shows "\<exists>t. stack_text N s = Some t \<and> declares N (ref_name s) False t (ref_nodes s)"
proof (cases s)
  case (RefStack name d ns sz)
  then obtain l r where "toStringLHS_loop N ns [] = Some l" "toStringRHS_loop (typed_texts N ns) [] = Some r"
    "declares N name False (l @ name @ r) ns"
    using toString_loops[of N name "[]" "[]" "[]" ns] declares_suffix_text_declares_parameter.object[of N name] assms by auto
  then show ?thesis using RefStack by simp
qed

text \<open>The texts of the nodes, of the parameters, of types and stacks, one inside the other.\<close>

lemma parameters_declare:
  "\<forall>p \<in> set ps. \<exists>t. parameter_text N p = Some t \<and> declares_parameter N p t \<Longrightarrow>
    \<exists>ts. those (map (\<lambda>p. parameter_text N p) ps) = Some ts \<and> list_all2 (declares_parameter N) ps ts"
  by (induction ps) auto

lemma plain_printable:
  "plain_node n \<Longrightarrow> printable N n"
  "plain_parameter p \<Longrightarrow> \<exists>t. parameter_text N p = Some t \<and> declares_parameter N p t"
  "plain_type ft \<Longrightarrow> \<exists>t. stack_text N (ft_refs ft) = Some t \<and> declares N (ref_name (ft_refs ft)) False t (ref_nodes (ft_refs ft))"
  "plain_stack s \<Longrightarrow> \<exists>t. stack_text N s = Some t \<and> declares N (ref_name s) False t (ref_nodes s)"
proof (induction n and p and ft and s rule: plain_node_plain_parameter_plain_type_plain_stack.induct)
  case (1 b)
  show ?case using declares_suffix_text_declares_parameter.bound[of N b] by (simp add: printable_def is_suffix_def arraybound_string_def)
next
  case (2 ps)
  then obtain ts where "those (map (\<lambda>p. parameter_text N p) ps) = Some ts" "list_all2 (declares_parameter N) ps ts"
    using parameters_declare[of ps N] by auto
  then show ?case using declares_suffix_text_declares_parameter.callable[of N ps ts] by (auto simp: printable_def is_suffix_def)
next
  case (3 t)
  then show ?case by (auto simp: printable_def is_suffix_def)
next
  case (5 ft v dv)
  obtain d r f where ft: "ft = FullType d r f" by (cases ft)
  show ?case
  proof (cases v)
    case True
    then show ?thesis using 5 declares_suffix_text_declares_parameter.ellipsis[of N ft] by simp
  next
    case False
    then obtain t where "stack_text N r = Some t" "declares N (ref_name r) False t (ref_nodes r)" using 5 ft by auto
    then show ?thesis using False ft declares_suffix_text_declares_parameter.parameter[of N r t d f dv] by simp
  qed
next
  case (7 name d ns sz)
  then show ?case using stack_declares[of "RefStack name d ns sz" N] by simp
qed simp_all

text \<open>C11. The text of a type without pointers to members and without references to references.  \<open>toString\<close> of its stack
  is a C++ declarator, with the parentheses that the binding of suffixes and prefixes asks for, that gives the name of the stack
  exactly the derivations that are the nodes of the stack, from the top; the parameters of functions are declared
  in the same way.\<close>

theorem toString_declares:
  assumes "plain_stack s"
  shows "\<exists>t. stack_text N s = Some t \<and> declares N (ref_name s) False t (ref_nodes s)"
  by (rule plain_printable(4)[OF assms])

text \<open>The example of the header file, \<open>int* (*(*a)[10][12])[15]\<close> without its type \<open>int\<close>.\<close>

definition example_stack :: ref_stack where
  "example_stack = RefStack ''a'' 0
     [Plain RT_POINTERTO, NodeArray 10, NodeArray 12, Plain RT_POINTERTO, NodeArray 15, Plain RT_POINTERTO] 6"

theorem toString_declares_witness:
  "\<exists>t. stack_text \<lparr>def_text = (\<lambda>_. None), flags_text = (\<lambda>_ _. []), ast_text = (\<lambda>_. [])\<rparr> example_stack = Some t \<and>
    declares \<lparr>def_text = (\<lambda>_. None), flags_text = (\<lambda>_ _. []), ast_text = (\<lambda>_. [])\<rparr> ''a'' False t
      [Plain RT_POINTERTO, NodeArray 10, NodeArray 12, Plain RT_POINTERTO, NodeArray 15, Plain RT_POINTERTO]"
  using toString_declares[of example_stack "\<lparr>def_text = (\<lambda>_. None), flags_text = (\<lambda>_ _. []), ast_text = (\<lambda>_. [])\<rparr>"]
  by (simp add: example_stack_def reference_pair_def single_references_def)

lemma example_stack_text: "stack_text N example_stack = Some ''*(*(*a)[10][12])[15]''"
  by (simp add: example_stack_def toStringLHS_loop.simps toStringRHS_loop.simps is_suffix_def arraybound_string_def nbound_def decimal.simps char_of_def bit_0)

section \<open>Order\<close>

text \<open>A stack all of whose nodes have the members their types say.\<close>

definition proper_node :: "ref_node \<Rightarrow> bool" where
  "proper_node n \<longleftrightarrow> (\<forall>t. n = Plain t \<longrightarrow> \<not> is_suffix t)"

lemma ordered_step_same: "proper_node n \<Longrightarrow> ordered_step by_type by_size by_params n n = Some None"
proof -
  assume "proper_node n"
  have "\<not> parameters_neq ps ps" for ps
  proof -
    have "first_difference parameter_neq (\<lambda>p q. True) False ps ps = False"
      by (induction ps) (simp_all add: parameter_neq_def)
    then show ?thesis by (simp add: parameters_neq_def)
  qed
  then show ?thesis using \<open>proper_node n\<close>
    by (cases n) (auto simp: ordered_step_def proper_node_def is_suffix_def)
qed

lemma walk_same: "\<forall>n\<in>set ns. proper_node n \<Longrightarrow> walk (ordered_step by_type by_size by_params) e ns ns = Some e"
  by (induction ns) (simp_all add: ordered_step_same)

text \<open>Order of types.  No stack is less than or equal to itself by \<open>operator<=\<close>, although each is greater than or equal
  to itself by \<open>operator>=\<close>; and of two stacks whose first nodes have different types, both or neither
  are less and greater than the other.\<close>

theorem ref_le_irreflexive:
  assumes "\<forall>n\<in>set (ref_nodes s). proper_node n"
  shows "ref_le s s = Some False \<and> ref_ge s s = Some True \<and>
    (ref_nodes s \<noteq> [] \<longrightarrow> ref_nodes t \<noteq> [] \<longrightarrow> ref_sz s = ref_sz t \<longrightarrow>
       node_type (hd (ref_nodes s)) \<noteq> node_type (hd (ref_nodes t)) \<longrightarrow> ref_lt s t = ref_gt s t)"
proof -
  have "ref_lt s t = ref_gt s t"
    if "ref_nodes s \<noteq> []" "ref_nodes t \<noteq> []" "ref_sz s = ref_sz t" "node_type (hd (ref_nodes s)) \<noteq> node_type (hd (ref_nodes t))"
    using that by (cases "ref_nodes s"; cases "ref_nodes t") (simp_all add: ref_lt_def ref_gt_def ordered_step_def)
  then show ?thesis using walk_same[OF assms] by (simp add: ref_le_def ref_ge_def)
qed

theorem ref_le_irreflexive_witness:
  "ref_le example_stack example_stack = Some False"
  using ref_le_irreflexive[of example_stack example_stack] by (simp add: example_stack_def proper_node_def is_suffix_def)

section \<open>Reducing a type\<close>

lemma reduce_typedef_spec:
  assumes "defs d = Some T" "is_typedef T" "typed_type T = b" "b \<noteq> 0" "b \<noteq> d" "d \<noteq> 0"
    and "defs b = Some B" "\<not> is_typedef B"
  shows "full_type_reduce defs (FullType d ref_stack_new f) =
    Some (defs(d \<mapsto> T\<lparr>referencers := ref_stack_new\<rparr>),
          FullType b (fst (ref_append_c ref_stack_new (referencers T))) (f OR ucast (modifiers T)))"
proof -
  have b: "reduce_loop (defs(d \<mapsto> T')) b r g = Some (defs(d \<mapsto> T'), FullType b r g)" for T' r g
    using assms by (subst reduce_loop.simps) simp
  show ?thesis
    using assms by (simp add: full_type_reduce_def reduce_loop.simps[of defs d] ref_stack_from_def ref_swap_def Let_def b split: prod.split)
qed

text \<open>C40. Reducing a type takes the referencers of its typedef away.  The first reduction of a type named by a typedef gives
  the type with the pointers and arrays of the typedef; the definition has none afterwards, and the second
  reduction of the same type gives the bare type.\<close>

theorem reduce_consumes_typedef:
  assumes "defs d = Some T" "is_typedef T" "typed_type T = b" "b \<noteq> 0" "b \<noteq> d" "d \<noteq> 0"
    and "defs b = Some B" "\<not> is_typedef B"
  shows "\<exists>defs1 defs2 r1.
    full_type_reduce defs (FullType d ref_stack_new f) = Some (defs1, FullType b r1 (f OR ucast (modifiers T))) \<and>
    ref_nodes r1 = ref_nodes (referencers T) \<and>
    full_type_reduce defs1 (FullType d ref_stack_new f) = Some (defs2, FullType b ref_stack_new (f OR ucast (modifiers T)))"
proof -
  let ?T = "T\<lparr>referencers := ref_stack_new\<rparr>" and ?defs = "defs(d \<mapsto> T\<lparr>referencers := ref_stack_new\<rparr>)"
  have "full_type_reduce ?defs (FullType d ref_stack_new f) =
      Some (?defs(d \<mapsto> ?T\<lparr>referencers := ref_stack_new\<rparr>), FullType b (fst (ref_append_c ref_stack_new (referencers ?T))) (f OR ucast (modifiers ?T)))"
    by (rule reduce_typedef_spec[where B = B]) (use assms in simp_all)
  moreover have "fst (ref_append_c ref_stack_new ref_stack_new) = ref_stack_new" by (simp add: ref_stack_new_def)
  moreover have "ref_nodes (fst (ref_append_c ref_stack_new (referencers T))) = ref_nodes (referencers T)"
    by (cases "referencers T") (simp add: ref_stack_new_def)
  ultimately show ?thesis using reduce_typedef_spec[OF assms, of f] by auto
qed

definition pointer_typedef :: definition_typed where
  "pointer_typedef = \<lparr>is_typedef = True, typed_type = 2, referencers = ref_push RT_POINTERTO ref_stack_new, modifiers = 0\<rparr>"

definition int_definition :: definition_typed where
  "int_definition = \<lparr>is_typedef = False, typed_type = 0, referencers = ref_stack_new, modifiers = 0\<rparr>"

theorem reduce_consumes_typedef_witness:
  "\<exists>defs1 defs2 r1.
    full_type_reduce [1 \<mapsto> pointer_typedef, 2 \<mapsto> int_definition] (FullType 1 ref_stack_new 0) =
      Some (defs1, FullType 2 r1 (0 OR ucast (modifiers pointer_typedef))) \<and>
    ref_nodes r1 = ref_nodes (referencers pointer_typedef) \<and>
    full_type_reduce defs1 (FullType 1 ref_stack_new 0) = Some (defs2, FullType 2 ref_stack_new (0 OR ucast (modifiers pointer_typedef)))"
  by (rule reduce_consumes_typedef[where B = int_definition]) (simp_all add: pointer_typedef_def int_definition_def)

end
