(* ===== verification/Spec2Isabelle.thy ===== *)
theory Spec2Isabelle
  imports DsGrid DsMap DsPriority DsList DsQueue Base64 BufferLaws LexerLaws LiteralLaws ExprLaws ParserReturns ParserLaws PrinterLaws EStringLaws InstanceDestroy RectpackLaws GridLinks VarLaws RandomLaws RefLaws
begin

text \<open>
  A model of the ENIGMA development environment: the run-time library a game is linked with
  (\<open>src/ENIGMAsystem/SHELL/Universal_System\<close>) and the front end of the compiler that translates the scripting
  language EDL to C++ (\<open>src/CompilerSource/parsing\<close>).

  The parts and how they interact.  A game's scripts are text.  The lexer turns it into tokens, expanding
  preprocessor macros on the way; the parser makes syntax trees of the tokens; the printer writes the trees
  as C++, which a C++ compiler reads.  The program that results calls the run-time library: scripts work on
  values of type \<open>variant\<close>, on arrays of them, on strings, on the containers of the data structure extension, on binary
  buffers and on grids for path finding, and the main loop performs events on the instances of objects that
  the instance system keeps in linked lists.  Fonts and textures are put on pages by the rectangle packer,
  by the compiler as well as at run time.

  Conventions.
    \<^item> An operation with undefined behaviour for some input, or that may leave through an exception or a fatal
      error message, returns an option, and \<open>None\<close> is that outcome.  In loops written with
      \<open>partial_function\<close>, \<open>None\<close> also says that the loop does not return; that a loop returns
      is then a theorem of its own.
    \<^item> Machine integers are words where the code relies on wrap-around, and integers with an explicit
      range test where overflow is undefined.  \<open>size_t\<close> is a natural number with \<open>zadd\<close> and \<open>zsub\<close>.
    \<^item> \<open>double\<close> is IEEE binary64 over exact rationals, rounded to nearest even; all NaNs are one value.
    \<^item> The engine is built without \<open>DEBUG_MODE\<close>; character classes are those of the C locale.
    \<^item> Error handlers are lists of messages that the operations extend, without the numbers inserted in them.

  Theories.
    \<^item> \<open>Prelude\<close>, \<open>Bytes\<close>: arrays, loops, integer ranges, decimal numerals, bytes and characters;
      \<open>Float64\<close>, \<open>FloatBits\<close>: \<open>double\<close> and its object representation.
    \<^item> \<open>Variant\<close> (\<open>var4.h\<close>): the value type, with its comparisons by epsilon and by type.
    \<^item> \<open>DsHandles\<close>, \<open>DsGrid\<close>, \<open>DsMultimap\<close>, \<open>DsMap\<close>, \<open>DsPriority\<close>, \<open>DsList\<close>, \<open>DsQueue\<close>
      (\<open>Extensions/DataStructures/data_structures.cpp\<close>): the containers and the contract of their handles.  Their lemmas
      give the functional behaviour of every operation, the shape of every grid that can be reached, the refinement of
      maps by queues of values per key, and where the comparison of mixed keys is no order.
    \<^item> \<open>AssetArray\<close>, \<open>BufferData\<close>, \<open>Buffers\<close>, \<open>BufferLaws\<close> (\<open>AssetArray.h\<close>, \<open>buffers_data.h\<close>,
      \<open>buffers_internal.cpp\<close>, \<open>bufferstruct.cpp\<close>): binary buffers.  The lemmas give the bytes that a write
      leaves in fixed, growing, wrapping and fast buffers, round trips of values, and the ranges of copies.
    \<^item> \<open>Base64\<close> (\<open>estring.cpp\<close>, \<open>bufferstruct.cpp\<close>): both codecs, and which inputs round-trip.
    \<^item> \<open>EString\<close>, \<open>EStringLaws\<close> (\<open>estring.cpp\<close>, \<open>strings_util.h\<close>): string functions against reference definitions of
      splitting, UTF-8, UTF-16 and decimal numbers.
    \<^item> \<open>Tokens\<close>, \<open>LexRaw\<close>, \<open>LexLaws\<close>, \<open>Macros\<close>, \<open>MacroLaws\<close>, \<open>Lexer\<close>, \<open>LexerLaws\<close>, \<open>LiteralLaws\<close>
      (\<open>tokens.cpp\<close>, \<open>lexer.cpp\<close>, \<open>macros.cpp\<close>): tokens, raw lexing, macro expansion.  The lemmas give the longest match of
      operators, line numbers, the substitution that expansion performs, error reports, and quoted literals read back.
    \<^item> \<open>Ast\<close>, \<open>Parser\<close>, \<open>ExprLaws\<close>, \<open>ParserReturns\<close>, \<open>ParserLaws\<close> (\<open>ast.h\<close>, \<open>precedence.cpp\<close>,
      \<open>parser.cpp\<close>): trees and the parser.  The parser implements the grammar given by the precedence table, which is
      unambiguous; it returns on every input without switch statements and \<open>local\<close> or \<open>global\<close>, and a switch
      body is where it may not.
    \<^item> \<open>Printer\<close>, \<open>PrinterLaws\<close> (\<open>pretty_printer.cpp\<close>): the C++ text of a tree: the spellings of its
      tokens with blanks between, and literals that C++ reads as the value they were printed from.
    \<^item> \<open>Instances\<close>, \<open>InstanceLaws\<close>, \<open>InstanceEvents\<close>, \<open>InstanceDestroy\<close> (\<open>instance_system.cpp\<close>,
      \<open>instance.cpp\<close>, the writers of objects and events): linked lists in an explicit heap, iterators that survive removals,
      the destruction of an instance, which keeps all lists intact, and the instances an event reaches.
    \<^item> \<open>Rectpack\<close>, \<open>RectpackLaws\<close> (\<open>rectpack.cpp\<close> and its four users): pages without overlaps, and that
      the packing loops return.
    \<^item> \<open>Pathfind\<close>, \<open>PathLaws\<close>, \<open>GridLinks\<close> (\<open>Extensions/MotionPlanning\<close>): grids of linked cells and the search
      for a path.  The search returns, its answer is reachability over free cells, and its nodes are a walk.
    \<^item> \<open>SortedMap\<close>, \<open>LuaTable\<close>, \<open>VarLaws\<close> (\<open>lua_table.h\<close>, \<open>var4.h\<close>): the arrays of a variable, in a dense and a sparse
      part.  They behave as a function of two indices; the lengths after negative indices are given too.
    \<^item> \<open>RandomNumbers\<close>, \<open>RandomLaws\<close> (\<open>random.cpp\<close>, \<open>random.h\<close>): the two generators.  One follows the recurrence of the
      Mersenne twister, but not its seeding; the other has the full period, and integers at random keep their range.
    \<^item> \<open>RefStack\<close>, \<open>RefLaws\<close> (\<open>JDI/src/Storage/references.cpp\<close>, \<open>full_type.cpp\<close>): the types of the definitions parser.
      Their text, without pointers to members, is the C++ declarator; the lemmas say where the order fails and what reducing a type takes away.

  Fuel and bounds.  \<open>ReadToken\<close>, \<open>PreprocessBuffer\<close> and \<open>read_all\<close> call each other and take fuel:
  \<open>ReadToken_terminates\<close> proves a bound, about three times the length of the source plus the open macros, for every
  context whose macros have no reversed span, and preprocessing of \<open>n\<close> tokens needs \<open>n + 4\<close>.  The parser, the event loops and the switch loop are partial functions,
  so no bound is chosen for them.  Decimal and floating-point functions are total.

  Not modelled.
    \<^item> Declarations, types, casts, \<open>new\<close>, \<open>delete\<close> and template arguments in the parser and the printer: their data are types
      and scopes of JDI (\<open>src/CompilerSource/JDI\<close>), a second C++ parser, of which only the types are modelled; the parser of
      the model answers \<open>Unmodelled\<close> there.
    \<^item> The lookup of names in the target language (libclang and JDI): a record of functions, arbitrary in the theorems.
    \<^item> Conversion of \<open>double\<close> to text by the C library, \<open>std::sort\<close> and \<open>std::shuffle\<close>, zlib and the file system:
      parameters, or left out.
    \<^item> Graphics, audio, collisions, windows, networking, project formats, the command line and the extensions that bind
      system libraries: they are calls of drivers and libraries, or arithmetic on floating-point coordinates.
    \<^item> Hash functions taken from their standards, tests and vendored code.
\<close>

end
